(* ===== verification/Psz_Prelude.thy ===== *)
theory Psz_Prelude
  imports Main "HOL-Library.Word"
begin

unbundle bit_operations_syntax

section \<open>Prelude: machine integers, exceptions, results\<close>

text \<open>
  What every component of the development shares: the fixed-width integers of the C++ sources, the
  exception classes of \<open>psizam/exceptions.hpp\<close> and \<open>std::out_of_range\<close> as one datatype, results as a sum (an exception on
  the left, a value on the right), sequencing of such results, and the generic facts on words and
  lists the component proofs rest on. Behaviour that C++ leaves undefined (reading an inactive union
  member, indexing a vector out of range, dereferencing an unmapped address) is the explicit
  exception value \<open>Undefined\<close>, so that a component can be shown never to reach it.
\<close>

type_synonym u8 = "8 word"
type_synonym u16 = "16 word"
type_synonym u32 = "32 word"
type_synonym u64 = "64 word"
type_synonym u128 = "128 word"

datatype exn =
    wasm_interpreter_exception string
  | wasm_section_length_exception string
  | wasm_bad_alloc string
  | wasm_double_free string
  | wasm_vector_oob_exception string
  | wasm_unsupported_import_exception string
  | wasm_parse_exception string
  | wasm_memory_exception string
  | stack_memory_exception string
  | wasm_invalid_element string
  | wasm_link_exception string
  | guarded_ptr_exception string
  | timeout_exception string
  | wasm_exit_exception string
  | wasm_gas_exhausted_exception string
  | std_out_of_range string
  | Undefined string

type_synonym 'a res = "exn + 'a"

definition bindR :: "'a res \<Rightarrow> ('a \<Rightarrow> 'b res) \<Rightarrow> 'b res" where
  "bindR m f = (case m of Inl e \<Rightarrow> Inl e | Inr x \<Rightarrow> f x)"

text \<open>\<open>PSIZAM_ASSERT(c, e)\<close> followed by the rest of the function.\<close>

definition assertR :: "bool \<Rightarrow> exn \<Rightarrow> 'a res \<Rightarrow> 'a res" where
  "assertR c e k = (if c then k else Inl e)"

definition is_undefined :: "'a res \<Rightarrow> bool" where
  "is_undefined r = (case r of Inl (Undefined _) \<Rightarrow> True | _ \<Rightarrow> False)"

named_theorems res_simps \<open>rewriting of results and their sequencing\<close>

lemma bindR_Inl [simp, res_simps]: "bindR (Inl e) f = Inl e"
  by (simp add: bindR_def)

lemma bindR_Inr [simp, res_simps]: "bindR (Inr x) f = f x"
  by (simp add: bindR_def)

lemma bindR_assoc: "bindR (bindR m f) g = bindR m (\<lambda>x. bindR (f x) g)"
  by (cases m) simp_all

lemma bindR_eq_Inr [res_simps]: "bindR m f = Inr y \<longleftrightarrow> (\<exists>x. m = Inr x \<and> f x = Inr y)"
  by (cases m) auto

lemma bindR_eq_Inl:
  "bindR m f = Inl e \<longleftrightarrow> m = Inl e \<or> (\<exists>x. m = Inr x \<and> f x = Inl e)"
  by (cases m) auto

lemma assertR_True [simp, res_simps]: "assertR True e k = k"
  by (simp add: assertR_def)

lemma assertR_False [simp, res_simps]: "assertR False e k = Inl e"
  by (simp add: assertR_def)

lemma assertR_eq_Inr [res_simps]: "assertR c e k = Inr y \<longleftrightarrow> c \<and> k = Inr y"
  by (simp add: assertR_def)

lemma bindR_cong [fundef_cong]:
  "m = m' \<Longrightarrow> (\<And>x. m' = Inr x \<Longrightarrow> f x = f' x) \<Longrightarrow> bindR m f = bindR m' f'"
  by (cases m') auto

lemma assertR_cong [fundef_cong]:
  "c = c' \<Longrightarrow> e = e' \<Longrightarrow> (c' \<Longrightarrow> k = k') \<Longrightarrow> assertR c e k = assertR c' e' k'"
  by (simp add: assertR_def)

lemma is_undefined_Inr [simp, res_simps]: "\<not> is_undefined (Inr x)"
  by (simp add: is_undefined_def)

lemma is_undefined_Inl [simp, res_simps]: "is_undefined (Inl e) \<longleftrightarrow> (\<exists>m. e = Undefined m)"
  by (cases e) (simp_all add: is_undefined_def)

lemma is_undefined_bindR:
  "is_undefined (bindR m f) \<longleftrightarrow> is_undefined m \<or> (\<exists>x. m = Inr x \<and> is_undefined (f x))"
  by (cases m) auto

lemma is_undefined_assertR:
  "is_undefined (assertR c e k) \<longleftrightarrow> (c \<and> is_undefined k) \<or> (\<not> c \<and> (\<exists>m. e = Undefined m))"
  by (simp add: assertR_def)

subsection \<open>Words as natural numbers\<close>

text \<open>
  The bit operations of the sources, read as arithmetic on \<open>nat\<close>: masking with \<open>2 ^ n - 1\<close> is a
  remainder, a logical shift right a division, a shift left a product modulo the word size.
\<close>

lemma unat_bound: "unat (w :: 'a :: len word) < 2 ^ LENGTH('a)"
  by (rule unsigned_less)

lemma unat_take_bit: "unat (take_bit n w :: 'a :: len word) = unat w mod 2 ^ n"
proof -
  have "unat (take_bit n w) = take_bit n (unat w)"
    by (simp add: unsigned_take_bit_eq)
  then show ?thesis
    by (simp add: take_bit_eq_mod)
qed

lemma and_7f_take_bit: "w AND 0x7f = take_bit 7 (w :: 'a :: len word)"
  by (simp add: take_bit_eq_mask mask_eq_exp_minus_1)

lemma unat_and_7f: "unat (w AND 0x7f :: 'a :: len word) = unat w mod 128"
  by (simp add: and_7f_take_bit unat_take_bit)

lemma unat_drop_bit: "unat (drop_bit n w :: 'a :: len word) = unat w div 2 ^ n"
  using unat_drop_bit_eq [of n w] by (simp only: drop_bit_eq_div [where 'a = nat])

lemma unat_push_bit:
  "unat (push_bit n w :: 'a :: len word) = (unat w * 2 ^ n) mod 2 ^ LENGTH('a)"
proof -
  have "unat (push_bit n w) = take_bit LENGTH('a) (push_bit n (unat w))"
    by (simp add: unsigned_push_bit_eq)
  then show ?thesis
    by (simp only: take_bit_eq_mod push_bit_eq_mult)
qed

lemma unat_or_disjoint:
  fixes a b :: "'a :: len word"
  assumes "a AND b = 0"
  shows "unat (a OR b) = unat a + unat b"
proof -
  have "unat a AND unat b = 0"
    using assms by (simp add: unsigned_and_eq [symmetric])
  then show ?thesis
    by (simp add: unsigned_or_eq disjunctive_add_eq_or)
qed

text \<open>A test of a field of bits: the masked word is zero iff the field, read as a number, is zero.\<close>

lemma and_field_zero:
  "push_bit k (mask n) AND w = 0 \<longleftrightarrow> unat w div 2 ^ k mod 2 ^ n = 0" for w :: "'a :: len word"
proof -
  have "push_bit k (mask n) AND w = push_bit k (take_bit n (drop_bit k w))"
    by (rule bit_eqI) (auto simp: bit_simps)
  also have "\<dots> = 0 \<longleftrightarrow> take_bit n (drop_bit k w) = 0"
  proof
    assume z: "push_bit k (take_bit n (drop_bit k w)) = 0"
    have "take_bit n (drop_bit k w) = drop_bit k (push_bit k (take_bit n (drop_bit k w)))"
      by (rule bit_eqI) (auto simp: bit_simps dest: bit_imp_le_length)
    with z show "take_bit n (drop_bit k w) = 0" by simp
  qed simp
  also have "\<dots> \<longleftrightarrow> unat (take_bit n (drop_bit k w)) = 0"
    by (simp only: unat_eq_0)
  finally show ?thesis
    by (simp only: unat_take_bit unat_drop_bit)
qed

lemma and_field_value:
  fixes w :: "'a :: len word"
  assumes "k + n \<le> LENGTH('a)"
  shows "unat (push_bit k (mask n) AND w) = 2 ^ k * (unat w div 2 ^ k mod 2 ^ n)"
proof -
  have "push_bit k (mask n) AND w = push_bit k (take_bit n (drop_bit k w))"
    by (rule bit_eqI) (auto simp: bit_simps)
  then have eq: "unat (push_bit k (mask n) AND w) = (unat w div 2 ^ k mod 2 ^ n * 2 ^ k) mod 2 ^ LENGTH('a)"
    by (simp only: unat_push_bit unat_take_bit unat_drop_bit)
  have "unat w div 2 ^ k mod 2 ^ n * 2 ^ k < 2 ^ n * (2 ^ k :: nat)"
    by simp
  moreover have "2 ^ n * 2 ^ k \<le> (2 ^ LENGTH('a) :: nat)"
    using assms by (simp add: power_add [symmetric] add.commute)
  ultimately have "unat w div 2 ^ k mod 2 ^ n * 2 ^ k < 2 ^ LENGTH('a)"
    by (rule order_less_le_trans)
  then show ?thesis unfolding eq by simp
qed

lemma unat_ucast_up: "LENGTH('a) \<le> LENGTH('b) \<Longrightarrow> unat (ucast w :: 'b :: len word) = unat w" for w :: "'a :: len word"
proof -
  assume "LENGTH('a) \<le> LENGTH('b)"
  then have "unat w < 2 ^ LENGTH('b)"
    using unat_bound [of w] by (meson order_less_le_trans one_le_numeral power_increasing)
  then show ?thesis by (simp add: unsigned_ucast_eq take_bit_eq_mod)
qed

end
