(* ===== verification/Leb128.thy ===== *)
theory Leb128
  imports Psz_Prelude
begin

unbundle bit_operations_syntax

section \<open>Bounded reading of the binary: guarded pointers and LEB128 integers\<close>

text \<open>
  \<open>psizam/detail/guarded_ptr.hpp\<close> and \<open>psizam/detail/leb128.hpp\<close>: the pointer through which the
  module parser reads the binary, and the variable-length integers it reads with it. A pointer is
  an offset from \<open>orig_ptr\<close> into the underlying bytes; a read past those bytes is \<open>Undefined\<close>.
\<close>

subsection \<open>guarded\_ptr\<close>

record gptr =
  gp_buf :: "u8 list"
  raw_ptr :: nat
  bnds :: nat

text \<open>\<open>static_cast<std::size_t>(bnds - raw_ptr)\<close>: a negative distance wraps around.\<close>

definition size_diff :: "nat \<Rightarrow> nat \<Rightarrow> nat" where
  "size_diff b r = (if r \<le> b then b - r else 2 ^ 64 - (r - b))"

definition gp_new :: "u8 list \<Rightarrow> nat \<Rightarrow> gptr" where
  "gp_new rp n = \<lparr>gp_buf = rp, raw_ptr = 0, bnds = n\<rparr>"

definition gp_plus :: "gptr \<Rightarrow> nat \<Rightarrow> gptr res" where
  "gp_plus g i =
     assertR (i \<le> size_diff (bnds g) (raw_ptr g)) (guarded_ptr_exception ''overbounding pointer'')
       (Inr (g\<lparr>raw_ptr := raw_ptr g + i\<rparr>))"

definition gp_incr :: "gptr \<Rightarrow> gptr res" where
  "gp_incr g =
     assertR (raw_ptr g < bnds g) (guarded_ptr_exception ''overbounding pointer'')
       (Inr (g\<lparr>raw_ptr := raw_ptr g + 1\<rparr>))"

definition gp_load :: "gptr \<Rightarrow> nat \<Rightarrow> u8 res" where
  "gp_load g a =
     (if a < length (gp_buf g) then Inr (gp_buf g ! a) else Inl (Undefined ''read past the buffer''))"

definition gp_deref :: "gptr \<Rightarrow> u8 res" where
  "gp_deref g =
     assertR (raw_ptr g < bnds g) (guarded_ptr_exception ''accessing out of bounds'')
       (gp_load g (raw_ptr g))"

definition gp_at :: "gptr \<Rightarrow> nat \<Rightarrow> u8 res" where
  "gp_at g index =
     assertR (index < size_diff (bnds g) (raw_ptr g)) (guarded_ptr_exception ''accessing out of bounds'')
       (gp_load g (raw_ptr g + index))"

definition gp_offset :: "gptr \<Rightarrow> nat" where
  "gp_offset g = raw_ptr g"

definition gp_bounds :: "gptr \<Rightarrow> nat" where
  "gp_bounds g = bnds g"

text \<open>
  \<open>scoped_shrink_bounds\<close> and \<open>scoped_consume_items\<close> install smaller bounds and return a guard; the
  guard's destructor restores the old ones, and the second also demands that the pointer has been
  advanced to the end. \<open>unwinding\<close> says that the guard is destroyed by an exception.
\<close>

definition gp_shrink :: "gptr \<Rightarrow> nat \<Rightarrow> (gptr \<times> nat) res" where
  "gp_shrink g n =
     assertR (n \<le> size_diff (bnds g) (raw_ptr g)) (guarded_ptr_exception ''guarded ptr out of bounds'')
       (Inr (g\<lparr>bnds := raw_ptr g + n\<rparr>, bnds g))"

definition gp_unshrink :: "gptr \<Rightarrow> nat \<Rightarrow> gptr" where
  "gp_unshrink g old_bnds = g\<lparr>bnds := old_bnds\<rparr>"

definition gp_consumed :: "bool \<Rightarrow> gptr \<Rightarrow> nat \<Rightarrow> gptr res" where
  "gp_consumed unwinding g old_bnds =
     assertR (unwinding \<or> raw_ptr g = bnds g) (guarded_ptr_exception ''guarded_ptr not advanced'')
       (Inr (g\<lparr>bnds := old_bnds\<rparr>))"

definition gp_wf :: "gptr \<Rightarrow> bool" where
  "gp_wf g \<longleftrightarrow> raw_ptr g \<le> bnds g \<and> bnds g \<le> length (gp_buf g) \<and> length (gp_buf g) < 2 ^ 64"

lemma gp_wf_new: "n \<le> length buf \<Longrightarrow> length buf < 2 ^ 64 \<Longrightarrow> gp_wf (gp_new buf n)"
  by (simp add: gp_wf_def gp_new_def)

lemma gp_plus_wf: "gp_wf g \<Longrightarrow> gp_plus g i = Inr g' \<Longrightarrow> gp_wf g'"
  by (auto simp: gp_wf_def gp_plus_def size_diff_def assertR_def split: if_splits)

lemma gp_incr_wf: "gp_wf g \<Longrightarrow> gp_incr g = Inr g' \<Longrightarrow> gp_wf g'"
  by (auto simp: gp_wf_def gp_incr_def assertR_def split: if_splits)

lemma gp_shrink_wf: "gp_wf g \<Longrightarrow> gp_shrink g n = Inr (g', old) \<Longrightarrow> gp_wf g' \<and> old = bnds g \<and> bnds g' \<le> old"
  by (auto simp: gp_wf_def gp_shrink_def size_diff_def assertR_def split: if_splits)

lemma gp_deref_defined: "gp_wf g \<Longrightarrow> \<not> is_undefined (gp_deref g)"
  by (simp add: gp_wf_def gp_deref_def gp_load_def assertR_def)

lemma gp_at_defined: "gp_wf g \<Longrightarrow> \<not> is_undefined (gp_at g i)"
  by (auto simp: gp_wf_def gp_at_def gp_load_def assertR_def size_diff_def)

lemma gp_at_value:
  "gp_wf g \<Longrightarrow> raw_ptr g + i < bnds g \<Longrightarrow> gp_at g i = Inr (gp_buf g ! (raw_ptr g + i))"
  by (auto simp: gp_wf_def gp_at_def gp_load_def size_diff_def assertR_def)

subsection \<open>The integers\<close>

definition bytes_needed :: "nat \<Rightarrow> nat" where
  "bytes_needed N = (if N = 1 \<or> N = 7 then 1 else if N = 32 then 5 else 10)"

text \<open>\<open>storage\<close> holds the bytes written so far; the class's array has room for \<open>bytes_needed N\<close>.\<close>

record leb =
  storage :: "u8 list"
  bytes_used :: nat

function varuint_from_loop :: "nat \<Rightarrow> 'a :: len word \<Rightarrow> u8 list \<Rightarrow> nat \<Rightarrow> u8 list \<times> nat" where
  "varuint_from_loop N v st used =
     (if used < bytes_needed N then
        let b = ucast (v AND 0x7f); v' = drop_bit 7 v in
        if v' \<noteq> 0 then varuint_from_loop N v' (st @ [b OR 0x80]) (used + 1)
        else (st @ [b], used)
      else (st, used))"
  by pat_completeness auto
termination
  by (relation "measure (\<lambda>(N, v, st, used). bytes_needed N - used)") auto

definition varuint_from :: "nat \<Rightarrow> 'a :: len word \<Rightarrow> leb" where
  "varuint_from N v =
     (let (st, used) = varuint_from_loop N v [] 0 in \<lparr>storage = st, bytes_used = used + 1\<rparr>)"

text \<open>The constructors from \<open>bool\<close> and \<open>uint8_t\<close> leave \<open>bytes_used\<close> at its initial value.\<close>

definition varuint_from_bool :: "nat \<Rightarrow> bool \<Rightarrow> leb" where
  "varuint_from_bool N v = \<lparr>storage = [if v then 1 else 0], bytes_used = bytes_needed N\<rparr>"

definition varuint_from_u8 :: "nat \<Rightarrow> u8 \<Rightarrow> leb" where
  "varuint_from_u8 N v = \<lparr>storage = [v AND 0x7f], bytes_used = bytes_needed N\<rparr>"

definition varuint_from_u64 :: "nat \<Rightarrow> u64 \<Rightarrow> leb" where
  "varuint_from_u64 N v = (if N \<le> 32 then varuint_from N (ucast v :: u32) else varuint_from N v)"

text \<open>
  Reading from the code: the byte loop of \<open>varuint::from(code)\<close> and \<open>varint::from(code)\<close>, which
  differ only in the check of the last possible byte's unused bits.
\<close>

function leb_parse_loop ::
  "nat \<Rightarrow> (u8 \<Rightarrow> bool) \<Rightarrow> exn \<Rightarrow> gptr \<Rightarrow> u8 list \<Rightarrow> nat \<Rightarrow> (u8 list \<times> nat) res" where
  "leb_parse_loop N chk err code st cnt =
     assertR (cnt < bytes_needed N) (wasm_interpreter_exception ''incorrect leb128 encoding'')
      (assertR (gp_offset code + cnt < gp_bounds code) (wasm_interpreter_exception ''pointer out of bounds'')
        (bindR (gp_at code cnt) (\<lambda>b.
           if b AND 0x80 = 0 then
             (if cnt + 1 = bytes_needed N then assertR (chk b) err (Inr (st @ [b], cnt))
              else Inr (st @ [b], cnt))
           else leb_parse_loop N chk err code (st @ [b]) (cnt + 1))))"
  by pat_completeness auto
termination
  by (relation "measure (\<lambda>(N, chk, err, code, st, cnt). bytes_needed N - cnt)") auto

declare varuint_from_loop.simps [simp del] leb_parse_loop.simps [simp del]

definition unused_mask :: "nat \<Rightarrow> u8" where
  "unused_mask N = ucast (push_bit (N - 7 * (bytes_needed N - 1)) (- 1 :: u32)) AND 0x7f"

definition varuint_from_code :: "nat \<Rightarrow> gptr \<Rightarrow> (leb \<times> gptr) res" where
  "varuint_from_code N code =
     bindR (leb_parse_loop N (\<lambda>b. unused_mask N AND b = 0)
              (wasm_parse_exception ''unused bits of unsigned leb128 must be 0'') code [] 0)
       (\<lambda>(st, cnt). bindR (gp_plus code (cnt + 1))
          (\<lambda>code'. Inr (\<lparr>storage = st, bytes_used = cnt + 1\<rparr>, code')))"

definition leb_accumulate :: "u8 list \<Rightarrow> 'a :: len word" where
  "leb_accumulate bs = foldr (\<lambda>b ret. push_bit 7 ret OR ucast (b AND 0x7f)) bs 0"

definition varuint_to :: "leb \<Rightarrow> 'a :: len word" where
  "varuint_to l = leb_accumulate (take (bytes_used l) (storage l))"

function varint_from_loop :: "nat \<Rightarrow> 'a :: len word \<Rightarrow> u8 list \<Rightarrow> nat \<Rightarrow> u8 list \<times> nat" where
  "varint_from_loop N v st used =
     (if used < bytes_needed N then
        let b = ucast (v AND 0x7f); v' = signed_drop_bit 7 v in
        if (v' = - 1 \<and> b AND 0x40 \<noteq> 0) \<or> (v' = 0 \<and> b AND 0x40 = 0) then (st @ [b], used)
        else varint_from_loop N v' (st @ [b OR 0x80]) (used + 1)
      else (st, used))"
  by pat_completeness auto
termination
  by (relation "measure (\<lambda>(N, v, st, used). bytes_needed N - used)") auto

declare varint_from_loop.simps [simp del]

definition varint_from :: "nat \<Rightarrow> 'a :: len word \<Rightarrow> leb" where
  "varint_from N v =
     (let (st, used) = varint_from_loop N v [] 0 in \<lparr>storage = st, bytes_used = used + 1\<rparr>)"

definition sign_bits_ok :: "nat \<Rightarrow> u8 \<Rightarrow> bool" where
  "sign_bits_ok N b =
     (let offset = N - 7 * (bytes_needed N - 1);
          expected = (if ucast b AND push_bit (offset - 1) (1 :: u32) \<noteq> 0 then unused_mask N else 0)
      in unused_mask N AND b = expected)"

definition varint_from_code :: "nat \<Rightarrow> gptr \<Rightarrow> (leb \<times> gptr) res" where
  "varint_from_code N code =
     bindR (leb_parse_loop N (sign_bits_ok N)
              (wasm_parse_exception ''unused bits of signed leb128 must be the same as the sign bit'') code [] 0)
       (\<lambda>(st, cnt). bindR (gp_plus code (cnt + 1))
          (\<lambda>code'. Inr (\<lparr>storage = st, bytes_used = cnt + 1\<rparr>, code')))"

definition varint_to :: "nat \<Rightarrow> leb \<Rightarrow> 'a :: len word" where
  "varint_to N l =
     (let ret = leb_accumulate (take (bytes_used l) (storage l)) in
      if 1 \<le> bytes_used l \<and> bytes_used l < bytes_needed N \<and> storage l ! (bytes_used l - 1) AND 0x40 \<noteq> 0
      then ret OR ucast (push_bit (bytes_used l * 7) (- 1 :: u64)) else ret)"

definition varint7_from :: "u8 \<Rightarrow> leb" where
  "varint7_from v = \<lparr>storage = [v AND 0x7f], bytes_used = bytes_needed 7\<rparr>"

definition varint7_to :: "leb \<Rightarrow> u8" where
  "varint7_to l =
     (let b = storage l ! 0 in if b AND 0x40 \<noteq> 0 then ucast (ucast b OR push_bit 7 (- 1 :: u32)) else b)"


subsection \<open>Values of byte sequences\<close>

text \<open>
  The reference meaning of a byte sequence: base-128 digits, least significant first. A sequence is
  complete when exactly its last byte has the continuation bit clear.
\<close>

definition leb_value :: "u8 list \<Rightarrow> nat" where
  "leb_value bs = foldr (\<lambda>b acc. unat b mod 128 + 128 * acc) bs 0"

fun leb_complete :: "u8 list \<Rightarrow> bool" where
  "leb_complete [] = False"
| "leb_complete [b] = (b AND 0x80 = 0)"
| "leb_complete (b # bs) = (b AND 0x80 \<noteq> 0 \<and> leb_complete bs)"

lemma leb_value_Nil [simp]: "leb_value [] = 0"
  by (simp add: leb_value_def)

lemma leb_value_Cons [simp]: "leb_value (b # bs) = unat b mod 128 + 128 * leb_value bs"
  by (simp add: leb_value_def)

lemma leb_value_append: "leb_value (xs @ ys) = leb_value xs + 128 ^ length xs * leb_value ys"
  by (induction xs) (simp_all add: algebra_simps)

lemma leb_value_bound: "leb_value bs < 128 ^ length bs"
proof (induction bs)
  case Nil
  then show ?case by simp
next
  case (Cons b bs)
  have "unat b mod 128 < 128" by simp
  moreover have "leb_value bs + 1 \<le> 128 ^ length bs" using Cons by simp
  then have "128 * leb_value bs + 128 \<le> 128 * 128 ^ length bs" by linarith
  ultimately show ?case by simp
qed

lemma shift7_or:
  fixes w :: "'a :: len word"
  shows "push_bit 7 w OR ucast (b AND 0x7f :: u8) = of_nat (unat b mod 128) + 128 * w"
proof -
  have eq: "(ucast (b AND 0x7f) :: 'a word) = of_nat (unat b mod 128)"
    by (simp add: unat_and_7f [symmetric])
  have "push_bit 7 w AND (ucast (b AND 0x7f) :: 'a word) = 0"
    by (rule bit_eqI) (auto simp: bit_simps and_7f_take_bit)
  then have "push_bit 7 w OR ucast (b AND 0x7f) = push_bit 7 w + (ucast (b AND 0x7f) :: 'a word)"
    by (simp add: disjunctive_add_eq_or)
  then show ?thesis
    by (simp add: eq push_bit_eq_mult)
qed

lemma leb_accumulate_value: "leb_accumulate bs = (of_nat (leb_value bs) :: 'a :: len word)"
  by (induction bs) (simp_all add: leb_accumulate_def shift7_or)

lemma leb_accumulate_nat:
  "leb_value bs < 2 ^ LENGTH('a) \<Longrightarrow> unat (leb_accumulate bs :: 'a :: len word) = leb_value bs"
  by (simp add: leb_accumulate_value unat_of_nat)

lemma leb_complete_nonempty: "leb_complete bs \<Longrightarrow> bs \<noteq> []"
  by auto

lemma leb_complete_Cons:
  "leb_complete (b # bs) = (if bs = [] then b AND 0x80 = 0 else b AND 0x80 \<noteq> 0 \<and> leb_complete bs)"
  by (cases bs) auto


subsection \<open>The parse loop\<close>

definition leb_at :: "gptr \<Rightarrow> nat \<Rightarrow> u8 list \<Rightarrow> bool" where
  "leb_at g cnt bs \<longleftrightarrow>
     (\<forall>i < length bs. gp_buf g ! (raw_ptr g + cnt + i) = bs ! i) \<and> raw_ptr g + cnt + length bs \<le> bnds g"

lemma leb_at_Cons:
  "leb_at g cnt (b # bs) \<longleftrightarrow>
     raw_ptr g + cnt < bnds g \<and> gp_buf g ! (raw_ptr g + cnt) = b \<and> leb_at g (cnt + 1) bs"
  by (auto simp: leb_at_def less_Suc_eq_0_disj)

lemma leb_parse_step:
  assumes "gp_wf g" and "cnt < bytes_needed N" and "raw_ptr g + cnt < bnds g"
  shows "leb_parse_loop N chk err g st cnt =
    (let b = gp_buf g ! (raw_ptr g + cnt) in
     if b AND 0x80 = 0 then
       (if cnt + 1 = bytes_needed N then assertR (chk b) err (Inr (st @ [b], cnt)) else Inr (st @ [b], cnt))
     else leb_parse_loop N chk err g (st @ [b]) (cnt + 1))"
  using assms
  by (simp add: leb_parse_loop.simps [of N chk err g st cnt] gp_offset_def gp_bounds_def gp_at_value Let_def)

lemma leb_parse_complete:
  assumes "gp_wf g" and "leb_complete bs" and "leb_at g cnt bs" and "cnt + length bs \<le> bytes_needed N"
    and "cnt + length bs = bytes_needed N \<longrightarrow> chk (last bs)"
  shows "leb_parse_loop N chk err g st cnt = Inr (st @ bs, cnt + length bs - 1)"
  using assms(2-)
proof (induction bs arbitrary: st cnt)
  case Nil
  then show ?case by simp
next
  case (Cons b bs)
  have step: "leb_parse_loop N chk err g st cnt =
    (if b AND 0x80 = 0 then
       (if cnt + 1 = bytes_needed N then assertR (chk b) err (Inr (st @ [b], cnt)) else Inr (st @ [b], cnt))
     else leb_parse_loop N chk err g (st @ [b]) (cnt + 1))"
    using Cons.prems by (simp add: leb_parse_step [OF assms(1)] leb_at_Cons)
  show ?case
  proof (cases "bs = []")
    case True
    with Cons.prems step show ?thesis by auto
  next
    case False
    with Cons.prems have hi: "b AND 0x80 \<noteq> 0" and c: "leb_complete bs"
      by (auto simp: leb_complete_Cons)
    have "leb_parse_loop N chk err g (st @ [b]) (cnt + 1) = Inr ((st @ [b]) @ bs, cnt + 1 + length bs - 1)"
      using Cons.prems False by (intro Cons.IH [OF c]) (auto simp: leb_at_Cons)
    with step hi show ?thesis by simp
  qed
qed

lemma leb_parse_sound:
  assumes "gp_wf g" and "leb_parse_loop N chk err g st cnt = Inr (st', cnt')"
  shows "\<exists>bs. st' = st @ bs \<and> cnt' + 1 = cnt + length bs \<and> leb_complete bs \<and> leb_at g cnt bs \<and>
    cnt + length bs \<le> bytes_needed N \<and> (cnt + length bs = bytes_needed N \<longrightarrow> chk (last bs))"
  using assms
proof (induction N chk err g st cnt rule: leb_parse_loop.induct)
  case (1 N chk err g st cnt)
  note wf = "1.prems"(1)
  from "1.prems"(2) have lt: "cnt < bytes_needed N" "raw_ptr g + cnt < bnds g"
    by (auto simp: leb_parse_loop.simps [of N chk err g st cnt] assertR_def gp_offset_def gp_bounds_def
        split: if_splits)
  define b where "b = gp_buf g ! (raw_ptr g + cnt)"
  have at: "gp_at g cnt = Inr b"
    using wf lt by (simp add: b_def gp_at_value)
  note step = leb_parse_step [OF wf lt, of chk err st, folded b_def, unfolded Let_def]
  show ?case
  proof (cases "b AND 0x80 = 0")
    case True
    with "1.prems"(2) step lt show ?thesis
      by (intro exI [of _ "[b]"])
        (auto simp: assertR_def leb_at_def b_def split: if_splits)
  next
    case False
    with "1.prems"(2) step have "leb_parse_loop N chk err g (st @ [b]) (cnt + 1) = Inr (st', cnt')"
      by simp
    with "1.IH" [OF lt(1) _ at False wf] lt obtain bs where
      "st' = (st @ [b]) @ bs" "cnt' + 1 = cnt + 1 + length bs" "leb_complete bs" "leb_at g (cnt + 1) bs"
      "cnt + 1 + length bs \<le> bytes_needed N" "cnt + 1 + length bs = bytes_needed N \<longrightarrow> chk (last bs)"
      by (auto simp: gp_offset_def gp_bounds_def)
    then show ?thesis
      using False lt leb_complete_nonempty
      by (intro exI [of _ "b # bs"]) (auto simp: leb_complete_Cons leb_at_Cons b_def)
  qed
qed

lemma leb_parse_defined:
  assumes "gp_wf g" and "\<And>m. err \<noteq> Undefined m"
  shows "\<not> is_undefined (leb_parse_loop N chk err g st cnt)"
  using assms
proof (induction N chk err g st cnt rule: leb_parse_loop.induct)
  case (1 N chk err g st cnt)
  then show ?case
    using gp_at_defined [of g cnt]
    by (subst leb_parse_loop.simps) (auto simp: is_undefined_assertR is_undefined_bindR)
qed


subsection \<open>Single bytes\<close>

lemma cont_bit: "b AND 0x80 = 0 \<longleftrightarrow> unat b < 128" for b :: u8
proof -
  have "(0x80 :: u8) = push_bit 7 (mask 1)"
    by (simp add: mask_eq_exp_minus_1 push_bit_eq_mult)
  then have "b AND 0x80 = 0 \<longleftrightarrow> unat b div 128 mod 2 = 0"
    using and_field_zero [of 7 1 b] by (simp add: ac_simps del: One_nat_def)
  also have "\<dots> \<longleftrightarrow> unat b < 128"
    using unat_bound [of b] by auto
  finally show ?thesis .
qed

lemma sign_bit: "b AND 0x40 = 0 \<longleftrightarrow> unat b mod 128 < 64" for b :: u8
proof -
  have "(0x40 :: u8) = push_bit 6 (mask 1)"
    by (simp add: mask_eq_exp_minus_1 push_bit_eq_mult)
  then have "b AND 0x40 = 0 \<longleftrightarrow> unat b div 64 mod 2 = 0"
    using and_field_zero [of 6 1 b] by (simp add: ac_simps del: One_nat_def)
  also have "\<dots> \<longleftrightarrow> unat b mod 128 < 64"
    using mod_mult2_eq [of "unat b" 64 2] by auto
  finally show ?thesis .
qed

lemma digit_byte: "unat (ucast (v AND 0x7f) :: u8) = unat v mod 128" for v :: "'a :: len word"
proof -
  have "unat (v AND 0x7f) < 128"
    by (simp add: unat_and_7f)
  then have "unat (ucast (v AND 0x7f) :: u8) = unat (v AND 0x7f)"
    by (simp add: unsigned_ucast_eq take_bit_eq_mod)
  then show ?thesis
    by (simp add: unat_and_7f)
qed

lemma digit_byte_cont: "unat (ucast (v AND 0x7f) OR 0x80 :: u8) = unat v mod 128 + 128" for v :: "'a :: len word"
proof -
  have "(ucast (v AND 0x7f) :: u8) AND 0x80 = 0"
    by (simp add: cont_bit digit_byte)
  then show ?thesis
    by (simp add: unat_or_disjoint digit_byte)
qed

lemma digit_byte_flags [simp]:
  fixes v :: "'a :: len word"
  shows "(ucast (v AND 0x7f) :: u8) AND 0x80 = 0" and "(ucast (v AND 0x7f) OR 0x80 :: u8) AND 0x80 \<noteq> 0"
  by (simp_all add: cont_bit digit_byte digit_byte_cont)

lemma unused_mask_values: "unused_mask 32 = 0x70" "unused_mask 64 = 0x7e"
  by (simp_all add: unused_mask_def bytes_needed_def push_bit_eq_mult)

lemma unused_ok_32: "unused_mask 32 AND b = 0 \<longleftrightarrow> unat b mod 128 < 16"
proof -
  have "(0x70 :: u8) = push_bit 4 (mask 3)"
    by (simp add: mask_eq_exp_minus_1 push_bit_eq_mult)
  then have "unused_mask 32 AND b = 0 \<longleftrightarrow> unat b div 16 mod 8 = 0"
    using and_field_zero [of 4 3 b] by (simp add: unused_mask_values)
  then show ?thesis
    using mod_mult2_eq [of "unat b" 16 8] by auto
qed

lemma unused_ok_64: "unused_mask 64 AND b = 0 \<longleftrightarrow> unat b mod 128 < 2"
proof -
  have "(0x7e :: u8) = push_bit 1 (mask 6)"
    by (simp add: mask_eq_exp_minus_1 push_bit_eq_mult)
  then have "unused_mask 64 AND b = 0 \<longleftrightarrow> unat b div 2 mod 64 = 0"
    using and_field_zero [of 1 6 b] by (simp add: unused_mask_values)
  then show ?thesis
    using mod_mult2_eq [of "unat b" 2 64] by auto
qed


subsection \<open>Unsigned integers\<close>

lemma varuint_from_loop_spec:
  fixes v :: "'a :: len word"
  assumes "used < bytes_needed N" and "unat v < 128 ^ (bytes_needed N - used)"
  shows "\<exists>bs. varuint_from_loop N v st used = (st @ bs, used + length bs - 1) \<and> leb_complete bs \<and>
    leb_value bs = unat v \<and> used + length bs \<le> bytes_needed N \<and>
    (length bs = 1 \<or> 128 ^ (length bs - 1) \<le> unat v)"
  using assms
proof (induction N v st used rule: varuint_from_loop.induct)
  case (1 N v st used)
  define b :: u8 where "b = ucast (v AND 0x7f)"
  define v' where "v' = drop_bit 7 v"
  have v': "unat v' = unat v div 128"
    by (simp add: v'_def unat_drop_bit)
  show ?case
  proof (cases "v' = 0")
    case True
    then have "unat v < 128"
      using v' by (simp add: div_eq_0_iff unat_eq_0)
    moreover have "varuint_from_loop N v st used = (st @ [b], used)"
      using "1.prems"(1) True by (simp add: varuint_from_loop.simps [of N v st used] b_def v'_def Let_def)
    ultimately show ?thesis
      using "1.prems"(1) by (intro exI [of _ "[b]"]) (simp add: b_def digit_byte)
  next
    case False
    then have nz: "unat v div 128 \<noteq> 0"
      using v' by (simp add: unat_eq_0 [symmetric])
    have lt: "used + 1 < bytes_needed N"
    proof (rule ccontr)
      assume "\<not> used + 1 < bytes_needed N"
      with "1.prems" have "bytes_needed N - used = 1" by linarith
      with "1.prems"(2) nz show False by simp
    qed
    have "(128::nat) ^ (bytes_needed N - used) = 128 * 128 ^ (bytes_needed N - (used + 1))"
      using lt by (metis Suc_diff_Suc Suc_eq_plus1 add_lessD1 power_Suc)
    then have "unat v' < 128 ^ (bytes_needed N - (used + 1))"
      using "1.prems"(2) v' by (simp add: less_mult_imp_div_less ac_simps)
    from "1.IH" [OF "1.prems"(1) refl refl _ _ , folded v'_def, OF False lt this]
    obtain bs where IH: "varuint_from_loop N v' (st @ [b OR 0x80]) (used + 1) =
        ((st @ [b OR 0x80]) @ bs, used + 1 + length bs - 1)" "leb_complete bs" "leb_value bs = unat v'"
        "used + 1 + length bs \<le> bytes_needed N" "length bs = 1 \<or> 128 ^ (length bs - 1) \<le> unat v'"
      unfolding b_def v'_def by blast
    have "bs \<noteq> []" using IH(2) by auto
    then have "length bs = Suc (length bs - 1)" by (cases bs) auto
    then have pow: "(128::nat) ^ length bs = 128 * 128 ^ (length bs - 1)" by (metis power_Suc)
    have "128 ^ length bs \<le> unat v"
    proof -
      have "128 ^ (length bs - 1) \<le> unat v div 128" using IH(5) v' nz by auto
      then have "128 * 128 ^ (length bs - 1) \<le> 128 * (unat v div 128)" by simp
      also have "\<dots> \<le> unat v" by simp
      finally show ?thesis using pow by simp
    qed
    moreover have "varuint_from_loop N v st used = (st @ (b OR 0x80) # bs, used + length bs)"
      using "1.prems"(1) False IH(1) by (simp add: varuint_from_loop.simps [of N v st used] b_def v'_def Let_def)
    moreover have "leb_value ((b OR 0x80) # bs) = unat v"
      using IH(3) v' by (simp add: b_def digit_byte_cont)
    ultimately show ?thesis
      using IH(2,4) \<open>bs \<noteq> []\<close>
      by (intro exI [of _ "(b OR 0x80) # bs"]) (auto simp: leb_complete_Cons b_def)
  qed
qed


text \<open>The last digit carries the most significant bits: its weight bounds it by the value.\<close>

lemma leb_last_digit: "bs \<noteq> [] \<Longrightarrow> 128 ^ (length bs - 1) * (unat (last bs) mod 128) \<le> leb_value bs"
  by (induction bs rule: rev_induct) (simp_all add: leb_value_append)

lemma leb_last_digit_bound:
  "leb_value bs < 128 ^ (length bs - 1) * k \<Longrightarrow> bs \<noteq> [] \<Longrightarrow> unat (last bs) mod 128 < k"
  using leb_last_digit [of bs] by (meson le_less_trans mult_less_cancel1)

lemma leb_value_last_bound:
  assumes "bs \<noteq> []" and "unat (last bs) mod 128 < k"
  shows "leb_value bs < 128 ^ (length bs - 1) * k"
proof -
  obtain ys y where bs: "bs = ys @ [y]" using assms(1) by (metis append_butlast_last_id)
  have "leb_value bs = leb_value ys + 128 ^ length ys * (unat y mod 128)"
    by (simp add: bs leb_value_append)
  also have "\<dots> < 128 ^ length ys * (unat y mod 128 + 1)"
    using leb_value_bound [of ys] by simp
  also have "\<dots> \<le> 128 ^ length ys * k"
    using assms(2) bs by (intro mult_le_mono2) simp
  finally show ?thesis by (simp add: bs)
qed

definition leb_width :: "nat \<Rightarrow> bool" where
  "leb_width N \<longleftrightarrow> N = 32 \<or> N = 64"

lemma unused_ok_value:
  assumes "leb_width N" and "bs \<noteq> []" and "length bs = bytes_needed N"
  shows "unused_mask N AND last bs = 0 \<longleftrightarrow> leb_value bs < 2 ^ N"
  using assms leb_last_digit_bound [of bs 16] leb_value_last_bound [of bs 16]
    leb_last_digit_bound [of bs 2] leb_value_last_bound [of bs 2]
  by (auto simp: leb_width_def bytes_needed_def unused_ok_32 unused_ok_64)

lemma leb_value_width: "leb_width N \<Longrightarrow> length bs < bytes_needed N \<Longrightarrow> leb_value bs < 2 ^ N"
proof -
  assume w: "leb_width N" "length bs < bytes_needed N"
  have "leb_value bs < 128 ^ length bs" by (rule leb_value_bound)
  also have "\<dots> \<le> 128 ^ (bytes_needed N - 1)"
    using w by (intro power_increasing) auto
  also have "\<dots> \<le> 2 ^ N"
    using w by (auto simp: leb_width_def bytes_needed_def)
  finally show ?thesis .
qed

lemma width_digits: "leb_width N \<Longrightarrow> (2::nat) ^ N \<le> 128 ^ bytes_needed N"
  by (auto simp: leb_width_def bytes_needed_def)

lemma varuint_from_spec:
  fixes v :: "'a :: len word"
  assumes "leb_width N" and "LENGTH('a) = N"
  shows "\<exists>bs. varuint_from N v = \<lparr>storage = bs, bytes_used = length bs\<rparr> \<and> leb_complete bs \<and>
    leb_value bs = unat v \<and> length bs \<le> bytes_needed N \<and> (length bs = 1 \<or> 128 ^ (length bs - 1) \<le> unat v)"
proof -
  have "unat v < 128 ^ (bytes_needed N - 0)"
    using unat_bound [of v] width_digits [OF assms(1)] assms(2) by simp
  moreover have "0 < bytes_needed N" by (simp add: bytes_needed_def)
  ultimately obtain bs where bs: "varuint_from_loop N v [] 0 = ([] @ bs, 0 + length bs - 1)" "leb_complete bs"
    "leb_value bs = unat v" "0 + length bs \<le> bytes_needed N" "length bs = 1 \<or> 128 ^ (length bs - 1) \<le> unat v"
    using varuint_from_loop_spec [of 0 N v "[]"] by blast
  moreover have "bs \<noteq> []" using bs(2) by auto
  then have "length bs - 1 + 1 = length bs" by (cases bs) auto
  ultimately show ?thesis
    by (intro exI [of _ bs]) (simp add: varuint_from_def)
qed

lemma leb_at_advance:
  "gp_wf g \<Longrightarrow> leb_at g 0 bs \<Longrightarrow> gp_plus g (length bs) = Inr (g\<lparr>raw_ptr := raw_ptr g + length bs\<rparr>)"
  by (auto simp: gp_plus_def leb_at_def size_diff_def assertR_def gp_wf_def)

lemma varuint_from_code_complete:
  assumes "gp_wf g" and "leb_complete bs" and "leb_at g 0 bs" and "length bs \<le> bytes_needed N"
    and "length bs = bytes_needed N \<longrightarrow> unused_mask N AND last bs = 0"
  shows "varuint_from_code N g =
    Inr (\<lparr>storage = bs, bytes_used = length bs\<rparr>, g\<lparr>raw_ptr := raw_ptr g + length bs\<rparr>)"
proof -
  have "length bs - 1 + 1 = length bs" using assms(2) by (cases bs) auto
  then show ?thesis
    using leb_parse_complete [OF assms(1-3), of N "\<lambda>b. unused_mask N AND b = 0"] assms(4,5)
      leb_at_advance [OF assms(1,3)]
    by (simp add: varuint_from_code_def)
qed

lemma varuint_from_code_sound:
  assumes "gp_wf g" and "varuint_from_code N g = Inr (l, g')"
  shows "\<exists>bs. l = \<lparr>storage = bs, bytes_used = length bs\<rparr> \<and> leb_complete bs \<and> leb_at g 0 bs \<and>
    length bs \<le> bytes_needed N \<and> (length bs = bytes_needed N \<longrightarrow> unused_mask N AND last bs = 0) \<and>
    g' = g\<lparr>raw_ptr := raw_ptr g + length bs\<rparr>"
proof -
  from assms(2) obtain st cnt where
    "leb_parse_loop N (\<lambda>b. unused_mask N AND b = 0)
       (wasm_parse_exception ''unused bits of unsigned leb128 must be 0'') g [] 0 = Inr (st, cnt)"
    and rest: "bindR (gp_plus g (cnt + 1)) (\<lambda>code'. Inr (\<lparr>storage = st, bytes_used = cnt + 1\<rparr>, code')) = Inr (l, g')"
    by (auto simp: varuint_from_code_def bindR_eq_Inr)
  from leb_parse_sound [OF assms(1) this(1)] obtain bs where
    "st = bs" "cnt + 1 = length bs" "leb_complete bs" "leb_at g 0 bs" "length bs \<le> bytes_needed N"
    "length bs = bytes_needed N \<longrightarrow> unused_mask N AND last bs = 0"
    by auto
  with rest leb_at_advance [OF assms(1), of bs] show ?thesis by auto
qed

text \<open>What is written is read back, and whatever is read is in range.\<close>

lemma varuint_read_back:
  fixes v :: "'a :: len word"
  assumes "leb_width N" and "LENGTH('a) = N" and "gp_wf g" and "leb_at g 0 (storage (varuint_from N v))"
  shows "\<exists>l. varuint_from_code N g = Inr (l, g\<lparr>raw_ptr := raw_ptr g + bytes_used (varuint_from N v)\<rparr>) \<and>
    varuint_to l = v"
proof -
  obtain bs where bs: "varuint_from N v = \<lparr>storage = bs, bytes_used = length bs\<rparr>" "leb_complete bs"
    "leb_value bs = unat v" "length bs \<le> bytes_needed N"
    using varuint_from_spec [OF assms(1,2)] by blast
  have "length bs = bytes_needed N \<longrightarrow> unused_mask N AND last bs = 0"
    using unused_ok_value [OF assms(1)] bs leb_complete_nonempty unat_bound [of v] assms(2) by auto
  then have "varuint_from_code N g =
      Inr (\<lparr>storage = bs, bytes_used = length bs\<rparr>, g\<lparr>raw_ptr := raw_ptr g + length bs\<rparr>)"
    using assms(3,4) bs by (intro varuint_from_code_complete) auto
  then show ?thesis
    using bs by (intro exI [of _ "varuint_from N v"]) (simp add: varuint_to_def leb_accumulate_value)
qed

lemma varuint_code_value:
  assumes "leb_width N" and "LENGTH('a) = N" and "gp_wf g" and "varuint_from_code N g = Inr (l, g')"
  shows "unat (varuint_to l :: 'a :: len word) = leb_value (storage l) \<and>
    leb_at g 0 (storage l) \<and> leb_complete (storage l) \<and> 1 \<le> bytes_used l \<and> bytes_used l \<le> bytes_needed N \<and>
    raw_ptr g' = raw_ptr g + bytes_used l \<and> gp_wf g'"
proof -
  obtain bs where bs: "l = \<lparr>storage = bs, bytes_used = length bs\<rparr>" "leb_complete bs" "leb_at g 0 bs"
    "length bs \<le> bytes_needed N" "length bs = bytes_needed N \<longrightarrow> unused_mask N AND last bs = 0"
    "g' = g\<lparr>raw_ptr := raw_ptr g + length bs\<rparr>"
    using varuint_from_code_sound [OF assms(3,4)] by blast
  have "leb_value bs < 2 ^ N"
    using unused_ok_value [OF assms(1)] leb_value_width [OF assms(1)] bs leb_complete_nonempty
    by (metis le_neq_implies_less)
  then have "unat (leb_accumulate bs :: 'a word) = leb_value bs"
    using assms(2) by (simp add: leb_accumulate_nat)
  moreover have "gp_wf g'"
    using assms(3) bs(3,6) by (auto simp: gp_wf_def leb_at_def)
  ultimately show ?thesis
    using bs by (cases bs) (auto simp: varuint_to_def)
qed


subsection \<open>Signed integers\<close>

text \<open>The reference meaning in two's complement: bit 6 of the last byte has negative weight.\<close>

definition leb_svalue :: "u8 list \<Rightarrow> int" where
  "leb_svalue bs = int (leb_value bs) - (if last bs AND 0x40 \<noteq> 0 then 128 ^ length bs else 0)"

lemma leb_svalue_Cons: "bs \<noteq> [] \<Longrightarrow> leb_svalue (b # bs) = int (unat b mod 128) + 128 * leb_svalue bs"
  by (simp add: leb_svalue_def algebra_simps)

lemma leb_svalue_single:
  "leb_svalue [b] = (if unat b mod 128 < 64 then int (unat b mod 128) else int (unat b mod 128) - 128)"
  by (simp add: leb_svalue_def sign_bit)

lemma leb_svalue_snoc:
  "leb_svalue (bs @ [b]) = int (leb_value bs) + 128 ^ length bs * leb_svalue [b]"
  by (simp add: leb_svalue_def leb_value_append algebra_simps)

lemma leb_svalue_range:
  assumes "bs \<noteq> []"
  shows "- (64 * 128 ^ (length bs - 1)) \<le> leb_svalue bs \<and> leb_svalue bs < 64 * 128 ^ (length bs - 1)"
  using assms
proof (induction bs rule: list_nonempty_induct)
  case (single x)
  then show ?case by (auto simp: leb_svalue_single)
next
  case (cons x xs)
  have pow: "(128::int) ^ length xs = 128 * 128 ^ (length xs - 1)"
    using cons(1) by (cases xs) auto
  have "0 \<le> int (unat x mod 128) \<and> int (unat x mod 128) \<le> 127"
    using mod_less_divisor [of 128 "unat x"] by linarith
  moreover have "leb_svalue xs + 1 \<le> 64 * 128 ^ (length xs - 1) \<and> - (64 * 128 ^ (length xs - 1)) \<le> leb_svalue xs"
    using cons(2) by linarith
  ultimately have "- (64 * (128 * 128 ^ (length xs - 1))) \<le> int (unat x mod 128) + 128 * leb_svalue xs \<and>
      int (unat x mod 128) + 128 * leb_svalue xs < 64 * (128 * 128 ^ (length xs - 1))"
    by linarith
  moreover have "length (x # xs) - 1 = length xs" by simp
  ultimately show ?case
    by (simp only: leb_svalue_Cons [OF cons(1)] pow)
qed

lemma sdigit: "7 \<le> LENGTH('a) \<Longrightarrow> int (unat v mod 128) = sint v mod 128" for v :: "'a :: len word"
proof -
  assume "7 \<le> LENGTH('a)"
  then have "(2::int) ^ 7 dvd 2 ^ LENGTH('a)" by (rule le_imp_power_dvd)
  then have d: "(128::int) dvd 2 ^ LENGTH('a)" by simp
  have "uint v = sint v mod 2 ^ LENGTH('a)"
    by (simp add: uint_sint take_bit_eq_mod)
  then have "uint v mod 128 = sint v mod 128"
    using d by (simp add: mod_mod_cancel)
  then show ?thesis by (simp add: zmod_int)
qed

lemma sint_signed_shift: "sint (signed_drop_bit 7 v) = sint v div 128" for v :: "'a :: len word"
  by (simp add: sint_signed_drop_bit_eq drop_bit_eq_div)

lemma varint_stop_iff:
  fixes v :: "'a :: len word"
  assumes "7 \<le> LENGTH('a)"
  defines "b \<equiv> (ucast (v AND 0x7f) :: u8)" and "v' \<equiv> signed_drop_bit 7 v"
  shows "(v' = - 1 \<and> b AND 0x40 \<noteq> 0) \<or> (v' = 0 \<and> b AND 0x40 = 0) \<longleftrightarrow> - 64 \<le> sint v \<and> sint v < 64"
proof -
  have "v' = 0 \<longleftrightarrow> sint v div 128 = 0"
    unfolding v'_def using sint_signed_shift [of v] by (metis signed_0 signed_word_eqI)
  moreover have "v' = - 1 \<longleftrightarrow> sint v div 128 = - 1"
    unfolding v'_def using sint_signed_shift [of v] by (metis signed_minus_1 signed_word_eqI)
  moreover have "b AND 0x40 = 0 \<longleftrightarrow> sint v mod 128 < 64"
    unfolding sign_bit b_def digit_byte sdigit [OF assms(1), of v, symmetric] by simp
  ultimately show ?thesis
    by (simp only:) presburger
qed


lemma small_sdigit:
  fixes v :: "'a :: len word"
  assumes "7 \<le> LENGTH('a)" and "- 64 \<le> sint v" and "sint v < 64"
  shows "leb_svalue [ucast (v AND 0x7f)] = sint v"
proof -
  have "(if x mod 128 < 64 then x mod 128 else x mod 128 - 128) = x" if "- 64 \<le> x" "x < 64" for x :: int
    using that by presburger
  from this [OF assms(2,3)] have x: "(if m < 64 then m else m - 128) = sint v" if "m = sint v mod 128" for m
    using that by (simp only:)
  define n where "n = unat v mod 128"
  have "int n = sint v mod 128" using sdigit [OF assms(1), of v] by (simp only: n_def)
  from x [OF this] show ?thesis
    unfolding leb_svalue_single digit_byte n_def [symmetric] by (simp add: n_def split: if_splits)
qed

lemma varint_from_loop_spec:
  fixes v :: "'a :: len word"
  assumes "7 \<le> LENGTH('a)" and "used + k + 1 = bytes_needed N"
    and "- (64 * 128 ^ k) \<le> sint v" and "sint v < 64 * 128 ^ k"
  shows "\<exists>bs. varint_from_loop N v st used = (st @ bs, used + length bs - 1) \<and> leb_complete bs \<and>
    leb_svalue bs = sint v \<and> used + length bs \<le> bytes_needed N"
  using assms(2-)
proof (induction k arbitrary: v st used)
  case 0
  define b :: u8 where "b = ucast (v AND 0x7f)"
  have "varint_from_loop N v st used = (st @ [b], used)"
    using 0 varint_stop_iff [OF assms(1), of v]
    by (simp add: varint_from_loop.simps [of N v st used] Let_def b_def)
  moreover have "leb_svalue [b] = sint v"
    unfolding b_def using 0 by (intro small_sdigit [OF assms(1)]) simp_all
  ultimately show ?case
    using 0 by (intro exI [of _ "[b]"]) (simp add: b_def)
next
  case (Suc k)
  define b :: u8 where "b = ucast (v AND 0x7f)"
  define v' where "v' = signed_drop_bit 7 v"
  have v': "sint v' = sint v div 128" by (simp add: v'_def sint_signed_shift)
  show ?case
  proof (cases "- 64 \<le> sint v \<and> sint v < 64")
    case True
    have "varint_from_loop N v st used = (st @ [b], used)"
      using Suc True varint_stop_iff [OF assms(1), of v]
      by (simp add: varint_from_loop.simps [of N v st used] Let_def b_def)
    moreover have "leb_svalue [b] = sint v"
      unfolding b_def using True by (intro small_sdigit [OF assms(1)]) simp_all
    ultimately show ?thesis
      using Suc by (intro exI [of _ "[b]"]) (simp add: b_def)
  next
    case False
    have "- (64 * 128 ^ k) \<le> sint v'" "sint v' < 64 * 128 ^ k"
      using Suc.prems(2,3) unfolding v' by auto
    from Suc.IH [of "used + 1" v' "st @ [b OR 0x80]", OF _ this] Suc.prems(1)
    obtain bs where IH: "varint_from_loop N v' (st @ [b OR 0x80]) (used + 1) =
        ((st @ [b OR 0x80]) @ bs, used + 1 + length bs - 1)" "leb_complete bs" "leb_svalue bs = sint v'"
        "used + 1 + length bs \<le> bytes_needed N"
      by auto
    have ne: "bs \<noteq> []" using IH(2) by auto
    have "varint_from_loop N v st used = (st @ (b OR 0x80) # bs, used + length bs)"
      using False Suc.prems(1) IH(1) varint_stop_iff [OF assms(1), of v]
      by (auto simp: varint_from_loop.simps [of N v st used] b_def v'_def Let_def)
    moreover have "leb_svalue ((b OR 0x80) # bs) = sint v"
      using ne IH(3) sdigit [OF assms(1), of v]
      by (simp add: leb_svalue_Cons b_def digit_byte_cont v' zmod_int)
    moreover have "leb_complete ((b OR 0x80) # bs)"
      using ne IH(2) by (simp add: leb_complete_Cons b_def)
    ultimately show ?thesis
      using IH(4) by (intro exI [of _ "(b OR 0x80) # bs"]) simp
  qed
qed


lemma sign_bit_test: "ucast b AND push_bit k (1 :: u32) \<noteq> 0 \<longleftrightarrow> unat b div 2 ^ k mod 2 = 1" for b :: u8
proof -
  have "push_bit k (1 :: u32) = push_bit k (mask 1)" by (simp add: mask_eq_exp_minus_1)
  then show ?thesis
    using and_field_zero [of k 1 "ucast b :: u32"] by (simp add: unat_ucast_up and.commute del: One_nat_def push_bit_of_1)
qed

lemma sign_bits_ok_32: "sign_bits_ok 32 b \<longleftrightarrow> unat b mod 128 < 8 \<or> 120 \<le> unat b mod 128"
proof -
  define q where "q = unat b div 8"
  have "(0x70 :: u8) = push_bit 4 (mask 3)"
    by (simp add: mask_eq_exp_minus_1 push_bit_eq_mult)
  then have "unat (0x70 AND b) = 16 * (unat b div 16 mod 8)"
    using and_field_value [of 4 3 b] by simp
  moreover have "unat b div 16 = q div 2" by (simp add: q_def div_mult2_eq [symmetric])
  ultimately have m: "unat (0x70 AND b) = 16 * (q div 2 mod 8)" by simp
  have "0x70 AND b = x \<longleftrightarrow> unat (0x70 AND b) = unat x" for x
    by (metis unsigned_word_eqI)
  then have "sign_bits_ok 32 b \<longleftrightarrow> unat (0x70 AND b) = (if q mod 2 = 1 then 112 else 0)"
    using sign_bit_test [of b 3]
    by (simp add: sign_bits_ok_def bytes_needed_def unused_mask_values q_def)
  also have "\<dots> \<longleftrightarrow> q mod 16 = 0 \<or> q mod 16 = 15"
    unfolding m using mod_mult2_eq [of q 2 8] by auto
  also have "\<dots> \<longleftrightarrow> unat b mod 128 < 8 \<or> 120 \<le> unat b mod 128"
    unfolding q_def using mod_mult2_eq [of "unat b" 8 16] mod_less_divisor [of 8 "unat b"] by auto
  finally show ?thesis .
qed

lemma sign_bits_ok_64: "sign_bits_ok 64 b \<longleftrightarrow> unat b mod 128 < 1 \<or> 127 \<le> unat b mod 128"
proof -
  have "(0x7e :: u8) = push_bit 1 (mask 6)"
    by (simp add: mask_eq_exp_minus_1 push_bit_eq_mult)
  then have m: "unat (0x7e AND b) = 2 * (unat b div 2 mod 64)"
    using and_field_value [of 1 6 b] by simp
  have "0x7e AND b = x \<longleftrightarrow> unat (0x7e AND b) = unat x" for x
    by (metis unsigned_word_eqI)
  then have "sign_bits_ok 64 b \<longleftrightarrow> unat (0x7e AND b) = (if unat b mod 2 = 1 then 126 else 0)"
    using sign_bit_test [of b 0]
    by (simp add: sign_bits_ok_def bytes_needed_def unused_mask_values)
  also have "\<dots> \<longleftrightarrow> unat b mod 128 < 1 \<or> 127 \<le> unat b mod 128"
    unfolding m using mod_mult2_eq [of "unat b" 2 64] by auto
  finally show ?thesis .
qed

lemma leb_svalue_top:
  assumes "bs \<noteq> []" and "0 < c" and "c \<le> 64"
  shows "unat (last bs) mod 128 < c \<or> 128 - c \<le> unat (last bs) mod 128 \<longleftrightarrow>
    - (int c * 128 ^ (length bs - 1)) \<le> leb_svalue bs \<and> leb_svalue bs < int c * 128 ^ (length bs - 1)"
proof -
  obtain ys y where bs: "bs = ys @ [y]" using assms(1) by (metis append_butlast_last_id)
  define P :: int where "P = 128 ^ length ys"
  define d where "d = leb_svalue [y]"
  have P: "0 < P" by (simp add: P_def)
  have low: "0 \<le> int (leb_value ys)" "int (leb_value ys) < P"
    using leb_value_bound [of ys] by (simp_all add: P_def)
  have val: "leb_svalue bs = int (leb_value ys) + P * d"
    by (simp add: bs leb_svalue_snoc P_def d_def)
  have "- (int c * P) \<le> leb_svalue bs \<longleftrightarrow> - int c \<le> d"
  proof
    assume "- (int c * P) \<le> leb_svalue bs"
    then have "P * (- int c) < P * (d + 1)" using val low by (simp add: algebra_simps)
    then have "- int c < d + 1" using P by (simp only: mult_less_cancel_left_pos)
    then show "- int c \<le> d" by simp
  next
    assume "- int c \<le> d"
    then have "P * (- int c) \<le> P * d" using P by (simp only: mult_left_mono)
    then show "- (int c * P) \<le> leb_svalue bs" using val low by (simp add: algebra_simps)
  qed
  moreover have "leb_svalue bs < int c * P \<longleftrightarrow> d < int c"
  proof
    assume "leb_svalue bs < int c * P"
    then have "P * d < P * int c" using val low by (simp only: mult.commute)
    then show "d < int c" using P by (simp only: mult_less_cancel_left_pos)
  next
    assume "d < int c"
    then have "P * (d + 1) \<le> P * int c" using P by (simp only: mult_left_mono)
    then show "leb_svalue bs < int c * P" using val low by (simp add: algebra_simps)
  qed
  moreover have "unat y mod 128 < c \<or> 128 - c \<le> unat y mod 128 \<longleftrightarrow> - int c \<le> d \<and> d < int c"
    using assms(2,3) mod_less_divisor [of 128 "unat y"] unfolding d_def leb_svalue_single by auto
  ultimately show ?thesis by (simp add: bs P_def)
qed

lemma sign_bits_ok_value:
  assumes "leb_width N" and "bs \<noteq> []" and "length bs = bytes_needed N"
  shows "sign_bits_ok N (last bs) \<longleftrightarrow> - (2 ^ (N - 1)) \<le> leb_svalue bs \<and> leb_svalue bs < 2 ^ (N - 1)"
proof (cases "N = 32")
  case True
  then show ?thesis
    using assms(2,3) leb_svalue_top [of bs 8] by (simp add: bytes_needed_def sign_bits_ok_32)
next
  case False
  then have "N = 64" using assms(1) by (simp add: leb_width_def)
  then show ?thesis
    using assms(2,3) leb_svalue_top [of bs 1] by (simp add: bytes_needed_def sign_bits_ok_64)
qed

lemma leb_svalue_width:
  assumes "leb_width N" and "bs \<noteq> []" and "length bs < bytes_needed N"
  shows "- (2 ^ (N - 1)) \<le> leb_svalue bs \<and> leb_svalue bs < 2 ^ (N - 1)"
proof -
  have "(64::int) * 128 ^ (length bs - 1) \<le> 64 * 128 ^ (bytes_needed N - 2)"
    using assms(2,3) by (intro mult_left_mono power_increasing) auto
  also have "\<dots> \<le> 2 ^ (N - 1)"
    using assms(1) by (auto simp: leb_width_def bytes_needed_def)
  finally show ?thesis
    using leb_svalue_range [OF assms(2)] by linarith
qed


lemma varint_from_spec:
  fixes v :: "'a :: len word"
  assumes "leb_width N" and "LENGTH('a) = N"
  shows "\<exists>bs. varint_from N v = \<lparr>storage = bs, bytes_used = length bs\<rparr> \<and> leb_complete bs \<and>
    leb_svalue bs = sint v \<and> length bs \<le> bytes_needed N"
proof -
  have len: "7 \<le> LENGTH('a)" using assms by (auto simp: leb_width_def)
  have "(2::int) ^ (LENGTH('a) - 1) \<le> 64 * 128 ^ (bytes_needed N - 1)"
    using assms by (auto simp: leb_width_def bytes_needed_def)
  then have r: "- (64 * 128 ^ (bytes_needed N - 1)) \<le> sint v" "sint v < 64 * 128 ^ (bytes_needed N - 1)"
    using sint_greater_eq [of v] sint_less [of v] by simp_all
  have "0 + (bytes_needed N - 1) + 1 = bytes_needed N" by (simp add: bytes_needed_def)
  from varint_from_loop_spec [OF len this r, of "[]"] obtain bs where
    bs: "varint_from_loop N v [] 0 = ([] @ bs, 0 + length bs - 1)" "leb_complete bs" "leb_svalue bs = sint v"
      "0 + length bs \<le> bytes_needed N"
    by blast
  have "length bs - 1 + 1 = length bs" using bs(2) by (cases bs) auto
  with bs show ?thesis
    by (intro exI [of _ bs]) (simp add: varint_from_def)
qed

lemma sign_fill:
  fixes w :: "'a :: len word"
  assumes "LENGTH('a) \<le> 64" and "unat w < 2 ^ k"
  shows "w OR ucast (push_bit k (- 1 :: u64)) = w + word_of_int (- (2 ^ k))"
proof -
  have u: "(ucast (push_bit k (- 1 :: u64)) :: 'a word) = push_bit k (- 1)"
    using assms(1) by (intro bit_eqI) (auto simp: bit_simps)
  have "take_bit k w = w"
    using assms(2) by (metis unat_take_bit mod_less unsigned_word_eqI)
  then have "w AND push_bit k (- 1) = 0"
    by (intro bit_eqI) (metis bit_and_iff bit_push_bit_iff bit_take_bit_iff bit_0_eq bot_apply bot_bool_def not_le)
  then have "w OR push_bit k (- 1) = w + push_bit k (- 1)"
    by (simp add: disjunctive_add_eq_or)
  then show ?thesis
    unfolding u by (simp add: push_bit_eq_mult)
qed

lemma varint_to_value:
  assumes "leb_width N" and "LENGTH('a) = N" and "bs \<noteq> []" and "length bs \<le> bytes_needed N"
  shows "varint_to N \<lparr>storage = bs, bytes_used = length bs\<rparr> = (word_of_int (leb_svalue bs) :: 'a :: len word)"
proof (cases "length bs < bytes_needed N \<and> last bs AND 0x40 \<noteq> 0")
  case True
  let ?w = "leb_accumulate bs :: 'a word"
  have lt: "leb_value bs < 2 ^ LENGTH('a)"
    using leb_value_width [OF assms(1)] True assms(2) by simp
  have pow: "(128::nat) ^ length bs = 2 ^ (length bs * 7)"
    by (simp add: mult.commute [of "length bs"] power_mult)
  have "unat ?w < 2 ^ (length bs * 7)"
    using leb_accumulate_nat [OF lt] leb_value_bound [of bs] by (simp add: pow)
  moreover have "LENGTH('a) \<le> 64" using assms by (auto simp: leb_width_def)
  ultimately have "?w OR ucast (push_bit (length bs * 7) (- 1 :: u64)) = ?w + word_of_int (- (2 ^ (length bs * 7)))"
    by (intro sign_fill)
  moreover have "storage \<lparr>storage = bs, bytes_used = length bs\<rparr> ! (length bs - 1) = last bs"
    using assms(3) by (simp add: last_conv_nth)
  moreover have "(128::int) ^ length bs = 2 ^ (length bs * 7)"
    using arg_cong [OF pow, of int] by simp
  ultimately show ?thesis
    using True assms(3) by (simp add: varint_to_def Let_def leb_svalue_def leb_accumulate_value Suc_le_eq)
next
  case False
  then consider "length bs = bytes_needed N" "last bs AND 0x40 \<noteq> 0" | "last bs AND 0x40 = 0"
    using assms(4) by fastforce
  then show ?thesis
  proof cases
    case 1
    then have "LENGTH('a) \<le> 7 * length bs" using assms by (auto simp: leb_width_def bytes_needed_def)
    then have "(2::int) ^ LENGTH('a) dvd 2 ^ (7 * length bs)" by (rule le_imp_power_dvd)
    then have "(2::int) ^ LENGTH('a) dvd 128 ^ length bs" by (simp add: power_mult)
    then have "(word_of_int (128 ^ length bs) :: 'a word) = 0"
      by (simp only: word_of_int_eq_0_iff)
    with 1 show ?thesis
      by (simp add: varint_to_def Let_def leb_svalue_def leb_accumulate_value)
  next
    case 2
    with assms(3) show ?thesis
      by (simp add: varint_to_def Let_def leb_svalue_def leb_accumulate_value last_conv_nth)
  qed
qed


lemma varint_from_code_complete:
  assumes "gp_wf g" and "leb_complete bs" and "leb_at g 0 bs" and "length bs \<le> bytes_needed N"
    and "length bs = bytes_needed N \<longrightarrow> sign_bits_ok N (last bs)"
  shows "varint_from_code N g =
    Inr (\<lparr>storage = bs, bytes_used = length bs\<rparr>, g\<lparr>raw_ptr := raw_ptr g + length bs\<rparr>)"
proof -
  have "length bs - 1 + 1 = length bs" using assms(2) by (cases bs) auto
  then show ?thesis
    using leb_parse_complete [OF assms(1-3), of N "sign_bits_ok N"] assms(4,5) leb_at_advance [OF assms(1,3)]
    by (simp add: varint_from_code_def)
qed

lemma varint_from_code_sound:
  assumes "gp_wf g" and "varint_from_code N g = Inr (l, g')"
  shows "\<exists>bs. l = \<lparr>storage = bs, bytes_used = length bs\<rparr> \<and> leb_complete bs \<and> leb_at g 0 bs \<and>
    length bs \<le> bytes_needed N \<and> (length bs = bytes_needed N \<longrightarrow> sign_bits_ok N (last bs)) \<and>
    g' = g\<lparr>raw_ptr := raw_ptr g + length bs\<rparr>"
proof -
  from assms(2) obtain st cnt where
    "leb_parse_loop N (sign_bits_ok N)
       (wasm_parse_exception ''unused bits of signed leb128 must be the same as the sign bit'') g [] 0 = Inr (st, cnt)"
    and rest: "bindR (gp_plus g (cnt + 1)) (\<lambda>code'. Inr (\<lparr>storage = st, bytes_used = cnt + 1\<rparr>, code')) = Inr (l, g')"
    by (auto simp: varint_from_code_def bindR_eq_Inr)
  from leb_parse_sound [OF assms(1) this(1)] obtain bs where
    "st = bs" "cnt + 1 = length bs" "leb_complete bs" "leb_at g 0 bs" "length bs \<le> bytes_needed N"
    "length bs = bytes_needed N \<longrightarrow> sign_bits_ok N (last bs)"
    by auto
  with rest leb_at_advance [OF assms(1), of bs] show ?thesis by auto
qed

lemma varint_read_back:
  fixes v :: "'a :: len word"
  assumes "leb_width N" and "LENGTH('a) = N" and "gp_wf g" and "leb_at g 0 (storage (varint_from N v))"
  shows "\<exists>l. varint_from_code N g = Inr (l, g\<lparr>raw_ptr := raw_ptr g + bytes_used (varint_from N v)\<rparr>) \<and>
    varint_to N l = v"
proof -
  obtain bs where bs: "varint_from N v = \<lparr>storage = bs, bytes_used = length bs\<rparr>" "leb_complete bs"
    "leb_svalue bs = sint v" "length bs \<le> bytes_needed N"
    using varint_from_spec [OF assms(1,2)] by blast
  have ne: "bs \<noteq> []" using bs(2) by auto
  have "length bs = bytes_needed N \<longrightarrow> sign_bits_ok N (last bs)"
    using sign_bits_ok_value [OF assms(1) ne] bs(3) sint_greater_eq [of v] sint_less [of v] assms(2) by auto
  then have "varint_from_code N g =
      Inr (\<lparr>storage = bs, bytes_used = length bs\<rparr>, g\<lparr>raw_ptr := raw_ptr g + length bs\<rparr>)"
    using assms(3,4) bs by (intro varint_from_code_complete) auto
  then show ?thesis
    using bs varint_to_value [OF assms(1,2) ne bs(4)] by (intro exI [of _ "varint_from N v"]) simp
qed

lemma varint_code_value:
  assumes "leb_width N" and "LENGTH('a) = N" and "gp_wf g" and "varint_from_code N g = Inr (l, g')"
  shows "sint (varint_to N l :: 'a :: len word) = leb_svalue (storage l) \<and>
    leb_at g 0 (storage l) \<and> leb_complete (storage l) \<and> 1 \<le> bytes_used l \<and> bytes_used l \<le> bytes_needed N \<and>
    raw_ptr g' = raw_ptr g + bytes_used l \<and> gp_wf g'"
proof -
  obtain bs where bs: "l = \<lparr>storage = bs, bytes_used = length bs\<rparr>" "leb_complete bs" "leb_at g 0 bs"
    "length bs \<le> bytes_needed N" "length bs = bytes_needed N \<longrightarrow> sign_bits_ok N (last bs)"
    "g' = g\<lparr>raw_ptr := raw_ptr g + length bs\<rparr>"
    using varint_from_code_sound [OF assms(3,4)] by blast
  have ne: "bs \<noteq> []" using bs(2) by auto
  have "- (2 ^ (N - 1)) \<le> leb_svalue bs \<and> leb_svalue bs < 2 ^ (N - 1)"
    using sign_bits_ok_value [OF assms(1) ne] leb_svalue_width [OF assms(1) ne] bs(4,5)
    by (metis le_neq_implies_less)
  then have "sint (word_of_int (leb_svalue bs) :: 'a word) = leb_svalue bs"
    using assms(2) by (simp add: signed_of_int signed_take_bit_int_eq_self)
  moreover have "gp_wf g'"
    using assms(3) bs(3,6) by (auto simp: gp_wf_def leb_at_def)
  ultimately show ?thesis
    using bs varint_to_value [OF assms(1,2) ne bs(4)] ne by (auto simp: Suc_le_eq)
qed


subsection \<open>Properties\<close>

definition gp_in :: "u8 list \<Rightarrow> u8 list \<Rightarrow> u8 list \<Rightarrow> gptr" where
  "gp_in pre bs suf = \<lparr>gp_buf = pre @ bs @ suf, raw_ptr = length pre, bnds = length pre + length bs + length suf\<rparr>"

lemma gp_in_wf: "length pre + length bs + length suf < 2 ^ 64 \<Longrightarrow> gp_wf (gp_in pre bs suf)"
  by (simp add: gp_in_def gp_wf_def)

lemma gp_in_at: "leb_at (gp_in pre bs suf) 0 bs"
  by (simp add: gp_in_def leb_at_def nth_append)

definition reads_back :: "(gptr \<Rightarrow> (leb \<times> gptr) res) \<Rightarrow> (leb \<Rightarrow> 'a) \<Rightarrow> u8 list \<Rightarrow> leb \<Rightarrow> u8 list \<Rightarrow> 'a \<Rightarrow> bool" where
  "reads_back from_code to pre l suf v \<longleftrightarrow>
     (case from_code (gp_in pre (storage l) suf) of
        Inr (l', g') \<Rightarrow> to l' = v \<and> g' = (gp_in pre (storage l) suf)\<lparr>raw_ptr := length pre + bytes_used l\<rparr>
      | Inl _ \<Rightarrow> False)"

lemma varuint_reads_back:
  fixes v :: "'a :: len word"
  assumes "leb_width N" and "LENGTH('a) = N" and "length pre + 10 + length suf < 2 ^ 64"
  shows "reads_back (varuint_from_code N) varuint_to pre (varuint_from N v) suf v"
proof -
  have "length (storage (varuint_from N v)) \<le> bytes_needed N"
    using varuint_from_spec [OF assms(1,2), of v] by auto
  also have "\<dots> \<le> 10" by (simp add: bytes_needed_def)
  finally have "gp_wf (gp_in pre (storage (varuint_from N v)) suf)"
    using assms(3) by (intro gp_in_wf) simp
  from varuint_read_back [OF assms(1,2) this gp_in_at]
  show ?thesis by (auto simp: reads_back_def gp_in_def)
qed

lemma varint_reads_back:
  fixes v :: "'a :: len word"
  assumes "leb_width N" and "LENGTH('a) = N" and "length pre + 10 + length suf < 2 ^ 64"
  shows "reads_back (varint_from_code N) (varint_to N) pre (varint_from N v) suf v"
proof -
  have "length (storage (varint_from N v)) \<le> bytes_needed N"
    using varint_from_spec [OF assms(1,2), of v] by auto
  also have "\<dots> \<le> 10" by (simp add: bytes_needed_def)
  finally have "gp_wf (gp_in pre (storage (varint_from N v)) suf)"
    using assms(3) by (intro gp_in_wf) simp
  from varint_read_back [OF assms(1,2) this gp_in_at]
  show ?thesis by (auto simp: reads_back_def gp_in_def)
qed

definition leb_consumed :: "nat \<Rightarrow> gptr \<Rightarrow> leb \<Rightarrow> gptr \<Rightarrow> bool" where
  "leb_consumed N g l g' \<longleftrightarrow>
     leb_at g 0 (storage l) \<and> leb_complete (storage l) \<and> 1 \<le> bytes_used l \<and> bytes_used l \<le> bytes_needed N \<and>
     raw_ptr g' = raw_ptr g + bytes_used l \<and> gp_wf g'"

lemma varuint_code_defined: "gp_wf g \<Longrightarrow> \<not> is_undefined (varuint_from_code N g)"
  using leb_parse_defined [of g] by (auto simp: varuint_from_code_def is_undefined_bindR gp_plus_def is_undefined_assertR)

lemma varint_code_defined: "gp_wf g \<Longrightarrow> \<not> is_undefined (varint_from_code N g)"
  using leb_parse_defined [of g] by (auto simp: varint_from_code_def is_undefined_bindR gp_plus_def is_undefined_assertR)

text \<open>
  \<^bold>\<open>C34\<close>. Every 32-bit and every 64-bit unsigned value that is encoded with \<open>varuint::from\<close> and stands
  anywhere in a module's bytes is read back by \<open>varuint::from(code)\<close> and \<open>to()\<close> unchanged, and the
  pointer then stands right behind the encoding, whatever follows it.
\<close>

theorem varuint_roundtrip:
  assumes "length pre + 10 + length suf < 2 ^ 64"
  shows "reads_back (varuint_from_code 32) varuint_to pre (varuint_from 32 v) suf (v :: u32) \<and>
    reads_back (varuint_from_code 64) varuint_to pre (varuint_from 64 w) suf (w :: u64)"
  using assms by (simp add: varuint_reads_back leb_width_def)

theorem varuint_roundtrip_witness:
  "reads_back (varuint_from_code 32) varuint_to [1, 2] (varuint_from 32 (624485 :: u32)) [9] (624485 :: u32) \<and>
   storage (varuint_from 32 (624485 :: u32)) = [0xe5, 0x8e, 0x26]"
proof
  show "reads_back (varuint_from_code 32) varuint_to [1, 2] (varuint_from 32 (624485 :: u32)) [9] (624485 :: u32)"
    using varuint_roundtrip [of "[1, 2]" "[9]" 624485 0] by simp
  show "storage (varuint_from 32 (624485 :: u32)) = [0xe5, 0x8e, 0x26]" by code_simp
qed

text \<open>
  \<^bold>\<open>C35\<close>. The signed encoding round-trips likewise at both widths: \<open>varint::from\<close> stops at the first
  digit whose bit 6 repeats the remaining bits, and \<open>varint::_to\<close> restores the sign from that bit.
\<close>

theorem varint_roundtrip:
  assumes "length pre + 10 + length suf < 2 ^ 64"
  shows "reads_back (varint_from_code 32) (varint_to 32) pre (varint_from 32 v) suf (v :: u32) \<and>
    reads_back (varint_from_code 64) (varint_to 64) pre (varint_from 64 w) suf (w :: u64)"
  using assms by (simp add: varint_reads_back leb_width_def)

theorem varint_roundtrip_witness:
  "reads_back (varint_from_code 32) (varint_to 32) [1, 2] (varint_from 32 (- 123456 :: u32)) [9] (- 123456 :: u32) \<and>
   storage (varint_from 32 (- 123456 :: u32)) = [0xc0, 0xbb, 0x78]"
proof
  show "reads_back (varint_from_code 32) (varint_to 32) [1, 2] (varint_from 32 (- 123456 :: u32)) [9] (- 123456 :: u32)"
    using varint_roundtrip [of "[1, 2]" "[9]" "- 123456" 0] by simp
  show "storage (varint_from 32 (- 123456 :: u32)) = [0xc0, 0xbb, 0x78]" by code_simp
qed

text \<open>
  \<^bold>\<open>C36\<close>. Reading is exact and bounded, on arbitrary bytes. A read that succeeds consumed between one
  and five (ten) bytes, all inside the bounds and closed by the first byte without continuation bit,
  and its result is the mathematical value of those digits, unsigned or in two's complement: no
  significant bit is ever dropped. A read that fails throws; it never loads outside the buffer.
\<close>

theorem leb_decode_exact:
  assumes "gp_wf g"
  shows "\<not> is_undefined (varuint_from_code N g) \<and> \<not> is_undefined (varint_from_code N g) \<and>
    (\<forall>l g'. varuint_from_code 32 g = Inr (l, g') \<longrightarrow>
       unat (varuint_to l :: u32) = leb_value (storage l) \<and> leb_consumed 32 g l g') \<and>
    (\<forall>l g'. varuint_from_code 64 g = Inr (l, g') \<longrightarrow>
       unat (varuint_to l :: u64) = leb_value (storage l) \<and> leb_consumed 64 g l g') \<and>
    (\<forall>l g'. varint_from_code 32 g = Inr (l, g') \<longrightarrow>
       sint (varint_to 32 l :: u32) = leb_svalue (storage l) \<and> leb_consumed 32 g l g') \<and>
    (\<forall>l g'. varint_from_code 64 g = Inr (l, g') \<longrightarrow>
       sint (varint_to 64 l :: u64) = leb_svalue (storage l) \<and> leb_consumed 64 g l g')"
  using varuint_code_defined [OF assms] varint_code_defined [OF assms]
    varuint_code_value [where 'a = 32, of 32, OF _ _ assms] varuint_code_value [where 'a = 64, of 64, OF _ _ assms]
    varint_code_value [where 'a = 32, of 32, OF _ _ assms] varint_code_value [where 'a = 64, of 64, OF _ _ assms]
  by (simp add: leb_width_def leb_consumed_def)

theorem leb_decode_exact_witness:
  "sint (varint_to 32 \<lparr>storage = [0xc0, 0xbb, 0x78], bytes_used = 3\<rparr> :: u32) = leb_svalue [0xc0, 0xbb, 0x78]"
proof -
  have "varint_from_code 32 (gp_in [] [0xc0, 0xbb, 0x78] []) =
      Inr (\<lparr>storage = [0xc0, 0xbb, 0x78], bytes_used = 3\<rparr>,
           (gp_in [] [0xc0, 0xbb, 0x78] [])\<lparr>raw_ptr := 3\<rparr>)"
    by code_simp
  then show ?thesis
    using leb_decode_exact [OF gp_in_wf, of "[]" "[0xc0, 0xbb, 0x78]" "[]"] by simp
qed

end
