(* ===== verification/Gas.thy ===== *)
theory Gas
  imports Psz_Prelude
begin

unbundle bit_operations_syntax

section \<open>Gas metering\<close>

text \<open>
  \<open>psizam/gas.hpp\<close>, \<open>psizam/gas_pool.hpp\<close>, \<open>psizam/detail/gas_injector.hpp\<close>, the charge of
  \<open>psizam/detail/execution_context.hpp\<close> and the instance life cycle of \<open>psizam/src/runtime.cpp\<close>: the
  counter every function entry and loop header pays into, the shared pool instances lease from, the
  capability bits, and the parse-time accumulator of heavy-opcode weights. Counters are 64-bit words,
  as in the code; an operation that throws returns the state it leaves behind beside the exception.
\<close>

subsection \<open>The counter\<close>

record gas_state =
  consumed :: u64
  deadline :: u64

definition gas_state_init :: gas_state where
  "gas_state_init = \<lparr>consumed = 0, deadline = - 1\<rparr>"

text \<open>\<open>'p\<close> is what the handler's \<open>user_data\<close> points to; no handler is \<open>None\<close>.\<close>

type_synonym 'p gas_handler = "gas_state \<Rightarrow> 'p \<Rightarrow> gas_state \<times> 'p \<times> unit res"

definition gas_charge :: "'p gas_handler option \<Rightarrow> u64 \<Rightarrow> gas_state \<Rightarrow> 'p \<Rightarrow> gas_state \<times> 'p \<times> unit res" where
  "gas_charge h cost g ud =
     (let g' = g\<lparr>consumed := consumed g + cost\<rparr> in
      if consumed g' \<ge> deadline g' then
        (case h of Some f \<Rightarrow> f g' ud
         | None \<Rightarrow> (g', ud, Inl (wasm_gas_exhausted_exception ''gas exhausted'')))
      else (g', ud, Inr ()))"

definition set_gas_deadline :: "u64 \<Rightarrow> gas_state \<Rightarrow> gas_state" where
  "set_gas_deadline v g = g\<lparr>deadline := v\<rparr>"

definition set_gas_budget :: "u64 \<Rightarrow> gas_state \<Rightarrow> gas_state" where
  "set_gas_budget budget g = g\<lparr>consumed := 0, deadline := budget\<rparr>"

subsection \<open>The pool\<close>

record gas_pool =
  remaining :: u64
  lease_size :: u64

definition gas_pool_new :: "u64 \<Rightarrow> u64 \<Rightarrow> gas_pool" where
  "gas_pool_new budget lease = \<lparr>remaining = budget, lease_size = lease\<rparr>"

definition pool_balance :: "gas_pool \<Rightarrow> u64" where
  "pool_balance p = remaining p"

definition pool_add :: "u64 \<Rightarrow> gas_pool \<Rightarrow> gas_pool" where
  "pool_add delta p = p\<lparr>remaining := remaining p + delta\<rparr>"

definition try_lease :: "u64 \<Rightarrow> gas_pool \<Rightarrow> gas_pool \<times> u64" where
  "try_lease want p =
     (let prev = remaining p; p' = p\<lparr>remaining := prev - want\<rparr> in
      if prev \<ge> want then (p', want)
      else (p'\<lparr>remaining := remaining p' + want\<rparr>, 0))"

definition pool_yield_handler :: "gas_pool gas_handler" where
  "pool_yield_handler g pool =
     (let (pool', lease) = try_lease (lease_size pool) pool in
      if lease = 0 then (g, pool', Inl (wasm_gas_exhausted_exception ''gas_pool: exhausted''))
      else (g\<lparr>deadline := deadline g + lease\<rparr>, pool', Inr ()))"

subsection \<open>Instances on a pool\<close>

text \<open>
  The gas part of \<open>instance_impl\<close>: the backend's own counter, the \<open>local_gas\<close> and \<open>shared_gas\<close>
  fields, and whether a pool is attached. \<open>instantiate\<close> stores the policy's budget in \<open>local_gas\<close>
  and, with a pool, leases the backend's first deadline; the destructor credits the unused lease.
\<close>

record instance_impl =
  be_gas :: gas_state
  local_gas :: gas_state
  shared_gas :: "gas_state option"
  pooled :: bool

definition active_gas :: "instance_impl \<Rightarrow> gas_state" where
  "active_gas i = (case shared_gas i of Some g \<Rightarrow> g | None \<Rightarrow> local_gas i)"

definition store_active_deadline :: "u64 \<Rightarrow> instance_impl \<Rightarrow> instance_impl" where
  "store_active_deadline d i =
     (case shared_gas i of
        Some g \<Rightarrow> i\<lparr>shared_gas := Some (g\<lparr>deadline := d\<rparr>)\<rparr>
      | None \<Rightarrow> i\<lparr>local_gas := (local_gas i)\<lparr>deadline := d\<rparr>\<rparr>)"

definition set_deadline :: "u64 \<Rightarrow> instance_impl \<Rightarrow> instance_impl" where
  "set_deadline d i = store_active_deadline d i"

definition interrupt :: "instance_impl \<Rightarrow> instance_impl" where
  "interrupt i = store_active_deadline 0 i"

text \<open>\<open>None\<close>: the runtime throws because the pool is exhausted at instance creation.\<close>

definition instantiate_gas ::
  "u64 \<Rightarrow> gas_state option \<Rightarrow> gas_pool option \<Rightarrow> instance_impl option \<times> gas_pool option" where
  "instantiate_gas gas_budget shared pool =
     (let i = \<lparr>be_gas = gas_state_init,
               local_gas = (if shared = None then gas_state_init\<lparr>deadline := gas_budget\<rparr> else gas_state_init),
               shared_gas = shared, pooled = False\<rparr>
      in case pool of
           None \<Rightarrow> (Some i, None)
         | Some p \<Rightarrow>
             (let (p', lease) = try_lease (lease_size p) p in
              if lease = 0 then (None, Some p')
              else (Some (i\<lparr>pooled := True, be_gas := set_gas_budget lease (be_gas i)\<rparr>), Some p')))"

definition teardown_gas :: "instance_impl \<Rightarrow> gas_pool \<Rightarrow> gas_pool" where
  "teardown_gas i p =
     (if pooled i \<and> deadline (be_gas i) > consumed (be_gas i)
      then p\<lparr>remaining := remaining p + (deadline (be_gas i) - consumed (be_gas i))\<rparr> else p)"

definition instance_charge :: "u64 \<Rightarrow> instance_impl \<Rightarrow> gas_pool \<Rightarrow> instance_impl \<times> gas_pool \<times> unit res" where
  "instance_charge cost i p =
     (let (g, p', r) = gas_charge (if pooled i then Some pool_yield_handler else None) cost (be_gas i) p
      in (i\<lparr>be_gas := g\<rparr>, p', r))"

subsection \<open>Capability bits and codegen shapes\<close>

type_synonym meter_cap = u16

definition cap_none :: meter_cap where "cap_none = 0"
definition gas_budget :: meter_cap where "gas_budget = push_bit 0 1"
definition wall_budget :: meter_cap where "wall_budget = push_bit 1 1"
definition yield_cap :: meter_cap where "yield_cap = push_bit 2 1"
definition interrupt_cap :: meter_cap where "interrupt_cap = push_bit 3 1"
definition pool_cap :: meter_cap where "pool_cap = push_bit 4 1"

definition has_caps :: "meter_cap \<Rightarrow> meter_cap \<Rightarrow> bool" where
  "has_caps m bits \<longleftrightarrow> m AND bits = bits"

definition any_cap :: "meter_cap \<Rightarrow> bool" where
  "any_cap m \<longleftrightarrow> m \<noteq> 0"

definition is_valid :: "meter_cap \<Rightarrow> bool" where
  "is_valid f =
     (let any_budget = any_cap (f AND (gas_budget OR wall_budget)) in
      if has_caps f yield_cap \<and> \<not> any_budget then False
      else if has_caps f interrupt_cap \<and> \<not> any_budget then False
      else if has_caps f pool_cap \<and> \<not> has_caps f gas_budget then False
      else True)"

definition missing :: "meter_cap \<Rightarrow> meter_cap \<Rightarrow> meter_cap" where
  "missing have_caps want = want AND NOT have_caps"

definition compatible :: "meter_cap \<Rightarrow> meter_cap \<Rightarrow> bool" where
  "compatible have_caps want \<longleftrightarrow> missing have_caps want = cap_none"

definition unused_caps :: "meter_cap \<Rightarrow> meter_cap \<Rightarrow> meter_cap" where
  "unused_caps have_caps want = have_caps AND NOT want"

text \<open>\<open>meter_presets\<close>, in the order of the header.\<close>

definition meter_presets :: "meter_cap list" where
  "meter_presets =
     (let both_poll = gas_budget OR wall_budget OR yield_cap OR interrupt_cap in
      [cap_none, gas_budget, gas_budget OR yield_cap, wall_budget OR yield_cap, gas_budget OR interrupt_cap,
       gas_budget OR yield_cap OR interrupt_cap, wall_budget OR yield_cap OR interrupt_cap, both_poll,
       both_poll OR pool_cap])"

datatype codegen_shape = shape_none | dtd_only | dtd_with_refresh

definition shape_for :: "meter_cap \<Rightarrow> codegen_shape" where
  "shape_for f =
     (if \<not> any_cap (f AND (gas_budget OR wall_budget)) then shape_none
      else if has_caps f interrupt_cap then dtd_with_refresh else dtd_only)"

subsection \<open>Heavy-opcode accumulation\<close>

definition cost_regular :: int where "cost_regular = 1"
definition cost_div_rem :: int where "cost_div_rem = 10"
definition cost_call_indirect :: int where "cost_call_indirect = 5"

text \<open>
  Opcode bytes as in \<open>opcodes_def.hpp\<close>: \<open>i64_div_s .. i64_rem_u\<close> are \<open>0x7F .. 0x82\<close>, \<open>f32_div\<close> is
  \<open>0x95\<close>, \<open>f64_div\<close> is \<open>0xA3\<close>, \<open>call_indirect\<close> is \<open>0x11\<close>.
\<close>

definition gas_heavy_extra_for :: "u8 \<Rightarrow> int" where
  "gas_heavy_extra_for b =
     (if b = 0x7f \<or> b = 0x80 \<or> b = 0x81 \<or> b = 0x82 \<or> b = 0x95 \<or> b = 0xa3 then cost_div_rem - cost_regular
      else if b = 0x11 then cost_call_indirect - cost_regular
      else 0)"

text \<open>\<open>loop_stack.back()\<close> is the head of the list.\<close>

record gas_injection_state =
  loop_stack :: "int list"
  prepay_extra :: int

definition inj_reset :: "gas_injection_state \<Rightarrow> gas_injection_state" where
  "inj_reset s = s\<lparr>prepay_extra := 0, loop_stack := []\<rparr>"

definition on_opcode :: "u8 \<Rightarrow> gas_injection_state \<Rightarrow> gas_injection_state" where
  "on_opcode b s =
     (let extra = gas_heavy_extra_for b in
      if extra = 0 then s
      else case loop_stack s of
             x # xs \<Rightarrow> s\<lparr>loop_stack := (x + extra) # xs\<rparr>
           | [] \<Rightarrow> s\<lparr>prepay_extra := prepay_extra s + extra\<rparr>)"

definition on_loop_enter :: "gas_injection_state \<Rightarrow> gas_injection_state" where
  "on_loop_enter s = s\<lparr>loop_stack := 0 # loop_stack s\<rparr>"

definition on_loop_exit :: "gas_injection_state \<Rightarrow> gas_injection_state \<times> int" where
  "on_loop_exit s =
     (case loop_stack s of [] \<Rightarrow> (s, 0) | x # xs \<Rightarrow> (s\<lparr>loop_stack := xs\<rparr>, x))"


subsection \<open>Leasing\<close>

lemma unat_plus_bound: "unat a + unat b < 2 ^ LENGTH('a) \<Longrightarrow> unat (a + b :: 'a :: len word) = unat a + unat b"
  by (simp add: unat_word_ariths)

lemma unat_plus_le: "unat (a + b :: 'a :: len word) \<le> unat a + unat b"
  by (simp add: unat_word_ariths)

lemma try_lease_eq:
  "try_lease w p = (if w \<le> remaining p then (p\<lparr>remaining := remaining p - w\<rparr>, w) else (p, 0))"
  by (simp add: try_lease_def Let_def)

lemma try_lease_grant:
  assumes "try_lease w p = (p', l)" and "l \<noteq> 0"
  shows "l = w \<and> unat (remaining p') + unat w = unat (remaining p)"
  using assms by (auto simp: try_lease_eq unat_sub word_le_nat_alt split: if_splits)

lemma try_lease_size: "try_lease w p = (p', l) \<Longrightarrow> lease_size p' = lease_size p"
  by (auto simp: try_lease_eq split: if_splits)

text \<open>
  What a gas handler promises to the charge that calls it: it never touches \<open>consumed\<close>; if it
  returns, it has paid for every unit by which the deadline moved, and has paid something; if it
  throws, nothing moved.
\<close>

locale lease_handler =
  fixes h :: "'p gas_handler" and bal :: "'p \<Rightarrow> nat"
  assumes lease_paid: "h g p = (g', p', Inr ()) \<Longrightarrow>
      consumed g' = consumed g \<and> (\<exists>l > 0. bal p = bal p' + l \<and> unat (deadline g') \<le> unat (deadline g) + l)"
    and lease_refused: "h g p = (g', p', Inl e) \<Longrightarrow> g' = g \<and> bal p' = bal p"
begin

definition fuel :: "gas_state \<Rightarrow> 'p \<Rightarrow> nat" where
  "fuel g p = 2 * bal p + (unat (deadline g) - unat (consumed g))"

lemma charge_progress:
  assumes "gas_charge (Some h) cost g p = (g', p', Inr ())" and "0 < cost"
    and "unat (consumed g) + unat cost < 2 ^ 64"
  shows "fuel g' p' < fuel g p \<and> unat (consumed g') = unat (consumed g) + unat cost"
proof -
  let ?g = "g\<lparr>consumed := consumed g + cost\<rparr>"
  have c: "unat (consumed g + cost) = unat (consumed g) + unat cost"
    using assms(3) by (simp add: unat_plus_bound)
  have pos: "0 < unat cost" using assms(2) by (simp add: word_less_nat_alt)
  show ?thesis
  proof (cases "deadline g \<le> consumed g + cost")
    case True
    then have "h ?g p = (g', p', Inr ())"
      using assms(1) by (simp add: gas_charge_def)
    from lease_paid [OF this] obtain l where l: "consumed g' = consumed g + cost" "0 < l" "bal p = bal p' + l"
      "unat (deadline g') \<le> unat (deadline g) + l" by auto
    have "unat (deadline g) \<le> unat (consumed g) + unat cost"
      using True c by (simp add: word_le_nat_alt)
    then show ?thesis using l c by (auto simp: fuel_def)
  next
    case False
    then have "g' = ?g" "p' = p"
      using assms(1) by (simp_all add: gas_charge_def)
    moreover have "unat (consumed g) + unat cost < unat (deadline g)"
      using False c by (simp add: word_le_nat_alt)
    ultimately show ?thesis using c pos by (simp add: fuel_def)
  qed
qed

lemma charge_refused:
  assumes "gas_charge (Some h) cost g p = (g', p', Inl e)"
  shows "bal p' = bal p \<and> deadline g' = deadline g \<and> deadline g' \<le> consumed g'"
  using assms lease_refused [of "g\<lparr>consumed := consumed g + cost\<rparr>" p g' p' e]
  by (auto simp: gas_charge_def Let_def split: if_splits)

end

interpretation pool_lease: lease_handler pool_yield_handler "\<lambda>p. unat (remaining p)"
proof
  fix g g' p p'
  assume "pool_yield_handler g p = (g', p', Inr ())"
  then obtain l where l: "try_lease (lease_size p) p = (p', l)" "l \<noteq> 0" "g' = g\<lparr>deadline := deadline g + l\<rparr>"
    by (auto simp: pool_yield_handler_def split: prod.splits if_splits)
  then show "consumed g' = consumed g \<and> (\<exists>l > 0. unat (remaining p) = unat (remaining p') + l \<and>
      unat (deadline g') \<le> unat (deadline g) + l)"
    using try_lease_grant [OF l(1,2)] unat_plus_le [of "deadline g" l]
    by (intro conjI exI [of _ "unat l"]) (auto simp: unat_gt_0)
next
  fix g g' p p' e
  assume "pool_yield_handler g p = (g', p', Inl e)"
  then show "g' = g \<and> unat (remaining p') = unat (remaining p)"
    by (auto simp: pool_yield_handler_def try_lease_eq split: prod.splits if_splits)
qed

text \<open>An execution, seen by the meter: the charges it makes, until one throws.\<close>

fun run_charges :: "'p gas_handler option \<Rightarrow> u64 list \<Rightarrow> gas_state \<Rightarrow> 'p \<Rightarrow> gas_state \<times> 'p \<times> unit res" where
  "run_charges h [] g p = (g, p, Inr ())"
| "run_charges h (c # cs) g p =
     (case gas_charge h c g p of
        (g', p', Inr ()) \<Rightarrow> run_charges h cs g' p'
      | (g', p', Inl e) \<Rightarrow> (g', p', Inl e))"

context lease_handler
begin

lemma run_bounded:
  assumes "run_charges (Some h) cs g p = (g', p', Inr ())" and "\<forall>c \<in> set cs. 0 < c"
    and "unat (consumed g) + sum_list (map unat cs) < 2 ^ 64"
  shows "length cs + fuel g' p' \<le> fuel g p"
  using assms
proof (induction cs arbitrary: g p)
  case Nil
  then show ?case by simp
next
  case (Cons c cs)
  from Cons.prems(1) obtain g1 p1 where step: "gas_charge (Some h) c g p = (g1, p1, Inr ())"
    and rest: "run_charges (Some h) cs g1 p1 = (g', p', Inr ())"
    by (auto split: prod.splits sum.splits unit.splits)
  have "fuel g1 p1 < fuel g p \<and> unat (consumed g1) = unat (consumed g) + unat c"
    using charge_progress [OF step] Cons.prems(2,3) by simp
  moreover have "length cs + fuel g' p' \<le> fuel g1 p1"
    using Cons.prems(2,3) calculation by (intro Cons.IH [OF rest]) auto
  ultimately show ?case by simp
qed

end

subsection \<open>A pool and its instances\<close>

text \<open>
  A pool with the instances attached to it. \<open>granted\<close> and \<open>spent\<close> are bookkeeping of the proof: what
  the host has put into the pool, and what the instances torn down had paid for and used.
\<close>

datatype pool_event = Instantiate u64 | Charge nat u64 | Teardown nat | Refill u64

record pool_system =
  sys_pool :: gas_pool
  live :: "instance_impl list"
  granted :: nat
  spent :: nat

definition pool_step :: "pool_event \<Rightarrow> pool_system \<Rightarrow> pool_system" where
  "pool_step e s =
     (case e of
        Instantiate b \<Rightarrow>
          (case instantiate_gas b None (Some (sys_pool s)) of
             (Some i, Some p) \<Rightarrow> s\<lparr>sys_pool := p, live := live s @ [i]\<rparr>
           | (None, Some p) \<Rightarrow> s\<lparr>sys_pool := p\<rparr>
           | _ \<Rightarrow> s)
      | Charge n cost \<Rightarrow>
          (if n < length (live s)
           then let (i, p, r) = instance_charge cost (live s ! n) (sys_pool s)
                in s\<lparr>sys_pool := p, live := (live s)[n := i]\<rparr>
           else s)
      | Teardown n \<Rightarrow>
          (if n < length (live s)
           then let i = live s ! n
                in s\<lparr>sys_pool := teardown_gas i (sys_pool s),
                     live := take n (live s) @ drop (Suc n) (live s),
                     spent := spent s + min (unat (consumed (be_gas i))) (unat (deadline (be_gas i)))\<rparr>
           else s)
      | Refill d \<Rightarrow> s\<lparr>sys_pool := pool_add d (sys_pool s), granted := granted s + unat d\<rparr>)"

definition outstanding :: "pool_system \<Rightarrow> nat" where
  "outstanding s = sum_list (map (\<lambda>i. unat (deadline (be_gas i))) (live s))"

definition pool_inv :: "pool_system \<Rightarrow> bool" where
  "pool_inv s \<longleftrightarrow> unat (remaining (sys_pool s)) + outstanding s + spent s = granted s \<and> (\<forall>i \<in> set (live s). pooled i)"

lemma sum_list_update_nat:
  "n < length xs \<Longrightarrow> sum_list (map f (xs[n := y])) + f (xs ! n) = sum_list (map f xs) + (f y :: nat)"
proof (induction xs arbitrary: n)
  case (Cons x xs)
  then show ?case by (cases n) auto
qed simp

lemma sum_list_remove_nat:
  "n < length xs \<Longrightarrow> sum_list (map f (take n xs @ drop (Suc n) xs)) + (f (xs ! n) :: nat) = sum_list (map f xs)"
proof (induction xs arbitrary: n)
  case (Cons x xs)
  then show ?case by (cases n) (auto simp: add.assoc)
qed simp

lemma sum_list_member_nat: "n < length xs \<Longrightarrow> (f (xs ! n) :: nat) \<le> sum_list (map f xs)"
  using sum_list_remove_nat [of n xs f] by linarith

lemma pool_inv_instantiate:
  assumes "pool_inv s"
  shows "pool_inv (pool_step (Instantiate b) s)"
proof (cases "lease_size (sys_pool s) \<le> remaining (sys_pool s) \<and> lease_size (sys_pool s) \<noteq> 0")
  case True
  then show ?thesis
    using assms
    by (auto simp: pool_step_def pool_inv_def instantiate_gas_def try_lease_eq set_gas_budget_def outstanding_def
        unat_sub word_le_nat_alt)
next
  case False
  then show ?thesis
    using assms by (auto simp: pool_step_def pool_inv_def instantiate_gas_def try_lease_eq outstanding_def)
qed

lemma pool_charge_accounts:
  assumes "instance_charge c i p = (i', p', r)" and "pooled i"
    and "unat (remaining p) + unat (deadline (be_gas i)) < 2 ^ 64"
  shows "unat (remaining p') + unat (deadline (be_gas i')) = unat (remaining p) + unat (deadline (be_gas i)) \<and> pooled i'"
proof -
  let ?g = "(be_gas i)\<lparr>consumed := consumed (be_gas i) + c\<rparr>"
  consider "i' = i\<lparr>be_gas := ?g\<rparr>" "p' = p"
    | l where "i' = i\<lparr>be_gas := ?g\<lparr>deadline := deadline (be_gas i) + l\<rparr>\<rparr>" "try_lease (lease_size p) p = (p', l)" "l \<noteq> 0"
    using assms(1,2)
    by (auto simp: instance_charge_def gas_charge_def pool_yield_handler_def try_lease_eq Let_def
        split: if_splits prod.splits)
  then show ?thesis
  proof cases
    case 1
    then show ?thesis using assms(2) by simp
  next
    case (2 l)
    from try_lease_grant [OF 2(2,3)] have "unat (remaining p') + unat l = unat (remaining p)" by simp
    moreover from this assms(3) have "unat (deadline (be_gas i) + l) = unat (deadline (be_gas i)) + unat l"
      by (intro unat_plus_bound) simp
    ultimately show ?thesis using 2(1) assms(2) by simp
  qed
qed

lemma pool_inv_charge:
  assumes "pool_inv s" and "granted s < 2 ^ 64"
  shows "pool_inv (pool_step (Charge n c) s)"
proof (cases "n < length (live s)")
  case True
  obtain i p r where ch: "instance_charge c (live s ! n) (sys_pool s) = (i, p, r)" by (metis prod_cases3)
  let ?f = "\<lambda>i. unat (deadline (be_gas i))"
  have "?f (live s ! n) \<le> outstanding s"
    unfolding outstanding_def using True by (rule sum_list_member_nat)
  then have "unat (remaining (sys_pool s)) + ?f (live s ! n) < 2 ^ 64"
    using assms by (simp add: pool_inv_def)
  from pool_charge_accounts [OF ch _ this] have
    acc: "unat (remaining p) + ?f i = unat (remaining (sys_pool s)) + ?f (live s ! n)" "pooled i"
    using assms(1) True by (auto simp: pool_inv_def)
  have "sum_list (map ?f ((live s)[n := i])) + ?f (live s ! n) = outstanding s + ?f i"
    unfolding outstanding_def using True by (rule sum_list_update_nat)
  with acc assms(1) True ch show ?thesis
    by (auto simp: pool_step_def pool_inv_def outstanding_def dest: set_update_subset_insert [THEN subsetD])
qed (use assms in \<open>simp add: pool_step_def\<close>)

lemma pool_inv_teardown:
  assumes "pool_inv s" and "granted s < 2 ^ 64"
  shows "pool_inv (pool_step (Teardown n) s)"
proof (cases "n < length (live s)")
  case True
  let ?f = "\<lambda>i. unat (deadline (be_gas i))" and ?i = "live s ! n"
  have rem: "sum_list (map ?f (take n (live s) @ drop (Suc n) (live s))) + ?f ?i = outstanding s"
    unfolding outstanding_def using True by (rule sum_list_remove_nat)
  have inv: "unat (remaining (sys_pool s)) + outstanding s + spent s = granted s" "pooled ?i"
    using assms(1) True by (auto simp: pool_inv_def)
  have "unat (remaining (teardown_gas ?i (sys_pool s))) =
      unat (remaining (sys_pool s)) + (?f ?i - min (unat (consumed (be_gas ?i))) (?f ?i))"
  proof (cases "deadline (be_gas ?i) > consumed (be_gas ?i)")
    case lt: True
    then have d: "unat (deadline (be_gas ?i) - consumed (be_gas ?i)) = ?f ?i - unat (consumed (be_gas ?i))"
      by (simp add: unat_sub word_less_nat_alt word_le_nat_alt)
    have "unat (remaining (sys_pool s)) + unat (deadline (be_gas ?i) - consumed (be_gas ?i)) < 2 ^ 64"
      using d rem inv(1) assms(2) by linarith
    then show ?thesis
      using lt inv(2) d by (simp add: teardown_gas_def unat_plus_bound word_less_nat_alt)
  next
    case False
    then show ?thesis by (simp add: teardown_gas_def word_less_nat_alt)
  qed
  then show ?thesis
    using True rem inv assms(1)
    by (auto simp: pool_step_def pool_inv_def outstanding_def Let_def dest: in_set_takeD in_set_dropD)
qed (use assms in \<open>simp add: pool_step_def\<close>)

lemma pool_inv_refill:
  assumes "pool_inv s" and "granted s + unat d < 2 ^ 64"
  shows "pool_inv (pool_step (Refill d) s)"
proof -
  have "unat (remaining (sys_pool s)) + unat d < 2 ^ 64"
    using assms by (simp add: pool_inv_def)
  then show ?thesis
    using assms by (simp add: pool_step_def pool_inv_def pool_add_def outstanding_def unat_plus_bound)
qed


lemma pool_step_granted: "granted s \<le> granted (pool_step e s)"
  by (auto simp: pool_step_def Let_def split: pool_event.splits option.splits prod.splits)

lemma pool_run_granted: "granted s \<le> granted (fold pool_step es s)"
  by (induction es arbitrary: s) (auto intro: order_trans pool_step_granted)

lemma pool_inv_step:
  "pool_inv s \<Longrightarrow> granted (pool_step e s) < 2 ^ 64 \<Longrightarrow> pool_inv (pool_step e s)"
proof (cases e)
  case (Refill d)
  assume "pool_inv s" "granted (pool_step e s) < 2 ^ 64"
  with Refill show ?thesis using pool_inv_refill [of s d] by (simp add: pool_step_def)
qed (use pool_step_granted [of s e] in
      \<open>auto intro: pool_inv_instantiate pool_inv_charge pool_inv_teardown dest: le_less_trans\<close>)

lemma pool_inv_run:
  "pool_inv s \<Longrightarrow> granted (fold pool_step es s) < 2 ^ 64 \<Longrightarrow> pool_inv (fold pool_step es s)"
proof (induction es arbitrary: s)
  case (Cons e es)
  have "granted (pool_step e s) < 2 ^ 64"
    using Cons.prems(2) pool_run_granted [of "pool_step e s" es] by simp
  then show ?case
    using Cons.IH [of "pool_step e s"] Cons.prems pool_inv_step by simp
qed simp

subsection \<open>Concurrent leases\<close>

text \<open>
  \<open>try_lease\<close> is two atomic operations on \<open>remaining\<close>: every thread is either outside or between its
  \<open>fetch_sub\<close> and its decision. \<open>leased\<close> counts what has been granted.
\<close>

datatype lease_pc = Outside | Debited u64 u64

record lease_race =
  race_remaining :: u64
  race_threads :: "lease_pc list"
  leased :: nat

inductive lease_step :: "lease_race \<Rightarrow> lease_race \<Rightarrow> bool" where
  fetch_sub: "t < length (race_threads s) \<Longrightarrow> race_threads s ! t = Outside \<Longrightarrow>
    lease_step s (s\<lparr>race_remaining := race_remaining s - want,
                    race_threads := (race_threads s)[t := Debited want (race_remaining s)]\<rparr>)"
| grant: "t < length (race_threads s) \<Longrightarrow> race_threads s ! t = Debited want prev \<Longrightarrow> want \<le> prev \<Longrightarrow>
    lease_step s (s\<lparr>race_threads := (race_threads s)[t := Outside], leased := leased s + unat want\<rparr>)"
| fetch_add: "t < length (race_threads s) \<Longrightarrow> race_threads s ! t = Debited want prev \<Longrightarrow> \<not> want \<le> prev \<Longrightarrow>
    lease_step s (s\<lparr>race_remaining := race_remaining s + want, race_threads := (race_threads s)[t := Outside]\<rparr>)"

definition race_init :: "u64 \<Rightarrow> nat \<Rightarrow> lease_race" where
  "race_init budget n = \<lparr>race_remaining = budget, race_threads = replicate n Outside, leased = 0\<rparr>"

primrec pending :: "lease_pc \<Rightarrow> u64" where
  "pending Outside = 0"
| "pending (Debited want prev) = want"

lemma sum_list_update_word:
  "n < length xs \<Longrightarrow> sum_list (map f (xs[n := y])) = sum_list (map f xs) - f (xs ! n) + (f y :: 'a :: len word)"
proof (induction xs arbitrary: n)
  case (Cons x xs)
  then show ?case by (cases n) (auto simp: algebra_simps)
qed simp

definition race_total :: "lease_race \<Rightarrow> u64" where
  "race_total s = race_remaining s + sum_list (map pending (race_threads s)) + of_nat (leased s)"

lemma race_total_step: "lease_step s s' \<Longrightarrow> race_total s' = race_total s"
  by (induction rule: lease_step.induct) (simp_all add: race_total_def sum_list_update_word algebra_simps)

lemma race_total_reach: "lease_step\<^sup>*\<^sup>* s s' \<Longrightarrow> race_total s' = race_total s"
  by (induction rule: rtranclp_induct) (simp_all add: race_total_step)

lemma sequential_lease:
  assumes "t < length (race_threads s)" and "race_threads s ! t = Outside"
  shows "lease_step\<^sup>*\<^sup>* s
    (s\<lparr>race_remaining := remaining (fst (try_lease want \<lparr>remaining = race_remaining s, lease_size = l\<rparr>)),
       leased := leased s + unat (snd (try_lease want \<lparr>remaining = race_remaining s, lease_size = l\<rparr>))\<rparr>)"
proof -
  let ?s1 = "s\<lparr>race_remaining := race_remaining s - want,
               race_threads := (race_threads s)[t := Debited want (race_remaining s)]\<rparr>"
  have 1: "lease_step s ?s1" using assms by (rule lease_step.fetch_sub)
  have t: "t < length (race_threads ?s1)" "race_threads ?s1 ! t = Debited want (race_remaining s)"
    using assms by simp_all
  have same: "(race_threads s)[t := Outside] = race_threads s"
    using assms by (metis list_update_id)
  show ?thesis
  proof (cases "want \<le> race_remaining s")
    case True
    from 1 lease_step.grant [OF t True] show ?thesis
      using same True by (auto simp: try_lease_eq intro: converse_rtranclp_into_rtranclp)
  next
    case False
    from 1 lease_step.fetch_add [OF t False] show ?thesis
      using same False by (auto simp: try_lease_eq intro: converse_rtranclp_into_rtranclp)
  qed
qed

subsection \<open>Accumulation over a function body\<close>

text \<open>
  A body as the parser sees it: opcodes and loops. \<open>walk\<close> makes the parser's calls in its order
  (every opcode byte first goes through \<open>on_opcode\<close>, also the \<open>loop\<close> byte \<open>0x03\<close> and the matching
  \<open>end\<close> \<open>0x0B\<close>) and collects the patched costs of the loop headers as the loops close.
\<close>

datatype body = Op u8 | Loop "body list"

fun walk :: "body list \<Rightarrow> gas_injection_state \<times> int list \<Rightarrow> gas_injection_state \<times> int list" where
  "walk [] sp = sp"
| "walk (Op b # rest) (s, ps) = walk rest (on_opcode b s, ps)"
| "walk (Loop inner # rest) (s, ps) =
     (let (s1, ps1) = walk inner (on_loop_enter (on_opcode 0x03 s), ps);
          (s2, extra) = on_loop_exit (on_opcode 0x0b s1)
      in walk rest (s2, ps1 @ [1 + extra]))"

fun own_extra :: "body list \<Rightarrow> int" where
  "own_extra [] = 0"
| "own_extra (Op b # rest) = gas_heavy_extra_for b + own_extra rest"
| "own_extra (Loop inner # rest) = own_extra rest"

fun loop_costs :: "body list \<Rightarrow> int list" where
  "loop_costs [] = []"
| "loop_costs (Op b # rest) = loop_costs rest"
| "loop_costs (Loop inner # rest) = loop_costs inner @ [1 + own_extra inner] @ loop_costs rest"

definition add_extra :: "int \<Rightarrow> gas_injection_state \<Rightarrow> gas_injection_state" where
  "add_extra x s = (case loop_stack s of y # ys \<Rightarrow> s\<lparr>loop_stack := (y + x) # ys\<rparr> | [] \<Rightarrow> s\<lparr>prepay_extra := prepay_extra s + x\<rparr>)"

lemma add_extra_0 [simp]: "add_extra 0 s = s"
  by (simp add: add_extra_def split: list.split)

lemma add_extra_add [simp]: "add_extra x (add_extra y s) = add_extra (y + x) s"
  by (simp add: add_extra_def split: list.split)

lemma on_opcode_add: "on_opcode b s = add_extra (gas_heavy_extra_for b) s"
  by (simp add: on_opcode_def add_extra_def Let_def split: list.split)

lemma loop_bytes_light [simp]: "gas_heavy_extra_for 0x03 = 0" "gas_heavy_extra_for 0x0b = 0"
  by (simp_all add: gas_heavy_extra_for_def)

lemma loop_scope: "on_loop_exit (add_extra x (on_loop_enter s)) = (s, x)"
  by (simp add: on_loop_exit_def add_extra_def on_loop_enter_def)

lemma walk_general: "walk bs (s, ps) = (add_extra (own_extra bs) s, ps @ loop_costs bs)"
  by (induction bs "(s, ps)" arbitrary: s ps rule: walk.induct) (simp_all add: on_opcode_add loop_scope)

lemma heavy_nonneg: "0 \<le> gas_heavy_extra_for b"
  by (simp add: gas_heavy_extra_for_def cost_div_rem_def cost_regular_def cost_call_indirect_def)

lemma own_extra_nonneg: "0 \<le> own_extra bs"
  by (induction bs rule: own_extra.induct) (simp_all add: heavy_nonneg)

lemma loop_costs_pos: "c \<in> set (loop_costs bs) \<Longrightarrow> 1 \<le> c"
  by (induction bs rule: loop_costs.induct) (auto simp: own_extra_nonneg)

subsection \<open>Properties\<close>

text \<open>
  \<^bold>\<open>C18\<close>. A pool accounts for every unit. Over any sequence of instantiations, charges (successful or
  trapping), teardowns and refills, the pool's balance, the deadlines of the live instances and what
  the dead ones used of theirs add up to exactly what the host put in; so no lease is lost or
  duplicated, as long as the host's total stays below 2^64.
\<close>

theorem pool_conservation:
  assumes "live s = []" and "granted s = unat (remaining (sys_pool s))" and "spent s = 0"
    and "granted (fold pool_step es s) < 2 ^ 64"
  shows "unat (remaining (sys_pool (fold pool_step es s))) + outstanding (fold pool_step es s)
    + spent (fold pool_step es s) = granted (fold pool_step es s)"
proof -
  have "pool_inv s" using assms(1-3) by (simp add: pool_inv_def outstanding_def)
  then show ?thesis using pool_inv_run [OF _ assms(4)] by (simp add: pool_inv_def)
qed

theorem pool_conservation_witness:
  "let s = \<lparr>sys_pool = gas_pool_new 100 30, live = [], granted = 100, spent = 0\<rparr>;
       es = [Instantiate 7, Instantiate 7, Charge 0 25, Charge 0 25, Charge 1 5, Teardown 1, Refill 9, Charge 0 90]
   in unat (remaining (sys_pool (fold pool_step es s))) + outstanding (fold pool_step es s)
        + spent (fold pool_step es s) = 109 \<and> remaining (sys_pool (fold pool_step es s)) = 14"
proof -
  let ?s = "\<lparr>sys_pool = gas_pool_new 100 30, live = [], granted = 100, spent = 0\<rparr>"
  let ?es = "[Instantiate 7, Instantiate 7, Charge 0 25, Charge 0 25, Charge 1 5, Teardown 1, Refill 9, Charge 0 90]"
  have "granted (fold pool_step ?es ?s) = 109 \<and> remaining (sys_pool (fold pool_step ?es ?s)) = 14"
    by code_simp
  then show ?thesis
    using pool_conservation [of ?s ?es] by (simp add: gas_pool_new_def Let_def)
qed

text \<open>
  \<^bold>\<open>C14\<close>. Metering bounds an execution. If every charge is positive and the 64-bit counter \<open>consumed\<close> does not
  wrap around (the gas consumed before and all charges together stay below 2^64), an execution attached to a pool
  can make at most twice the pool's balance plus its own remaining lease many charges before one of
  them throws. The condition is needed: \<open>consumed\<close> is not checked for overflow, and a charge that makes it wrap
  around also makes it pass the comparison with the deadline.
\<close>

theorem metered_run_bounded:
  assumes "run_charges (Some pool_yield_handler) costs g p = (g', p', Inr ())" and "\<forall>c \<in> set costs. 0 < c"
    and "unat (consumed g) + sum_list (map unat costs) < 2 ^ 64"
  shows "length costs \<le> 2 * unat (remaining p) + (unat (deadline g) - unat (consumed g))"
  using pool_lease.run_bounded [OF assms] by (simp add: pool_lease.fuel_def)

theorem metered_run_bounded_witness:
  "run_charges (Some pool_yield_handler) [4, 4, 4] (set_gas_budget 10 gas_state_init) (gas_pool_new 15 10) =
     (\<lparr>consumed = 12, deadline = 20\<rparr>, gas_pool_new 5 10, Inr ()) \<and> length [4, 4, 4 :: u64] \<le> 2 * 15 + 10"
proof -
  have run: "run_charges (Some pool_yield_handler) [4, 4, 4] (set_gas_budget 10 gas_state_init) (gas_pool_new 15 10) =
     (\<lparr>consumed = 12, deadline = 20\<rparr>, gas_pool_new 5 10, Inr ())"
    by code_simp
  then show ?thesis
    using metered_run_bounded [OF run] by (simp add: set_gas_budget_def gas_state_init_def gas_pool_new_def)
qed

text \<open>
  \<^bold>\<open>C25\<close>. What concurrent leases keep, and what they do not. Under every interleaving of the two
  atomic operations of \<open>try_lease\<close>, balance plus debits in flight plus gas granted stays the same
  modulo 2^64. The grant itself is not safe: with 5 units in the pool, one thread's failing lease of
  10 lets a second thread's lease of 10 succeed on the wrapped-around balance.
\<close>

theorem concurrent_lease:
  "(\<forall>s. lease_step\<^sup>*\<^sup>* (race_init budget n) s \<longrightarrow>
      race_remaining s + sum_list (map pending (race_threads s)) + of_nat (leased s) = budget) \<and>
   (\<exists>s. lease_step\<^sup>*\<^sup>* (race_init 5 2) s \<and> race_threads s = [Outside, Outside] \<and> leased s = 10 \<and>
      race_remaining s = - 5)"
proof
  have "sum_list (map pending (replicate n Outside)) = 0" by (induction n) simp_all
  then show "\<forall>s. lease_step\<^sup>*\<^sup>* (race_init budget n) s \<longrightarrow>
      race_remaining s + sum_list (map pending (race_threads s)) + of_nat (leased s) = budget"
    using race_total_reach [of "race_init budget n"] by (simp add: race_total_def race_init_def)
  let ?s0 = "race_init 5 2"
  let ?s1 = "\<lparr>race_remaining = - 5, race_threads = [Debited 10 5, Outside], leased = 0\<rparr>"
  let ?s2 = "\<lparr>race_remaining = - 15, race_threads = [Debited 10 5, Debited 10 (- 5)], leased = 0\<rparr>"
  let ?s3 = "\<lparr>race_remaining = - 15, race_threads = [Debited 10 5, Outside], leased = 10\<rparr>"
  let ?s4 = "\<lparr>race_remaining = - 5, race_threads = [Outside, Outside], leased = 10\<rparr>"
  have 1: "lease_step ?s0 ?s1"
    using lease_step.fetch_sub [of 0 ?s0 10] by (simp add: race_init_def numeral_2_eq_2)
  have 2: "lease_step ?s1 ?s2" using lease_step.fetch_sub [of 1 ?s1 10] by simp
  have 3: "lease_step ?s2 ?s3" using lease_step.grant [of 1 ?s2 10 "- 5"] by simp
  have 4: "lease_step ?s3 ?s4" using lease_step.fetch_add [of 0 ?s3 10 5] by simp
  have "lease_step\<^sup>*\<^sup>* ?s0 ?s4"
    by (rule converse_rtranclp_into_rtranclp [where r = lease_step, OF 1],
        rule converse_rtranclp_into_rtranclp [where r = lease_step, OF 2],
        rule converse_rtranclp_into_rtranclp [where r = lease_step, OF 3],
        rule r_into_rtranclp [where r = lease_step, OF 4])
  then show "\<exists>s. lease_step\<^sup>*\<^sup>* ?s0 s \<and> race_threads s = [Outside, Outside] \<and> leased s = 10 \<and> race_remaining s = - 5"
    by (intro exI [of _ ?s4]) simp
qed

theorem concurrent_lease_witness:
  "\<exists>s. lease_step\<^sup>*\<^sup>* (race_init 5 2) s \<and> race_threads s = [Outside, Outside] \<and> leased s = 10 \<and>
     race_remaining s + sum_list (map pending (race_threads s)) + of_nat (leased s) = 5"
proof -
  from concurrent_lease [of 5 2] obtain s where s: "lease_step\<^sup>*\<^sup>* (race_init 5 2) s" "race_threads s = [Outside, Outside]" "leased s = 10"
    by blast
  moreover have "race_remaining s + sum_list (map pending (race_threads s)) + of_nat (leased s) = 5"
    using concurrent_lease [of 5 2] s(1) by blast
  ultimately show ?thesis by blast
qed

text \<open>
  \<^bold>\<open>C27\<close>. The parse-time accumulator charges every heavy opcode once, in the innermost scope it is in:
  after a function body, the prepay is the extra weight of the opcodes outside loops, every loop
  header's patched cost is one plus the extra weight of the opcodes directly inside it (in the order
  the loops close), and no loop bucket is left over. Every patched cost is positive.
\<close>

theorem injection_correct:
  "walk bs (inj_reset s, []) = ((inj_reset s)\<lparr>prepay_extra := own_extra bs\<rparr>, loop_costs bs) \<and>
   loop_stack (fst (walk bs (inj_reset s, []))) = [] \<and> 0 \<le> own_extra bs \<and> list_all (\<lambda>c. 1 \<le> c) (loop_costs bs)"
  by (simp add: walk_general add_extra_def inj_reset_def own_extra_nonneg list_all_iff loop_costs_pos)

text \<open>
  \<^bold>\<open>C37\<close>. The instantiation check is sound for code generation: \<open>compatible\<close> holds exactly when every
  requested bit was compiled in; then a module whose policy needs gas checks has them, and a policy
  that needs interrupts gets the shape that re-reads the deadline. All presets are valid.
\<close>

theorem caps_sound:
  "(compatible hv want \<longleftrightarrow> (\<forall>n. bit want n \<longrightarrow> bit hv n)) \<and>
   (compatible hv want \<and> shape_for want \<noteq> shape_none \<longrightarrow> shape_for hv \<noteq> shape_none) \<and>
   (compatible hv want \<and> shape_for want = dtd_with_refresh \<longrightarrow> shape_for hv = dtd_with_refresh) \<and>
   list_all is_valid meter_presets"
proof -
  have "n < 16" if "bit want n" for n
    using bit_imp_le_length [OF that] by simp
  then have sub: "compatible hv want \<longleftrightarrow> (\<forall>n. bit want n \<longrightarrow> bit hv n)"
    by (auto simp: compatible_def missing_def cap_none_def bit_eq_iff bit_simps)
  have mono: "compatible hv want \<Longrightarrow> any_cap (want AND x) \<Longrightarrow> any_cap (hv AND x)" for x
    by (simp add: sub any_cap_def bit_eq_iff bit_simps) blast
  have mono2: "compatible hv want \<Longrightarrow> has_caps want x \<Longrightarrow> has_caps hv x" for x
    by (simp add: sub has_caps_def bit_eq_iff bit_simps) blast
  have "list_all is_valid meter_presets" by code_simp
  with sub mono mono2 show ?thesis
    by (auto simp: shape_for_def split: if_splits)
qed

theorem caps_sound_witness:
  "compatible (gas_budget OR interrupt_cap OR yield_cap) (gas_budget OR interrupt_cap) \<and>
   shape_for (gas_budget OR interrupt_cap OR yield_cap) = dtd_with_refresh"
proof -
  have "compatible (gas_budget OR interrupt_cap OR yield_cap) (gas_budget OR interrupt_cap)"
    "shape_for (gas_budget OR interrupt_cap) = dtd_with_refresh"
    by code_simp+
  then show ?thesis
    using caps_sound [of "gas_budget OR interrupt_cap OR yield_cap" "gas_budget OR interrupt_cap"] by blast
qed

text \<open>
  \<^bold>\<open>C29\<close>. \<open>instance::interrupt\<close> and \<open>instance::set_deadline\<close> store into the instance's own \<open>gas_state\<close>,
  which the backend never reads: whatever deadline is stored, the next charge behaves as if it had
  not been, and without a pool the policy's \<open>gas_budget\<close> does not limit the backend either.
\<close>

theorem interrupt_not_observed:
  "(let (i1, p1, r1) = instance_charge c (interrupt i) p; (i2, p2, r2) = instance_charge c i p
    in be_gas i1 = be_gas i2 \<and> p1 = p2 \<and> r1 = r2) \<and>
   (let (i1, p1, r1) = instance_charge c (set_deadline d i) p; (i2, p2, r2) = instance_charge c i p
    in be_gas i1 = be_gas i2 \<and> p1 = p2 \<and> r1 = r2) \<and>
   (case instantiate_gas b sh None of (Some i', None) \<Rightarrow> be_gas i' = gas_state_init | _ \<Rightarrow> False)"
proof -
  have same: "be_gas (store_active_deadline x i) = be_gas i \<and> pooled (store_active_deadline x i) = pooled i" for x
    by (simp add: store_active_deadline_def split: option.split)
  show ?thesis
    by (simp add: instance_charge_def interrupt_def set_deadline_def instantiate_gas_def same Let_def split: prod.split)
qed

text \<open>
  \<^bold>\<open>C30\<close>. A charge takes at most one lease, whatever it costs. So the pool is debited
  \<open>lease_size\<close> for a charge that may be arbitrarily larger (a function entry costs its body's byte
  count), and the execution continues with \<open>consumed\<close> beyond \<open>deadline\<close>.
\<close>

theorem charge_takes_one_lease:
  assumes "gas_charge (Some pool_yield_handler) cost g p = (g', p', Inr ())"
  shows "unat (remaining p) \<le> unat (remaining p') + unat (lease_size p) \<and>
    (deadline g' \<le> consumed g' \<longrightarrow> unat (remaining p') + unat (lease_size p) = unat (remaining p))"
proof (cases "deadline g \<le> consumed g + cost")
  case True
  then obtain l where "try_lease (lease_size p) p = (p', l)" "l \<noteq> 0"
    using assms by (auto simp: gas_charge_def pool_yield_handler_def Let_def split: prod.splits if_splits)
  from try_lease_grant [OF this] show ?thesis by simp
next
  case False
  then show ?thesis using assms by (auto simp: gas_charge_def)
qed

theorem charge_takes_one_lease_witness:
  "gas_charge (Some pool_yield_handler) 100000 (set_gas_budget 10000 gas_state_init) (gas_pool_new 90000 10000) =
     (\<lparr>consumed = 100000, deadline = 20000\<rparr>, gas_pool_new 80000 10000, Inr ()) \<and>
   unat (remaining (gas_pool_new 80000 10000)) + 10000 = unat (remaining (gas_pool_new 90000 10000))"
proof -
  have run: "gas_charge (Some pool_yield_handler) 100000 (set_gas_budget 10000 gas_state_init) (gas_pool_new 90000 10000) =
     (\<lparr>consumed = 100000, deadline = 20000\<rparr>, gas_pool_new 80000 10000, Inr ())"
    by code_simp
  then show ?thesis
    using charge_takes_one_lease [OF run] by (simp add: gas_pool_new_def)
qed

end
