(* ===== verification/Handle_Table.thy ===== *)
theory Handle_Table
  imports Psz_Prelude
begin

unbundle bit_operations_syntax

section \<open>Resource handles\<close>

text \<open>
  \<open>psizam/handle_table.hpp\<close>: the slab that maps 32-bit handles of a guest to host objects. The free
  slots form a linked list through \<open>next_free\<close>; a handle packs the slot index with the slot's
  generation, which every destruction increments. The interface (a partial map from handles to
  objects) is the locale \<open>resource_table\<close>; the slab is shown to provide it.
\<close>

subsection \<open>The slab\<close>

text \<open>\<open>storage\<close> is \<open>None\<close> while no object is constructed in the slot.\<close>

record 'a slot =
  slot_storage :: "'a option"
  next_free :: u32
  generation :: u16
  occupied :: bool

record 'a handle_table =
  slots :: "'a slot list"
  free_head :: u32
  live_count :: u32
  max_live :: u32

definition pack :: "u32 \<Rightarrow> u16 \<Rightarrow> u32" where
  "pack index gen = push_bit 16 index OR ucast gen"

definition unpack_index :: "u32 \<Rightarrow> u32" where
  "unpack_index handle = drop_bit 16 handle"

definition unpack_gen :: "u32 \<Rightarrow> u16" where
  "unpack_gen handle = ucast (handle AND 0xffff)"

definition invalid_handle :: u32 where
  "invalid_handle = - 1"

text \<open>\<open>free_slots C\<close>: the loop that links slot \<open>i\<close> to \<open>i + 1\<close>; the last link is the capacity.\<close>

definition handle_table_new :: "nat \<Rightarrow> u32 \<Rightarrow> 'a handle_table" where
  "handle_table_new C mx =
     \<lparr>slots = map (\<lambda>i. \<lparr>slot_storage = None, next_free = of_nat i + 1, generation = 0, occupied = False\<rparr>) [0..<C],
      free_head = 0, live_count = 0, max_live = mx\<rparr>"

definition create :: "'a \<Rightarrow> 'a handle_table \<Rightarrow> 'a handle_table \<times> u32" where
  "create v t =
     (if live_count t \<ge> max_live t \<or> unat (free_head t) \<ge> length (slots t) then (t, invalid_handle)
      else
        let idx = free_head t; s = slots t ! unat idx in
        (t\<lparr>free_head := next_free s,
           slots := (slots t)[unat idx := s\<lparr>slot_storage := Some v, occupied := True\<rparr>],
           live_count := live_count t + 1\<rparr>,
         pack idx (generation s)))"

definition get :: "'a handle_table \<Rightarrow> u32 \<Rightarrow> 'a option" where
  "get t handle =
     (let idx = unat (unpack_index handle); gen = unpack_gen handle in
      if idx \<ge> length (slots t) then None
      else
        let s = slots t ! idx in
        if \<not> occupied s \<or> generation s \<noteq> gen then None else slot_storage s)"

definition destroy :: "u32 \<Rightarrow> 'a handle_table \<Rightarrow> 'a handle_table \<times> bool" where
  "destroy handle t =
     (let idx = unat (unpack_index handle); gen = unpack_gen handle in
      if idx \<ge> length (slots t) then (t, False)
      else
        let s = slots t ! idx in
        if \<not> occupied s \<or> generation s \<noteq> gen then (t, False)
        else
          (t\<lparr>slots := (slots t)[idx := s\<lparr>slot_storage := None, occupied := False,
                                         generation := generation s + 1, next_free := free_head t\<rparr>],
             free_head := unpack_index handle, live_count := live_count t - 1\<rparr>, True))"

definition destroy_all :: "'a handle_table \<Rightarrow> 'a handle_table" where
  "destroy_all t =
     (let cleared = map (\<lambda>s. if occupied s then s\<lparr>slot_storage := None, occupied := False, generation := generation s + 1\<rparr>
                             else s) (slots t) in
      t\<lparr>slots := map (\<lambda>(i, s). s\<lparr>next_free := of_nat i + 1\<rparr>) (enumerate 0 cleared),
        live_count := 0, free_head := 0\<rparr>)"

definition table_full :: "'a handle_table \<Rightarrow> bool" where
  "table_full t \<longleftrightarrow> live_count t \<ge> max_live t"

subsection \<open>The interface\<close>

text \<open>
  What a client of a handle table relies on: it is a partial map, creation adds one fresh binding,
  destruction removes one, and a failed operation changes nothing.
\<close>

locale resource_table =
  fixes inv :: "'t \<Rightarrow> bool" and look :: "'t \<Rightarrow> 'h \<Rightarrow> 'a option" and new :: "'a \<Rightarrow> 't \<Rightarrow> 't \<times> 'h"
    and del :: "'h \<Rightarrow> 't \<Rightarrow> 't \<times> bool" and bad :: 'h
  assumes new_ok: "inv t \<Longrightarrow> new v t = (t', h) \<Longrightarrow> h \<noteq> bad \<Longrightarrow>
      inv t' \<and> look t h = None \<and> look t' = (look t)(h \<mapsto> v)"
    and new_full: "inv t \<Longrightarrow> new v t = (t', h) \<Longrightarrow> h = bad \<Longrightarrow> t' = t"
    and del_ok: "inv t \<Longrightarrow> del h t = (t', True) \<Longrightarrow> inv t' \<and> look t h \<noteq> None \<and> look t' = (look t)(h := None)"
    and del_bad: "inv t \<Longrightarrow> del h t = (t', False) \<Longrightarrow> t' = t \<and> look t h = None"
    and bad_unbound: "inv t \<Longrightarrow> look t bad = None"
begin

lemma new_inv: "inv t \<Longrightarrow> inv (fst (new v t))"
  using new_ok new_full by (metis fst_conv surj_pair)

lemma del_inv: "inv t \<Longrightarrow> inv (fst (del h t))"
  using del_ok del_bad by (metis (full_types) fst_conv surj_pair)

lemma del_iff: "inv t \<Longrightarrow> snd (del h t) \<longleftrightarrow> look t h \<noteq> None"
  using del_ok del_bad by (metis (full_types) snd_conv surj_pair)

lemma del_look: "inv t \<Longrightarrow> look (fst (del h t)) = (look t)(h := None)"
  using del_ok del_bad by (metis (full_types) fst_conv fun_upd_triv surj_pair)

lemma no_double_del: "inv t \<Longrightarrow> \<not> snd (del h (fst (del h t)))"
  using del_inv del_iff del_look by (metis fun_upd_same)

lemma new_look:
  "inv t \<Longrightarrow> snd (new v t) \<noteq> bad \<Longrightarrow> look (fst (new v t)) = (look t)(snd (new v t) \<mapsto> v)"
  using new_ok by (metis prod.collapse)

lemma new_fresh: "inv t \<Longrightarrow> look t (snd (new v t)) = None"
  using new_ok bad_unbound by (metis prod.collapse)

end

subsection \<open>The free list and the invariant\<close>

fun chain :: "'a slot list \<Rightarrow> u32 \<Rightarrow> nat list \<Rightarrow> bool" where
  "chain ss h [] = (length ss \<le> unat h)"
| "chain ss h (i # is) = (unat h = i \<and> i < length ss \<and> chain ss (next_free (ss ! i)) is)"

definition free_set :: "'a slot list \<Rightarrow> nat set" where
  "free_set ss = {i. i < length ss \<and> \<not> occupied (ss ! i)}"

definition live_set :: "'a slot list \<Rightarrow> nat set" where
  "live_set ss = {i. i < length ss \<and> occupied (ss ! i)}"

definition table_inv :: "'a handle_table \<Rightarrow> bool" where
  "table_inv t \<longleftrightarrow>
     (\<exists>fl. chain (slots t) (free_head t) fl \<and> distinct fl \<and> set fl = free_set (slots t)) \<and>
     length (slots t) \<le> 0xffff \<and> unat (live_count t) = card (live_set (slots t)) \<and>
     (\<forall>s \<in> set (slots t). occupied s \<longrightarrow> slot_storage s \<noteq> None)"

lemma chain_update [simp]: "i \<notin> set fl \<Longrightarrow> chain (ss[i := s]) h fl = chain ss h fl"
  by (induction fl arbitrary: h) auto

lemma ball_set_update: "\<forall>x \<in> set xs. P x \<Longrightarrow> P y \<Longrightarrow> \<forall>x \<in> set (xs[i := y]). P x"
  using set_update_subset_insert [of xs i y] by blast

lemma table_inv_stored: "table_inv t \<Longrightarrow> \<forall>s \<in> set (slots t). occupied s \<longrightarrow> slot_storage s \<noteq> None"
  unfolding table_inv_def by (elim conjE)

lemma finite_live [simp]: "finite (live_set ss)"
  by (simp add: live_set_def)

lemma live_set_le: "card (live_set ss) \<le> length ss"
proof -
  have "live_set ss \<subseteq> {..<length ss}" by (auto simp: live_set_def)
  then show ?thesis by (metis card_lessThan card_mono finite_lessThan)
qed

lemma live_set_update:
  "i < length ss \<Longrightarrow> live_set (ss[i := s]) = (if occupied s then insert i (live_set ss) else live_set ss - {i})"
  by (auto simp: live_set_def nth_list_update)

lemma free_set_update:
  "i < length ss \<Longrightarrow> free_set (ss[i := s]) = (if occupied s then free_set ss - {i} else insert i (free_set ss))"
  by (auto simp: free_set_def nth_list_update)

lemma unpack_pack:
  assumes "unat idx < 0x10000"
  shows "unpack_index (pack idx gen) = idx" and "unpack_gen (pack idx gen) = gen"
proof -
  have "unat (take_bit 16 idx) = unat idx"
    using assms by (simp add: unat_take_bit)
  then have "take_bit 16 idx = idx"
    by (metis unsigned_word_eqI)
  then have b: "bit idx n \<Longrightarrow> n < 16" for n
    by (metis bit_take_bit_iff)
  show "unpack_index (pack idx gen) = idx"
    by (rule bit_eqI) (use b in \<open>auto simp: unpack_index_def pack_def bit_simps dest: bit_imp_le_length\<close>)
  have m: "(0xffff :: u32) = mask 16" by (simp add: mask_eq_exp_minus_1)
  show "unpack_gen (pack idx gen) = gen"
    unfolding unpack_gen_def pack_def m by (rule bit_eqI) (auto simp: bit_simps)
qed

lemma pack_unpack: "pack (unpack_index h) (unpack_gen h) = h"
proof -
  have m: "(0xffff :: u32) = mask 16" by (simp add: mask_eq_exp_minus_1)
  show ?thesis
    unfolding unpack_index_def unpack_gen_def pack_def m
    by (rule bit_eqI, rename_tac n, case_tac "n < 16") (auto simp: bit_simps)
qed

lemma unpack_index_bound: "unat (unpack_index h) < 0x10000"
  using unat_bound [of h] by (simp add: unpack_index_def unat_drop_bit less_mult_imp_div_less)

lemma get_pack:
  "unat idx < 0x10000 \<Longrightarrow> get t (pack idx gen) =
     (if unat idx < length (slots t) \<and> occupied (slots t ! unat idx) \<and> generation (slots t ! unat idx) = gen
      then slot_storage (slots t ! unat idx) else None)"
  by (simp add: get_def unpack_pack Let_def)

lemma get_unpack:
  "get t h = (if unat (unpack_index h) < length (slots t) \<and> occupied (slots t ! unat (unpack_index h)) \<and>
      generation (slots t ! unat (unpack_index h)) = unpack_gen h
    then slot_storage (slots t ! unat (unpack_index h)) else None)"
  by (simp add: get_def Let_def)

lemma unat_plus_one: "unat w < 2 ^ LENGTH('a) - 1 \<Longrightarrow> unat (w + 1 :: 'a :: len word) = unat w + 1"
  by (simp add: unat_word_ariths)

subsection \<open>Every operation keeps the invariant\<close>

lemma create_cases:
  assumes "create v t = (t', h)"
  obtains (full) "live_count t \<ge> max_live t \<or> length (slots t) \<le> unat (free_head t)" "t' = t" "h = invalid_handle"
  | (new) s where "live_count t < max_live t" "unat (free_head t) < length (slots t)"
      "s = slots t ! unat (free_head t)" "h = pack (free_head t) (generation s)"
      "t' = t\<lparr>free_head := next_free s, slots := (slots t)[unat (free_head t) := s\<lparr>slot_storage := Some v, occupied := True\<rparr>],
              live_count := live_count t + 1\<rparr>"
proof (cases "live_count t \<ge> max_live t \<or> length (slots t) \<le> unat (free_head t)")
  case True
  then show ?thesis using assms by (intro full) (simp_all add: create_def)
next
  case False
  then have "live_count t < max_live t" "unat (free_head t) < length (slots t)"
    by (auto simp: not_le)
  then show ?thesis
    using assms False by (intro new [of "slots t ! unat (free_head t)"]) (simp_all add: create_def Let_def)
qed

lemma destroy_cases:
  assumes "destroy h t = (t', b)"
  obtains (stale) "\<not> b" "t' = t" "get t h = None"
      "length (slots t) \<le> unat (unpack_index h) \<or> \<not> occupied (slots t ! unat (unpack_index h)) \<or>
       generation (slots t ! unat (unpack_index h)) \<noteq> unpack_gen h"
  | (freed) s where "b" "s = slots t ! unat (unpack_index h)" "unat (unpack_index h) < length (slots t)" "occupied s"
      "generation s = unpack_gen h"
      "t' = t\<lparr>slots := (slots t)[unat (unpack_index h) := s\<lparr>slot_storage := None, occupied := False,
                                     generation := generation s + 1, next_free := free_head t\<rparr>],
              free_head := unpack_index h, live_count := live_count t - 1\<rparr>"
proof (cases "length (slots t) \<le> unat (unpack_index h) \<or> \<not> occupied (slots t ! unat (unpack_index h)) \<or>
       generation (slots t ! unat (unpack_index h)) \<noteq> unpack_gen h")
  case True
  then have "destroy h t = (t, False)" "get t h = None"
    by (auto simp: destroy_def get_def Let_def)
  then show ?thesis using assms True by (intro stale) simp_all
next
  case False
  then show ?thesis
    using assms by (intro freed [of "slots t ! unat (unpack_index h)"]) (simp_all add: destroy_def Let_def)
qed

lemma create_inv:
  assumes "table_inv t" and "create v t = (t', h)"
  shows "table_inv t'"
  using assms(2)
proof (cases rule: create_cases)
  case full
  then show ?thesis using assms(1) by simp
next
  case (new s)
  let ?i = "unat (free_head t)"
  obtain fl where fl: "chain (slots t) (free_head t) fl" "distinct fl" "set fl = free_set (slots t)"
    using assms(1) by (auto simp: table_inv_def)
  obtain rest where r: "fl = ?i # rest" "chain (slots t) (next_free s) rest"
    using fl(1) new(2,3) by (cases fl) auto
  have free: "?i \<in> free_set (slots t)" using fl(3) r(1) by auto
  have live: "?i \<notin> live_set (slots t)" using free by (simp add: free_set_def live_set_def)
  have "unat (live_count t) < 2 ^ 32 - 1"
    using live_set_le [of "slots t"] assms(1) by (simp add: table_inv_def)
  then have "unat (live_count t + 1) = card (live_set (slots t)) + 1"
    using assms(1) by (simp add: table_inv_def unat_plus_one)
  moreover have "distinct rest \<and> ?i \<notin> set rest \<and> set rest = free_set (slots t) - {?i}"
    using fl(2,3) r(1) by auto
  moreover have "chain (slots t') (free_head t') rest"
    using calculation new(5) r(2) by simp
  moreover have "set rest = free_set (slots t')"
    using calculation new(2,5) by (simp add: free_set_update)
  moreover have "card (live_set (slots t')) = card (live_set (slots t)) + 1"
    using new(2,5) live by (simp add: live_set_update)
  moreover have "\<forall>s \<in> set (slots t'). occupied s \<longrightarrow> slot_storage s \<noteq> None"
    using ball_set_update [OF table_inv_stored [OF assms(1)], of "s\<lparr>slot_storage := Some v, occupied := True\<rparr>" ?i] new(5)
    by simp
  moreover have "length (slots t') \<le> 0xffff" "live_count t' = live_count t + 1"
    using new(5) assms(1) by (simp_all add: table_inv_def)
  ultimately show ?thesis
    unfolding table_inv_def by (intro conjI exI [of _ rest]) simp_all
qed

lemma destroy_inv:
  assumes "table_inv t" and "destroy h t = (t', b)"
  shows "table_inv t'"
  using assms(2)
proof (cases rule: destroy_cases)
  case stale
  then show ?thesis using assms(1) by simp
next
  case (freed s)
  let ?i = "unat (unpack_index h)"
  obtain fl where fl: "chain (slots t) (free_head t) fl" "distinct fl" "set fl = free_set (slots t)"
    using assms(1) by (auto simp: table_inv_def)
  have live: "?i \<in> live_set (slots t)" using freed by (simp add: live_set_def)
  have nfl: "?i \<notin> set fl" using fl(3) freed by (simp add: free_set_def)
  have "0 < card (live_set (slots t))" using live by (auto simp: card_gt_0_iff)
  then have "1 \<le> unat (live_count t)" using assms(1) by (simp add: table_inv_def)
  then have "unat (live_count t - 1) = card (live_set (slots t)) - 1"
    using assms(1) by (simp add: table_inv_def unat_sub word_le_nat_alt)
  moreover have "chain (slots t') (free_head t') (?i # fl)"
    using freed(3,6) fl(1) nfl by simp
  moreover have "set (?i # fl) = free_set (slots t')"
    using freed fl(3) by (simp add: free_set_update)
  moreover have "card (live_set (slots t')) = card (live_set (slots t)) - 1"
    using freed(3,6) live by (simp add: live_set_update)
  moreover have "\<forall>s \<in> set (slots t'). occupied s \<longrightarrow> slot_storage s \<noteq> None"
    using ball_set_update [OF table_inv_stored [OF assms(1)], of "s\<lparr>slot_storage := None, occupied := False,
        generation := generation s + 1, next_free := free_head t\<rparr>" ?i] freed(6)
    by simp
  moreover have "length (slots t') \<le> 0xffff" "live_count t' = live_count t - 1" "distinct (?i # fl)"
    using freed(6) fl(2) nfl assms(1) by (simp_all add: table_inv_def)
  ultimately show ?thesis
    unfolding table_inv_def by (intro conjI exI [of _ "?i # fl"]) simp_all
qed

lemma chain_links:
  assumes "\<And>i. i < length ss \<Longrightarrow> next_free (ss ! i) = of_nat i + 1" and "length ss \<le> 0xffff" and "k \<le> length ss"
  shows "chain ss (of_nat k) [k..<length ss]"
  using assms(3)
proof (induction "length ss - k" arbitrary: k)
  case 0
  then show ?case using assms(2) by (simp add: unat_of_nat)
next
  case (Suc n)
  then have k: "k < length ss" by simp
  have "chain ss (of_nat (Suc k)) [Suc k..<length ss]"
    using Suc k by (intro Suc.hyps(1)) auto
  moreover have "unat (of_nat k :: u32) = k"
    using k assms(2) by (simp add: unat_of_nat)
  ultimately show ?case
    using k assms(1) [OF k] unfolding upt_conv_Cons [OF k] by (simp add: add.commute)
qed

lemma linked_inv:
  assumes "\<And>i. i < length (slots t) \<Longrightarrow> next_free (slots t ! i) = of_nat i + 1" and "length (slots t) \<le> 0xffff"
    and "free_head t = 0" and "live_count t = 0" and "\<forall>s \<in> set (slots t). \<not> occupied s"
  shows "table_inv t"
proof -
  have "chain (slots t) (of_nat 0) [0..<length (slots t)]"
    using assms(1,2) by (intro chain_links) auto
  moreover have "set [0..<length (slots t)] = free_set (slots t)" "live_set (slots t) = {}"
    using assms(5) by (auto simp: free_set_def live_set_def)
  ultimately show ?thesis
    unfolding table_inv_def using assms(2-5)
    by (intro conjI exI [of _ "[0..<length (slots t)]"]) auto
qed

lemma new_table_inv: "C \<le> 0xffff \<Longrightarrow> table_inv (handle_table_new C mx)"
  by (rule linked_inv) (auto simp: handle_table_new_def)

lemma destroy_all_length: "length (slots (destroy_all t)) = length (slots t)"
  by (simp add: destroy_all_def Let_def)

lemma destroy_all_nth:
  "i < length (slots t) \<Longrightarrow> slots (destroy_all t) ! i =
    (if occupied (slots t ! i) then (slots t ! i)\<lparr>slot_storage := None, occupied := False, generation := generation (slots t ! i) + 1\<rparr>
     else slots t ! i)\<lparr>next_free := of_nat i + 1\<rparr>"
  by (simp add: destroy_all_def Let_def nth_enumerate_eq)

lemma destroy_all_unoccupied: "s \<in> set (slots (destroy_all t)) \<Longrightarrow> \<not> occupied s"
  by (auto simp: in_set_conv_nth destroy_all_length destroy_all_nth split: if_splits)

lemma destroy_all_inv: "table_inv t \<Longrightarrow> table_inv (destroy_all t)"
proof (rule linked_inv)
  assume "table_inv t"
  then show "length (slots (destroy_all t)) \<le> 0xffff" by (simp add: destroy_all_length table_inv_def)
qed (auto simp: destroy_all_length destroy_all_nth destroy_all_unoccupied, simp_all add: destroy_all_def Let_def)

subsection \<open>The slab provides the interface\<close>

lemma get_create:
  assumes "table_inv t" and "create v t = (t', h)" and "h \<noteq> invalid_handle"
  shows "get t h = None \<and> get t' = (get t)(h \<mapsto> v)"
  using assms(2)
proof (cases rule: create_cases)
  case full
  then show ?thesis using assms(3) by simp
next
  case (new s)
  let ?i = "unat (free_head t)"
  obtain fl where "chain (slots t) (free_head t) fl" "set fl = free_set (slots t)"
    using assms(1) by (auto simp: table_inv_def)
  then have nocc: "\<not> occupied (slots t ! ?i)"
    using new(2) by (cases fl) (auto simp: free_set_def)
  have small: "?i < 0x10000" using new(2) assms(1) by (simp add: table_inv_def)
  have idx: "unat (unpack_index h) = ?i" "unpack_gen h = generation s"
    using new(4) small by (simp_all add: unpack_pack)
  have "get t' h' = ((get t)(h \<mapsto> v)) h'" for h'
  proof (cases "h' = h")
    case True
    then show ?thesis using idx new(2,3,5) by (simp add: get_unpack)
  next
    case False
    then have "\<not> (unat (unpack_index h') = ?i \<and> unpack_gen h' = generation s)"
      using idx pack_unpack [of h] pack_unpack [of h'] by (metis unsigned_word_eqI)
    with False show ?thesis
      using new(2,3,5) nocc by (cases "unat (unpack_index h') = ?i") (simp_all add: get_unpack)
  qed
  then show ?thesis using idx nocc by (auto simp: get_unpack)
qed

lemma get_destroy:
  assumes "table_inv t" and "destroy h t = (t', True)"
  shows "get t h \<noteq> None \<and> get t' = (get t)(h := None)"
  using assms(2)
proof (cases rule: destroy_cases)
  case stale
  then show ?thesis by simp
next
  case (freed s)
  let ?i = "unat (unpack_index h)"
  have "s \<in> set (slots t)" using freed(2,3) by simp
  then have st: "slot_storage s \<noteq> None" using table_inv_stored [OF assms(1)] freed(4) by blast
  have "get t' h' = ((get t)(h := None)) h'" for h'
  proof (cases "unat (unpack_index h') = ?i")
    case True
    then have same: "unpack_index h' = unpack_index h" by (metis unsigned_word_eqI)
    have "h' = h \<longleftrightarrow> unpack_gen h' = generation s"
      using same freed(5) pack_unpack [of h] pack_unpack [of h'] by metis
    then show ?thesis using same freed(2,3,4,6) by (simp add: get_unpack)
  next
    case False
    then have "h' \<noteq> h" by auto
    with False show ?thesis using freed(6) by (simp add: get_unpack)
  qed
  then show ?thesis using st freed(2-5) by (auto simp: get_unpack)
qed

lemma unpack_invalid: "unat (unpack_index invalid_handle) = 0xffff"
  by (simp add: unpack_index_def invalid_handle_def mask_eq_exp_minus_1)

lemma get_invalid: "table_inv t \<Longrightarrow> get t invalid_handle = None"
proof -
  assume "table_inv t"
  then show ?thesis by (simp add: get_unpack table_inv_def unpack_invalid)
qed

lemma create_not_invalid:
  assumes "table_inv t" and "create v t = (t', h)"
  shows "h = invalid_handle \<longleftrightarrow> live_count t \<ge> max_live t \<or> length (slots t) \<le> unat (free_head t)"
  using assms(2)
proof (cases rule: create_cases)
  case full
  then show ?thesis by simp
next
  case (new s)
  have "unat (unpack_index h) < 0xffff"
    using new(2,4) assms(1) by (simp add: table_inv_def unpack_pack)
  then show ?thesis using new(1,2) unpack_invalid by (auto simp: not_le)
qed

interpretation slab: resource_table table_inv get create destroy invalid_handle
proof
  fix t t' :: "'a handle_table" and v h
  assume i: "table_inv t" and c: "create v t = (t', h)" and n: "h \<noteq> invalid_handle"
  show "table_inv t' \<and> get t h = None \<and> get t' = (get t)(h \<mapsto> v)"
    using create_inv [OF i c] get_create [OF i c n] by simp
next
  fix t t' :: "'a handle_table" and v h
  assume i: "table_inv t" and c: "create v t = (t', h)" and n: "h = invalid_handle"
  show "t' = t" using c
    by (cases rule: create_cases) (use create_not_invalid [OF i c] n in \<open>auto simp: not_le\<close>)
next
  fix t t' :: "'a handle_table" and h
  assume i: "table_inv t" and d: "destroy h t = (t', True)"
  show "table_inv t' \<and> get t h \<noteq> None \<and> get t' = (get t)(h := None)"
    using destroy_inv [OF i d] get_destroy [OF i d] by simp
next
  fix t t' :: "'a handle_table" and h
  assume i: "table_inv t" and d: "destroy h t = (t', False)"
  show "t' = t \<and> get t h = None" using d by (cases rule: destroy_cases) auto
next
  fix t :: "'a handle_table"
  assume "table_inv t"
  then show "get t invalid_handle = None" by (rule get_invalid)
qed

subsection \<open>Stale handles\<close>

datatype 'a table_op = Create 'a | Destroy u32 | Destroy_all

definition table_step :: "'a table_op \<Rightarrow> 'a handle_table \<Rightarrow> 'a handle_table" where
  "table_step e t = (case e of Create v \<Rightarrow> fst (create v t) | Destroy h \<Rightarrow> fst (destroy h t) | Destroy_all \<Rightarrow> destroy_all t)"

lemma table_step_inv: "table_inv t \<Longrightarrow> table_inv (table_step e t)"
  by (simp add: table_step_def slab.new_inv slab.del_inv destroy_all_inv split: table_op.split)

lemma table_run_inv: "table_inv t \<Longrightarrow> table_inv (fold table_step es t)"
  by (induction es arbitrary: t) (simp_all add: table_step_inv)

lemma slots_table_step [simp]: "length (slots (table_step e t)) = length (slots t)"
  by (simp add: table_step_def create_def destroy_def destroy_all_def Let_def split: table_op.split)

text \<open>An operation leaves a slot's generation alone or increments it.\<close>

lemma generation_step:
  assumes "i < length (slots t)"
  shows "generation (slots (table_step e t) ! i) = generation (slots t ! i) \<or>
    generation (slots (table_step e t) ! i) = generation (slots t ! i) + 1"
proof (cases e)
  case (Create v)
  obtain t' h where c: "create v t = (t', h)" by fastforce
  then show ?thesis
    by (cases rule: create_cases) (auto simp: table_step_def Create c nth_list_update)
next
  case (Destroy h)
  obtain t' b where d: "destroy h t = (t', b)" by fastforce
  then show ?thesis
    by (cases rule: destroy_cases) (auto simp: table_step_def Destroy d nth_list_update)
next
  case Destroy_all
  then show ?thesis
    using assms by (simp add: table_step_def destroy_all_def Let_def nth_enumerate_eq)
qed

lemma generation_run:
  assumes "i < length (slots t)"
  shows "\<exists>k \<le> length es. generation (slots (fold table_step es t) ! i) = generation (slots t ! i) + of_nat k"
  using assms
proof (induction es arbitrary: t)
  case Nil
  then show ?case by simp
next
  case (Cons e es)
  have "i < length (slots (table_step e t))" using Cons.prems by simp
  from Cons.IH [OF this] obtain k where
    k: "k \<le> length es" "generation (slots (fold table_step es (table_step e t)) ! i) =
      generation (slots (table_step e t) ! i) + of_nat k"
    by auto
  from generation_step [OF Cons.prems, of e] show ?case
  proof
    assume "generation (slots (table_step e t) ! i) = generation (slots t ! i)"
    then show ?thesis using k by (intro exI [of _ k]) simp
  next
    assume "generation (slots (table_step e t) ! i) = generation (slots t ! i) + 1"
    then show ?thesis using k by (intro exI [of _ "Suc k"]) simp
  qed
qed

lemma destroyed_generation:
  assumes "table_inv t" and "get t h \<noteq> None"
  shows "unat (unpack_index h) < length (slots t) \<and>
    generation (slots (fst (destroy h t)) ! unat (unpack_index h)) = unpack_gen h + 1"
  using assms(2) by (auto simp: get_unpack destroy_def Let_def split: if_splits)

lemma free_list_empty:
  assumes "table_inv t"
  shows "length (slots t) \<le> unat (free_head t) \<longleftrightarrow> (\<forall>s \<in> set (slots t). occupied s)"
proof -
  obtain fl where fl: "chain (slots t) (free_head t) fl" "set fl = free_set (slots t)"
    using assms by (auto simp: table_inv_def)
  have "length (slots t) \<le> unat (free_head t) \<longleftrightarrow> fl = []"
    using fl(1) by (cases fl) auto
  also have "\<dots> \<longleftrightarrow> free_set (slots t) = {}" using fl(2) by (metis set_empty)
  also have "\<dots> \<longleftrightarrow> (\<forall>s \<in> set (slots t). occupied s)" by (auto simp: free_set_def all_set_conv_all_nth)
  finally show ?thesis .
qed

text \<open>A table of one slot after \<open>n\<close> rounds of creation and destruction.\<close>

fun rounds :: "nat \<Rightarrow> 'a \<Rightarrow> 'a handle_table \<Rightarrow> 'a handle_table" where
  "rounds 0 v t = t"
| "rounds (Suc n) v t = rounds n v (let (t', h) = create v t in fst (destroy h t'))"

lemma one_round:
  "(let (t', h) = create v \<lparr>slots = [\<lparr>slot_storage = None, next_free = 1, generation = g, occupied = False\<rparr>],
                              free_head = 0, live_count = 0, max_live = 1\<rparr> in fst (destroy h t')) =
   \<lparr>slots = [\<lparr>slot_storage = None, next_free = 1, generation = g + 1, occupied = False\<rparr>],
    free_head = 0, live_count = 0, max_live = 1\<rparr>"
  by (simp add: create_def destroy_def Let_def unpack_pack)

lemma rounds_generation:
  "rounds n v \<lparr>slots = [\<lparr>slot_storage = None, next_free = 1, generation = g, occupied = False\<rparr>],
                free_head = 0, live_count = 0, max_live = 1\<rparr> =
   \<lparr>slots = [\<lparr>slot_storage = None, next_free = 1, generation = g + of_nat n, occupied = False\<rparr>],
    free_head = 0, live_count = 0, max_live = 1\<rparr>"
  by (induction n arbitrary: g) (simp_all only: rounds.simps one_round, simp_all add: add.assoc)

subsection \<open>Properties\<close>

text \<open>
  \<^bold>\<open>C19\<close>. The slab is a partial map from handles to objects. In every table reached from a new one,
  creation fails exactly when the live limit is reached or every slot is occupied, and then changes
  nothing; otherwise it returns a handle that was unbound (never the invalid one) and binds it.
  Destruction succeeds exactly on bound handles and unbinds that handle only; \<open>destroy_all\<close> unbinds
  all of them.
\<close>

theorem handle_table_refines_map:
  fixes es :: "'a table_op list" and mx :: u32
  assumes "C \<le> 0xffff"
  defines "t \<equiv> fold table_step es (handle_table_new C mx)"
  shows "(snd (create v t) = invalid_handle \<longleftrightarrow> live_count t \<ge> max_live t \<or> (\<forall>s \<in> set (slots t). occupied s)) \<and>
    (snd (create v t) = invalid_handle \<longrightarrow> fst (create v t) = t) \<and>
    (snd (create v t) \<noteq> invalid_handle \<longrightarrow>
       get t (snd (create v t)) = None \<and> get (fst (create v t)) = (get t)(snd (create v t) \<mapsto> v)) \<and>
    (snd (destroy h t) \<longleftrightarrow> get t h \<noteq> None) \<and> get (fst (destroy h t)) = (get t)(h := None) \<and>
    get (destroy_all t) = Map.empty"
proof -
  have inv: "table_inv t"
    unfolding t_def using assms(1) by (intro table_run_inv new_table_inv)
  have "get (destroy_all t) h' = None" for h'
    using destroy_all_unoccupied [of _ t] by (auto simp: get_unpack)
  then have all: "get (destroy_all t) = Map.empty" by auto
  obtain t' h' where c: "create v t = (t', h')" by fastforce
  have "snd (create v t) = invalid_handle \<longleftrightarrow> live_count t \<ge> max_live t \<or> (\<forall>s \<in> set (slots t). occupied s)"
    using create_not_invalid [OF inv c] free_list_empty [OF inv] c by simp
  moreover have "snd (create v t) = invalid_handle \<longrightarrow> fst (create v t) = t"
    using slab.new_full [OF inv c] c by simp
  ultimately show ?thesis
    using slab.new_look [OF inv] slab.new_fresh [OF inv] slab.del_iff [OF inv] slab.del_look [OF inv] all by blast
qed

theorem handle_table_refines_map_witness:
  "let t = fold table_step [Create ''a'', Create ''b'', Destroy 0] (handle_table_new 2 2)
   in snd (create ''c'' t) = 1 \<and> get (fst (create ''c'' t)) 1 = Some ''c'' \<and> get (fst (create ''c'' t)) 0x10000 = Some ''b''"
proof -
  let ?t = "fold table_step [Create ''a'', Create ''b'', Destroy 0] (handle_table_new 2 2)"
  have "snd (create ''c'' ?t) = 1" "get ?t 0x10000 = Some ''b''" by code_simp+
  moreover have "(1 :: u32) \<noteq> invalid_handle" by (simp add: invalid_handle_def)
  ultimately show ?thesis
    using handle_table_refines_map [of 2 "''c''" "[Create ''a'', Create ''b'', Destroy 0]" 2 0] by simp
qed

text \<open>
  \<^bold>\<open>C23\<close>. Stale handles are detected: once a handle has been destroyed, no sequence of fewer than
  65535 further operations makes it valid again, whatever it creates and destroys. The 16-bit
  generation makes the bound necessary: in a table of one slot the very handle that was destroyed
  first is valid again after 65536 rounds.
\<close>

theorem stale_handle_detected:
  fixes t :: "'a handle_table" and v :: 'a
  assumes "table_inv t" and "get t h \<noteq> None" and "length es < 65535"
  shows "get (fold table_step es (fst (destroy h t))) h = None \<and>
    get (fst (create v (rounds 65536 v (handle_table_new 1 1)))) (snd (create v (handle_table_new 1 1))) = Some v"
proof
  let ?t1 = "fst (destroy h t)" and ?i = "unat (unpack_index h)"
  have g: "?i < length (slots t)" "generation (slots ?t1 ! ?i) = unpack_gen h + 1"
    using destroyed_generation [OF assms(1,2)] by auto
  have "length (slots ?t1) = length (slots t)"
    using slots_table_step [of "Destroy h" t] by (simp add: table_step_def)
  with g(1) obtain k where k: "k \<le> length es"
    "generation (slots (fold table_step es ?t1) ! ?i) = unpack_gen h + 1 + of_nat k"
    using generation_run [of ?i ?t1 es] g(2) by auto
  have "unat (1 + of_nat k :: u16) = Suc k"
    using k(1) assms(3) by (simp add: unat_word_ariths unat_of_nat)
  then have "(1 + of_nat k :: u16) \<noteq> 0" by (metis nat.distinct(1) unsigned_0)
  then have "generation (slots (fold table_step es ?t1) ! ?i) \<noteq> unpack_gen h"
    using k(2) by (simp add: add.assoc)
  then show "get (fold table_step es ?t1) h = None" by (simp add: get_unpack)
next
  have new: "(handle_table_new 1 1 :: 'a handle_table) =
      \<lparr>slots = [\<lparr>slot_storage = None, next_free = 1, generation = 0, occupied = False\<rparr>],
       free_head = 0, live_count = 0, max_live = 1\<rparr>"
    by (simp add: handle_table_new_def)
  have "rounds 65536 v (handle_table_new 1 1) = handle_table_new 1 1"
    unfolding new by (subst rounds_generation) simp
  then show "get (fst (create v (rounds 65536 v (handle_table_new 1 1)))) (snd (create v (handle_table_new 1 1))) = Some v"
    unfolding new by (simp add: create_def get_pack)
qed

theorem stale_handle_detected_witness:
  "get (fold table_step [Create ''x'', Create ''y''] (fst (destroy 0 (fst (create ''a'' (handle_table_new 4 4)))))) 0 = None"
proof -
  let ?t = "fst (create ''a'' (handle_table_new 4 4))"
  have "table_inv ?t" by (intro slab.new_inv new_table_inv) simp
  moreover have "get ?t 0 \<noteq> None" by code_simp
  ultimately show ?thesis
    using stale_handle_detected [of ?t 0 "[Create ''x'', Create ''y'']" "''v''"] by simp
qed

end
