(* ===== verification/Operand_Stack.thy ===== *)
theory Operand_Stack
  imports Psz_Prelude
begin

unbundle bit_operations_syntax

section \<open>Operand values and the operand stack\<close>

text \<open>
  \<open>psizam/detail/stack_elem.hpp\<close> and \<open>psizam/detail/wasm_stack.hpp\<close>: the tagged values of the
  interpreter and the growable array they live in. Reading a value through the wrong alternative of
  the variant, and indexing the backing vector out of range, are \<open>Undefined\<close>. What the interpreter
  relies on is the locale \<open>operand_stack_laws\<close>, a stack seen as a list with its bottom first; the
  array implementation is shown to satisfy it.
\<close>

subsection \<open>Values\<close>

text \<open>Floats are kept as their bit patterns; \<open>v128_t\<close> is the 128-bit word \<open>high * 2^64 + low\<close>.\<close>

datatype stack_elem =
    i32_const u32
  | i64_const u64
  | f32_const u32
  | f64_const u64
  | v128_const u128

definition bad_alternative :: "'a res" where
  "bad_alternative = Inl (Undefined ''inactive variant alternative'')"

fun to_ui32 :: "stack_elem \<Rightarrow> u32 res" where
  "to_ui32 (i32_const v) = Inr v"
| "to_ui32 _ = bad_alternative"

fun to_ui64 :: "stack_elem \<Rightarrow> u64 res" where
  "to_ui64 (i64_const v) = Inr v"
| "to_ui64 _ = bad_alternative"

fun to_fui32 :: "stack_elem \<Rightarrow> u32 res" where
  "to_fui32 (f32_const v) = Inr v"
| "to_fui32 _ = bad_alternative"

fun to_fui64 :: "stack_elem \<Rightarrow> u64 res" where
  "to_fui64 (f64_const v) = Inr v"
| "to_fui64 _ = bad_alternative"

fun to_v128 :: "stack_elem \<Rightarrow> u128 res" where
  "to_v128 (v128_const v) = Inr v"
| "to_v128 _ = bad_alternative"

definition make_v128 :: "u64 \<Rightarrow> u64 \<Rightarrow> u128" where
  "make_v128 low high = push_bit 64 (ucast high) OR ucast low"

definition v128_low :: "u128 \<Rightarrow> u64" where
  "v128_low v = ucast v"

definition v128_high :: "u128 \<Rightarrow> u64" where
  "v128_high v = ucast (drop_bit 64 v)"

subsection \<open>The array\<close>

text \<open>
  The slots a \<open>resize\<close> adds hold no value of the program; here they get the pushed element (\<open>filler\<close>
  in the constructor). Within the bounds of \<open>_index\<close> no operation reads such a slot before it is
  written.
\<close>

record 'a stack =
  store :: "'a list"
  index :: nat

definition stack_new :: "'a \<Rightarrow> nat \<Rightarrow> 'a stack" where
  "stack_new filler ElemSz = \<lparr>store = replicate ElemSz filler, index = 0\<rparr>"

definition push :: "'a \<Rightarrow> 'a stack \<Rightarrow> 'a stack res" where
  "push e s =
     (let st = (if index s \<ge> length (store s) then store s @ replicate (length (store s)) e else store s) in
      if index s < length st then Inr (s\<lparr>store := st[index s := e], index := index s + 1\<rparr>)
      else Inl (Undefined ''push past the array''))"

definition pop :: "'a stack \<Rightarrow> ('a stack \<times> 'a) res" where
  "pop s =
     assertR (index s > 0) (wasm_interpreter_exception ''operand stack underflow'')
       (if index s \<le> length (store s)
        then Inr (s\<lparr>index := index s - 1\<rparr>, store s ! (index s - 1))
        else Inl (Undefined ''pop past the array''))"

definition get_at :: "'a stack \<Rightarrow> nat \<Rightarrow> 'a res" where
  "get_at s i =
     assertR (i \<le> index s) (wasm_interpreter_exception ''invalid stack index'')
       (if i < length (store s) then Inr (store s ! i) else Inl (Undefined ''get past the array''))"

definition set_at :: "nat \<Rightarrow> 'a \<Rightarrow> 'a stack \<Rightarrow> 'a stack res" where
  "set_at i e s =
     assertR (i \<le> index s) (wasm_interpreter_exception ''invalid stack index'')
       (if i < length (store s) then Inr (s\<lparr>store := (store s)[i := e]\<rparr>)
        else Inl (Undefined ''set past the array''))"

definition eat :: "nat \<Rightarrow> 'a stack \<Rightarrow> 'a stack res" where
  "eat i s =
     assertR (i \<le> length (store s)) (wasm_interpreter_exception ''operand stack eat: index out of bounds'')
       (Inr (s\<lparr>index := i\<rparr>))"

function compact_loop :: "nat \<Rightarrow> nat \<Rightarrow> nat \<Rightarrow> nat \<Rightarrow> 'a list \<Rightarrow> 'a list" where
  "compact_loop i n from_i dst st =
     (if i < n then compact_loop (i + 1) n from_i dst (st[dst + i := st ! (from_i + i)]) else st)"
  by pat_completeness auto
termination
  by (relation "measure (\<lambda>(i, n, from_i, dst, st). n - i)") auto

definition compact_n :: "nat \<Rightarrow> nat \<Rightarrow> 'a stack \<Rightarrow> 'a stack res" where
  "compact_n i n s =
     (if n \<le> index s \<and> index s \<le> length (store s) \<and> i + n \<le> length (store s)
      then Inr (s\<lparr>store := compact_loop 0 n (index s - n) i (store s), index := i + n\<rparr>)
      else Inl (Undefined ''compact past the array''))"

definition compact :: "nat \<Rightarrow> 'a stack \<Rightarrow> 'a stack res" where
  "compact i s =
     (if 0 < index s \<and> index s \<le> length (store s) \<and> i < length (store s)
      then Inr (s\<lparr>store := (store s)[i := store s ! (index s - 1)], index := i + 1\<rparr>)
      else Inl (Undefined ''compact past the array''))"

definition peek :: "nat \<Rightarrow> 'a stack \<Rightarrow> 'a res" where
  "peek i s =
     (if i < index s \<and> index s \<le> length (store s) then Inr (store s ! (index s - 1 - i))
      else Inl (Undefined ''peek past the array''))"

text \<open>\<open>peek(i) = v\<close>, the reference returned by \<open>peek\<close> used as a target.\<close>

definition poke :: "nat \<Rightarrow> 'a \<Rightarrow> 'a stack \<Rightarrow> 'a stack res" where
  "poke i v s =
     (if i < index s \<and> index s \<le> length (store s)
      then Inr (s\<lparr>store := (store s)[index s - 1 - i := v]\<rparr>)
      else Inl (Undefined ''peek past the array''))"

definition trim :: "nat \<Rightarrow> 'a stack \<Rightarrow> 'a stack" where
  "trim amt s = s\<lparr>index := (if amt \<le> index s then index s - amt else 2 ^ 64 - (amt - index s))\<rparr>"

definition initial_stack_size :: nat where
  "initial_stack_size = 8"

definition reset_capacity :: "'a stack \<Rightarrow> 'a stack" where
  "reset_capacity s =
     (if length (store s) > initial_stack_size then s\<lparr>store := take initial_stack_size (store s)\<rparr> else s)"

declare compact_loop.simps [simp del]

subsection \<open>The interface\<close>

locale operand_stack_laws =
  fixes inv :: "'s \<Rightarrow> bool" and vals :: "'s \<Rightarrow> 'a list"
    and psh :: "'a \<Rightarrow> 's \<Rightarrow> 's res" and pp :: "'s \<Rightarrow> ('s \<times> 'a) res" and rd :: "'s \<Rightarrow> nat \<Rightarrow> 'a res"
    and wr :: "nat \<Rightarrow> 'a \<Rightarrow> 's \<Rightarrow> 's res" and cut :: "nat \<Rightarrow> 's \<Rightarrow> 's res" and cmp :: "nat \<Rightarrow> nat \<Rightarrow> 's \<Rightarrow> 's res"
    and pk :: "nat \<Rightarrow> 's \<Rightarrow> 'a res" and pke :: "nat \<Rightarrow> 'a \<Rightarrow> 's \<Rightarrow> 's res"
  assumes push_law: "inv s \<Longrightarrow> \<exists>s'. psh e s = Inr s' \<and> inv s' \<and> vals s' = vals s @ [e]"
    and pop_law: "inv s \<Longrightarrow> vals s \<noteq> [] \<Longrightarrow>
      \<exists>s'. pp s = Inr (s', last (vals s)) \<and> inv s' \<and> vals s' = butlast (vals s)"
    and pop_empty: "inv s \<Longrightarrow> vals s = [] \<Longrightarrow> pp s = Inl (wasm_interpreter_exception ''operand stack underflow'')"
    and get_law: "inv s \<Longrightarrow> i < length (vals s) \<Longrightarrow> rd s i = Inr (vals s ! i)"
    and set_law: "inv s \<Longrightarrow> i < length (vals s) \<Longrightarrow> \<exists>s'. wr i e s = Inr s' \<and> inv s' \<and> vals s' = (vals s)[i := e]"
    and eat_law: "inv s \<Longrightarrow> i \<le> length (vals s) \<Longrightarrow> \<exists>s'. cut i s = Inr s' \<and> inv s' \<and> vals s' = take i (vals s)"
    and compact_law: "inv s \<Longrightarrow> i + n \<le> length (vals s) \<Longrightarrow>
      \<exists>s'. cmp i n s = Inr s' \<and> inv s' \<and> vals s' = take i (vals s) @ drop (length (vals s) - n) (vals s)"
    and peek_law: "inv s \<Longrightarrow> i < length (vals s) \<Longrightarrow> pk i s = Inr (rev (vals s) ! i)"
    and poke_law: "inv s \<Longrightarrow> i < length (vals s) \<Longrightarrow>
      \<exists>s'. pke i e s = Inr s' \<and> inv s' \<and> vals s' = rev ((rev (vals s))[i := e])"
begin

lemma push_ok: "inv s \<Longrightarrow> psh e s = Inr s' \<Longrightarrow> inv s' \<and> vals s' = vals s @ [e]"
  using push_law [of s e] by auto

lemma push_not_error: "inv s \<Longrightarrow> psh e s \<noteq> Inl x"
  using push_law [of s e] by auto

lemma pop_ok: "inv s \<Longrightarrow> pp s = Inr (s', v) \<Longrightarrow> inv s' \<and> vals s = vals s' @ [v]"
  using pop_law [of s] pop_empty [of s] by (cases "vals s = []") auto

lemma pop_defined: "inv s \<Longrightarrow> \<not> is_undefined (pp s)"
  using pop_law [of s] pop_empty [of s] by (cases "vals s = []") auto

lemma pop_snoc: "inv s \<Longrightarrow> vals s = vs @ [v] \<Longrightarrow> \<exists>s'. pp s = Inr (s', v) \<and> inv s' \<and> vals s' = vs"
  using pop_law [of s] by simp

lemma push_pop: "inv s \<Longrightarrow> \<exists>s'. bindR (psh e s) pp = Inr (s', e) \<and> inv s' \<and> vals s' = vals s"
proof -
  assume "inv s"
  then obtain s1 where s1: "psh e s = Inr s1" "inv s1" "vals s1 = vals s @ [e]"
    using push_law by blast
  with pop_snoc [OF s1(2,3)] show ?thesis by simp
qed

end

subsection \<open>The array implements the interface\<close>

definition stack_inv :: "'a stack \<Rightarrow> bool" where
  "stack_inv s \<longleftrightarrow> index s \<le> length (store s) \<and> store s \<noteq> []"

definition vals :: "'a stack \<Rightarrow> 'a list" where
  "vals s = take (index s) (store s)"

lemma length_vals [simp]: "stack_inv s \<Longrightarrow> length (vals s) = index s"
  by (simp add: vals_def stack_inv_def min_def)

lemma stack_new_ok [simp]: "0 < n \<Longrightarrow> stack_inv (stack_new f n) \<and> vals (stack_new f n) = []"
  by (simp add: stack_inv_def vals_def stack_new_def)

lemma compact_loop_spec:
  assumes "dst \<le> src" and "src + n \<le> length st" and "i \<le> n"
  shows "length (compact_loop i n src dst st) = length st \<and>
    take (dst + n) (compact_loop i n src dst st) = take (dst + i) st @ take (n - i) (drop (src + i) st)"
  using assms(2,3)
proof (induction "n - i" arbitrary: i st)
  case 0
  then show ?case by (simp add: compact_loop.simps)
next
  case (Suc k)
  let ?st = "st[dst + i := st ! (src + i)]"
  have lt: "i < n" "src + i < length st" "dst + i < length st" using Suc assms(1) by auto
  have IH: "length (compact_loop (i + 1) n src dst ?st) = length ?st \<and>
      take (dst + n) (compact_loop (i + 1) n src dst ?st) = take (dst + (i + 1)) ?st @ take (n - (i + 1)) (drop (src + (i + 1)) ?st)"
    using Suc lt by (intro Suc.hyps(1)) auto
  have d: "drop (src + (i + 1)) ?st = drop (src + (i + 1)) st"
    using assms(1) by (simp add: drop_update_cancel)
  have "n - i = Suc (n - (i + 1))" using lt by simp
  moreover have "drop (src + i) st = st ! (src + i) # drop (src + i + 1) st"
    using lt by (simp add: Cons_nth_drop_Suc)
  ultimately have "take (n - i) (drop (src + i) st) = st ! (src + i) # take (n - (i + 1)) (drop (src + i + 1) st)"
    by simp
  moreover have "take (dst + (i + 1)) ?st = take (dst + i) st @ [st ! (src + i)]"
    using lt by (simp add: take_Suc_conv_app_nth)
  ultimately show ?case
    using IH lt d by (simp add: compact_loop.simps [of i])
qed

interpretation os: operand_stack_laws stack_inv vals push pop get_at set_at eat compact_n peek poke
proof
  fix s :: "'a stack" and e
  assume "stack_inv s"
  then show "\<exists>s'. push e s = Inr s' \<and> stack_inv s' \<and> vals s' = vals s @ [e]"
    by (auto simp: push_def stack_inv_def vals_def take_Suc_conv_app_nth nth_append Let_def)
next
  fix s :: "'a stack"
  assume "stack_inv s" "vals s \<noteq> []"
  then show "\<exists>s'. pop s = Inr (s', last (vals s)) \<and> stack_inv s' \<and> vals s' = butlast (vals s)"
    by (auto simp: pop_def assertR_def stack_inv_def vals_def last_conv_nth min_def butlast_take)
next
  fix s :: "'a stack"
  assume "stack_inv s" "vals s = []"
  then show "pop s = Inl (wasm_interpreter_exception ''operand stack underflow'')"
    by (simp add: pop_def assertR_def vals_def stack_inv_def)
next
  fix s :: "'a stack" and i
  assume "stack_inv s" "i < length (vals s)"
  then show "get_at s i = Inr (vals s ! i)"
    by (simp add: get_at_def assertR_def stack_inv_def vals_def)
next
  fix s :: "'a stack" and i e
  assume "stack_inv s" "i < length (vals s)"
  then show "\<exists>s'. set_at i e s = Inr s' \<and> stack_inv s' \<and> vals s' = (vals s)[i := e]"
    by (simp add: set_at_def assertR_def stack_inv_def vals_def take_update_swap)
next
  fix s :: "'a stack" and i
  assume "stack_inv s" "i \<le> length (vals s)"
  then show "\<exists>s'. eat i s = Inr s' \<and> stack_inv s' \<and> vals s' = take i (vals s)"
    by (auto simp: eat_def assertR_def stack_inv_def vals_def min_def split: if_splits)
next
  fix s :: "'a stack" and i n
  assume s: "stack_inv s" "i + n \<le> length (vals s)"
  then have le: "i + n \<le> index s" "index s \<le> length (store s)" by (simp_all add: stack_inv_def vals_def)
  then have "length (compact_loop 0 n (index s - n) i (store s)) = length (store s) \<and>
      take (i + n) (compact_loop 0 n (index s - n) i (store s)) = take i (store s) @ take n (drop (index s - n) (store s))"
    using compact_loop_spec [of i "index s - n" n "store s" 0] by simp
  with le show "\<exists>s'. compact_n i n s = Inr s' \<and> stack_inv s' \<and> vals s' = take i (vals s) @ drop (length (vals s) - n) (vals s)"
    using s by (auto simp: compact_n_def stack_inv_def vals_def min_def drop_take)
next
  fix s :: "'a stack" and i
  assume "stack_inv s" "i < length (vals s)"
  then show "peek i s = Inr (rev (vals s) ! i)"
    by (simp add: peek_def stack_inv_def vals_def rev_nth min_absorb2)
next
  fix s :: "'a stack" and i e
  assume "stack_inv s" "i < length (vals s)"
  then show "\<exists>s'. poke i e s = Inr s' \<and> stack_inv s' \<and> vals s' = rev ((rev (vals s))[i := e])"
    by (simp add: poke_def stack_inv_def vals_def rev_update take_update_swap min_absorb2)
qed

lemma compact_eq: "stack_inv s \<Longrightarrow> 0 < index s \<Longrightarrow> i < index s \<Longrightarrow> compact i s = compact_n i 1 s"
  by (auto simp: compact_def compact_n_def stack_inv_def compact_loop.simps)

lemma reset_capacity_ok: "stack_inv s \<Longrightarrow> index s \<le> initial_stack_size \<Longrightarrow>
    stack_inv (reset_capacity s) \<and> vals (reset_capacity s) = vals s"
  by (auto simp: reset_capacity_def stack_inv_def vals_def initial_stack_size_def)

subsection \<open>Properties\<close>

text \<open>
  \<^bold>\<open>C20\<close>. The operand stack behaves as a list whatever the array behind it did: a push, growing the
  array or not, adds at the end; a pop returns the last value or throws on an empty stack; branches
  (\<open>eat\<close>, \<open>compact_n\<close>, \<open>compact\<close>) keep exactly the values below the target and the results, in order. \<open>get\<close>
  and \<open>set\<close> of a live element, counted from the bottom, and \<open>peek\<close> and assignments through it, counted from the
  top, read and replace exactly that element. None of these can leave the array on a well-formed stack. Beyond the live
  elements \<open>get\<close> and \<open>set\<close> throw, except at the very next index, which their check admits.
\<close>

theorem operand_stack_refines_list:
  assumes "stack_inv s"
  shows "(\<exists>s'. push e s = Inr s' \<and> stack_inv s' \<and> vals s' = vals s @ [e]) \<and>
    pop s = (if vals s = [] then Inl (wasm_interpreter_exception ''operand stack underflow'')
             else Inr (s\<lparr>index := index s - 1\<rparr>, last (vals s))) \<and>
    (vals s \<noteq> [] \<longrightarrow> vals (s\<lparr>index := index s - 1\<rparr>) = butlast (vals s)) \<and>
    (i \<le> length (vals s) \<longrightarrow> (\<exists>s'. eat i s = Inr s' \<and> stack_inv s' \<and> vals s' = take i (vals s))) \<and>
    (i + n \<le> length (vals s) \<longrightarrow>
       (\<exists>s'. compact_n i n s = Inr s' \<and> stack_inv s' \<and> vals s' = take i (vals s) @ drop (length (vals s) - n) (vals s))) \<and>
    (i < length (vals s) \<longrightarrow>
       get_at s i = Inr (vals s ! i) \<and> (\<exists>s'. set_at i e s = Inr s' \<and> stack_inv s' \<and> vals s' = (vals s)[i := e]) \<and>
       peek i s = Inr (rev (vals s) ! i) \<and> (\<exists>s'. poke i e s = Inr s' \<and> stack_inv s' \<and> vals s' = rev ((rev (vals s))[i := e])) \<and>
       (\<exists>s'. compact i s = Inr s' \<and> stack_inv s' \<and> vals s' = take i (vals s) @ [last (vals s)])) \<and>
    (length (vals s) < i \<longrightarrow>
       get_at s i = Inl (wasm_interpreter_exception ''invalid stack index'') \<and>
       set_at i e s = Inl (wasm_interpreter_exception ''invalid stack index''))"
proof -
  have "pop s = (if vals s = [] then Inl (wasm_interpreter_exception ''operand stack underflow'')
             else Inr (s\<lparr>index := index s - 1\<rparr>, last (vals s))) \<and>
    (vals s \<noteq> [] \<longrightarrow> vals (s\<lparr>index := index s - 1\<rparr>) = butlast (vals s))"
    using assms os.pop_law [OF assms] os.pop_empty [OF assms]
    by (cases "vals s = []") (auto simp: pop_def assertR_def stack_inv_def split: if_splits)
  moreover have "\<exists>s'. compact i s = Inr s' \<and> stack_inv s' \<and> vals s' = take i (vals s) @ [last (vals s)]" if "i < length (vals s)"
  proof -
    have "length (vals s) = index s" using assms by (simp add: vals_def stack_inv_def min_absorb2)
    then have "compact i s = compact_n i 1 s" using that by (intro compact_eq [OF assms]) simp_all
    moreover have "drop (length (vals s) - 1) (vals s) = [last (vals s)]" using that by (cases "vals s" rule: rev_cases) simp_all
    ultimately show ?thesis using os.compact_law [OF assms, of i 1] that by simp
  qed
  moreover have "length (vals s) < i \<longrightarrow> get_at s i = Inl (wasm_interpreter_exception ''invalid stack index'') \<and>
      set_at i e s = Inl (wasm_interpreter_exception ''invalid stack index'')"
    using assms by (auto simp: get_at_def set_at_def assertR_def vals_def stack_inv_def)
  ultimately show ?thesis
    using os.push_law [OF assms] os.eat_law [OF assms] os.compact_law [OF assms] os.get_law [OF assms] os.set_law [OF assms]
      os.peek_law [OF assms] os.poke_law [OF assms] by blast
qed

theorem operand_stack_refines_list_witness:
  "(\<exists>s'. compact_n 1 2 (stack_new (i32_const 0) 8 \<lparr>store := map i32_const [1, 2, 3, 4, 5, 6, 7, 8], index := 5\<rparr>) = Inr s' \<and>
     vals s' = map i32_const [1, 4, 5]) \<and>
   peek 1 (stack_new (i32_const 0) 8 \<lparr>store := map i32_const [1, 2, 3, 4, 5, 6, 7, 8], index := 5\<rparr>) = Inr (i32_const 4)"
proof -
  let ?s = "stack_new (i32_const 0) 8 \<lparr>store := map i32_const [1, 2, 3, 4, 5, 6, 7, 8], index := 5\<rparr>"
  have "stack_inv ?s" by (simp add: stack_inv_def)
  from operand_stack_refines_list [OF this, of "i32_const 9" 1 2] show ?thesis
    by (auto simp: vals_def)
qed

end
