(* ===== verification/Linear_Memory.thy ===== *)
theory Linear_Memory
  imports Operand_Stack
begin

unbundle bit_operations_syntax

section \<open>Linear memory\<close>

text \<open>
  The guest's memory: \<open>wasm_allocator\<close> of \<open>psizam/allocator.hpp\<close>, \<open>memory.grow\<close> and the memory modes of
  \<open>psizam/detail/execution_context.hpp\<close>, and the address computation of
  \<open>psizam/detail/interpret_visitor.hpp\<close>. Addresses are offsets from the base of the memory, as the
  64-bit words the code computes. A self-managed or pooled allocator reserves \<open>max_memory\<close> bytes and
  a suffix page; touching a reserved byte that is not mapped raises the signal the runtime turns into
  \<open>wasm_memory_exception\<close>. Touching anything else (below the base, behind the reservation, behind a
  caller-provided buffer) is \<open>Undefined\<close>: the host's memory. A store that touches an unmapped byte
  writes nothing.
\<close>

subsection \<open>Words as little-endian bytes\<close>

definition le_bytes :: "nat \<Rightarrow> 'a :: len word \<Rightarrow> u8 list" where
  "le_bytes n w = map (\<lambda>i. ucast (drop_bit (8 * i) w)) [0..<n]"

definition le_word :: "u8 list \<Rightarrow> 'a :: len word" where
  "le_word bs = foldr (\<lambda>b acc. push_bit 8 acc OR ucast b) bs 0"

subsection \<open>The allocator\<close>

definition page_size :: nat where "page_size = 65536"
definition max_memory :: nat where "max_memory = 8589934592"
definition max_pages :: nat where "max_pages = 65536"

text \<open>
  \<open>page\<close> is \<open>-1\<close> while no memory is defined. \<open>prot p\<close> says that wasm page \<open>p\<close> of the reservation is
  mapped read/write. \<open>stored_mem_size\<close> are the eight bytes at \<open>mem_size_offset()\<close>. \<open>os_page\<close> is
  \<open>sysconf(_SC_PAGESIZE)\<close> and \<open>mprotect_ok\<close> whether the system's \<open>mprotect\<close> succeeds.
\<close>

record wasm_allocator =
  page :: int
  external :: bool
  pooled_region :: bool
  max_pages_limit :: nat
  raw_bytes :: "nat \<Rightarrow> u8"
  prot :: "nat \<Rightarrow> bool"
  stored_mem_size :: u64
  os_page :: nat
  mprotect_ok :: bool

definition prefix_size :: "wasm_allocator \<Rightarrow> nat" where
  "prefix_size al = os_page al + os_page al"

definition suffix_size :: "wasm_allocator \<Rightarrow> nat" where
  "suffix_size al = os_page al"

definition update_stored_mem_size :: "wasm_allocator \<Rightarrow> wasm_allocator" where
  "update_stored_mem_size al =
     (if page al \<ge> 0 then al\<lparr>stored_mem_size := word_of_int (page al) * of_nat page_size\<rparr> else al)"

definition zero_range :: "nat \<Rightarrow> nat \<Rightarrow> wasm_allocator \<Rightarrow> wasm_allocator" where
  "zero_range a n al = al\<lparr>raw_bytes := (\<lambda>i. if a \<le> i \<and> i < a + n then 0 else raw_bytes al i)\<rparr>"

definition protect :: "nat \<Rightarrow> nat \<Rightarrow> bool \<Rightarrow> wasm_allocator \<Rightarrow> wasm_allocator" where
  "protect p n rw al = al\<lparr>prot := (\<lambda>i. if p \<le> i \<and> i < p + n then rw else prot al i)\<rparr>"

definition mprotect_failed :: exn where
  "mprotect_failed = wasm_bad_alloc ''mprotect failed''"

definition alloc :: "nat \<Rightarrow> wasm_allocator \<Rightarrow> wasm_allocator res" where
  "alloc sz al =
     (if sz = 0 then Inr al
      else
        assertR (page al \<ge> 0) (wasm_bad_alloc ''require memory to allocate'')
        (assertR (sz + nat (page al) \<le> max_pages_limit al) (wasm_bad_alloc ''exceeded max number of pages'')
        (assertR (external al \<or> mprotect_ok al) mprotect_failed
          (let al1 = (if external al then al else protect (nat (page al)) sz True al);
               al2 = zero_range (page_size * nat (page al)) (page_size * sz) al1
           in Inr (update_stored_mem_size (al2\<lparr>page := page al2 + int sz\<rparr>))))))"

definition free :: "nat \<Rightarrow> wasm_allocator \<Rightarrow> wasm_allocator res" where
  "free sz al =
     (if sz = 0 then Inr al
      else
        assertR (page al \<ge> 0) (wasm_bad_alloc ''require memory to deallocate'')
        (assertR (sz \<le> nat (page al)) (wasm_bad_alloc ''freed too many pages'')
          (let al1 = al\<lparr>page := page al - int sz\<rparr> in
           assertR (external al \<or> mprotect_ok al) mprotect_failed
             (Inr (update_stored_mem_size
                (if external al then al1 else protect (nat (page al1)) sz False al1))))))"

text \<open>
  The constructors. A fresh reservation is unmapped; the bytes of a caller-provided buffer and the
  state of a region taken from the pool are what they are.
\<close>

definition wasm_allocator_new :: "nat \<Rightarrow> bool \<Rightarrow> wasm_allocator res" where
  "wasm_allocator_new os ok =
     assertR ok mprotect_failed
       (Inr \<lparr>page = - 1, external = False, pooled_region = False, max_pages_limit = max_pages, raw_bytes = (\<lambda>_. 0),
             prot = (\<lambda>_. False), stored_mem_size = 0, os_page = os, mprotect_ok = ok\<rparr>)"

definition wasm_allocator_external :: "nat \<Rightarrow> bool \<Rightarrow> bool \<Rightarrow> (nat \<Rightarrow> u8) \<Rightarrow> u32 \<Rightarrow> wasm_allocator res" where
  "wasm_allocator_external os ok base_nonnull buf max_bytes =
     assertR base_nonnull (wasm_bad_alloc ''null base pointer'')
     (assertR (unat max_bytes \<ge> page_size) (wasm_bad_alloc ''max_bytes too small'')
     (assertR (max_bytes AND (max_bytes - 1) = 0) (wasm_bad_alloc ''max_bytes must be power of 2'')
       (Inr \<lparr>page = - 1, external = True, pooled_region = False, max_pages_limit = unat max_bytes div page_size,
             raw_bytes = buf, prot = (\<lambda>_. False), stored_mem_size = 0, os_page = os, mprotect_ok = ok\<rparr>)))"

definition wasm_allocator_pooled :: "nat \<Rightarrow> bool \<Rightarrow> (nat \<Rightarrow> u8) \<Rightarrow> (nat \<Rightarrow> bool) \<Rightarrow> u64 \<Rightarrow> wasm_allocator" where
  "wasm_allocator_pooled os ok region_bytes region_prot region_size =
     \<lparr>page = - 1, external = False, pooled_region = True, max_pages_limit = max_pages, raw_bytes = region_bytes,
      prot = region_prot, stored_mem_size = region_size, os_page = os, mprotect_ok = ok\<rparr>"

definition reset_pages :: "nat \<Rightarrow> wasm_allocator \<Rightarrow> wasm_allocator res" where
  "reset_pages new_pages al =
     bindR (if page al \<ge> 0 then Inr (zero_range 0 (page_size * nat (page al)) al)
            else assertR (external al \<or> mprotect_ok al) mprotect_failed (Inr (al\<lparr>page := 0\<rparr>)))
      (\<lambda>al1. bindR (if new_pages > nat (page al1) then alloc (new_pages - nat (page al1)) al1
                     else if new_pages < nat (page al1) then free (nat (page al1) - new_pages) al1
                     else Inr al1)
        (\<lambda>al2. Inr (update_stored_mem_size al2)))"

definition reset_none :: "wasm_allocator \<Rightarrow> wasm_allocator res" where
  "reset_none al =
     bindR (if page al \<ge> 0 then
              let al1 = zero_range 0 (page_size * nat (page al)) al in
              if external al then Inr al1
              else assertR (mprotect_ok al) mprotect_failed (Inr (protect 0 (nat (page al)) False al1))
            else Inr al)
      (\<lambda>al2. Inr (al2\<lparr>page := - 1, stored_mem_size := 0\<rparr>))"

definition get_current_page :: "wasm_allocator \<Rightarrow> u32" where
  "get_current_page al = word_of_int (page al)"

subsection \<open>Touching memory\<close>

definition oob :: exn where
  "oob = wasm_memory_exception ''wasm memory out-of-bounds''"

definition touch :: "wasm_allocator \<Rightarrow> u64 \<Rightarrow> unit res" where
  "touch al e =
     (let a = unat e in
      if external al then
        (if a < max_pages_limit al * page_size then Inr () else Inl (Undefined ''outside the caller-provided memory''))
      else if a < max_memory then (if prot al (a div page_size) then Inr () else Inl oob)
      else if a < max_memory + suffix_size al then Inl oob
      else Inl (Undefined ''outside the reserved region''))"

fun load_bytes :: "wasm_allocator \<Rightarrow> u64 \<Rightarrow> nat \<Rightarrow> u8 list res" where
  "load_bytes al e 0 = Inr []"
| "load_bytes al e (Suc n) =
     bindR (touch al e) (\<lambda>_. bindR (load_bytes al (e + 1) n) (\<lambda>bs. Inr (raw_bytes al (unat e) # bs)))"

definition store_bytes :: "u64 \<Rightarrow> u8 list \<Rightarrow> wasm_allocator \<Rightarrow> wasm_allocator res" where
  "store_bytes e bs al =
     bindR (load_bytes al e (length bs))
       (\<lambda>_. Inr (al\<lparr>raw_bytes := (\<lambda>i. if unat e \<le> i \<and> i < unat e + length bs then bs ! (i - unat e) else raw_bytes al i)\<rparr>))"

subsection \<open>Modes and effective addresses\<close>

datatype mem_safety = guarded | checked | unchecked_mode | memory16
datatype checked_mode = strict | relaxed | immediate

text \<open>
  The memory-related fields of the execution context and of the module's memory declaration
  (\<open>has_memory\<close>: \<open>memories\<close> is not empty; \<open>memory64\<close>, \<open>limits_flags\<close>, \<open>limits_maximum\<close>: its first entry).
\<close>

record memory =
  wasm_alloc :: wasm_allocator
  mem_mode :: mem_safety
  checked_kind :: checked_mode
  read_watermark :: u64
  has_memory :: bool
  memory64 :: bool
  limits_flags :: bool
  limits_maximum :: u32
  ctx_max_pages :: u32

definition is_memory64 :: "memory \<Rightarrow> bool" where
  "is_memory64 m \<longleftrightarrow> has_memory m \<and> memory64 m"

definition memory_size_bytes :: "memory \<Rightarrow> u64" where
  "memory_size_bytes m = stored_mem_size (wasm_alloc m)"

definition set_max_pages :: "u32 \<Rightarrow> memory \<Rightarrow> memory" where
  "set_max_pages n m = m\<lparr>ctx_max_pages := min n (of_nat max_pages)\<rparr>"

definition track_read_max :: "u64 \<Rightarrow> memory \<Rightarrow> memory" where
  "track_read_max e m = (if e > read_watermark m then m\<lparr>read_watermark := e\<rparr> else m)"

definition track_read_or :: "u64 \<Rightarrow> memory \<Rightarrow> memory" where
  "track_read_or e m = m\<lparr>read_watermark := read_watermark m OR e\<rparr>"

definition validate_read_watermark :: "memory \<Rightarrow> memory res" where
  "validate_read_watermark m =
     (if mem_mode m \<noteq> checked then Inr m
      else if read_watermark m > memory_size_bytes m
      then Inl (wasm_memory_exception ''deferred memory read out-of-bounds'')
      else Inr (m\<lparr>read_watermark := 0\<rparr>))"

definition grow_linear_memory :: "u32 \<Rightarrow> memory \<Rightarrow> (memory \<times> u32) res" where
  "grow_linear_memory udelta m =
     (let sz = get_current_page (wasm_alloc m) in
      if \<not> has_memory m \<or> ctx_max_pages m - sz < udelta \<or> (limits_flags m \<and> limits_maximum m - sz < udelta)
      then Inr (m, - 1)
      else bindR (if udelta > 0 then alloc (unat udelta) (wasm_alloc m) else Inr (wasm_alloc m))
             (\<lambda>al. Inr (m\<lparr>wasm_alloc := al\<rparr>, sz)))"

definition compute_effective :: "u32 \<Rightarrow> stack_elem \<Rightarrow> memory \<Rightarrow> u64 res" where
  "compute_effective offset ptr m =
     (if is_memory64 m then
        bindR (to_ui64 ptr) (\<lambda>addr.
          let effective = ucast offset + addr in
          if mem_mode m = guarded then
            assertR (unat effective < max_memory \<and> effective \<ge> addr)
              (wasm_memory_exception ''memory address out of range'') (Inr effective)
          else Inr effective)
      else
        bindR (to_ui32 ptr) (\<lambda>addr.
          let addr' = (if mem_mode m = memory16 then addr AND 0xffff else addr) in
          Inr (ucast offset + ucast addr')))"

definition memop_addr_read :: "u32 \<Rightarrow> nat \<Rightarrow> stack_elem \<Rightarrow> memory \<Rightarrow> (memory \<times> u64) res" where
  "memop_addr_read offset access_size ptr m =
     bindR (compute_effective offset ptr m) (\<lambda>effective.
       if mem_mode m = checked then
         let e = effective + of_nat access_size in
         if checked_kind m = immediate then
           assertR (e \<le> memory_size_bytes m) (wasm_memory_exception ''memory read out of bounds'')
             (Inr (m, effective))
         else if checked_kind m = strict then Inr (track_read_max e m, effective)
         else Inr (track_read_or e m, effective)
       else Inr (m, effective))"

definition memop_addr_write :: "u32 \<Rightarrow> nat \<Rightarrow> stack_elem \<Rightarrow> memory \<Rightarrow> u64 res" where
  "memop_addr_write offset access_size ptr m =
     bindR (compute_effective offset ptr m) (\<lambda>effective.
       if mem_mode m = checked then
         assertR (effective + of_nat access_size \<le> memory_size_bytes m)
           (wasm_memory_exception ''memory write out of bounds'') (Inr effective)
       else Inr effective)"

text \<open>A load and a store of \<open>n\<close> bytes: address, check, \<open>read_unaligned\<close> or \<open>write_unaligned\<close>.\<close>

definition mem_load :: "u32 \<Rightarrow> nat \<Rightarrow> stack_elem \<Rightarrow> memory \<Rightarrow> (memory \<times> u8 list) res" where
  "mem_load offset n ptr m =
     bindR (memop_addr_read offset n ptr m) (\<lambda>(m', e).
       bindR (load_bytes (wasm_alloc m') e n) (\<lambda>bs. Inr (m', bs)))"

definition mem_store :: "u32 \<Rightarrow> stack_elem \<Rightarrow> u8 list \<Rightarrow> memory \<Rightarrow> memory res" where
  "mem_store offset ptr bs m =
     bindR (memop_addr_write offset (length bs) ptr m) (\<lambda>e.
       bindR (store_bytes e bs (wasm_alloc m)) (\<lambda>al. Inr (m\<lparr>wasm_alloc := al\<rparr>)))"

subsection \<open>Bulk operations\<close>

text \<open>
  \<open>validate_pointer\<close> of \<open>execution_interface.hpp\<close> for byte ranges: it reads the last byte of the range
  and nothing else. For an empty range at 0 that is the last byte of the context page below the
  memory, which is readable once memory is defined (and part of a caller-provided buffer).
\<close>

definition validate_pointer :: "u32 \<Rightarrow> u32 \<Rightarrow> wasm_allocator \<Rightarrow> unit res" where
  "validate_pointer ptr len al =
     (let last_off = int (unat ptr) + int (unat len) - 1 in
      if last_off < 0 then (if external al \<or> page al \<ge> 0 then Inr () else Inl oob)
      else touch al (word_of_int last_off))"

definition init_linear_memory :: "u8 list \<Rightarrow> bool \<Rightarrow> u32 \<Rightarrow> u32 \<Rightarrow> u32 \<Rightarrow> wasm_allocator \<Rightarrow> wasm_allocator res" where
  "init_linear_memory data dropped d s n al =
     (let data_len = (if dropped then 0 else length data) in
      if unat s + unat n > data_len then Inl (wasm_memory_exception ''data out of range'')
      else bindR (validate_pointer d n al) (\<lambda>_.
             if data_len \<noteq> 0 then store_bytes (ucast d) (take (unat n) (drop (unat s) data)) al else Inr al))"

text \<open>
  \<open>memory.copy\<close> and \<open>memory.fill\<close> run as many dispatches of the same instruction: each one validates,
  moves one byte and rewrites its three operands, until the size operand is 0 (\<open>None\<close>: the operands
  are popped and the program counter advances).
\<close>

definition memory_copy_step ::
  "u32 \<Rightarrow> u32 \<Rightarrow> u32 \<Rightarrow> wasm_allocator \<Rightarrow> ((u32 \<times> u32 \<times> u32) option \<times> wasm_allocator) res" where
  "memory_copy_step sz src dst al =
     bindR (validate_pointer src sz al) (\<lambda>_. bindR (validate_pointer dst sz al) (\<lambda>_.
       if sz = 0 then Inr (None, al)
       else if dst \<le> src then
         bindR (load_bytes al (ucast src) 1) (\<lambda>b. bindR (store_bytes (ucast dst) b al) (\<lambda>al'.
           Inr (Some (sz - 1, src + 1, dst + 1), al')))
       else
         bindR (load_bytes al (ucast src + ucast (sz - 1)) 1) (\<lambda>b.
           bindR (store_bytes (ucast dst + ucast (sz - 1)) b al) (\<lambda>al'.
             Inr (Some (sz - 1, src, dst), al')))))"

definition memory_fill_step ::
  "u32 \<Rightarrow> u32 \<Rightarrow> u32 \<Rightarrow> wasm_allocator \<Rightarrow> ((u32 \<times> u32 \<times> u32) option \<times> wasm_allocator) res" where
  "memory_fill_step sz src dst al =
     bindR (validate_pointer dst sz al) (\<lambda>_.
       if sz = 0 then Inr (None, al)
       else bindR (store_bytes (ucast dst) [ucast src] al) (\<lambda>al'. Inr (Some (sz - 1, src, dst + 1), al')))"

text \<open>The dispatches of one instruction, at most \<open>fuel\<close> of them; \<open>None\<close>: not finished.\<close>

fun run_bulk ::
  "(u32 \<Rightarrow> u32 \<Rightarrow> u32 \<Rightarrow> wasm_allocator \<Rightarrow> ((u32 \<times> u32 \<times> u32) option \<times> wasm_allocator) res) \<Rightarrow>
   nat \<Rightarrow> u32 \<Rightarrow> u32 \<Rightarrow> u32 \<Rightarrow> wasm_allocator \<Rightarrow> wasm_allocator res option" where
  "run_bulk step 0 sz src dst al = None"
| "run_bulk step (Suc fuel) sz src dst al =
     (case step sz src dst al of
        Inl e \<Rightarrow> Some (Inl e)
      | Inr (None, al') \<Rightarrow> Some (Inr al')
      | Inr (Some (sz', src', dst'), al') \<Rightarrow> run_bulk step fuel sz' src' dst' al')"

subsection \<open>Little-endian words\<close>

lemma le_word_Nil [simp]: "le_word [] = 0"
  by (simp add: le_word_def)

lemma le_word_Cons [simp]: "le_word (b # bs) = push_bit 8 (le_word bs) OR ucast b"
  by (simp add: le_word_def)

lemma length_le_bytes [simp]: "length (le_bytes n w) = n"
  by (simp add: le_bytes_def)

lemma bit_le_word:
  "bit (le_word bs :: 'a :: len word) k \<longleftrightarrow> k < LENGTH('a) \<and> k < 8 * length bs \<and> bit (bs ! (k div 8)) (k mod 8)"
proof (induction bs arbitrary: k)
  case Nil
  then show ?case by simp
next
  case (Cons b bs)
  show ?case
  proof (cases "k < 8")
    case True
    then show ?thesis by (auto simp: bit_simps)
  next
    case False
    then obtain j where "k = j + 8" by (metis add.commute le_iff_add not_less)
    then have "k div 8 = Suc ((k - 8) div 8)" "(k - 8) mod 8 = k mod 8" by simp_all
    moreover have "\<not> bit b k" using False bit_imp_le_length [of b k] by auto
    ultimately show ?thesis using False Cons.IH [of "k - 8"] by (auto simp: bit_simps)
  qed
qed

lemma le_word_le_bytes: "LENGTH('a) \<le> 8 * n \<Longrightarrow> le_word (le_bytes n w) = (w :: 'a :: len word)"
proof (rule bit_eqI)
  fix k
  assume "LENGTH('a) \<le> 8 * n" "possible_bit TYPE('a word) k"
  then have k: "k < LENGTH('a)" "k div 8 < n" by auto
  then show "bit (le_word (le_bytes n w) :: 'a word) k \<longleftrightarrow> bit w k"
    using \<open>LENGTH('a) \<le> 8 * n\<close> by (simp add: bit_le_word le_bytes_def bit_simps)
qed

lemma le_bytes_le_word: "8 * length bs \<le> LENGTH('a) \<Longrightarrow> le_bytes (length bs) (le_word bs :: 'a :: len word) = bs"
proof (rule nth_equalityI)
  fix i
  assume len: "8 * length bs \<le> LENGTH('a)" and i: "i < length (le_bytes (length bs) (le_word bs :: 'a word))"
  then have i': "i < length bs" by simp
  show "le_bytes (length bs) (le_word bs :: 'a word) ! i = bs ! i"
  proof (rule bit_eqI)
    fix k
    assume "possible_bit TYPE(8 word) k"
    then have k: "k < 8" by simp
    then have "(8 * i + k) div 8 = i" "(8 * i + k) mod 8 = k" "8 * i + k < 8 * length bs" using i' by auto
    then show "bit (le_bytes (length bs) (le_word bs :: 'a word) ! i) k \<longleftrightarrow> bit (bs ! i) k"
      using i' k len by (simp add: le_bytes_def bit_simps bit_le_word)
  qed
qed simp

lemma le_bytes_ucast:
  "8 * n \<le> LENGTH('b) \<Longrightarrow> 8 * n \<le> LENGTH('a) \<Longrightarrow> le_bytes n (ucast w :: 'b :: len word) = le_bytes n (w :: 'a :: len word)"
  by (rule nth_equalityI) (auto simp: le_bytes_def intro!: bit_eqI simp: bit_simps)

subsection \<open>The allocator invariant\<close>

definition alloc_inv :: "wasm_allocator \<Rightarrow> bool" where
  "alloc_inv al \<longleftrightarrow>
     - 1 \<le> page al \<and> page al \<le> int (max_pages_limit al) \<and> max_pages_limit al \<le> max_pages \<and> 4096 \<le> os_page al \<and>
     (\<not> external al \<longrightarrow> max_pages_limit al = max_pages \<and> (\<forall>p. prot al p \<longleftrightarrow> int p < page al)) \<and>
     stored_mem_size al = of_nat (nat (page al) * page_size)"

definition mem_bytes :: "wasm_allocator \<Rightarrow> nat" where
  "mem_bytes al = nat (page al) * page_size"

lemma stored_size:
  assumes "alloc_inv al"
  shows "unat (stored_mem_size al) = mem_bytes al" and "mem_bytes al \<le> 2 ^ 32"
proof -
  have "nat (page al) \<le> max_pages" using assms by (auto simp: alloc_inv_def)
  then show b: "mem_bytes al \<le> 2 ^ 32" by (simp add: mem_bytes_def page_size_def max_pages_def)
  then show "unat (stored_mem_size al) = mem_bytes al"
    using assms by (simp add: alloc_inv_def mem_bytes_def unat_of_nat del: of_nat_mult)
qed

lemma alloc_result:
  assumes "alloc n al = Inr al'" and "0 < n"
  shows "0 \<le> page al \<and> page al' = page al + int n \<and> n + nat (page al) \<le> max_pages_limit al \<and>
    external al' = external al \<and> max_pages_limit al' = max_pages_limit al \<and> os_page al' = os_page al \<and>
    mprotect_ok al' = mprotect_ok al \<and>
    stored_mem_size al' = of_nat (nat (page al') * page_size) \<and>
    prot al' = (if external al then prot al else (\<lambda>i. if nat (page al) \<le> i \<and> i < nat (page al) + n then True else prot al i)) \<and>
    raw_bytes al' = (\<lambda>i. if page_size * nat (page al) \<le> i \<and> i < page_size * nat (page al) + page_size * n then 0 else raw_bytes al i)"
  using assms
  by (auto simp: alloc_def assertR_def Let_def update_stored_mem_size_def protect_def zero_range_def
      of_nat_nat split: if_splits)

lemma alloc_keeps_inv: "alloc_inv al \<Longrightarrow> alloc n al = Inr al' \<Longrightarrow> alloc_inv al'"
proof (cases "n = 0")
  case False
  assume inv: "alloc_inv al" and "alloc n al = Inr al'"
  with False have r: "0 \<le> page al" "page al' = page al + int n" "n + nat (page al) \<le> max_pages_limit al"
    "external al' = external al" "max_pages_limit al' = max_pages_limit al" "os_page al' = os_page al"
    "stored_mem_size al' = of_nat (nat (page al') * page_size)"
    "prot al' = (if external al then prot al else (\<lambda>i. if nat (page al) \<le> i \<and> i < nat (page al) + n then True else prot al i))"
    using alloc_result [of n al al'] by auto
  obtain k where k: "page al = int k" using r(1) zero_le_imp_eq_int by blast
  have "prot al' p \<longleftrightarrow> int p < page al'" if ext: "\<not> external al" for p
  proof -
    have "prot al p \<longleftrightarrow> p < k" using inv ext k by (simp add: alloc_inv_def)
    then have "prot al' p \<longleftrightarrow> p < k + n" using ext k by (simp add: r(8)) arith
    then show ?thesis using k r(2) by linarith
  qed
  then show ?thesis
    using inv r(3,7) k unfolding alloc_inv_def r(2,4,5,6) by simp
qed (simp add: alloc_def)

lemma free_result:
  assumes "free n al = Inr al'" and "0 < n"
  shows "0 \<le> page al \<and> page al' = page al - int n \<and> n \<le> nat (page al) \<and>
    external al' = external al \<and> max_pages_limit al' = max_pages_limit al \<and> os_page al' = os_page al \<and>
    mprotect_ok al' = mprotect_ok al \<and>
    stored_mem_size al' = of_nat (nat (page al') * page_size) \<and>
    prot al' = (if external al then prot al else
      (\<lambda>i. if nat (page al') \<le> i \<and> i < nat (page al') + n then False else prot al i)) \<and>
    raw_bytes al' = raw_bytes al"
  using assms
  by (auto simp: free_def assertR_def Let_def update_stored_mem_size_def protect_def of_nat_nat split: if_splits)

lemma free_keeps_inv: "alloc_inv al \<Longrightarrow> free n al = Inr al' \<Longrightarrow> alloc_inv al'"
proof (cases "n = 0")
  case False
  assume inv: "alloc_inv al" and "free n al = Inr al'"
  with False have r: "0 \<le> page al" "page al' = page al - int n" "n \<le> nat (page al)"
    "external al' = external al" "max_pages_limit al' = max_pages_limit al" "os_page al' = os_page al"
    "stored_mem_size al' = of_nat (nat (page al') * page_size)"
    "prot al' = (if external al then prot al else
      (\<lambda>i. if nat (page al') \<le> i \<and> i < nat (page al') + n then False else prot al i))"
    using free_result [of n al al'] by auto
  obtain k where k: "page al = int k" using r(1) zero_le_imp_eq_int by blast
  have k': "page al' = int (k - n)" "n \<le> k" using r(2,3) k by auto
  have "prot al' p \<longleftrightarrow> int p < page al'" if ext: "\<not> external al" for p
  proof -
    have "prot al p \<longleftrightarrow> p < k" using inv ext k by (simp add: alloc_inv_def)
    then have "prot al' p \<longleftrightarrow> p < k - n" using ext k' by (simp add: r(8)) arith
    then show ?thesis unfolding k'(1) by (simp only: of_nat_less_iff)
  qed
  then show ?thesis
    using inv r(3,7) k k' unfolding alloc_inv_def r(4,5,6) by simp
qed (simp add: free_def)

lemma allocator_new_inv:
  "wasm_allocator_new os ok = Inr al \<Longrightarrow> 4096 \<le> os \<Longrightarrow> alloc_inv al"
  "wasm_allocator_external os ok nn buf mb = Inr al \<Longrightarrow> 4096 \<le> os \<Longrightarrow> alloc_inv al"
proof -
  show "wasm_allocator_new os ok = Inr al \<Longrightarrow> 4096 \<le> os \<Longrightarrow> alloc_inv al"
    by (auto simp: wasm_allocator_new_def assertR_def alloc_inv_def split: if_splits)
  have "unat mb div page_size \<le> max_pages"
    using unat_bound [of mb] by (simp add: page_size_def max_pages_def)
  then show "wasm_allocator_external os ok nn buf mb = Inr al \<Longrightarrow> 4096 \<le> os \<Longrightarrow> alloc_inv al"
    by (auto simp: wasm_allocator_external_def assertR_def alloc_inv_def split: if_splits)
qed

subsection \<open>Access inside and outside the memory\<close>

lemma touch_in:
  assumes "alloc_inv al" and "unat e < mem_bytes al"
  shows "touch al e = Inr ()"
proof -
  have p: "unat e div page_size < nat (page al)"
    using assms(2) by (simp add: mem_bytes_def page_size_def less_mult_imp_div_less)
  have "nat (page al) \<le> max_pages_limit al" using assms(1) by (auto simp: alloc_inv_def)
  then have lim: "mem_bytes al \<le> max_pages_limit al * page_size" by (simp add: mem_bytes_def)
  have "unat e < max_memory" using assms(2) stored_size(2) [OF assms(1)] by (simp add: max_memory_def)
  moreover have "prot al (unat e div page_size)" if "\<not> external al"
    using assms(1) that p by (auto simp: alloc_inv_def)
  ultimately show ?thesis
    using assms(2) lim by (simp add: touch_def Let_def)
qed

lemma touch_guard:
  assumes "alloc_inv al" and "\<not> external al" and "mem_bytes al \<le> unat e" and "unat e < max_memory + os_page al"
  shows "touch al e = Inl oob"
proof -
  have "nat (page al) \<le> unat e div page_size"
    using assms(3) by (simp add: mem_bytes_def page_size_def less_eq_div_iff_mult_less_eq)
  then have "\<not> int (unat e div page_size) < page al" by linarith
  then have "\<not> prot al (unat e div page_size)"
    using assms(1,2) by (simp add: alloc_inv_def)
  then show ?thesis
    using assms(2,4) by (simp add: touch_def Let_def suffix_size_def)
qed

definition bytes_at :: "wasm_allocator \<Rightarrow> nat \<Rightarrow> nat \<Rightarrow> u8 list" where
  "bytes_at al a n = map (raw_bytes al) [a..<a + n]"

lemma unat_next: "unat e + 1 < 2 ^ 64 \<Longrightarrow> unat (e + 1 :: u64) = unat e + 1"
  by (simp add: unat_word_ariths)

lemma load_in:
  assumes "alloc_inv al" and "unat e + n \<le> mem_bytes al"
  shows "load_bytes al e n = Inr (bytes_at al (unat e) n)"
  using assms(2)
proof (induction n arbitrary: e)
  case 0
  then show ?case by (simp add: bytes_at_def)
next
  case (Suc n)
  have "unat e + 1 < 2 ^ 64"
    using Suc.prems stored_size(2) [OF assms(1)] by simp
  then have "load_bytes al (e + 1) n = Inr (bytes_at al (unat e + 1) n)"
    using Suc.IH [of "e + 1"] Suc.prems by (simp add: unat_next)
  then show ?case
    using touch_in [OF assms(1), of e] Suc.prems by (simp add: bytes_at_def upt_conv_Cons del: upt_Suc)
qed

lemma load_guard:
  assumes "alloc_inv al" and "\<not> external al" and "mem_bytes al < unat e + n" and "0 < n"
    and "unat e + n \<le> max_memory + os_page al" and "os_page al < 2 ^ 32"
  shows "load_bytes al e n = Inl oob"
  using assms(3-5)
proof (induction n arbitrary: e)
  case 0
  then show ?case by simp
next
  case (Suc n)
  show ?case
  proof (cases "mem_bytes al \<le> unat e")
    case True
    then show ?thesis using touch_guard [OF assms(1,2)] Suc.prems by simp
  next
    case False
    then have "touch al e = Inr ()" by (intro touch_in [OF assms(1)]) simp
    moreover have "unat (e + 1) = unat e + 1"
      using False stored_size(2) [OF assms(1)] by (intro unat_next) simp
    then have "load_bytes al (e + 1) n = Inl oob"
      using Suc.prems False by (intro Suc.IH) (cases n; simp)+
    ultimately show ?thesis by simp
  qed
qed

lemma store_in:
  assumes "alloc_inv al" and "unat e = a" and "a + length bs \<le> mem_bytes al"
  shows "store_bytes e bs al = Inr (al\<lparr>raw_bytes :=
    (\<lambda>i. if a \<le> i \<and> i < a + length bs then bs ! (i - a) else raw_bytes al i)\<rparr>)"
  using load_in [OF assms(1), of e "length bs"] assms(3) unfolding assms(2) [symmetric]
  by (simp add: store_bytes_def)

lemma alloc_inv_raw [simp]: "alloc_inv (al\<lparr>raw_bytes := f\<rparr>) = alloc_inv al"
  by (simp add: alloc_inv_def)

lemma mem_bytes_raw [simp]: "mem_bytes (al\<lparr>raw_bytes := f\<rparr>) = mem_bytes al"
  by (simp add: mem_bytes_def)

subsection \<open>What the interpreter relies on\<close>

text \<open>
  The contract of a 32-bit memory in some mode: an access of 1 to 16 bytes that lies inside the
  memory succeeds and moves exactly those bytes; any other raises \<open>wasm_memory_exception\<close>.
\<close>

definition ea :: "u32 \<Rightarrow> u32 \<Rightarrow> nat" where
  "ea off addr = unat off + unat addr"

locale guest_memory =
  fixes ok :: "memory \<Rightarrow> bool"
  assumes load_inside: "ok m \<Longrightarrow> 0 < n \<Longrightarrow> n \<le> 16 \<Longrightarrow> ea off addr + n \<le> mem_bytes (wasm_alloc m) \<Longrightarrow>
      mem_load off n (i32_const addr) m = Inr (m, bytes_at (wasm_alloc m) (ea off addr) n)"
    and load_outside: "ok m \<Longrightarrow> 0 < n \<Longrightarrow> n \<le> 16 \<Longrightarrow> mem_bytes (wasm_alloc m) < ea off addr + n \<Longrightarrow>
      \<exists>x. mem_load off n (i32_const addr) m = Inl (wasm_memory_exception x)"
    and store_inside: "ok m \<Longrightarrow> 0 < length bs \<Longrightarrow> length bs \<le> 16 \<Longrightarrow>
      ea off addr + length bs \<le> mem_bytes (wasm_alloc m) \<Longrightarrow>
      mem_store off (i32_const addr) bs m = Inr (m\<lparr>wasm_alloc := (wasm_alloc m)\<lparr>raw_bytes :=
        (\<lambda>i. if ea off addr \<le> i \<and> i < ea off addr + length bs then bs ! (i - ea off addr)
              else raw_bytes (wasm_alloc m) i)\<rparr>\<rparr>)"
    and store_outside: "ok m \<Longrightarrow> 0 < length bs \<Longrightarrow> length bs \<le> 16 \<Longrightarrow>
      mem_bytes (wasm_alloc m) < ea off addr + length bs \<Longrightarrow>
      \<exists>x. mem_store off (i32_const addr) bs m = Inl (wasm_memory_exception x)"
    and ok_store: "ok m \<Longrightarrow> ok (m\<lparr>wasm_alloc := (wasm_alloc m)\<lparr>raw_bytes := f\<rparr>\<rparr>)"
begin

lemma load_defined: "ok m \<Longrightarrow> 0 < n \<Longrightarrow> n \<le> 16 \<Longrightarrow> \<not> is_undefined (mem_load off n (i32_const addr) m)"
  using load_inside [of m n off addr] load_outside [of m n off addr]
  by (cases "ea off addr + n \<le> mem_bytes (wasm_alloc m)") (auto simp: not_le)

lemma store_defined:
  "ok m \<Longrightarrow> 0 < length bs \<Longrightarrow> length bs \<le> 16 \<Longrightarrow> \<not> is_undefined (mem_store off (i32_const addr) bs m)"
  using store_inside [of m bs off addr] store_outside [of m bs off addr]
  by (cases "ea off addr + length bs \<le> mem_bytes (wasm_alloc m)") (auto simp: not_le)

lemma store_result:
  assumes "ok m" and "0 < length bs" and "length bs \<le> 16" and "mem_store off (i32_const addr) bs m = Inr m'"
  shows "ea off addr + length bs \<le> mem_bytes (wasm_alloc m) \<and> ok m' \<and>
    m' = m\<lparr>wasm_alloc := (wasm_alloc m)\<lparr>raw_bytes :=
        (\<lambda>i. if ea off addr \<le> i \<and> i < ea off addr + length bs then bs ! (i - ea off addr)
              else raw_bytes (wasm_alloc m) i)\<rparr>\<rparr>"
proof (cases "ea off addr + length bs \<le> mem_bytes (wasm_alloc m)")
  case True
  then show ?thesis
    using store_inside [OF assms(1-3), of off addr] ok_store [OF assms(1)] assms(4) by simp
next
  case False
  then show ?thesis
    using store_outside [OF assms(1-3), of off addr] assms(4) by (auto simp: not_le)
qed

lemma load_store_same:
  assumes "ok m" and "0 < length bs" and "length bs \<le> 16" and "mem_store off (i32_const addr) bs m = Inr m'"
  shows "mem_load off (length bs) (i32_const addr) m' = Inr (m', bs)"
proof -
  note r = store_result [OF assms]
  have "bytes_at (wasm_alloc m') (ea off addr) (length bs) = bs"
    using r by (intro nth_equalityI) (auto simp: bytes_at_def)
  moreover have "ea off addr + length bs \<le> mem_bytes (wasm_alloc m')" using r by simp
  moreover have "ok m'" using r by (elim conjE)
  ultimately show ?thesis
    using load_inside [OF \<open>ok m'\<close> assms(2,3), of off addr] by simp
qed

lemma load_store_disjoint:
  assumes "ok m" and "0 < length bs" and "length bs \<le> 16" and "mem_store off (i32_const addr) bs m = Inr m'"
    and "0 < n" and "n \<le> 16" and "ea off2 addr2 + n \<le> ea off addr \<or> ea off addr + length bs \<le> ea off2 addr2"
    and "mem_load off2 n (i32_const addr2) m = Inr (m, bs2)"
  shows "mem_load off2 n (i32_const addr2) m' = Inr (m', bs2)"
proof -
  note r = store_result [OF assms(1-4)]
  have inside: "ea off2 addr2 + n \<le> mem_bytes (wasm_alloc m)"
    using load_outside [OF assms(1,5,6), of off2 addr2] assms(8) by (force simp: not_le)
  have "bytes_at (wasm_alloc m') (ea off2 addr2) n = bytes_at (wasm_alloc m) (ea off2 addr2) n"
    using r assms(7) by (auto simp: bytes_at_def)
  moreover have "ea off2 addr2 + n \<le> mem_bytes (wasm_alloc m')" using r inside by simp
  moreover have "ok m'" using r by (elim conjE)
  ultimately show ?thesis
    using load_inside [OF assms(1,5,6) inside] load_inside [OF \<open>ok m'\<close> assms(5,6), of off2 addr2] assms(8) by simp
qed

end

lemma effective_32:
  assumes "\<not> is_memory64 m" and "mem_mode m \<noteq> memory16"
  shows "compute_effective off (i32_const addr) m = Inr (ucast off + ucast addr)"
    and "unat (ucast off + ucast addr :: u64) = ea off addr" and "ea off addr < 8589934592"
proof -
  show "compute_effective off (i32_const addr) m = Inr (ucast off + ucast addr)"
    using assms by (simp add: compute_effective_def)
  have b: "unat off < 2 ^ 32" "unat addr < 2 ^ 32"
    using unat_bound [of off] unat_bound [of addr] by simp_all
  then show "unat (ucast off + ucast addr :: u64) = ea off addr"
    by (simp add: unat_word_ariths unat_ucast_up ea_def)
  show "ea off addr < 8589934592" using b by (simp add: ea_def)
qed


definition guarded_ok :: "memory \<Rightarrow> bool" where
  "guarded_ok m \<longleftrightarrow> alloc_inv (wasm_alloc m) \<and> \<not> external (wasm_alloc m) \<and> os_page (wasm_alloc m) < 2 ^ 32 \<and>
     mem_mode m = guarded \<and> \<not> is_memory64 m \<and> 0 \<le> page (wasm_alloc m)"

definition checked_ok :: "memory \<Rightarrow> bool" where
  "checked_ok m \<longleftrightarrow> alloc_inv (wasm_alloc m) \<and> mem_mode m = checked \<and> checked_kind m = immediate \<and>
     \<not> is_memory64 m \<and> 0 \<le> page (wasm_alloc m)"

lemma guarded_addr:
  assumes "guarded_ok m"
  shows "memop_addr_read off n (i32_const addr) m = Inr (m, ucast off + ucast addr)"
    and "memop_addr_write off n (i32_const addr) m = Inr (ucast off + ucast addr)"
  using assms effective_32 [of m off addr] by (simp_all add: guarded_ok_def memop_addr_read_def memop_addr_write_def)

interpretation guarded: guest_memory guarded_ok
proof
  fix m n off addr
  assume m: "guarded_ok m" and n: "(0 :: nat) < n" "n \<le> 16" and le: "ea off addr + n \<le> mem_bytes (wasm_alloc m)"
  show "mem_load off n (i32_const addr) m = Inr (m, bytes_at (wasm_alloc m) (ea off addr) n)"
    using m le load_in [of "wasm_alloc m" "ucast off + ucast addr" n] effective_32(2) [of m off addr]
    by (simp add: mem_load_def guarded_addr [OF m] guarded_ok_def)
next
  fix m n off addr
  assume m: "guarded_ok m" and n: "(0 :: nat) < n" "n \<le> 16" and gt: "mem_bytes (wasm_alloc m) < ea off addr + n"
  have "load_bytes (wasm_alloc m) (ucast off + ucast addr) n = Inl oob"
    using m n gt effective_32(2,3) [of m off addr]
    by (intro load_guard) (simp_all add: guarded_ok_def alloc_inv_def max_memory_def)
  then show "\<exists>x. mem_load off n (i32_const addr) m = Inl (wasm_memory_exception x)"
    by (simp add: mem_load_def guarded_addr [OF m] oob_def)
next
  fix m and bs :: "u8 list" and off addr
  assume m: "guarded_ok m" and le: "ea off addr + length bs \<le> mem_bytes (wasm_alloc m)"
  then show "mem_store off (i32_const addr) bs m = Inr (m\<lparr>wasm_alloc := (wasm_alloc m)\<lparr>raw_bytes :=
        (\<lambda>i. if ea off addr \<le> i \<and> i < ea off addr + length bs then bs ! (i - ea off addr)
              else raw_bytes (wasm_alloc m) i)\<rparr>\<rparr>)"
    using store_in [OF _ effective_32(2) [of m off addr], of "wasm_alloc m" bs]
    by (simp add: mem_store_def guarded_addr [OF m] guarded_ok_def)
next
  fix m and bs :: "u8 list" and off addr
  assume m: "guarded_ok m" and n: "0 < length bs" "length bs \<le> 16" and gt: "mem_bytes (wasm_alloc m) < ea off addr + length bs"
  have "load_bytes (wasm_alloc m) (ucast off + ucast addr) (length bs) = Inl oob"
    using m n gt effective_32(2,3) [of m off addr]
    by (intro load_guard) (simp_all add: guarded_ok_def alloc_inv_def max_memory_def)
  then show "\<exists>x. mem_store off (i32_const addr) bs m = Inl (wasm_memory_exception x)"
    by (simp add: mem_store_def guarded_addr [OF m] store_bytes_def oob_def)
qed (simp add: guarded_ok_def is_memory64_def)

lemma checked_end:
  assumes "checked_ok m" and "n \<le> 16"
  shows "ucast off + ucast addr + of_nat n \<le> memory_size_bytes m \<longleftrightarrow> ea off addr + n \<le> mem_bytes (wasm_alloc m)"
proof -
  have "unat (ucast off + ucast addr :: u64) = ea off addr" "ea off addr < 8589934592"
    using effective_32(2,3) [of m off addr] assms(1) by (simp_all add: checked_ok_def)
  then have "unat (ucast off + ucast addr + of_nat n :: u64) = ea off addr + n"
    using assms(2) by (subst unat_word_ariths) (simp add: unat_of_nat)
  then show ?thesis
    using stored_size(1) [of "wasm_alloc m"] assms(1)
    by (simp add: word_le_nat_alt memory_size_bytes_def checked_ok_def)
qed

lemma checked_addr:
  assumes "checked_ok m" and "n \<le> 16"
  shows "memop_addr_read off n (i32_const addr) m =
      (if ea off addr + n \<le> mem_bytes (wasm_alloc m) then Inr (m, ucast off + ucast addr)
       else Inl (wasm_memory_exception ''memory read out of bounds''))"
    and "memop_addr_write off n (i32_const addr) m =
      (if ea off addr + n \<le> mem_bytes (wasm_alloc m) then Inr (ucast off + ucast addr)
       else Inl (wasm_memory_exception ''memory write out of bounds''))"
  using assms(1) effective_32 [of m off addr] checked_end [OF assms, of off addr]
  by (simp_all add: checked_ok_def memop_addr_read_def memop_addr_write_def assertR_def Let_def)

interpretation checked: guest_memory checked_ok
proof
  fix m n off addr
  assume m: "checked_ok m" and n: "(0 :: nat) < n" "n \<le> 16" and le: "ea off addr + n \<le> mem_bytes (wasm_alloc m)"
  show "mem_load off n (i32_const addr) m = Inr (m, bytes_at (wasm_alloc m) (ea off addr) n)"
    using m le n load_in [of "wasm_alloc m" "ucast off + ucast addr" n] effective_32(2) [of m off addr]
    by (simp add: mem_load_def checked_addr [OF m n(2)] checked_ok_def)
next
  fix m n off addr
  assume m: "checked_ok m" and n: "(0 :: nat) < n" "n \<le> 16" and gt: "mem_bytes (wasm_alloc m) < ea off addr + n"
  then show "\<exists>x. mem_load off n (i32_const addr) m = Inl (wasm_memory_exception x)"
    by (simp add: mem_load_def checked_addr [OF m n(2)])
next
  fix m and bs :: "u8 list" and off addr
  assume m: "checked_ok m" and n: "length bs \<le> 16" and le: "ea off addr + length bs \<le> mem_bytes (wasm_alloc m)"
  then show "mem_store off (i32_const addr) bs m = Inr (m\<lparr>wasm_alloc := (wasm_alloc m)\<lparr>raw_bytes :=
        (\<lambda>i. if ea off addr \<le> i \<and> i < ea off addr + length bs then bs ! (i - ea off addr)
              else raw_bytes (wasm_alloc m) i)\<rparr>\<rparr>)"
    using store_in [OF _ effective_32(2) [of m off addr], of "wasm_alloc m" bs]
    by (simp add: mem_store_def checked_addr [OF m n] checked_ok_def)
next
  fix m and bs :: "u8 list" and off addr
  assume m: "checked_ok m" and n: "length bs \<le> 16" and gt: "mem_bytes (wasm_alloc m) < ea off addr + length bs"
  then show "\<exists>x. mem_store off (i32_const addr) bs m = Inl (wasm_memory_exception x)"
    by (simp add: mem_store_def checked_addr [OF m n])
qed (simp add: checked_ok_def is_memory64_def)

subsection \<open>Reset and growth\<close>

lemma reset_pages_spec:
  assumes "alloc_inv al" and "reset_pages n al = Inr al'"
  shows "alloc_inv al' \<and> page al' = int n \<and> external al' = external al \<and> (\<forall>a < n * page_size. raw_bytes al' a = 0)"
proof -
  define al1 where "al1 = (if page al \<ge> 0 then zero_range 0 (page_size * nat (page al)) al else al\<lparr>page := 0\<rparr>)"
  have al1: "alloc_inv al1" "0 \<le> page al1" "external al1 = external al" "\<forall>a < nat (page al1) * page_size. raw_bytes al1 a = 0"
    using assms(1) by (auto simp: al1_def zero_range_def alloc_inv_def mult.commute)
  from assms(2) obtain al2 where
    al2: "(if n > nat (page al1) then alloc (n - nat (page al1)) al1
           else if n < nat (page al1) then free (nat (page al1) - n) al1 else Inr al1) = Inr al2"
    and al': "al' = update_stored_mem_size al2"
    by (auto simp: reset_pages_def bindR_eq_Inr al1_def assertR_def split: if_splits)
  consider "n > nat (page al1)" "alloc (n - nat (page al1)) al1 = Inr al2"
    | "n < nat (page al1)" "free (nat (page al1) - n) al1 = Inr al2" | "n = nat (page al1)" "al2 = al1"
    using al2 by (auto split: if_splits)
  then have "alloc_inv al2 \<and> page al2 = int n \<and> external al2 = external al1 \<and> (\<forall>a < n * page_size. raw_bytes al2 a = 0)"
  proof cases
    case 1
    have r: "page al2 = page al1 + int (n - nat (page al1))" "external al2 = external al1"
      "raw_bytes al2 = (\<lambda>i. if page_size * nat (page al1) \<le> i \<and> i < page_size * nat (page al1) + page_size * (n - nat (page al1))
                           then 0 else raw_bytes al1 i)"
      using alloc_result [OF 1(2)] 1(1) by simp_all
    have "page_size * nat (page al1) + page_size * (n - nat (page al1)) = n * page_size"
      using 1(1) by (simp only: distrib_left [symmetric] le_add_diff_inverse less_imp_le mult.commute)
    then show ?thesis
      using r alloc_keeps_inv [OF al1(1) 1(2)] al1(2,4) 1(1) by (auto simp: mult.commute)
  next
    case 2
    have r: "page al2 = page al1 - int (nat (page al1) - n)" "external al2 = external al1" "raw_bytes al2 = raw_bytes al1"
      using free_result [OF 2(2)] 2(1) by simp_all
    have "a < n * page_size \<Longrightarrow> a < nat (page al1) * page_size" for a
      using 2(1) by (meson less_imp_le mult_le_mono1 order_less_le_trans)
    then show ?thesis
      using r free_keeps_inv [OF al1(1) 2(2)] al1(4) 2(1) by auto
  next
    case 3
    then show ?thesis using al1 by simp
  qed
  moreover from this have "update_stored_mem_size al2 = al2"
    by (simp add: update_stored_mem_size_def alloc_inv_def)
  ultimately show ?thesis using al' al1(3) by simp
qed

lemma reset_pages_exact:
  assumes "n \<le> max_pages_limit al" and "external al \<or> mprotect_ok al"
  obtains al' where "reset_pages n al = Inr al'" and "page al' = int n" and "external al' = external al"
    and "max_pages_limit al' = max_pages_limit al" and "\<And>a. a < n * page_size \<Longrightarrow> raw_bytes al' a = 0"
    and "prot al' = (if external al then prot al
                     else (\<lambda>p. if p < n \<and> nat (page al) \<le> p then True else if n \<le> p \<and> p < nat (page al) then False else prot al p))"
proof -
  define p0 where "p0 = nat (page al)"
  define al1 where "al1 = (if page al \<ge> 0 then zero_range 0 (page_size * nat (page al)) al else al\<lparr>page := 0\<rparr>)"
  have al1: "page al1 = int p0" "external al1 = external al" "prot al1 = prot al" "max_pages_limit al1 = max_pages_limit al"
      "mprotect_ok al1 = mprotect_ok al" "\<And>a. a < p0 * page_size \<Longrightarrow> raw_bytes al1 a = 0"
    by (auto simp: al1_def zero_range_def p0_def mult.commute)
  have r: "reset_pages n al = bindR (if n > p0 then alloc (n - p0) al1 else if n < p0 then free (p0 - n) al1 else Inr al1)
      (\<lambda>al2. Inr (update_stored_mem_size al2))"
    using assms(2) al1(1) by (auto simp: reset_pages_def al1_def assertR_def p0_def)
  obtain al2 where al2: "(if n > p0 then alloc (n - p0) al1 else if n < p0 then free (p0 - n) al1 else Inr al1) = Inr al2"
    "page al2 = int n" "external al2 = external al" "max_pages_limit al2 = max_pages_limit al" "\<And>a. a < n * page_size \<Longrightarrow> raw_bytes al2 a = 0"
    "prot al2 = (if external al then prot al
                 else (\<lambda>p. if p < n \<and> p0 \<le> p then True else if n \<le> p \<and> p < p0 then False else prot al p))"
  proof (cases "p0 < n")
    case True
    then obtain al2 where a: "alloc (n - p0) al1 = Inr al2"
      using al1 assms by (auto simp: alloc_def assertR_def Let_def)
    have e: "page_size * p0 + page_size * (n - p0) = n * page_size"
      using True by (metis add_mult_distrib2 le_add_diff_inverse less_imp_le mult.commute)
    note f = alloc_result [OF a, unfolded al1 nat_int e]
    have "raw_bytes al2 a = 0" if "a < n * page_size" for a using f that al1(6) [of a] True by (simp add: mult.commute)
    moreover have "prot al2 = (if external al then prot al
        else (\<lambda>p. if p < n \<and> p0 \<le> p then True else if n \<le> p \<and> p < p0 then False else prot al p))"
      using f True by (auto simp: fun_eq_iff)
    ultimately show ?thesis using that [of al2] a f True by simp
  next
    case False
    have z: "raw_bytes al1 a = 0" if "a < n * page_size" for a
      using that False by (intro al1(6)) (meson less_le_trans mult_le_mono1 not_less)
    show ?thesis
      using False al1(1-5) z assms(2)
      by (intro that [of "if n < p0 then update_stored_mem_size (if external al then al1\<lparr>page := int n\<rparr> else protect n (p0 - n) False (al1\<lparr>page := int n\<rparr>)) else al1"])
         (auto simp: free_def assertR_def Let_def update_stored_mem_size_def protect_def fun_eq_iff)
  qed
  show ?thesis
    by (rule that [of "update_stored_mem_size al2"]) (use r al2 in \<open>auto simp: update_stored_mem_size_def p0_def\<close>)
qed



definition limits_ok :: "memory \<Rightarrow> bool" where
  "limits_ok m \<longleftrightarrow> alloc_inv (wasm_alloc m) \<and> 0 \<le> page (wasm_alloc m) \<and> has_memory m \<and>
     unat (ctx_max_pages m) \<le> max_pages \<and> nat (page (wasm_alloc m)) \<le> unat (ctx_max_pages m) \<and>
     (limits_flags m \<longrightarrow> nat (page (wasm_alloc m)) \<le> unat (limits_maximum m))"

definition page_limit :: "memory \<Rightarrow> nat" where
  "page_limit m = (if limits_flags m then min (unat (ctx_max_pages m)) (unat (limits_maximum m)) else unat (ctx_max_pages m))"

lemma current_page_nat: "limits_ok m \<Longrightarrow> unat (get_current_page (wasm_alloc m)) = nat (page (wasm_alloc m))"
proof -
  assume ok: "limits_ok m"
  then obtain k where k: "page (wasm_alloc m) = int k"
    by (auto simp: limits_ok_def elim!: nonneg_int_cases)
  moreover have "k \<le> 65536" using ok k by (simp add: limits_ok_def max_pages_def)
  ultimately show ?thesis by (simp add: get_current_page_def unat_of_nat)
qed

lemma grow_refused_iff:
  assumes "limits_ok m"
  shows "(\<not> has_memory m \<or> ctx_max_pages m - get_current_page (wasm_alloc m) < d \<or>
     (limits_flags m \<and> limits_maximum m - get_current_page (wasm_alloc m) < d)) \<longleftrightarrow>
    page_limit m < nat (page (wasm_alloc m)) + unat d"
proof -
  let ?c = "get_current_page (wasm_alloc m)"
  have c: "unat ?c = nat (page (wasm_alloc m))" by (rule current_page_nat [OF assms])
  have le: "?c \<le> ctx_max_pages m" "limits_flags m \<Longrightarrow> ?c \<le> limits_maximum m"
    using assms c by (auto simp: word_le_nat_alt limits_ok_def)
  have "x - ?c < d \<longleftrightarrow> unat x < nat (page (wasm_alloc m)) + unat d" if "?c \<le> x" for x
    using that c by (simp add: word_less_nat_alt unat_sub word_le_nat_alt) arith
  then show ?thesis
    using le assms by (auto simp: page_limit_def limits_ok_def)
qed

definition grown :: "memory \<Rightarrow> u32 \<Rightarrow> memory \<Rightarrow> bool" where
  "grown m d m' \<longleftrightarrow> limits_ok m' \<and> page (wasm_alloc m') = page (wasm_alloc m) + int (unat d) \<and>
     external (wasm_alloc m') = external (wasm_alloc m) \<and>
     (\<forall>i < mem_bytes (wasm_alloc m'). raw_bytes (wasm_alloc m') i =
        (if i < mem_bytes (wasm_alloc m) then raw_bytes (wasm_alloc m) i else 0))"

lemma alloc_grown:
  assumes ok: "limits_ok m" and lim: "nat (page (wasm_alloc m)) + unat d \<le> page_limit m" and "d > 0"
    and al': "alloc (unat d) (wasm_alloc m) = Inr al'"
  shows "grown m d (m\<lparr>wasm_alloc := al'\<rparr>)"
proof -
  have d: "0 < unat d" using \<open>d > 0\<close> by (simp add: word_less_nat_alt)
  have r: "page al' = page (wasm_alloc m) + int (unat d)" "external al' = external (wasm_alloc m)"
    "raw_bytes al' = (\<lambda>i. if page_size * nat (page (wasm_alloc m)) \<le> i \<and>
        i < page_size * nat (page (wasm_alloc m)) + page_size * unat d then 0 else raw_bytes (wasm_alloc m) i)"
    using alloc_result [OF al' d] by simp_all
  obtain k where k: "page (wasm_alloc m) = int k"
    using ok by (auto simp: limits_ok_def elim!: nonneg_int_cases)
  have "page al' = int (k + unat d)" using r(1) k by (simp only: of_nat_add)
  then have p: "nat (page al') = k + unat d" "0 \<le> page al'" by (simp_all only: nat_int of_nat_0_le_iff)
  have "alloc_inv al'" using alloc_keeps_inv [OF _ al'] ok by (simp add: limits_ok_def)
  then have "limits_ok (m\<lparr>wasm_alloc := al'\<rparr>)"
    using ok lim p k by (simp add: limits_ok_def page_limit_def split: if_splits)
  moreover have "mem_bytes al' = page_size * k + page_size * unat d" "mem_bytes (wasm_alloc m) = page_size * k"
    using p k by (simp_all add: mem_bytes_def algebra_simps)
  ultimately show ?thesis
    unfolding grown_def using r k by simp
qed

lemma grow_cases:
  assumes ok: "limits_ok m"
  shows "grow_linear_memory d m =
    (if page_limit m < nat (page (wasm_alloc m)) + unat d then Inr (m, - 1)
     else bindR (if d > 0 then alloc (unat d) (wasm_alloc m) else Inr (wasm_alloc m))
       (\<lambda>al. Inr (m\<lparr>wasm_alloc := al\<rparr>, get_current_page (wasm_alloc m))))"
  using grow_refused_iff [OF ok, of d] by (simp only: grow_linear_memory_def Let_def)

lemma grow_spec:
  assumes ok: "limits_ok m" and "grow_linear_memory d m = Inr (m', r)"
  shows "if page_limit m < nat (page (wasm_alloc m)) + unat d then m' = m \<and> r = - 1
         else unat r = nat (page (wasm_alloc m)) \<and> grown m d m'"
proof (cases "page_limit m < nat (page (wasm_alloc m)) + unat d")
  case True
  then show ?thesis using assms(2) by (simp add: grow_cases [OF ok])
next
  case False
  show ?thesis
  proof (cases "d > 0")
    case True
    then obtain al' where "alloc (unat d) (wasm_alloc m) = Inr al'" "m' = m\<lparr>wasm_alloc := al'\<rparr>"
        "r = get_current_page (wasm_alloc m)"
      using assms(2) False by (auto simp: grow_cases [OF ok] bindR_eq_Inr)
    then show ?thesis using False alloc_grown [OF ok _ True] current_page_nat [OF ok] by simp
  next
    case d0: False
    then have "d = 0" by (simp add: word_neq_0_conv [symmetric])
    then show ?thesis
      using assms(2) False ok current_page_nat [OF ok] by (auto simp: grow_cases [OF ok] grown_def)
  qed
qed

lemma grow_total:
  assumes ok: "limits_ok m" and "\<not> external (wasm_alloc m)" and "mprotect_ok (wasm_alloc m)"
  shows "\<exists>m' r. grow_linear_memory d m = Inr (m', r)"
proof (cases "page_limit m < nat (page (wasm_alloc m)) + unat d \<or> \<not> d > 0")
  case True
  then show ?thesis by (auto simp: grow_cases [OF ok])
next
  case False
  then have "unat d + nat (page (wasm_alloc m)) \<le> max_pages_limit (wasm_alloc m)"
    using ok assms(2) by (auto simp: limits_ok_def page_limit_def alloc_inv_def split: if_splits)
  then have "\<exists>al'. alloc (unat d) (wasm_alloc m) = Inr al'"
    using ok assms(2,3) by (auto simp: alloc_def assertR_def Let_def limits_ok_def)
  then show ?thesis using False by (auto simp: grow_cases [OF ok])
qed

subsection \<open>Bulk operations as one step\<close>

definition memmove_bytes :: "nat \<Rightarrow> nat \<Rightarrow> nat \<Rightarrow> wasm_allocator \<Rightarrow> wasm_allocator" where
  "memmove_bytes src dst n al =
     al\<lparr>raw_bytes := (\<lambda>i. if dst \<le> i \<and> i < dst + n then raw_bytes al (src + (i - dst)) else raw_bytes al i)\<rparr>"

definition memset_bytes :: "u8 \<Rightarrow> nat \<Rightarrow> nat \<Rightarrow> wasm_allocator \<Rightarrow> wasm_allocator" where
  "memset_bytes b dst n al = al\<lparr>raw_bytes := (\<lambda>i. if dst \<le> i \<and> i < dst + n then b else raw_bytes al i)\<rparr>"

lemma validate_in:
  assumes "alloc_inv al" and "0 \<le> page al" and "unat ptr + unat len \<le> mem_bytes al"
  shows "validate_pointer ptr len al = Inr ()"
proof (cases "unat ptr + unat len")
  case 0
  then show ?thesis using assms(2) by (simp add: validate_pointer_def)
next
  case (Suc k)
  then have k: "int (unat ptr) + int (unat len) - 1 = int k" by linarith
  have "k < mem_bytes al" using Suc assms(3) by simp
  then have "touch al (word_of_int (int k)) = Inr ()"
    using stored_size(2) [OF assms(1)] by (intro touch_in [OF assms(1)]) (simp add: unat_of_nat)
  then show ?thesis unfolding validate_pointer_def k Let_def by simp
qed

lemma validate_out:
  assumes "alloc_inv al" and "\<not> external al" and "mem_bytes al < unat ptr + unat len"
  shows "validate_pointer ptr len al = Inl oob"
proof -
  obtain k where k: "unat ptr + unat len = Suc k" using assms(3) by (cases "unat ptr + unat len") auto
  then have k': "int (unat ptr) + int (unat len) - 1 = int k" by linarith
  have "k < 2 ^ 33" using k unat_bound [of ptr] unat_bound [of len] by simp
  then have "touch al (word_of_int (int k)) = Inl oob"
    using assms k by (intro touch_guard) (simp_all add: unat_of_nat max_memory_def)
  then show ?thesis unfolding validate_pointer_def k' Let_def by simp
qed

lemma unat_pred: "sz \<noteq> 0 \<Longrightarrow> unat (sz - 1 :: 'a :: len word) = unat sz - 1"
  by (simp add: unat_minus_one)

lemma unat_ucast_u32: "unat (ucast x :: u64) = unat (x :: u32)"
  by (simp add: unat_ucast_up)

lemma load_one:
  assumes "alloc_inv al" and "unat e < mem_bytes al"
  shows "load_bytes al e 1 = Inr [raw_bytes al (unat e)]"
  using load_in [OF assms(1), of e 1] assms(2) by (simp add: bytes_at_def)

lemma store_one:
  assumes "alloc_inv al" and "unat e = a" and "a < mem_bytes al"
  shows "store_bytes e [b] al = Inr (al\<lparr>raw_bytes := (raw_bytes al)(a := b)\<rparr>)"
proof -
  have "(\<lambda>i. if a \<le> i \<and> i < a + 1 then [b] ! (i - a) else raw_bytes al i) = (raw_bytes al)(a := b)"
    by (rule ext) auto
  then show ?thesis using store_in [OF assms(1,2), of "[b]"] assms(3) by simp
qed

lemma copy_step_up:
  assumes "alloc_inv al" and "0 \<le> page al" and "unat src + unat sz \<le> mem_bytes al" and "unat dst + unat sz \<le> mem_bytes al"
    and "sz \<noteq> 0" and "dst \<le> src"
  shows "memory_copy_step sz src dst al =
    Inr (Some (sz - 1, src + 1, dst + 1), al\<lparr>raw_bytes := (raw_bytes al)(unat dst := raw_bytes al (unat src))\<rparr>)"
proof -
  have pos: "1 \<le> unat sz" using assms(5) by (simp add: Suc_leI unat_gt_0)
  have "load_bytes al (ucast src) 1 = Inr [raw_bytes al (unat src)]"
    using load_one [OF assms(1), of "ucast src"] assms(3) pos by (simp add: unat_ucast_u32 del: One_nat_def)
  moreover have "store_bytes (ucast dst) [raw_bytes al (unat src)] al =
      Inr (al\<lparr>raw_bytes := (raw_bytes al)(unat dst := raw_bytes al (unat src))\<rparr>)"
    using assms(4) pos by (intro store_one [OF assms(1) unat_ucast_u32]) simp
  ultimately show ?thesis
    using assms(5,6) validate_in [OF assms(1,2)] assms(3,4) by (simp add: memory_copy_step_def del: One_nat_def)
qed

lemma copy_step_down:
  assumes "alloc_inv al" and "0 \<le> page al" and "unat src + unat sz \<le> mem_bytes al" and "unat dst + unat sz \<le> mem_bytes al"
    and "sz \<noteq> 0" and "\<not> dst \<le> src"
  shows "memory_copy_step sz src dst al = Inr (Some (sz - 1, src, dst), al\<lparr>raw_bytes :=
    (raw_bytes al)(unat dst + (unat sz - 1) := raw_bytes al (unat src + (unat sz - 1)))\<rparr>)"
proof -
  have pos: "1 \<le> unat sz" using assms(5) by (simp add: Suc_leI unat_gt_0)
  have e: "unat (ucast x + ucast (sz - 1) :: u64) = unat x + (unat sz - 1)" for x :: u32
    using unat_bound [of x] unat_bound [of sz]
    by (simp add: unat_word_ariths unat_ucast_u32 unat_pred [OF assms(5)])
  have "load_bytes al (ucast src + ucast (sz - 1)) 1 = Inr [raw_bytes al (unat src + (unat sz - 1))]"
    using load_one [OF assms(1), of "ucast src + ucast (sz - 1)"] assms(3) pos by (simp add: e del: One_nat_def)
  moreover have "store_bytes (ucast dst + ucast (sz - 1)) [b] al =
      Inr (al\<lparr>raw_bytes := (raw_bytes al)(unat dst + (unat sz - 1) := b)\<rparr>)" for b
    using assms(4) pos by (intro store_one [OF assms(1) e]) simp
  ultimately show ?thesis
    using assms(5,6) validate_in [OF assms(1,2)] assms(3,4) by (simp add: memory_copy_step_def del: One_nat_def)
qed

lemma fill_step:
  assumes "alloc_inv al" and "0 \<le> page al" and "unat dst + unat sz \<le> mem_bytes al" and "sz \<noteq> 0"
  shows "memory_fill_step sz v dst al =
    Inr (Some (sz - 1, v, dst + 1), al\<lparr>raw_bytes := (raw_bytes al)(unat dst := ucast v)\<rparr>)"
proof -
  have pos: "1 \<le> unat sz" using assms(4) by (simp add: Suc_leI unat_gt_0)
  have "store_bytes (ucast dst) [ucast v] al = Inr (al\<lparr>raw_bytes := (raw_bytes al)(unat dst := ucast v)\<rparr>)"
    using assms(3) pos by (intro store_one [OF assms(1) unat_ucast_u32]) simp
  then show ?thesis
    using assms(4) validate_in [OF assms(1,2)] assms(3) by (simp add: memory_fill_step_def)
qed

lemma unat_succ_le: "unat (x + 1 :: u32) \<le> unat x + 1"
  by (simp add: unat_word_ariths)

lemma unat_succ: "unat x + 2 \<le> 2 ^ 32 \<Longrightarrow> unat (x + 1 :: u32) = unat x + 1"
  by (simp add: unat_word_ariths)

lemma memmove_up:
  assumes "d \<le> s"
  shows "memmove_bytes (s + 1) (d + 1) n (al\<lparr>raw_bytes := (raw_bytes al)(d := raw_bytes al s)\<rparr>) = memmove_bytes s d (Suc n) al"
  using assms unfolding memmove_bytes_def
  by (intro wasm_allocator.equality) (auto simp: fun_eq_iff Suc_diff_Suc)

lemma memmove_down:
  assumes "s < d"
  shows "memmove_bytes s d n (al\<lparr>raw_bytes := (raw_bytes al)(d + n := raw_bytes al (s + n))\<rparr>) = memmove_bytes s d (Suc n) al"
  using assms unfolding memmove_bytes_def
  by (intro wasm_allocator.equality) (auto simp: fun_eq_iff less_Suc_eq)

lemma memset_up:
  "memset_bytes b (d + 1) n (al\<lparr>raw_bytes := (raw_bytes al)(d := b)\<rparr>) = memset_bytes b d (Suc n) al"
  unfolding memset_bytes_def by (intro wasm_allocator.equality) (auto simp: fun_eq_iff)

lemma memmove_none [simp]: "memmove_bytes s d 0 al = al" and memset_none [simp]: "memset_bytes b d 0 al = al"
proof -
  have "(d \<le> i \<and> i < d + 0) = False" for i :: nat by simp
  then show "memmove_bytes s d 0 al = al" "memset_bytes b d 0 al = al"
    unfolding memmove_bytes_def memset_bytes_def by (simp_all only: if_False) simp_all
qed

lemma run_copy_in:
  assumes "alloc_inv al" and "0 \<le> page al" and "unat src + unat sz \<le> mem_bytes al" and "unat dst + unat sz \<le> mem_bytes al"
  shows "run_bulk memory_copy_step (Suc (unat sz)) sz src dst al = Some (Inr (memmove_bytes (unat src) (unat dst) (unat sz) al))"
  using assms
proof (induction "unat sz" arbitrary: sz src dst al)
  case 0
  then have "sz = 0" by (simp add: unat_eq_0)
  with 0 show ?case using validate_in [OF "0.prems"(1,2)] by (simp add: memory_copy_step_def)
next
  case (Suc n)
  then have nz: "sz \<noteq> 0" by auto
  have n: "unat (sz - 1) = n" using unat_pred [OF nz] Suc.hyps(2) by simp
  have mb: "mem_bytes al \<le> 2 ^ 32" by (rule stored_size(2) [OF Suc.prems(1)])
  show ?case
  proof (cases "dst \<le> src")
    case True
    let ?al = "al\<lparr>raw_bytes := (raw_bytes al)(unat dst := raw_bytes al (unat src))\<rparr>"
    have "unat (src + 1) + n \<le> mem_bytes al" "unat (dst + 1) + n \<le> mem_bytes al"
      using Suc.prems(3,4) Suc.hyps(2) unat_succ_le [of src] unat_succ_le [of dst] by linarith+
    then have "run_bulk memory_copy_step (Suc n) (sz - 1) (src + 1) (dst + 1) ?al =
        Some (Inr (memmove_bytes (unat (src + 1)) (unat (dst + 1)) n ?al))"
      using Suc.hyps(1) [of "sz - 1" ?al "src + 1" "dst + 1"] n Suc.prems(1,2) by simp
    moreover have "memmove_bytes (unat (src + 1)) (unat (dst + 1)) n ?al = memmove_bytes (unat src) (unat dst) (Suc n) al"
    proof (cases n)
      case 0
      then show ?thesis
        using memmove_up [of "unat dst" "unat src" 0 al] True by (simp add: word_le_nat_alt)
    next
      case (Suc k)
      then have "unat (src + 1) = unat src + 1" "unat (dst + 1) = unat dst + 1"
        using Suc.prems(3,4) Suc.hyps(2) mb by (intro unat_succ; linarith)+
      then show ?thesis using memmove_up [of "unat dst" "unat src" n al] True by (simp add: word_le_nat_alt)
    qed
    ultimately show ?thesis
      using copy_step_up [OF Suc.prems nz True] Suc.hyps(2) by simp
  next
    case False
    let ?al = "al\<lparr>raw_bytes := (raw_bytes al)(unat dst + n := raw_bytes al (unat src + n))\<rparr>"
    have "run_bulk memory_copy_step (Suc n) (sz - 1) src dst ?al = Some (Inr (memmove_bytes (unat src) (unat dst) n ?al))"
      using Suc.hyps(1) [of "sz - 1" ?al src dst] n Suc.prems Suc.hyps(2) by simp
    moreover have "unat src < unat dst" using False by (simp add: word_le_nat_alt)
    ultimately show ?thesis
      using copy_step_down [OF Suc.prems nz False] Suc.hyps(2) [symmetric] memmove_down [of "unat src" "unat dst" n al] by simp
  qed
qed

lemma run_fill_in:
  assumes "alloc_inv al" and "0 \<le> page al" and "unat dst + unat sz \<le> mem_bytes al"
  shows "run_bulk memory_fill_step (Suc (unat sz)) sz v dst al = Some (Inr (memset_bytes (ucast v) (unat dst) (unat sz) al))"
  using assms
proof (induction "unat sz" arbitrary: sz dst al)
  case 0
  then have "sz = 0" by (simp add: unat_eq_0)
  with 0 show ?case using validate_in [OF "0.prems"(1,2)] by (simp add: memory_fill_step_def)
next
  case (Suc n)
  then have nz: "sz \<noteq> 0" by auto
  have n: "unat (sz - 1) = n" using unat_pred [OF nz] Suc.hyps(2) by simp
  let ?al = "al\<lparr>raw_bytes := (raw_bytes al)(unat dst := ucast v)\<rparr>"
  have "unat (dst + 1) + n \<le> mem_bytes al"
    using Suc.prems(3) Suc.hyps(2) unat_succ_le [of dst] by linarith
  then have "run_bulk memory_fill_step (Suc n) (sz - 1) v (dst + 1) ?al =
      Some (Inr (memset_bytes (ucast v) (unat (dst + 1)) n ?al))"
    using Suc.hyps(1) [of "sz - 1" ?al "dst + 1"] n Suc.prems(1,2) by simp
  moreover have "memset_bytes (ucast v) (unat (dst + 1)) n ?al = memset_bytes (ucast v) (unat dst) (Suc n) al"
  proof (cases n)
    case 0
    then show ?thesis using memset_up [of "ucast v" "unat dst" 0 al] by simp
  next
    case (Suc k)
    then have "unat (dst + 1) = unat dst + 1"
      using Suc.prems(3) Suc.hyps(2) stored_size(2) [OF Suc.prems(1)] by (intro unat_succ) linarith
    then show ?thesis using memset_up [of "ucast v" "unat dst" n al] by simp
  qed
  ultimately show ?case
    using fill_step [OF Suc.prems nz] Suc.hyps(2) by simp
qed

subsection \<open>Properties\<close>

definition stored :: "nat \<Rightarrow> u8 list \<Rightarrow> memory \<Rightarrow> memory" where
  "stored a bs m = m\<lparr>wasm_alloc := (wasm_alloc m)\<lparr>raw_bytes :=
     (\<lambda>i. if a \<le> i \<and> i < a + length bs then bs ! (i - a) else raw_bytes (wasm_alloc m) i)\<rparr>\<rparr>"

definition traps :: "'a res \<Rightarrow> bool" where
  "traps r \<longleftrightarrow> (case r of Inl (wasm_memory_exception _) \<Rightarrow> True | _ \<Rightarrow> False)"

definition one_page :: wasm_allocator where
  "one_page = \<lparr>page = 1, external = False, pooled_region = False, max_pages_limit = max_pages, raw_bytes = (\<lambda>_. 0),
     prot = (\<lambda>p. int p < 1), stored_mem_size = of_nat page_size, os_page = 4096, mprotect_ok = True\<rparr>"

definition one_page_memory :: memory where
  "one_page_memory = \<lparr>wasm_alloc = one_page, mem_mode = guarded, checked_kind = strict, read_watermark = 0,
     has_memory = True, memory64 = False, limits_flags = False, limits_maximum = 0, ctx_max_pages = of_nat max_pages\<rparr>"

lemma one_page_inv: "alloc_inv one_page"
  by (simp add: alloc_inv_def one_page_def max_pages_def page_size_def)

lemma one_page_bytes: "mem_bytes (wasm_alloc one_page_memory) = 65536"
  by (simp add: mem_bytes_def one_page_memory_def one_page_def page_size_def)

lemma ea_examples: "ea 65534 0 = 65534" "ea 65534 1 = 65535" "length [1 :: u8, 2] = 2"
  by (simp_all add: ea_def)

lemma one_page_guarded: "guarded_ok one_page_memory"
  using one_page_inv by (simp add: guarded_ok_def one_page_memory_def is_memory64_def one_page_def)

lemma one_page_limits: "limits_ok one_page_memory"
  using one_page_inv by (simp add: limits_ok_def one_page_memory_def one_page_def max_pages_def)

text \<open>
  \<^bold>\<open>C5\<close> A guarded 32-bit memory contains every guest access (\<open>guarded_ok\<close>), provided that the allocator owns
  the memory (it is not caller-provided) and that exactly the pages below its size are mapped. The latter is
  the allocator's invariant; a pooled region that comes back with pages of its last user still mapped does not
  have it. For an access of 1 to 16 bytes at static offset \<open>off\<close> and dynamic address \<open>addr\<close>, the 33-bit
  sum decides: inside the memory a load returns exactly those bytes and changes nothing, and a store replaces
  exactly those bytes, which a load at the same address then returns; outside it, both raise the memory
  exception. There is no bounds check in the code: the address never leaves the reservation and its guard pages.
\<close>

theorem guarded_access:
  assumes "guarded_ok m" and "0 < length bs" and "length bs \<le> 16"
  shows "(if ea off addr + length bs \<le> mem_bytes (wasm_alloc m)
          then mem_load off (length bs) (i32_const addr) m = Inr (m, bytes_at (wasm_alloc m) (ea off addr) (length bs)) \<and>
               mem_store off (i32_const addr) bs m = Inr (stored (ea off addr) bs m) \<and>
               guarded_ok (stored (ea off addr) bs m) \<and>
               mem_load off (length bs) (i32_const addr) (stored (ea off addr) bs m) = Inr (stored (ea off addr) bs m, bs)
          else traps (mem_load off (length bs) (i32_const addr) m) \<and> traps (mem_store off (i32_const addr) bs m))"
proof (cases "ea off addr + length bs \<le> mem_bytes (wasm_alloc m)")
  case True
  then have st: "mem_store off (i32_const addr) bs m = Inr (stored (ea off addr) bs m)"
    unfolding stored_def by (rule guarded.store_inside [OF assms(1-3)])
  moreover have "guarded_ok (stored (ea off addr) bs m)" using guarded.store_result [OF assms st] by (elim conjE)
  ultimately show ?thesis
    using True guarded.load_inside [OF assms True] guarded.load_store_same [OF assms st] by simp
next
  case False
  then show ?thesis
    using guarded.load_outside [OF assms, of off addr] guarded.store_outside [OF assms, of off addr]
    by (auto simp: traps_def not_le)
qed

theorem guarded_access_witness:
  "mem_load 65534 2 (i32_const 0) (stored 65534 [1, 2] one_page_memory) = Inr (stored 65534 [1, 2] one_page_memory, [1, 2]) \<and>
   traps (mem_store 65534 (i32_const 1) [1, 2] one_page_memory)"
  using guarded_access [OF one_page_guarded, of "[1, 2]" 65534 0, unfolded ea_examples one_page_bytes]
    guarded_access [OF one_page_guarded, of "[1, 2]" 65534 1, unfolded ea_examples one_page_bytes]
  by simp

text \<open>
  \<^bold>\<open>C11\<close> In checked mode with immediate checks the same containment holds without guard pages, also for
  a memory the embedder supplied: the comparison with the stored size replaces them.
\<close>

theorem checked_access:
  assumes "checked_ok m" and "0 < length bs" and "length bs \<le> 16"
  shows "(if ea off addr + length bs \<le> mem_bytes (wasm_alloc m)
          then mem_load off (length bs) (i32_const addr) m = Inr (m, bytes_at (wasm_alloc m) (ea off addr) (length bs)) \<and>
               mem_store off (i32_const addr) bs m = Inr (stored (ea off addr) bs m) \<and>
               checked_ok (stored (ea off addr) bs m) \<and>
               mem_load off (length bs) (i32_const addr) (stored (ea off addr) bs m) = Inr (stored (ea off addr) bs m, bs)
          else traps (mem_load off (length bs) (i32_const addr) m) \<and> traps (mem_store off (i32_const addr) bs m))"
proof (cases "ea off addr + length bs \<le> mem_bytes (wasm_alloc m)")
  case True
  then have st: "mem_store off (i32_const addr) bs m = Inr (stored (ea off addr) bs m)"
    unfolding stored_def by (rule checked.store_inside [OF assms(1-3)])
  moreover have "checked_ok (stored (ea off addr) bs m)" using checked.store_result [OF assms st] by (elim conjE)
  ultimately show ?thesis
    using True checked.load_inside [OF assms True] checked.load_store_same [OF assms st] by simp
next
  case False
  then show ?thesis
    using checked.load_outside [OF assms, of off addr] checked.store_outside [OF assms, of off addr]
    by (auto simp: traps_def not_le)
qed

definition external_page :: wasm_allocator where
  "external_page = one_page\<lparr>external := True, max_pages_limit := 1, prot := (\<lambda>_. False)\<rparr>"

definition external_memory :: memory where
  "external_memory = one_page_memory\<lparr>wasm_alloc := external_page, mem_mode := checked, checked_kind := immediate\<rparr>"

lemma external_checked: "checked_ok external_memory"
  by (simp add: checked_ok_def external_memory_def external_page_def alloc_inv_def one_page_def one_page_memory_def
      is_memory64_def max_pages_def page_size_def)

lemma external_bytes: "mem_bytes (wasm_alloc external_memory) = 65536"
  by (simp add: mem_bytes_def external_memory_def external_page_def one_page_memory_def one_page_def page_size_def)

theorem checked_access_witness:
  "mem_load 65534 2 (i32_const 0) (stored 65534 [1, 2] external_memory) = Inr (stored 65534 [1, 2] external_memory, [1, 2]) \<and>
   traps (mem_store 65534 (i32_const 1) [1, 2] external_memory)"
  using checked_access [OF external_checked, of "[1, 2]" 65534 0, unfolded ea_examples external_bytes]
    checked_access [OF external_checked, of "[1, 2]" 65534 1, unfolded ea_examples external_bytes]
  by simp

text \<open>A region of the pool in which the last user left two pages mapped.\<close>

definition leftover_region :: wasm_allocator where
  "leftover_region = wasm_allocator_pooled 4096 True (\<lambda>_. 7) (\<lambda>p. p < 2) 131072"

text \<open>
  \<^bold>\<open>C12\<close> \<open>reset\<close> in every state of the allocator: within the limit, and if the system grants the protection
  changes, it gives the next instance exactly the pages it asked for, all of them zero. It maps the pages up to
  the new size that lie above the old one, unmaps those between the new size and the old one, and leaves every other
  page as it was. So it keeps the allocator's invariant, but does not establish it: pages beyond both sizes that
  were mapped before, as in a pooled region used before, stay mapped with their old contents.
\<close>

theorem reset_clean:
  assumes "n \<le> max_pages_limit al" and "external al \<or> mprotect_ok al"
  shows "\<exists>al'. reset_pages n al = Inr al' \<and> page al' = int n \<and> external al' = external al \<and>
    (\<forall>a. a < n * page_size \<longrightarrow> raw_bytes al' a = 0) \<and> (alloc_inv al \<longrightarrow> alloc_inv al') \<and>
    (\<not> external al \<longrightarrow> (\<forall>p. prot al' p \<longleftrightarrow> (p < n \<and> nat (page al) \<le> p) \<or> (prot al p \<and> (p < n \<or> nat (page al) \<le> p))))"
proof -
  from assms obtain al' where r: "reset_pages n al = Inr al'" "page al' = int n" "external al' = external al"
      "max_pages_limit al' = max_pages_limit al" "\<And>a. a < n * page_size \<Longrightarrow> raw_bytes al' a = 0"
      "prot al' = (if external al then prot al
                   else (\<lambda>p. if p < n \<and> nat (page al) \<le> p then True else if n \<le> p \<and> p < nat (page al) then False else prot al p))"
    by (rule reset_pages_exact) (rule that)
  then show ?thesis using reset_pages_spec [of al n al'] by auto
qed

theorem reset_clean_witness:
  "(\<exists>al'. reset_pages 3 (one_page\<lparr>raw_bytes := (\<lambda>_. 7)\<rparr>) = Inr al' \<and> alloc_inv al' \<and> page al' = 3 \<and> raw_bytes al' 5 = 0) \<and>
   (\<exists>al'. reset_pages 1 leftover_region = Inr al' \<and> page al' = 1 \<and> raw_bytes al' 5 = 0 \<and> prot al' 1 \<and> \<not> prot al' 2)"
proof (rule conjI)
  let ?al = "one_page\<lparr>raw_bytes := (\<lambda>_. 7)\<rparr>"
  have "alloc_inv ?al" by (simp add: one_page_inv)
  moreover have "3 \<le> max_pages_limit ?al" "mprotect_ok ?al" "5 < 3 * page_size"
    by (simp_all add: one_page_def max_pages_def page_size_def)
  ultimately show "\<exists>al'. reset_pages 3 ?al = Inr al' \<and> alloc_inv al' \<and> page al' = 3 \<and> raw_bytes al' 5 = 0"
    using reset_clean [of 3 ?al] by auto
  have "1 \<le> max_pages_limit leftover_region" "mprotect_ok leftover_region" "\<not> external leftover_region" "page leftover_region = - 1"
      "prot leftover_region = (\<lambda>p. p < 2)" "5 < page_size"
    by (simp_all add: leftover_region_def wasm_allocator_pooled_def max_pages_def page_size_def)
  then show "\<exists>al'. reset_pages 1 leftover_region = Inr al' \<and> page al' = 1 \<and> raw_bytes al' 5 = 0 \<and> prot al' 1 \<and> \<not> prot al' 2"
    using reset_clean [of 1 leftover_region] by auto
qed

text \<open>
  \<^bold>\<open>C8\<close> \<open>memory.grow\<close>: a self-managed memory within its limits answers the old size and has exactly
  \<open>d\<close> more pages, the old bytes kept and the new ones zero, when the new size is within the declared and
  configured maximum; otherwise it answers -1 and nothing changes. The delta is unsigned, so a delta with
  the high bit set is refused and never shrinks the memory.
\<close>

theorem grow_correct:
  assumes "limits_ok m" and "\<not> external (wasm_alloc m)" and "mprotect_ok (wasm_alloc m)"
  shows "\<exists>m' r. grow_linear_memory d m = Inr (m', r) \<and>
    (if page_limit m < nat (page (wasm_alloc m)) + unat d then m' = m \<and> r = - 1
     else unat r = nat (page (wasm_alloc m)) \<and> grown m d m')"
  using grow_total [OF assms] grow_spec [OF assms(1)] by blast

theorem grow_correct_witness:
  "(\<exists>m'. grow_linear_memory 2 one_page_memory = Inr (m', 1) \<and> page (wasm_alloc m') = 3) \<and>
   grow_linear_memory (- 1) one_page_memory = Inr (one_page_memory, - 1)"
proof -
  have c: "\<not> external (wasm_alloc one_page_memory)" "mprotect_ok (wasm_alloc one_page_memory)"
    "page_limit one_page_memory = 65536" "page (wasm_alloc one_page_memory) = 1" "unat (- 1 :: u32) = 4294967295"
    by (simp_all add: one_page_memory_def one_page_def page_limit_def max_pages_def unsigned_minus_1_eq_mask mask_eq_exp_minus_1)
  obtain m1 r1 where "grow_linear_memory 2 one_page_memory = Inr (m1, r1)" "unat r1 = 1" "grown one_page_memory 2 m1"
    using grow_correct [OF one_page_limits c(1,2), of 2] c by auto
  moreover have "r1 = 1" using \<open>unat r1 = 1\<close> by (metis unsigned_word_eqI unsigned_1)
  ultimately have "grow_linear_memory 2 one_page_memory = Inr (m1, 1)" "page (wasm_alloc m1) = 3"
    using c by (simp_all add: grown_def)
  then show ?thesis
    using grow_correct [OF one_page_limits c(1,2), of "- 1"] c by auto
qed

text \<open>
  \<^bold>\<open>C10\<close> The byte-at-a-time \<open>memory.copy\<close> and \<open>memory.fill\<close> of the interpreter are the standard's one-step
  operations: after exactly \<open>sz + 1\<close> dispatches the copy has moved the source range as it was before the
  instruction (also when the ranges overlap) and the fill has set the range. If either range leaves a
  self-managed memory, empty ranges included, the first dispatch traps and no byte was written.
\<close>

theorem bulk_correct:
  assumes "alloc_inv al" and "0 \<le> page al" and "\<not> external al"
  shows "run_bulk memory_copy_step (Suc (unat sz)) sz src dst al =
      (if unat src + unat sz \<le> mem_bytes al \<and> unat dst + unat sz \<le> mem_bytes al
       then Some (Inr (memmove_bytes (unat src) (unat dst) (unat sz) al)) else Some (Inl oob)) \<and>
    run_bulk memory_fill_step (Suc (unat sz)) sz v dst al =
      (if unat dst + unat sz \<le> mem_bytes al
       then Some (Inr (memset_bytes (ucast v) (unat dst) (unat sz) al)) else Some (Inl oob))"
proof
  show "run_bulk memory_copy_step (Suc (unat sz)) sz src dst al =
      (if unat src + unat sz \<le> mem_bytes al \<and> unat dst + unat sz \<le> mem_bytes al
       then Some (Inr (memmove_bytes (unat src) (unat dst) (unat sz) al)) else Some (Inl oob))"
    using run_copy_in [OF assms(1,2), of src sz dst] validate_in [OF assms(1,2)] validate_out [OF assms(1,3)]
    by (cases "unat src + unat sz \<le> mem_bytes al") (auto simp: memory_copy_step_def not_le)
  show "run_bulk memory_fill_step (Suc (unat sz)) sz v dst al =
      (if unat dst + unat sz \<le> mem_bytes al
       then Some (Inr (memset_bytes (ucast v) (unat dst) (unat sz) al)) else Some (Inl oob))"
    using run_fill_in [OF assms(1,2), of dst sz v] validate_out [OF assms(1,3)]
    by (auto simp: memory_fill_step_def not_le)
qed

theorem bulk_correct_witness:
  "\<exists>al. run_bulk memory_copy_step 4 3 0 1 (one_page\<lparr>raw_bytes := of_nat\<rparr>) = Some (Inr al) \<and>
    map (raw_bytes al) [0, 1, 2, 3, 4] = [0, 0, 1, 2, 4]"
proof -
  have "mem_bytes one_page = 65536" "0 \<le> page one_page" "\<not> external one_page"
    by (simp_all add: one_page_def mem_bytes_def page_size_def)
  then show ?thesis
    using bulk_correct [of "one_page\<lparr>raw_bytes := of_nat\<rparr>" 3 0 1 0] one_page_inv
    by (simp add: memmove_bytes_def)
qed






end
