(* ===== verification/Int_Ops.thy ===== *)
theory Int_Ops
  imports Operand_Stack "HOL-Library.Signed_Division"
begin

unbundle bit_operations_syntax

section \<open>Integer instructions\<close>

text \<open>
  The integer instructions of \<open>psizam/detail/interpret_visitor.hpp\<close> as functions of their operand values.
  The C++ operators they are written with are partial: a shift by the width or more, a division by zero
  and the quotient of the least integer by -1 are undefined, and so are here (\<open>c_shl\<close>, \<open>c_div_s\<close>, ...). The
  lemmas show that the guards and masks of the handlers keep every instruction away from those cases and
  that the results are the operations of the WebAssembly standard.
\<close>

subsection \<open>The C++ operators\<close>

definition c_shl :: "'a :: len word \<Rightarrow> nat \<Rightarrow> 'a word res" where
  "c_shl w n = (if n < LENGTH('a) then Inr (push_bit n w) else Inl (Undefined ''shift count''))"

definition c_shr_u :: "'a :: len word \<Rightarrow> nat \<Rightarrow> 'a word res" where
  "c_shr_u w n = (if n < LENGTH('a) then Inr (drop_bit n w) else Inl (Undefined ''shift count''))"

definition c_shr_s :: "'a :: len word \<Rightarrow> nat \<Rightarrow> 'a word res" where
  "c_shr_s w n = (if n < LENGTH('a) then Inr (signed_drop_bit n w) else Inl (Undefined ''shift count''))"

definition int_min :: "'a :: len word" where
  "int_min = push_bit (LENGTH('a) - 1) 1"

definition c_div_s :: "'a :: len word \<Rightarrow> 'a word \<Rightarrow> 'a word res" where
  "c_div_s a b =
     (if b = 0 \<or> (a = int_min \<and> b = - 1) then Inl (Undefined ''signed division'')
      else Inr (word_of_int (sint a sdiv sint b)))"

definition c_mod_s :: "'a :: len word \<Rightarrow> 'a word \<Rightarrow> 'a word res" where
  "c_mod_s a b =
     (if b = 0 \<or> (a = int_min \<and> b = - 1) then Inl (Undefined ''signed remainder'')
      else Inr (word_of_int (sint a smod sint b)))"

definition c_div_u :: "'a :: len word \<Rightarrow> 'a word \<Rightarrow> 'a word res" where
  "c_div_u a b = (if b = 0 then Inl (Undefined ''division'') else Inr (a div b))"

definition c_mod_u :: "'a :: len word \<Rightarrow> 'a word \<Rightarrow> 'a word res" where
  "c_mod_u a b = (if b = 0 then Inl (Undefined ''remainder'') else Inr (a mod b))"

definition builtin_clz :: "'a :: len word \<Rightarrow> nat res" where
  "builtin_clz w =
     (if w = 0 then Inl (Undefined ''clz of 0'')
      else Inr (length (takeWhile (\<lambda>i. \<not> bit w i) (rev [0..<LENGTH('a)]))))"

definition builtin_ctz :: "'a :: len word \<Rightarrow> nat res" where
  "builtin_ctz w =
     (if w = 0 then Inl (Undefined ''ctz of 0'')
      else Inr (length (takeWhile (\<lambda>i. \<not> bit w i) [0..<LENGTH('a)])))"

definition builtin_popcount :: "'a :: len word \<Rightarrow> nat" where
  "builtin_popcount w = length (filter (bit w) [0..<LENGTH('a)])"

definition of_bool_i32 :: "bool \<Rightarrow> stack_elem" where
  "of_bool_i32 b = i32_const (if b then 1 else 0)"

definition wie :: "string \<Rightarrow> 'a res" where
  "wie msg = Inl (wasm_interpreter_exception msg)"

subsection \<open>Comparisons\<close>

datatype i32_relop =
  i32_eq_t | i32_ne_t | i32_lt_s_t | i32_lt_u_t | i32_le_s_t | i32_le_u_t | i32_gt_s_t | i32_gt_u_t | i32_ge_s_t | i32_ge_u_t

datatype i64_relop =
  i64_eq_t | i64_ne_t | i64_lt_s_t | i64_lt_u_t | i64_le_s_t | i64_le_u_t | i64_gt_s_t | i64_gt_u_t | i64_ge_s_t | i64_ge_u_t

fun i32_compare :: "i32_relop \<Rightarrow> u32 \<Rightarrow> u32 \<Rightarrow> bool" where
  "i32_compare i32_eq_t lhs rhs = (lhs = rhs)"
| "i32_compare i32_ne_t lhs rhs = (lhs \<noteq> rhs)"
| "i32_compare i32_lt_s_t lhs rhs = (sint lhs < sint rhs)"
| "i32_compare i32_lt_u_t lhs rhs = (lhs < rhs)"
| "i32_compare i32_le_s_t lhs rhs = (sint lhs \<le> sint rhs)"
| "i32_compare i32_le_u_t lhs rhs = (lhs \<le> rhs)"
| "i32_compare i32_gt_s_t lhs rhs = (sint lhs > sint rhs)"
| "i32_compare i32_gt_u_t lhs rhs = (lhs > rhs)"
| "i32_compare i32_ge_s_t lhs rhs = (sint lhs \<ge> sint rhs)"
| "i32_compare i32_ge_u_t lhs rhs = (lhs \<ge> rhs)"

fun i64_compare :: "i64_relop \<Rightarrow> u64 \<Rightarrow> u64 \<Rightarrow> bool" where
  "i64_compare i64_eq_t lhs rhs = (lhs = rhs)"
| "i64_compare i64_ne_t lhs rhs = (lhs \<noteq> rhs)"
| "i64_compare i64_lt_s_t lhs rhs = (sint lhs < sint rhs)"
| "i64_compare i64_lt_u_t lhs rhs = (lhs < rhs)"
| "i64_compare i64_le_s_t lhs rhs = (sint lhs \<le> sint rhs)"
| "i64_compare i64_le_u_t lhs rhs = (lhs \<le> rhs)"
| "i64_compare i64_gt_s_t lhs rhs = (sint lhs > sint rhs)"
| "i64_compare i64_gt_u_t lhs rhs = (lhs > rhs)"
| "i64_compare i64_ge_s_t lhs rhs = (sint lhs \<ge> sint rhs)"
| "i64_compare i64_ge_u_t lhs rhs = (lhs \<ge> rhs)"

definition i32_rel :: "i32_relop \<Rightarrow> stack_elem \<Rightarrow> stack_elem \<Rightarrow> stack_elem res" where
  "i32_rel op l r = bindR (to_ui32 r) (\<lambda>rhs. bindR (to_ui32 l) (\<lambda>lhs. Inr (of_bool_i32 (i32_compare op lhs rhs))))"

definition i64_rel :: "i64_relop \<Rightarrow> stack_elem \<Rightarrow> stack_elem \<Rightarrow> stack_elem res" where
  "i64_rel op l r = bindR (to_ui64 r) (\<lambda>rhs. bindR (to_ui64 l) (\<lambda>lhs. Inr (of_bool_i32 (i64_compare op lhs rhs))))"

subsection \<open>Unary operations\<close>

definition i32_eqz :: "u32 \<Rightarrow> u32" where
  "i32_eqz t = (if t = 0 then 1 else 0)"

definition i32_clz :: "u32 \<Rightarrow> u32 res" where
  "i32_clz oper = (if oper = 0 then Inr 32 else bindR (builtin_clz oper) (\<lambda>n. Inr (of_nat n)))"

definition i32_ctz :: "u32 \<Rightarrow> u32 res" where
  "i32_ctz oper = (if oper = 0 then Inr 32 else bindR (builtin_ctz oper) (\<lambda>n. Inr (of_nat n)))"

definition i32_popcnt :: "u32 \<Rightarrow> u32" where
  "i32_popcnt oper = of_nat (builtin_popcount oper)"

definition i64_clz :: "u64 \<Rightarrow> u64 res" where
  "i64_clz oper = (if oper = 0 then Inr 64 else bindR (builtin_clz oper) (\<lambda>n. Inr (of_nat n)))"

definition i64_ctz :: "u64 \<Rightarrow> u64 res" where
  "i64_ctz oper = (if oper = 0 then Inr 64 else bindR (builtin_ctz oper) (\<lambda>n. Inr (of_nat n)))"

definition i64_popcnt :: "u64 \<Rightarrow> u64" where
  "i64_popcnt oper = of_nat (builtin_popcount oper)"

datatype i32_unop = i32_eqz_t | i32_clz_t | i32_ctz_t | i32_popcnt_t | i32_extend8_s_t | i32_extend16_s_t
datatype i64_unop = i64_eqz_t | i64_clz_t | i64_ctz_t | i64_popcnt_t | i64_extend8_s_t | i64_extend16_s_t | i64_extend32_s_t

fun i32_un :: "i32_unop \<Rightarrow> stack_elem \<Rightarrow> stack_elem res" where
  "i32_un i32_eqz_t e = bindR (to_ui32 e) (\<lambda>v. Inr (i32_const (i32_eqz v)))"
| "i32_un i32_clz_t e = bindR (to_ui32 e) (\<lambda>v. bindR (i32_clz v) (\<lambda>r. Inr (i32_const r)))"
| "i32_un i32_ctz_t e = bindR (to_ui32 e) (\<lambda>v. bindR (i32_ctz v) (\<lambda>r. Inr (i32_const r)))"
| "i32_un i32_popcnt_t e = bindR (to_ui32 e) (\<lambda>v. Inr (i32_const (i32_popcnt v)))"
| "i32_un i32_extend8_s_t e = bindR (to_ui32 e) (\<lambda>v. Inr (i32_const (scast (ucast v :: u8))))"
| "i32_un i32_extend16_s_t e = bindR (to_ui32 e) (\<lambda>v. Inr (i32_const (scast (ucast v :: u16))))"

fun i64_un :: "i64_unop \<Rightarrow> stack_elem \<Rightarrow> stack_elem res" where
  "i64_un i64_eqz_t e = bindR (to_ui64 e) (\<lambda>v. Inr (of_bool_i32 (v = 0)))"
| "i64_un i64_clz_t e = bindR (to_ui64 e) (\<lambda>v. bindR (i64_clz v) (\<lambda>r. Inr (i64_const r)))"
| "i64_un i64_ctz_t e = bindR (to_ui64 e) (\<lambda>v. bindR (i64_ctz v) (\<lambda>r. Inr (i64_const r)))"
| "i64_un i64_popcnt_t e = bindR (to_ui64 e) (\<lambda>v. Inr (i64_const (i64_popcnt v)))"
| "i64_un i64_extend8_s_t e = bindR (to_ui64 e) (\<lambda>v. Inr (i64_const (scast (ucast v :: u8))))"
| "i64_un i64_extend16_s_t e = bindR (to_ui64 e) (\<lambda>v. Inr (i64_const (scast (ucast v :: u16))))"
| "i64_un i64_extend32_s_t e = bindR (to_ui64 e) (\<lambda>v. Inr (i64_const (scast (ucast v :: u32))))"

subsection \<open>Binary operations\<close>

definition i32_div_s :: "u32 \<Rightarrow> u32 \<Rightarrow> u32 res" where
  "i32_div_s lhs rhs =
     assertR (rhs \<noteq> 0) (wasm_interpreter_exception ''i32.div_s divide by zero'')
     (assertR (\<not> (lhs = int_min \<and> rhs = - 1)) (wasm_interpreter_exception ''i32.div_s traps when I32_MIN/-1'')
       (c_div_s lhs rhs))"

definition i32_div_u :: "u32 \<Rightarrow> u32 \<Rightarrow> u32 res" where
  "i32_div_u lhs rhs = assertR (rhs \<noteq> 0) (wasm_interpreter_exception ''i32.div_u divide by zero'') (c_div_u lhs rhs)"

definition i32_rem_s :: "u32 \<Rightarrow> u32 \<Rightarrow> u32 res" where
  "i32_rem_s lhs rhs =
     assertR (rhs \<noteq> 0) (wasm_interpreter_exception ''i32.rem_s divide by zero'')
       (if lhs = int_min \<and> rhs = - 1 then Inr 0 else c_mod_s lhs rhs)"

definition i32_rem_u :: "u32 \<Rightarrow> u32 \<Rightarrow> u32 res" where
  "i32_rem_u lhs rhs = assertR (rhs \<noteq> 0) (wasm_interpreter_exception ''i32.rem_u divide by zero'') (c_mod_u lhs rhs)"

definition i64_div_s :: "u64 \<Rightarrow> u64 \<Rightarrow> u64 res" where
  "i64_div_s lhs rhs =
     assertR (rhs \<noteq> 0) (wasm_interpreter_exception ''i64.div_s divide by zero'')
     (assertR (\<not> (lhs = int_min \<and> rhs = - 1)) (wasm_interpreter_exception ''i64.div_s traps when I64_MIN/-1'')
       (c_div_s lhs rhs))"

definition i64_div_u :: "u64 \<Rightarrow> u64 \<Rightarrow> u64 res" where
  "i64_div_u lhs rhs = assertR (rhs \<noteq> 0) (wasm_interpreter_exception ''i64.div_u divide by zero'') (c_div_u lhs rhs)"

definition i64_rem_s :: "u64 \<Rightarrow> u64 \<Rightarrow> u64 res" where
  "i64_rem_s lhs rhs =
     assertR (rhs \<noteq> 0) (wasm_interpreter_exception ''i64.rem_s divide by zero'')
       (if lhs = int_min \<and> rhs = - 1 then Inr 0 else c_mod_s lhs rhs)"

definition i64_rem_u :: "u64 \<Rightarrow> u64 \<Rightarrow> u64 res" where
  "i64_rem_u lhs rhs = assertR (rhs \<noteq> 0) (wasm_interpreter_exception ''i64.rem_u divide by zero'') (c_mod_u lhs rhs)"

text \<open>The rotates: \<open>c\<close> is a \<open>uint32_t\<close> in both widths; the mask of the 64-bit ones is a \<open>uint64_t\<close>.\<close>

definition i32_rotl :: "u32 \<Rightarrow> u32 \<Rightarrow> u32 res" where
  "i32_rotl lhs rhs =
     (let c = rhs AND 31 in
      bindR (c_shl lhs (unat c)) (\<lambda>a. bindR (c_shr_u lhs (unat ((- c) AND 31))) (\<lambda>b. Inr (a OR b))))"

definition i32_rotr :: "u32 \<Rightarrow> u32 \<Rightarrow> u32 res" where
  "i32_rotr lhs rhs =
     (let c = rhs AND 31 in
      bindR (c_shr_u lhs (unat c)) (\<lambda>a. bindR (c_shl lhs (unat ((- c) AND 31))) (\<lambda>b. Inr (a OR b))))"

definition i64_rotl :: "u64 \<Rightarrow> u64 \<Rightarrow> u64 res" where
  "i64_rotl lhs rhs =
     (let c = ucast (ucast (ucast rhs :: u32) AND (63 :: u64)) :: u32 in
      bindR (c_shl lhs (unat c)) (\<lambda>a. bindR (c_shr_u lhs (unat (ucast (- c) AND (63 :: u64)))) (\<lambda>b. Inr (a OR b))))"

definition i64_rotr :: "u64 \<Rightarrow> u64 \<Rightarrow> u64 res" where
  "i64_rotr lhs rhs =
     (let c = ucast (ucast (ucast rhs :: u32) AND (63 :: u64)) :: u32 in
      bindR (c_shr_u lhs (unat c)) (\<lambda>a. bindR (c_shl lhs (unat (ucast (- c) AND (63 :: u64)))) (\<lambda>b. Inr (a OR b))))"

datatype i32_binop =
    i32_add_t | i32_sub_t | i32_mul_t | i32_div_s_t | i32_div_u_t | i32_rem_s_t | i32_rem_u_t
  | i32_and_t | i32_or_t | i32_xor_t | i32_shl_t | i32_shr_s_t | i32_shr_u_t | i32_rotl_t | i32_rotr_t

datatype i64_binop =
    i64_add_t | i64_sub_t | i64_mul_t | i64_div_s_t | i64_div_u_t | i64_rem_s_t | i64_rem_u_t
  | i64_and_t | i64_or_t | i64_xor_t | i64_shl_t | i64_shr_s_t | i64_shr_u_t | i64_rotl_t | i64_rotr_t

fun i32_arith :: "i32_binop \<Rightarrow> u32 \<Rightarrow> u32 \<Rightarrow> u32 res" where
  "i32_arith i32_add_t lhs rhs = Inr (lhs + rhs)"
| "i32_arith i32_sub_t lhs rhs = Inr (lhs - rhs)"
| "i32_arith i32_mul_t lhs rhs = Inr (lhs * rhs)"
| "i32_arith i32_div_s_t lhs rhs = i32_div_s lhs rhs"
| "i32_arith i32_div_u_t lhs rhs = i32_div_u lhs rhs"
| "i32_arith i32_rem_s_t lhs rhs = i32_rem_s lhs rhs"
| "i32_arith i32_rem_u_t lhs rhs = i32_rem_u lhs rhs"
| "i32_arith i32_and_t lhs rhs = Inr (lhs AND rhs)"
| "i32_arith i32_or_t lhs rhs = Inr (lhs OR rhs)"
| "i32_arith i32_xor_t lhs rhs = Inr (lhs XOR rhs)"
| "i32_arith i32_shl_t lhs rhs = c_shl lhs (unat (rhs AND 31))"
| "i32_arith i32_shr_s_t lhs rhs = c_shr_s lhs (unat (rhs AND 31))"
| "i32_arith i32_shr_u_t lhs rhs = c_shr_u lhs (unat (rhs AND 31))"
| "i32_arith i32_rotl_t lhs rhs = i32_rotl lhs rhs"
| "i32_arith i32_rotr_t lhs rhs = i32_rotr lhs rhs"

fun i64_arith :: "i64_binop \<Rightarrow> u64 \<Rightarrow> u64 \<Rightarrow> u64 res" where
  "i64_arith i64_add_t lhs rhs = Inr (lhs + rhs)"
| "i64_arith i64_sub_t lhs rhs = Inr (lhs - rhs)"
| "i64_arith i64_mul_t lhs rhs = Inr (lhs * rhs)"
| "i64_arith i64_div_s_t lhs rhs = i64_div_s lhs rhs"
| "i64_arith i64_div_u_t lhs rhs = i64_div_u lhs rhs"
| "i64_arith i64_rem_s_t lhs rhs = i64_rem_s lhs rhs"
| "i64_arith i64_rem_u_t lhs rhs = i64_rem_u lhs rhs"
| "i64_arith i64_and_t lhs rhs = Inr (lhs AND rhs)"
| "i64_arith i64_or_t lhs rhs = Inr (lhs OR rhs)"
| "i64_arith i64_xor_t lhs rhs = Inr (lhs XOR rhs)"
| "i64_arith i64_shl_t lhs rhs = c_shl lhs (unat (rhs AND 63))"
| "i64_arith i64_shr_s_t lhs rhs = c_shr_s lhs (unat (rhs AND 63))"
| "i64_arith i64_shr_u_t lhs rhs = c_shr_u lhs (unat (rhs AND 63))"
| "i64_arith i64_rotl_t lhs rhs = i64_rotl lhs rhs"
| "i64_arith i64_rotr_t lhs rhs = i64_rotr lhs rhs"

definition i32_bin :: "i32_binop \<Rightarrow> stack_elem \<Rightarrow> stack_elem \<Rightarrow> stack_elem res" where
  "i32_bin op l r =
     bindR (to_ui32 r) (\<lambda>rhs. bindR (to_ui32 l) (\<lambda>lhs. bindR (i32_arith op lhs rhs) (\<lambda>v. Inr (i32_const v))))"

definition i64_bin :: "i64_binop \<Rightarrow> stack_elem \<Rightarrow> stack_elem \<Rightarrow> stack_elem res" where
  "i64_bin op l r =
     bindR (to_ui64 r) (\<lambda>rhs. bindR (to_ui64 l) (\<lambda>lhs. bindR (i64_arith op lhs rhs) (\<lambda>v. Inr (i64_const v))))"

subsection \<open>Masks, shifts and rotates\<close>

lemma and_31: "(x :: u32) AND 31 = take_bit 5 x" and and_63: "(y :: u64) AND 63 = take_bit 6 y"
  by (simp_all add: take_bit_eq_mask mask_numeral)

lemma unat_mask_count: "n < LENGTH('a) \<Longrightarrow> unat (take_bit n x :: 'a :: len word) < 2 ^ n"
  by (simp add: unat_take_bit)

lemma unat_take_bit_neg:
  assumes "n < LENGTH('a)"
  shows "unat (take_bit n (- x) :: 'a :: len word) = (2 ^ n - unat x mod 2 ^ n) mod 2 ^ n"
proof -
  have d: "(2 :: int) ^ n dvd 2 ^ LENGTH('a)" using assms by (intro le_imp_power_dvd) simp
  have "uint (take_bit n (- x)) = (- uint x) mod 2 ^ LENGTH('a) mod 2 ^ n"
    unfolding unsigned_take_bit_eq uint_word_ariths by (simp only: take_bit_eq_mod)
  also have "\<dots> = (- uint x) mod 2 ^ n" using d by (simp only: mod_mod_cancel)
  also have "\<dots> = (2 ^ n - uint x mod 2 ^ n) mod 2 ^ n" by (simp add: mod_simps)
  also have "\<dots> = int ((2 ^ n - unat x mod 2 ^ n) mod 2 ^ n)"
    by (simp add: zmod_int of_nat_diff)
  finally show ?thesis by (metis nat_int unat_eq_nat_uint)
qed

lemma rotl_by_shifts:
  assumes "c < LENGTH('a)"
  shows "push_bit c w OR drop_bit ((LENGTH('a) - c) mod LENGTH('a)) w = word_rotl c (w :: 'a :: len word)"
proof (rule bit_eqI)
  fix k
  assume "possible_bit TYPE('a word) k"
  then have k: "k < LENGTH('a)" by simp
  show "bit (push_bit c w OR drop_bit ((LENGTH('a) - c) mod LENGTH('a)) w) k \<longleftrightarrow> bit (word_rotl c w) k"
  proof (cases "c \<le> k")
    case True
    then have "(k + (LENGTH('a) - c)) mod LENGTH('a) = k - c"
      using assms k by (simp add: mod_if)
    moreover have "bit w ((LENGTH('a) - c) mod LENGTH('a) + k) \<longleftrightarrow> c = 0 \<and> bit w k"
      using True assms by (cases "c = 0") (auto dest: bit_imp_le_length)
    ultimately show ?thesis
      using True assms k by (auto simp: bit_word_rotl_iff bit_simps)
  next
    case False
    then have "c \<noteq> 0" "(k + (LENGTH('a) - c)) mod LENGTH('a) = LENGTH('a) - c + k" using assms by simp_all
    then show ?thesis using False assms k by (simp add: bit_word_rotl_iff bit_simps)
  qed
qed

lemma rotr_by_shifts:
  assumes "c < LENGTH('a)"
  shows "drop_bit c w OR push_bit ((LENGTH('a) - c) mod LENGTH('a)) w = word_rotr c (w :: 'a :: len word)"
proof (rule bit_eqI)
  fix k
  assume "possible_bit TYPE('a word) k"
  then have k: "k < LENGTH('a)" by simp
  show "bit (drop_bit c w OR push_bit ((LENGTH('a) - c) mod LENGTH('a)) w) k \<longleftrightarrow> bit (word_rotr c w) k"
  proof (cases "c = 0")
    case True
    then show ?thesis using k by (simp add: bit_word_rotr_iff bit_simps)
  next
    case False
    show ?thesis
    proof (cases "k + c < LENGTH('a)")
      case True
      then show ?thesis using False assms k by (auto simp: bit_word_rotr_iff bit_simps add.commute)
    next
      case outer: False
      then have "(k + c) mod LENGTH('a) = k - (LENGTH('a) - c)" using assms k by (simp add: mod_if)
      moreover have "\<not> bit w (c + k)" using outer by (auto dest: bit_imp_le_length)
      ultimately show ?thesis using False outer assms k by (auto simp: bit_word_rotr_iff bit_simps)
    qed
  qed
qed

lemma rotl_mod: "word_rotl (n mod LENGTH('a)) w = word_rotl n (w :: 'a :: len word)"
  and rotr_mod: "word_rotr (n mod LENGTH('a)) w = word_rotr n (w :: 'a :: len word)"
  by (rule bit_eqI; simp add: bit_word_rotl_iff bit_word_rotr_iff mod_simps)+

lemma i32_rotates: "i32_rotl w x = Inr (word_rotl (unat x) w)" "i32_rotr w x = Inr (word_rotr (unat x) w)"
proof -
  have c: "unat (x AND 31) = unat x mod 32" and d: "unat ((- (x AND 31)) AND 31) = (32 - unat x mod 32) mod 32"
    using unat_take_bit_neg [of 5 "take_bit 5 x"] by (simp_all add: and_31 unat_take_bit)
  show "i32_rotl w x = Inr (word_rotl (unat x) w)"
    using rotl_by_shifts [of "unat x mod 32" w] rotl_mod [of "unat x" w] by (simp add: i32_rotl_def Let_def c d c_shl_def c_shr_u_def)
  show "i32_rotr w x = Inr (word_rotr (unat x) w)"
    using rotr_by_shifts [of "unat x mod 32" w] rotr_mod [of "unat x" w] by (simp add: i32_rotr_def Let_def c d c_shl_def c_shr_u_def)
qed

lemma i64_rotates: "i64_rotl w x = Inr (word_rotl (unat x) w)" "i64_rotr w x = Inr (word_rotr (unat x) w)"
proof -
  let ?c = "ucast (ucast (ucast x :: u32) AND (63 :: u64)) :: u32"
  have cw: "?c = take_bit 6 (ucast x)"
    unfolding and_63 by (rule bit_eqI) (auto simp: bit_simps)
  have c: "unat ?c = unat x mod 64"
    unfolding cw unat_take_bit by (simp add: unsigned_ucast_eq take_bit_eq_mod mod_mod_cancel)
  have "unat (ucast (- ?c) AND (63 :: u64)) = unat (take_bit 6 (- ?c))"
    unfolding and_63 by (simp add: unat_take_bit unat_ucast_up)
  then have d: "unat (ucast (- ?c) AND (63 :: u64)) = (64 - unat x mod 64) mod 64"
    using unat_take_bit_neg [of 6 ?c] c by simp
  show "i64_rotl w x = Inr (word_rotl (unat x) w)"
    using rotl_by_shifts [of "unat x mod 64" w] rotl_mod [of "unat x" w] by (simp add: i64_rotl_def Let_def c d c_shl_def c_shr_u_def)
  show "i64_rotr w x = Inr (word_rotr (unat x) w)"
    using rotr_by_shifts [of "unat x mod 64" w] rotr_mod [of "unat x" w] by (simp add: i64_rotr_def Let_def c d c_shl_def c_shr_u_def)
qed

subsection \<open>Division\<close>

lemma sint_int_min: "sint (int_min :: 'a :: len word) = - (2 ^ (LENGTH('a) - 1))"
proof -
  have m: "(int_min :: 'a word) = word_of_int (2 ^ (LENGTH('a) - 1))"
    unfolding int_min_def by (simp add: push_bit_eq_mult)
  have "bit ((2 :: int) ^ (LENGTH('a) - 1)) (LENGTH('a) - 1)" by (simp add: bit_exp_iff)
  moreover have "take_bit (Suc (LENGTH('a) - 1)) ((2 :: int) ^ (LENGTH('a) - 1)) = 2 ^ (LENGTH('a) - 1)"
    by (simp add: take_bit_int_eq_self)
  ultimately show ?thesis
    unfolding m signed_of_int signed_take_bit_eq_take_bit_minus by (simp flip: power_Suc)
qed

lemma sdiv_in_range:
  fixes a b :: int
  assumes "- (2 ^ m) \<le> a" "a < 2 ^ m" "b \<noteq> 0" "\<not> (a = - (2 ^ m) \<and> b = - 1)"
  shows "- (2 ^ m) \<le> a sdiv b \<and> a sdiv b < 2 ^ m"
proof -
  have le: "\<bar>a\<bar> div \<bar>b\<bar> \<le> \<bar>a\<bar>" using assms(3) by (simp add: zdiv_mono2 [of "\<bar>a\<bar>" 1, simplified])
  have nn: "0 \<le> \<bar>a\<bar> div \<bar>b\<bar>" by (simp add: pos_imp_zdiv_nonneg_iff assms(3))
  show ?thesis
  proof (cases "\<bar>a\<bar> div \<bar>b\<bar> < 2 ^ m")
    case True
    then show ?thesis using nn by (auto simp: signed_divide_int_def sgn_if)
  next
    case False
    then have a: "a = - (2 ^ m)" using le assms(1,2) by linarith
    then have "\<bar>b\<bar> = 1"
      using False assms(3) int_div_less_self [of "2 ^ m" "\<bar>b\<bar>"] by (cases "\<bar>b\<bar> = 1") auto
    then have "b = 1" using assms(4) a by auto
    then show ?thesis using a by simp
  qed
qed

lemma sint_range: "- (2 ^ (LENGTH('a) - 1)) \<le> sint (w :: 'a :: len word)" "sint (w :: 'a word) < 2 ^ (LENGTH('a) - 1)"
  using sint_ge [of w] sint_lt [of w] by simp_all

lemma sint_in_range:
  "- (2 ^ (LENGTH('a) - 1)) \<le> k \<Longrightarrow> k < 2 ^ (LENGTH('a) - 1) \<Longrightarrow> sint (word_of_int k :: 'a :: len word) = k"
  by (simp add: signed_of_int signed_take_bit_int_eq_self)

lemma int_min_iff: "w = (int_min :: 'a :: len word) \<longleftrightarrow> sint w = - (2 ^ (LENGTH('a) - 1))"
  by (metis sint_int_min signed_word_eqI)

lemma minus_1_iff: "1 < LENGTH('a) \<Longrightarrow> w = (- 1 :: 'a :: len word) \<longleftrightarrow> sint w = - 1"
  by (metis signed_minus_1 signed_word_eqI)

lemma smod_in_range:
  fixes a b :: int
  assumes "- (2 ^ m) \<le> a" "a < 2 ^ m"
  shows "- (2 ^ m) \<le> a smod b \<and> a smod b < 2 ^ m"
proof -
  have "\<bar>a\<bar> mod \<bar>b\<bar> \<le> \<bar>a\<bar>" by (cases "b = 0") (simp_all add: zmod_le_nonneg_dividend)
  moreover have "0 \<le> \<bar>a\<bar> mod \<bar>b\<bar>" by (cases "b = 0") simp_all
  ultimately show ?thesis using assms unfolding signed_modulo_int_def
    by (cases a "0 :: int" rule: linorder_cases) auto
qed

lemma sint_0_iff: "sint w = 0 \<longleftrightarrow> w = (0 :: 'a :: len word)"
  by (metis signed_0 signed_word_eqI)

lemma c_div_s_spec:
  assumes "1 < LENGTH('a)" and "b \<noteq> 0" and "\<not> (a = int_min \<and> b = - 1)"
  shows "\<exists>q. c_div_s a b = Inr q \<and> sint q = sint (a :: 'a :: len word) sdiv sint b"
proof -
  have "- (2 ^ (LENGTH('a) - 1)) \<le> sint a sdiv sint b \<and> sint a sdiv sint b < 2 ^ (LENGTH('a) - 1)"
    using assms sint_range [of a] by (intro sdiv_in_range) (auto simp: int_min_iff minus_1_iff sint_0_iff)
  then show ?thesis using assms(2,3) by (auto simp: c_div_s_def sint_in_range)
qed

lemma c_mod_s_spec:
  assumes "b \<noteq> 0" and "\<not> (a = int_min \<and> b = - 1)"
  shows "\<exists>q. c_mod_s a b = Inr q \<and> sint q = sint (a :: 'a :: len word) smod sint b"
  using smod_in_range [OF sint_range [of a], of "sint b"] assms by (auto simp: c_mod_s_def sint_in_range)

lemma smod_min_minus_1: "1 < LENGTH('a) \<Longrightarrow> sint (int_min :: 'a :: len word) smod sint (- 1 :: 'a word) = 0"
  by (simp add: signed_minus_1 signed_modulo_int_def)

subsection \<open>Counting bits\<close>

lemma clz_spec:
  assumes "(w :: 'a :: len word) \<noteq> 0"
  shows "\<exists>n. builtin_clz w = Inr n \<and> n < LENGTH('a) \<and> drop_bit (LENGTH('a) - 1 - n) w = 1"
proof -
  let ?xs = "rev [0..<LENGTH('a)]"
  let ?n = "length (takeWhile (\<lambda>i. \<not> bit w i) ?xs)"
  obtain i where i: "bit w i" using assms by (metis bit_0_eq bit_eqI bot_fun_def bot_bool_def)
  then have "i \<in> set ?xs" by (auto dest: bit_imp_le_length)
  then have "takeWhile (\<lambda>i. \<not> bit w i) ?xs \<noteq> ?xs" using i by (metis takeWhile_eq_all_conv)
  then have n: "?n < LENGTH('a)"
    by (metis diff_zero le_neq_implies_less length_rev length_takeWhile_le length_upt takeWhile_eq_take take_all_iff nle_le)
  then have x: "?xs ! k = LENGTH('a) - 1 - k" if "k \<le> ?n" for k using that by (simp add: rev_nth)
  have "bit w (LENGTH('a) - 1 - ?n)" using nth_length_takeWhile [of "\<lambda>i. \<not> bit w i" ?xs] n x [of ?n] by simp
  moreover have "\<not> bit w (LENGTH('a) - 1 - ?n + j)" if "0 < j" for j
  proof (cases "LENGTH('a) - 1 - ?n + j < LENGTH('a)")
    case True
    then have k: "?n - j < ?n" using that n by simp
    have "?xs ! (?n - j) = LENGTH('a) - 1 - ?n + j" using x [of "?n - j"] True n by simp
    then show ?thesis
      using nth_mem [OF k] takeWhile_nth [OF k] set_takeWhileD [of _ "\<lambda>i. \<not> bit w i" ?xs] by metis
  qed (auto dest: bit_imp_le_length)
  ultimately have "drop_bit (LENGTH('a) - 1 - ?n) w = 1"
    by (intro bit_eqI) (auto simp: bit_simps bit_1_iff)
  with n assms show ?thesis by (simp add: builtin_clz_def)
qed

lemma ctz_spec:
  assumes "(w :: 'a :: len word) \<noteq> 0"
  shows "\<exists>n. builtin_ctz w = Inr n \<and> n < LENGTH('a) \<and> bit w n \<and> take_bit n w = 0"
proof -
  let ?xs = "[0..<LENGTH('a)]"
  let ?n = "length (takeWhile (\<lambda>i. \<not> bit w i) ?xs)"
  obtain i where i: "bit w i" using assms by (metis bit_0_eq bit_eqI bot_fun_def bot_bool_def)
  then have "i \<in> set ?xs" by (auto dest: bit_imp_le_length)
  then have "takeWhile (\<lambda>i. \<not> bit w i) ?xs \<noteq> ?xs" using i by (metis takeWhile_eq_all_conv)
  then have n: "?n < LENGTH('a)"
    by (metis diff_zero le_neq_implies_less length_takeWhile_le length_upt takeWhile_eq_take take_all_iff nle_le)
  have "bit w ?n" using nth_length_takeWhile [of "\<lambda>i. \<not> bit w i" ?xs] n by simp
  moreover have "\<not> bit w j" if "j < ?n" for j
    using nth_mem [OF that] takeWhile_nth [OF that] set_takeWhileD [of _ "\<lambda>i. \<not> bit w i" ?xs] that n by auto
  then have "take_bit ?n w = 0" by (intro bit_eqI) (auto simp: bit_simps)
  ultimately show ?thesis using n assms by (simp add: builtin_ctz_def)
qed

lemma popcount_card: "builtin_popcount w = card {i. bit (w :: 'a :: len word) i}"
proof -
  have "{i. bit w i} = set (filter (bit w) [0..<LENGTH('a)])" by (auto dest: bit_imp_le_length)
  then show ?thesis by (simp only: builtin_popcount_def distinct_card distinct_filter distinct_upt)
qed

subsection \<open>Typed operands give typed results\<close>

definition int_trap :: "'a res \<Rightarrow> bool" where
  "int_trap r \<longleftrightarrow> (\<exists>m. r = Inl (wasm_interpreter_exception m))"

lemma i32_arith_total: "(\<exists>v. i32_arith op a b = Inr v) \<or> int_trap (i32_arith op a b)"
proof (cases op)
  case i32_div_s_t
  then show ?thesis
    using c_div_s_spec [of b a] by (auto simp: i32_div_s_def assertR_def int_trap_def)
next
  case i32_rem_s_t
  then show ?thesis
    using c_mod_s_spec [of b a] by (auto simp: i32_rem_s_def assertR_def int_trap_def)
qed (auto simp: i32_div_u_def i32_rem_u_def assertR_def int_trap_def c_div_u_def c_mod_u_def c_shl_def c_shr_s_def c_shr_u_def
    i32_rotates and_31 unat_take_bit)

lemma i64_arith_total: "(\<exists>v. i64_arith op a b = Inr v) \<or> int_trap (i64_arith op a b)"
proof (cases op)
  case i64_div_s_t
  then show ?thesis
    using c_div_s_spec [of b a] by (auto simp: i64_div_s_def assertR_def int_trap_def)
next
  case i64_rem_s_t
  then show ?thesis
    using c_mod_s_spec [of b a] by (auto simp: i64_rem_s_def assertR_def int_trap_def)
qed (auto simp: i64_div_u_def i64_rem_u_def assertR_def int_trap_def c_div_u_def c_mod_u_def c_shl_def c_shr_s_def c_shr_u_def
    i64_rotates and_63 unat_take_bit)

lemma i32_un_total: "\<exists>v. i32_un op (i32_const a) = Inr (i32_const v)"
  using clz_spec [of a] ctz_spec [of a] by (cases op) (auto simp: i32_clz_def i32_ctz_def)

lemma i64_un_total: "\<exists>v. i64_un op (i64_const a) = Inr v \<and> (if op = i64_eqz_t then \<exists>b. v = i32_const b else \<exists>b. v = i64_const b)"
  using clz_spec [of a] ctz_spec [of a] by (cases op) (auto simp: i64_clz_def i64_ctz_def of_bool_i32_def)

subsection \<open>Properties\<close>

text \<open>
  \<^bold>\<open>C15\<close> Integer division: at both widths, signed quotient and remainder are the ones that truncate towards
  zero, unsigned ones the natural ones; division by zero traps, and so does the least integer divided by -1,
  whose remainder is 0. No operand reaches a division that C++ leaves undefined.
\<close>

theorem int_division:
  "(if rhs = 0 then i32_div_s lhs rhs = wie ''i32.div_s divide by zero''
    else if sint lhs = - (2 ^ 31) \<and> sint rhs = - 1 then i32_div_s lhs rhs = wie ''i32.div_s traps when I32_MIN/-1''
    else \<exists>q. i32_div_s lhs rhs = Inr q \<and> sint q = sint lhs sdiv sint rhs) \<and>
   (if rhs = 0 then i32_rem_s lhs rhs = wie ''i32.rem_s divide by zero''
    else \<exists>r. i32_rem_s lhs rhs = Inr r \<and> sint r = sint lhs smod sint rhs) \<and>
   (if rhs = 0 then i32_div_u lhs rhs = wie ''i32.div_u divide by zero'' \<and> i32_rem_u lhs rhs = wie ''i32.rem_u divide by zero''
    else \<exists>q r. i32_div_u lhs rhs = Inr q \<and> unat q = unat lhs div unat rhs \<and>
              i32_rem_u lhs rhs = Inr r \<and> unat r = unat lhs mod unat rhs) \<and>
   (if rhs' = 0 then i64_div_s lhs' rhs' = wie ''i64.div_s divide by zero''
    else if sint lhs' = - (2 ^ 63) \<and> sint rhs' = - 1 then i64_div_s lhs' rhs' = wie ''i64.div_s traps when I64_MIN/-1''
    else \<exists>q. i64_div_s lhs' rhs' = Inr q \<and> sint q = sint lhs' sdiv sint rhs') \<and>
   (if rhs' = 0 then i64_rem_s lhs' rhs' = wie ''i64.rem_s divide by zero''
    else \<exists>r. i64_rem_s lhs' rhs' = Inr r \<and> sint r = sint lhs' smod sint rhs') \<and>
   (if rhs' = 0 then i64_div_u lhs' rhs' = wie ''i64.div_u divide by zero'' \<and> i64_rem_u lhs' rhs' = wie ''i64.rem_u divide by zero''
    else \<exists>q r. i64_div_u lhs' rhs' = Inr q \<and> unat q = unat lhs' div unat rhs' \<and>
              i64_rem_u lhs' rhs' = Inr r \<and> unat r = unat lhs' mod unat rhs')"
proof (intro conjI)
  have m: "(lhs = int_min) = (sint lhs = - (2 ^ 31))" "(rhs = - 1) = (sint rhs = - 1)"
    "(lhs' = int_min) = (sint lhs' = - (2 ^ 63))" "(rhs' = - 1) = (sint rhs' = - 1)"
    by (simp_all add: int_min_iff minus_1_iff)
  show "if rhs = 0 then i32_div_s lhs rhs = wie ''i32.div_s divide by zero''
    else if sint lhs = - (2 ^ 31) \<and> sint rhs = - 1 then i32_div_s lhs rhs = wie ''i32.div_s traps when I32_MIN/-1''
    else \<exists>q. i32_div_s lhs rhs = Inr q \<and> sint q = sint lhs sdiv sint rhs"
    using c_div_s_spec [of rhs lhs] by (auto simp: i32_div_s_def wie_def m)
  show "if rhs' = 0 then i64_div_s lhs' rhs' = wie ''i64.div_s divide by zero''
    else if sint lhs' = - (2 ^ 63) \<and> sint rhs' = - 1 then i64_div_s lhs' rhs' = wie ''i64.div_s traps when I64_MIN/-1''
    else \<exists>q. i64_div_s lhs' rhs' = Inr q \<and> sint q = sint lhs' sdiv sint rhs'"
    using c_div_s_spec [of rhs' lhs'] by (auto simp: i64_div_s_def wie_def m)
  show "if rhs = 0 then i32_rem_s lhs rhs = wie ''i32.rem_s divide by zero''
    else \<exists>r. i32_rem_s lhs rhs = Inr r \<and> sint r = sint lhs smod sint rhs"
    using c_mod_s_spec [of rhs lhs] smod_min_minus_1 [where 'a = 32] by (auto simp: i32_rem_s_def wie_def)
  show "if rhs' = 0 then i64_rem_s lhs' rhs' = wie ''i64.rem_s divide by zero''
    else \<exists>r. i64_rem_s lhs' rhs' = Inr r \<and> sint r = sint lhs' smod sint rhs'"
    using c_mod_s_spec [of rhs' lhs'] smod_min_minus_1 [where 'a = 64] by (auto simp: i64_rem_s_def wie_def)
qed (simp_all add: i32_div_u_def i32_rem_u_def i64_div_u_def i64_rem_u_def c_div_u_def c_mod_u_def wie_def unat_div unat_mod)

text \<open>
  \<^bold>\<open>C16\<close> Shifts and rotates: at both widths the count is taken modulo the width, the shifts are the logical
  and arithmetic ones and the two-shift formulas of the rotates are rotations of the word; no shift count
  reaches the width, where C++ leaves the result undefined.
\<close>

theorem shifts_and_rotates:
  "i32_arith i32_shl_t w x = Inr (push_bit (unat x mod 32) w) \<and>
   i32_arith i32_shr_u_t w x = Inr (drop_bit (unat x mod 32) w) \<and>
   i32_arith i32_shr_s_t w x = Inr (word_of_int (sint w div 2 ^ (unat x mod 32))) \<and>
   i32_arith i32_rotl_t w x = Inr (word_rotl (unat x) w) \<and> i32_arith i32_rotr_t w x = Inr (word_rotr (unat x) w) \<and>
   i64_arith i64_shl_t w' x' = Inr (push_bit (unat x' mod 64) w') \<and>
   i64_arith i64_shr_u_t w' x' = Inr (drop_bit (unat x' mod 64) w') \<and>
   i64_arith i64_shr_s_t w' x' = Inr (word_of_int (sint w' div 2 ^ (unat x' mod 64))) \<and>
   i64_arith i64_rotl_t w' x' = Inr (word_rotl (unat x') w') \<and> i64_arith i64_rotr_t w' x' = Inr (word_rotr (unat x') w')"
proof -
  have s: "signed_drop_bit n v = word_of_int (sint v div 2 ^ n)" for n and v :: "'a :: len word"
  proof -
    have "signed_drop_bit n v = word_of_int (sint (signed_drop_bit n v))" by simp
    then show ?thesis unfolding sint_signed_drop_bit_eq drop_bit_eq_div .
  qed
  show ?thesis
    by (simp add: c_shl_def c_shr_u_def c_shr_s_def and_31 and_63 unat_take_bit i32_rotates i64_rotates s)
qed

text \<open>
  \<^bold>\<open>C17\<close> Bit counts: \<open>clz\<close> is the number of zero bits above the highest one (the width for 0), \<open>ctz\<close> the number
  below the lowest one, \<open>popcnt\<close> the number of ones, at both widths; the builtins, undefined at 0, are never
  called there.
\<close>

theorem bit_counts:
  "(\<exists>r. i32_clz w = Inr r \<and> (if w = 0 then r = 32 else unat r < 32 \<and> drop_bit (31 - unat r) w = 1)) \<and>
   (\<exists>r. i32_ctz w = Inr r \<and> (if w = 0 then r = 32 else bit w (unat r) \<and> take_bit (unat r) w = 0)) \<and>
   unat (i32_popcnt w) = card {i. bit w i} \<and>
   (\<exists>r. i64_clz w' = Inr r \<and> (if w' = 0 then r = 64 else unat r < 64 \<and> drop_bit (63 - unat r) w' = 1)) \<and>
   (\<exists>r. i64_ctz w' = Inr r \<and> (if w' = 0 then r = 64 else bit w' (unat r) \<and> take_bit (unat r) w' = 0)) \<and>
   unat (i64_popcnt w') = card {i. bit w' i}"
proof -
  have le: "card {i. bit (v :: 'a :: len word) i} \<le> LENGTH('a)" for v
    using card_mono [of "{..<LENGTH('a)}" "{i. bit v i}"] by (auto dest: bit_imp_le_length)
  have n: "unat (of_nat k :: u32) = k" "unat (of_nat k :: u64) = k" if "k \<le> 64" for k
    using that by (simp_all add: unat_of_nat)
  have "unat (i32_popcnt w) = card {i. bit w i}" "unat (i64_popcnt w') = card {i. bit w' i}"
    using le [of w] le [of w'] n by (simp_all add: i32_popcnt_def i64_popcnt_def popcount_card)
  then show ?thesis
    using clz_spec [of w] ctz_spec [of w] clz_spec [of w'] ctz_spec [of w'] n
    by (cases "w = 0"; cases "w' = 0") (force simp: i32_clz_def i32_ctz_def i64_clz_def i64_ctz_def)+
qed

end
