(* ===== verification/Softfloat_Core.thy ===== *)
theory Softfloat_Core
  imports Int_Ops
begin

unbundle bit_operations_syntax

section \<open>SoftFloat: comparisons and conversions to integers\<close>

text \<open>
  The vendored Berkeley SoftFloat (\<open>libraries/psizam/external/softfloat\<close>, 8086-SSE flavour) as far as
  the deterministic floating point of the interpreter needs it to compare and to convert to integers: the field
  macros of \<open>internals.h\<close>, the comparisons, the truncating conversions \<open>f*_to_*_r_minMag\<close> and the rounding
  ones \<open>f*_to_*\<close> with \<open>softfloat_roundTo*\<close>. Floats are bit patterns; \<open>uint_fast32_t\<close> and \<open>uint_fast64_t\<close> are
  64 bits wide, \<open>int_fast16_t\<close> is an \<open>int\<close>. The sticky exception flags, which nothing in the program reads, are
  left out. The lemmas give a bit pattern its value, an integer multiple of the least subnormal, and show
  that comparing and converting patterns compares and truncates values.
\<close>

subsection \<open>Fields\<close>

definition signF32UI :: "u32 \<Rightarrow> bool" where "signF32UI a = (drop_bit 31 a \<noteq> 0)"
definition expF32UI :: "u32 \<Rightarrow> int" where "expF32UI a = uint (drop_bit 23 a AND 0xFF)"
definition fracF32UI :: "u32 \<Rightarrow> u32" where "fracF32UI a = a AND 0x7FFFFF"
definition packToF32UI :: "bool \<Rightarrow> int \<Rightarrow> u32 \<Rightarrow> u32" where
  "packToF32UI sign e sig = push_bit 31 (of_bool sign) + push_bit 23 (word_of_int e) + sig"
definition isNaNF32UI :: "u32 \<Rightarrow> bool" where
  "isNaNF32UI a = (NOT a AND 0x7F800000 = 0 \<and> a AND 0x7FFFFF \<noteq> 0)"

definition signF64UI :: "u64 \<Rightarrow> bool" where "signF64UI a = (drop_bit 63 a \<noteq> 0)"
definition expF64UI :: "u64 \<Rightarrow> int" where "expF64UI a = uint (drop_bit 52 a AND 0x7FF)"
definition fracF64UI :: "u64 \<Rightarrow> u64" where "fracF64UI a = a AND 0xFFFFFFFFFFFFF"
definition packToF64UI :: "bool \<Rightarrow> int \<Rightarrow> u64 \<Rightarrow> u64" where
  "packToF64UI sign e sig = push_bit 63 (of_bool sign) + push_bit 52 (word_of_int e) + sig"
definition isNaNF64UI :: "u64 \<Rightarrow> bool" where
  "isNaNF64UI a = (NOT a AND 0x7FF0000000000000 = 0 \<and> a AND 0xFFFFFFFFFFFFF \<noteq> 0)"

definition f32_sign_bit :: "u32 \<Rightarrow> bool" where "f32_sign_bit f = (drop_bit 31 f \<noteq> 0)"
definition f64_sign_bit :: "u64 \<Rightarrow> bool" where "f64_sign_bit f = (drop_bit 63 f \<noteq> 0)"
definition f32_is_nan :: "u32 \<Rightarrow> bool" where "f32_is_nan f = (f AND 0x7FFFFFFF > 0x7F800000)"
definition f64_is_nan :: "u64 \<Rightarrow> bool" where "f64_is_nan f = (f AND 0x7FFFFFFFFFFFFFFF > 0x7FF0000000000000)"

subsection \<open>Comparisons\<close>

definition f32_eq :: "u32 \<Rightarrow> u32 \<Rightarrow> bool" where
  "f32_eq a b =
     (if isNaNF32UI a \<or> isNaNF32UI b then False
      else a = b \<or> push_bit 1 (a OR b) = 0)"

definition f32_lt :: "u32 \<Rightarrow> u32 \<Rightarrow> bool" where
  "f32_lt a b =
     (if isNaNF32UI a \<or> isNaNF32UI b then False
      else let signA = signF32UI a; signB = signF32UI b in
        if signA \<noteq> signB then signA \<and> push_bit 1 (a OR b) \<noteq> 0
        else a \<noteq> b \<and> (signA \<noteq> (a < b)))"

definition f32_le :: "u32 \<Rightarrow> u32 \<Rightarrow> bool" where
  "f32_le a b =
     (if isNaNF32UI a \<or> isNaNF32UI b then False
      else let signA = signF32UI a; signB = signF32UI b in
        if signA \<noteq> signB then signA \<or> push_bit 1 (a OR b) = 0
        else a = b \<or> (signA \<noteq> (a < b)))"

definition f64_eq :: "u64 \<Rightarrow> u64 \<Rightarrow> bool" where
  "f64_eq a b =
     (if isNaNF64UI a \<or> isNaNF64UI b then False
      else a = b \<or> (a OR b) AND 0x7FFFFFFFFFFFFFFF = 0)"

definition f64_lt :: "u64 \<Rightarrow> u64 \<Rightarrow> bool" where
  "f64_lt a b =
     (if isNaNF64UI a \<or> isNaNF64UI b then False
      else let signA = signF64UI a; signB = signF64UI b in
        if signA \<noteq> signB then signA \<and> (a OR b) AND 0x7FFFFFFFFFFFFFFF \<noteq> 0
        else a \<noteq> b \<and> (signA \<noteq> (a < b)))"

definition f64_le :: "u64 \<Rightarrow> u64 \<Rightarrow> bool" where
  "f64_le a b =
     (if isNaNF64UI a \<or> isNaNF64UI b then False
      else let signA = signF64UI a; signB = signF64UI b in
        if signA \<noteq> signB then signA \<or> (a OR b) AND 0x7FFFFFFFFFFFFFFF = 0
        else a = b \<or> (signA \<noteq> (a < b)))"

subsection \<open>Truncating conversions\<close>

text \<open>
  \<open>specialize.h\<close>: the results of invalid conversions, the same for NaN and for both overflows.
\<close>

definition i32_invalid :: u64 where "i32_invalid = - 0x7FFFFFFF - 1"
definition i64_invalid :: u64 where "i64_invalid = - 0x7FFFFFFFFFFFFFFF - 1"
definition ui32_invalid :: u64 where "ui32_invalid = 0xFFFFFFFF"
definition ui64_invalid :: u64 where "ui64_invalid = 0xFFFFFFFFFFFFFFFF"

definition f32_to_i32_r_minMag :: "u32 \<Rightarrow> u32" where
  "f32_to_i32_r_minMag a =
     (let e = expF32UI a; sig = ucast (fracF32UI a) :: u64; shiftDist = 0x9E - e in
      if 32 \<le> shiftDist then 0
      else let sign = signF32UI a in
        if shiftDist \<le> 0 then
          (if a = packToF32UI True 0x9E 0 then ucast (- 0x7FFFFFFF - 1 :: u64) else ucast i32_invalid)
        else let absZ = drop_bit (nat shiftDist) (push_bit 8 (sig OR 0x800000)) in
          ucast (if sign then - absZ else absZ))"

definition f32_to_ui32_r_minMag :: "u32 \<Rightarrow> u32" where
  "f32_to_ui32_r_minMag a =
     (let e = expF32UI a; sig = ucast (fracF32UI a) :: u64; shiftDist = 0x9E - e in
      if 32 \<le> shiftDist then 0
      else let sign = signF32UI a in
        if sign \<or> shiftDist < 0 then ucast ui32_invalid
        else ucast (drop_bit (nat shiftDist) (push_bit 8 (sig OR 0x800000))))"

definition f32_to_i64_r_minMag :: "u32 \<Rightarrow> u64" where
  "f32_to_i64_r_minMag a =
     (let e = expF32UI a; sig = ucast (fracF32UI a) :: u64; shiftDist = 0xBE - e in
      if 64 \<le> shiftDist then 0
      else let sign = signF32UI a in
        if shiftDist \<le> 0 then
          (if a = packToF32UI True 0xBE 0 then - 0x7FFFFFFFFFFFFFFF - 1 else i64_invalid)
        else let absZ = drop_bit (nat shiftDist) (push_bit 40 (sig OR 0x800000)) in
          (if sign then - absZ else absZ))"

definition f32_to_ui64_r_minMag :: "u32 \<Rightarrow> u64" where
  "f32_to_ui64_r_minMag a =
     (let e = expF32UI a; sig = ucast (fracF32UI a) :: u64; shiftDist = 0xBE - e in
      if 64 \<le> shiftDist then 0
      else let sign = signF32UI a in
        if sign \<or> shiftDist < 0 then ui64_invalid
        else drop_bit (nat shiftDist) (push_bit 40 (sig OR 0x800000)))"

definition f64_to_i32_r_minMag :: "u64 \<Rightarrow> u32" where
  "f64_to_i32_r_minMag a =
     (let e = expF64UI a; sig = fracF64UI a; shiftDist = 0x433 - e in
      if 53 \<le> shiftDist then 0
      else let sign = signF64UI a in
        if shiftDist < 22 then
          (if sign \<and> e = 0x41E \<and> sig < 0x200000 then ucast (- 0x7FFFFFFF - 1 :: u64) else ucast i32_invalid)
        else let absZ = drop_bit (nat shiftDist) (sig OR 0x10000000000000) in
          ucast (if sign then - absZ else absZ))"

definition f64_to_ui32_r_minMag :: "u64 \<Rightarrow> u32" where
  "f64_to_ui32_r_minMag a =
     (let e = expF64UI a; sig = fracF64UI a; shiftDist = 0x433 - e in
      if 53 \<le> shiftDist then 0
      else let sign = signF64UI a in
        if sign \<or> shiftDist < 21 then ucast ui32_invalid
        else ucast (drop_bit (nat shiftDist) (sig OR 0x10000000000000)))"

definition f64_to_i64_r_minMag :: "u64 \<Rightarrow> u64" where
  "f64_to_i64_r_minMag a =
     (let sign = signF64UI a; e = expF64UI a; sig = fracF64UI a; shiftDist = 0x433 - e in
      if shiftDist \<le> 0 then
        (if shiftDist < - 10 then
           (if a = packToF64UI True 0x43E 0 then - 0x7FFFFFFFFFFFFFFF - 1 else i64_invalid)
         else let absZ = push_bit (nat (- shiftDist)) (sig OR 0x10000000000000) in if sign then - absZ else absZ)
      else if 53 \<le> shiftDist then 0
      else let absZ = drop_bit (nat shiftDist) (sig OR 0x10000000000000) in if sign then - absZ else absZ)"

definition f64_to_ui64_r_minMag :: "u64 \<Rightarrow> u64" where
  "f64_to_ui64_r_minMag a =
     (let e = expF64UI a; sig = fracF64UI a; shiftDist = 0x433 - e in
      if 53 \<le> shiftDist then 0
      else if signF64UI a then ui64_invalid
      else if shiftDist \<le> 0 then
        (if shiftDist < - 11 then ui64_invalid else push_bit (nat (- shiftDist)) (sig OR 0x10000000000000))
      else drop_bit (nat shiftDist) (sig OR 0x10000000000000))"

subsection \<open>Rounding conversions\<close>

datatype rounding =
    softfloat_round_near_even | softfloat_round_minMag | softfloat_round_min | softfloat_round_max
  | softfloat_round_near_maxMag

definition softfloat_shiftRightJam64 :: "u64 \<Rightarrow> nat \<Rightarrow> u64" where
  "softfloat_shiftRightJam64 a dist =
     (if dist < 63 then drop_bit dist a OR of_bool (push_bit (unat ((- of_nat dist :: u64) AND 63)) a \<noteq> 0)
      else of_bool (a \<noteq> 0))"

definition softfloat_shiftRightJam64Extra :: "u64 \<Rightarrow> u64 \<Rightarrow> nat \<Rightarrow> u64 \<times> u64" where
  "softfloat_shiftRightJam64Extra a extra dist =
     (let (v, x) = (if dist < 64 then (drop_bit dist a, push_bit (unat ((- of_nat dist :: u64) AND 63)) a)
                    else (0, if dist = 64 then a else of_bool (a \<noteq> 0)))
      in (v, x OR of_bool (extra \<noteq> 0)))"

definition softfloat_roundToI32 :: "bool \<Rightarrow> u64 \<Rightarrow> rounding \<Rightarrow> u32" where
  "softfloat_roundToI32 sign sig mode =
     (let roundIncrement =
        (if mode \<noteq> softfloat_round_near_maxMag \<and> mode \<noteq> softfloat_round_near_even
         then (if (if sign then mode = softfloat_round_min else mode = softfloat_round_max) then 0xFFF else 0)
         else 0x800);
        roundBits = sig AND 0xFFF; sig = sig + roundIncrement in
      if sig AND 0xFFFFF00000000000 \<noteq> 0 then ucast i32_invalid
      else let sig32 = drop_bit 12 sig;
           sig32 = (if roundBits = 0x800 \<and> mode = softfloat_round_near_even then sig32 AND NOT 1 else sig32);
           z = ucast (if sign then - sig32 else sig32) :: u32 in
        if z \<noteq> 0 \<and> ((sint z < 0) \<noteq> sign) then ucast i32_invalid else z)"

definition softfloat_roundToUI32 :: "bool \<Rightarrow> u64 \<Rightarrow> rounding \<Rightarrow> u32" where
  "softfloat_roundToUI32 sign sig mode =
     (let near = (mode = softfloat_round_near_maxMag \<or> mode = softfloat_round_near_even) in
      if \<not> near \<and> sign \<and> sig = 0 then 0
      else if \<not> near \<and> sign \<and> mode = softfloat_round_min then ucast ui32_invalid
      else let roundIncrement = (if near then 0x800 else if \<not> sign \<and> mode = softfloat_round_max then 0xFFF else 0);
               roundBits = sig AND 0xFFF; sig = sig + roundIncrement in
        if sig AND 0xFFFFF00000000000 \<noteq> 0 then ucast ui32_invalid
        else let z = drop_bit 12 sig;
                 z = (if roundBits = 0x800 \<and> mode = softfloat_round_near_even then z AND NOT 1 else z) in
          if sign \<and> z \<noteq> 0 then ucast ui32_invalid else ucast z)"

definition softfloat_roundToI64 :: "bool \<Rightarrow> u64 \<Rightarrow> u64 \<Rightarrow> rounding \<Rightarrow> u64" where
  "softfloat_roundToI64 sign sig sigExtra mode =
     (let increment =
        (if mode = softfloat_round_near_maxMag \<or> mode = softfloat_round_near_even then 0x8000000000000000 \<le> sigExtra
         else sigExtra \<noteq> 0 \<and> (if sign then mode = softfloat_round_min else mode = softfloat_round_max)) in
      if increment \<and> sig + 1 = 0 then i64_invalid
      else let sig = (if increment then
                        (if sigExtra = 0x8000000000000000 \<and> mode = softfloat_round_near_even then (sig + 1) AND NOT 1
                         else sig + 1)
                      else sig);
               z = (if sign then - sig else sig) in
        if z \<noteq> 0 \<and> ((sint z < 0) \<noteq> sign) then i64_invalid else z)"

definition softfloat_roundToUI64 :: "bool \<Rightarrow> u64 \<Rightarrow> u64 \<Rightarrow> rounding \<Rightarrow> u64" where
  "softfloat_roundToUI64 sign sig sigExtra mode =
     (let near = (mode = softfloat_round_near_maxMag \<or> mode = softfloat_round_near_even) in
      if \<not> near \<and> sign \<and> sig OR sigExtra = 0 then 0
      else if \<not> near \<and> sign \<and> mode = softfloat_round_min then ui64_invalid
      else let increment = (if near then 0x8000000000000000 \<le> sigExtra
                            else \<not> sign \<and> mode = softfloat_round_max \<and> sigExtra \<noteq> 0) in
        if increment \<and> sig + 1 = 0 then ui64_invalid
        else let sig = (if increment then
                          (if sigExtra = 0x8000000000000000 \<and> mode = softfloat_round_near_even then (sig + 1) AND NOT 1
                           else sig + 1)
                        else sig) in
          if sign \<and> sig \<noteq> 0 then ui64_invalid else sig)"

definition f32_to_i32 :: "u32 \<Rightarrow> rounding \<Rightarrow> u32" where
  "f32_to_i32 a mode =
     (let sign = signF32UI a; e = expF32UI a; sig = ucast (fracF32UI a) :: u64;
          sig = (if e \<noteq> 0 then sig OR 0x800000 else sig);
          sig64 = push_bit 32 sig; shiftDist = 0xAA - e;
          sig64 = (if 0 < shiftDist then softfloat_shiftRightJam64 sig64 (nat shiftDist) else sig64)
      in softfloat_roundToI32 sign sig64 mode)"

definition f32_to_ui32 :: "u32 \<Rightarrow> rounding \<Rightarrow> u32" where
  "f32_to_ui32 a mode =
     (let sign = signF32UI a; e = expF32UI a; sig = ucast (fracF32UI a) :: u64;
          sig = (if e \<noteq> 0 then sig OR 0x800000 else sig);
          sig64 = push_bit 32 sig; shiftDist = 0xAA - e;
          sig64 = (if 0 < shiftDist then softfloat_shiftRightJam64 sig64 (nat shiftDist) else sig64)
      in softfloat_roundToUI32 sign sig64 mode)"

definition f32_to_i64 :: "u32 \<Rightarrow> rounding \<Rightarrow> u64" where
  "f32_to_i64 a mode =
     (let sign = signF32UI a; e = expF32UI a; sig = ucast (fracF32UI a) :: u64; shiftDist = 0xBE - e in
      if shiftDist < 0 then i64_invalid
      else let sig = (if e \<noteq> 0 then sig OR 0x800000 else sig); sig64 = push_bit 40 sig;
               (v, extra) = (if shiftDist \<noteq> 0 then softfloat_shiftRightJam64Extra sig64 0 (nat shiftDist) else (sig64, 0))
           in softfloat_roundToI64 sign v extra mode)"

definition f32_to_ui64 :: "u32 \<Rightarrow> rounding \<Rightarrow> u64" where
  "f32_to_ui64 a mode =
     (let sign = signF32UI a; e = expF32UI a; sig = ucast (fracF32UI a) :: u64; shiftDist = 0xBE - e in
      if shiftDist < 0 then ui64_invalid
      else let sig = (if e \<noteq> 0 then sig OR 0x800000 else sig); sig64 = push_bit 40 sig;
               (v, extra) = (if shiftDist \<noteq> 0 then softfloat_shiftRightJam64Extra sig64 0 (nat shiftDist) else (sig64, 0))
           in softfloat_roundToUI64 sign v extra mode)"

definition f64_to_i32 :: "u64 \<Rightarrow> rounding \<Rightarrow> u32" where
  "f64_to_i32 a mode =
     (let sign = signF64UI a; e = expF64UI a; sig = fracF64UI a;
          sig = (if e \<noteq> 0 then sig OR 0x10000000000000 else sig); shiftDist = 0x427 - e;
          sig = (if 0 < shiftDist then softfloat_shiftRightJam64 sig (nat shiftDist) else sig)
      in softfloat_roundToI32 sign sig mode)"

definition f64_to_ui32 :: "u64 \<Rightarrow> rounding \<Rightarrow> u32" where
  "f64_to_ui32 a mode =
     (let sign = signF64UI a; e = expF64UI a; sig = fracF64UI a;
          sig = (if e \<noteq> 0 then sig OR 0x10000000000000 else sig); shiftDist = 0x427 - e;
          sig = (if 0 < shiftDist then softfloat_shiftRightJam64 sig (nat shiftDist) else sig)
      in softfloat_roundToUI32 sign sig mode)"

definition f64_to_i64 :: "u64 \<Rightarrow> rounding \<Rightarrow> u64" where
  "f64_to_i64 a mode =
     (let sign = signF64UI a; e = expF64UI a; sig = fracF64UI a;
          sig = (if e \<noteq> 0 then sig OR 0x10000000000000 else sig); shiftDist = 0x433 - e in
      if shiftDist < - 11 then i64_invalid
      else let (v, extra) = (if shiftDist \<le> 0 then (push_bit (nat (- shiftDist)) sig, 0)
                             else softfloat_shiftRightJam64Extra sig 0 (nat shiftDist))
           in softfloat_roundToI64 sign v extra mode)"

definition f64_to_ui64 :: "u64 \<Rightarrow> rounding \<Rightarrow> u64" where
  "f64_to_ui64 a mode =
     (let sign = signF64UI a; e = expF64UI a; sig = fracF64UI a;
          sig = (if e \<noteq> 0 then sig OR 0x10000000000000 else sig); shiftDist = 0x433 - e in
      if shiftDist < - 11 then ui64_invalid
      else let (v, extra) = (if shiftDist \<le> 0 then (push_bit (nat (- shiftDist)) sig, 0)
                             else softfloat_shiftRightJam64Extra sig 0 (nat shiftDist))
           in softfloat_roundToUI64 sign v extra mode)"

subsection \<open>The magnitude of a pattern\<close>

text \<open>
  A pattern without its sign, read as a number \<open>x\<close>, stands for \<open>fmag p x\<close> times the least subnormal, where
  \<open>p\<close> is the width of the fraction. The patterns are ordered like their values and equally spaced within
  a binade; the pattern of infinity is the next after the largest finite one.
\<close>

definition fmag :: "nat \<Rightarrow> nat \<Rightarrow> nat" where
  "fmag p x = (if x div 2 ^ p = 0 then x else (2 ^ p + x mod 2 ^ p) * 2 ^ (x div 2 ^ p - 1))"

lemma fmag_step: "fmag p (Suc x) = fmag p x + 2 ^ (x div 2 ^ p - 1)"
proof (cases "Suc (x mod 2 ^ p) < 2 ^ p")
  case True
  then have "Suc x mod 2 ^ p = Suc (x mod 2 ^ p)" "Suc x div 2 ^ p = x div 2 ^ p"
    by (simp_all add: mod_Suc div_Suc)
  then show ?thesis by (simp add: fmag_def)
next
  case False
  moreover have "x mod 2 ^ p < 2 ^ p" by simp
  ultimately have m: "x mod 2 ^ p = 2 ^ p - 1" by linarith
  have s: "Suc x mod 2 ^ p = 0" "Suc x div 2 ^ p = Suc (x div 2 ^ p)"
    using m by (simp_all add: mod_Suc div_Suc)
  show ?thesis
  proof (cases "x div 2 ^ p")
    case 0
    then have "x = 2 ^ p - 1" using m div_mult_mod_eq [of x "2 ^ p"] by simp
    then show ?thesis using s 0 by (simp add: fmag_def)
  next
    case (Suc k)
    obtain q where q: "2 ^ p = Suc q" by (metis not0_implies_Suc power_not_zero zero_neq_numeral)
    show ?thesis using s Suc m by (simp add: fmag_def q algebra_simps)
  qed
qed

lemma fmag_less: "x < y \<Longrightarrow> fmag p x < fmag p y"
  by (rule lift_Suc_mono_less [of "fmag p"]) (simp_all add: fmag_step)

lemma fmag_less_iff [simp]: "fmag p x < fmag p y \<longleftrightarrow> x < y"
  by (metis fmag_less linorder_neqE_nat order_less_asym order_less_irrefl)

lemma fmag_eq_iff [simp]: "fmag p x = fmag p y \<longleftrightarrow> x = y"
  by (metis fmag_less linorder_neqE_nat order_less_irrefl)

lemma div_mod_unique: "n = q * m + r \<Longrightarrow> r < m \<Longrightarrow> n div m = q" "n = q * m + r \<Longrightarrow> r < m \<Longrightarrow> n mod m = (r :: nat)"
  by simp_all

lemma fmag_add: "d \<le> 2 ^ p - x mod 2 ^ p \<Longrightarrow> fmag p (x + d) = fmag p x + d * 2 ^ (x div 2 ^ p - 1)"
proof (induction d)
  case (Suc d)
  then have "x mod 2 ^ p + d < 2 ^ p" by simp
  moreover have "x + d = x div 2 ^ p * 2 ^ p + (x mod 2 ^ p + d)" by (simp only: div_mult_mod_eq add.assoc [symmetric])
  ultimately have "(x + d) div 2 ^ p = x div 2 ^ p" by (rule div_mod_unique(1) [rotated])
  then show ?case using Suc by (simp add: fmag_step)
qed simp

text \<open>
  The unit \<open>2 ^ (b + p - 1)\<close> is the magnitude of 1 when \<open>b\<close> is the bias of the exponent.
\<close>

lemma fmag_below_one:
  assumes "x div 2 ^ p < b"
  shows "fmag p x < 2 ^ (b + p - 1)"
proof -
  have r: "x mod 2 ^ p < 2 ^ p" by simp
  show ?thesis
  proof (cases "x div 2 ^ p")
    case 0
    then have "x < 2 ^ p" by (simp add: div_eq_0_iff)
    also have "(2 :: nat) ^ p \<le> 2 ^ (b + p - 1)" using assms by (intro power_increasing) auto
    finally show ?thesis using 0 by (simp add: fmag_def)
  next
    case (Suc k)
    have "(2 ^ p + x mod 2 ^ p) * 2 ^ k < 2 ^ (p + 1) * (2 :: nat) ^ k" using r by simp
    also have "\<dots> = 2 ^ (p + 1 + k)" by (simp only: power_add)
    also have "\<dots> \<le> 2 ^ (b + p - 1)" using assms Suc by (intro power_increasing) auto
    finally show ?thesis using Suc by (simp add: fmag_def)
  qed
qed

lemma fmag_integral: "b + p \<le> x div 2 ^ p \<Longrightarrow> 0 < b \<Longrightarrow> 2 ^ (b + p - 1) dvd fmag p x"
  by (auto simp: fmag_def intro!: dvd_mult le_imp_power_dvd)

lemma fmag_binade:
  assumes "0 < b" and "b \<le> x div 2 ^ p" and "x div 2 ^ p \<le> b + p"
  shows "fmag p x = (2 ^ p + x mod 2 ^ p) * 2 ^ (x div 2 ^ p - 1)"
    and "(2 :: nat) ^ (b + p - 1) = 2 ^ (b + p - x div 2 ^ p) * 2 ^ (x div 2 ^ p - 1)"
  using assms by (simp_all add: fmag_def flip: power_add)

lemma div_mod_cut:
  fixes x :: nat
  assumes "k \<le> p"
  shows "(x - x mod 2 ^ k) div 2 ^ p = x div 2 ^ p" and "(x - x mod 2 ^ k) mod 2 ^ p = x mod 2 ^ p - x mod 2 ^ k"
    and "x mod 2 ^ k \<le> x mod 2 ^ p" and "x mod 2 ^ p mod 2 ^ k = x mod 2 ^ k"
proof -
  have m: "x mod 2 ^ p mod 2 ^ k = x mod 2 ^ k" using assms by (simp add: mod_mod_cancel le_imp_power_dvd)
  show "x mod 2 ^ p mod 2 ^ k = x mod 2 ^ k" by (fact m)
  show le: "x mod 2 ^ k \<le> x mod 2 ^ p" unfolding m [symmetric] by (rule mod_less_eq_dividend)
  have "x - x mod 2 ^ k = x div 2 ^ p * 2 ^ p + (x mod 2 ^ p - x mod 2 ^ k)"
    using le div_mult_mod_eq [of x "2 ^ p"] by linarith
  moreover have "x mod 2 ^ p - x mod 2 ^ k < 2 ^ p"
    by (rule order_le_less_trans [OF diff_le_self]) simp
  ultimately show "(x - x mod 2 ^ k) div 2 ^ p = x div 2 ^ p" "(x - x mod 2 ^ k) mod 2 ^ p = x mod 2 ^ p - x mod 2 ^ k"
    by (rule div_mod_unique)+
qed

lemma fmag_trunc:
  assumes b: "0 < b" "b \<le> x div 2 ^ p" "x div 2 ^ p < b + p"
  defines "k \<equiv> b + p - x div 2 ^ p"
  shows "fmag p (x - x mod 2 ^ k) = fmag p x div 2 ^ (b + p - 1) * 2 ^ (b + p - 1)"
    and "fmag p x mod 2 ^ (b + p - 1) = x mod 2 ^ k * 2 ^ (x div 2 ^ p - 1)"
    and "fmag p x div 2 ^ (b + p - 1) = (2 ^ p + x mod 2 ^ p) div 2 ^ k"
proof -
  have k: "k \<le> p" using b by (simp add: k_def)
  note f = fmag_binade [of b x p, OF b(1,2)] div_mod_cut [OF k, of x]
  let ?E = "2 ^ (x div 2 ^ p - 1) :: nat"
  have x: "fmag p x = (2 ^ p + x mod 2 ^ p) * ?E" and u: "(2 :: nat) ^ (b + p - 1) = 2 ^ k * ?E"
    using f(1,2) b(3) by (simp_all add: k_def)
  show d: "fmag p x div 2 ^ (b + p - 1) = (2 ^ p + x mod 2 ^ p) div 2 ^ k"
    unfolding x u by simp
  have pm: "(2 ^ p + x mod 2 ^ p) mod 2 ^ k = x mod 2 ^ k"
  proof -
    have "(2 :: nat) ^ p mod 2 ^ k = 0" using k by (simp add: le_imp_power_dvd flip: dvd_eq_mod_eq_0)
    then show ?thesis using f(6) mod_add_left_eq [of "2 ^ p" "2 ^ k" "x mod 2 ^ p"] by simp
  qed
  show "fmag p x mod 2 ^ (b + p - 1) = x mod 2 ^ k * ?E"
    unfolding x u mult_mod_left pm [symmetric] ..
  have "fmag p (x - x mod 2 ^ k) = (2 ^ p + (x mod 2 ^ p - x mod 2 ^ k)) * ?E"
    using f(3,4) b by (simp add: fmag_def)
  also have "2 ^ p + (x mod 2 ^ p - x mod 2 ^ k) = (2 ^ p + x mod 2 ^ p) div 2 ^ k * 2 ^ k"
    using f(5) pm minus_mod_eq_div_mult [of "2 ^ p + x mod 2 ^ p" "2 ^ k"] by simp
  finally show "fmag p (x - x mod 2 ^ k) = fmag p x div 2 ^ (b + p - 1) * 2 ^ (b + p - 1)"
    unfolding u d [unfolded u] by (simp only: mult.assoc)
qed

lemma fmag_ceil:
  assumes b: "0 < b" "b \<le> x div 2 ^ p" "x div 2 ^ p < b + p"
  defines "k \<equiv> b + p - x div 2 ^ p"
  shows "fmag p (x - x mod 2 ^ k + 2 ^ k) = (fmag p x div 2 ^ (b + p - 1) + 1) * 2 ^ (b + p - 1)"
proof -
  have k: "k \<le> p" using b by (simp add: k_def)
  note f = div_mod_cut [OF k, of x]
  let ?y = "x - x mod 2 ^ k"
  have kp: "(2 :: nat) ^ k dvd 2 ^ p" using k by (rule le_imp_power_dvd)
  moreover have "2 ^ k dvd ?y mod 2 ^ p" unfolding dvd_mod_iff [OF kp] by (rule dvd_minus_mod)
  ultimately have "2 ^ k dvd 2 ^ p - ?y mod 2 ^ p" by (rule dvd_diff_nat)
  then have "2 ^ k \<le> 2 ^ p - ?y mod 2 ^ p"
    by (rule dvd_imp_le) simp
  then have "fmag p (?y + 2 ^ k) = fmag p ?y + 2 ^ k * 2 ^ (?y div 2 ^ p - 1)" by (rule fmag_add)
  also have "2 ^ k * 2 ^ (?y div 2 ^ p - 1) = (2 :: nat) ^ (b + p - 1)"
    unfolding f(1) unfolding k_def by (rule fmag_binade(2) [OF b(1,2) less_imp_le [OF b(3)], symmetric])
  also have "fmag p ?y = fmag p x div 2 ^ (b + p - 1) * 2 ^ (b + p - 1)"
    unfolding k_def by (rule fmag_trunc(1) [OF b])
  finally show ?thesis by (simp only: distrib_right mult_1)
qed

lemma fmag_0 [simp]: "fmag p 0 = 0"
  by (simp add: fmag_def)

lemma fmag_0_iff [simp]: "fmag p x = 0 \<longleftrightarrow> x = 0"
  using fmag_eq_iff [of p x 0] by simp

lemma fmag_le_iff [simp]: "fmag p x \<le> fmag p y \<longleftrightarrow> x \<le> y"
  by (simp add: not_less flip: not_less)

subsection \<open>Values of patterns\<close>

definition mbits :: "'a :: len word \<Rightarrow> nat" where
  "mbits a = unat a mod 2 ^ (LENGTH('a) - 1)"

definition fneg :: "'a :: len word \<Rightarrow> bool" where
  "fneg a \<longleftrightarrow> 2 ^ (LENGTH('a) - 1) \<le> unat a"

definition fval :: "nat \<Rightarrow> 'a :: len word \<Rightarrow> int" where
  "fval p a = (if fneg a then - int (fmag p (mbits a)) else int (fmag p (mbits a)))"

definition ftrunc :: "nat \<Rightarrow> nat \<Rightarrow> 'a :: len word \<Rightarrow> int" where
  "ftrunc b p a =
     (if fneg a then - int (fmag p (mbits a) div 2 ^ (b + p - 1)) else int (fmag p (mbits a) div 2 ^ (b + p - 1)))"

lemma fneg_drop: "fneg a \<longleftrightarrow> drop_bit (LENGTH('a) - 1) (a :: 'a :: len word) \<noteq> 0"
proof -
  have "unat (drop_bit (LENGTH('a) - 1) a) = unat a div 2 ^ (LENGTH('a) - 1)" by (rule unat_drop_bit)
  then show ?thesis by (simp add: fneg_def unat_eq_0 [symmetric] div_eq_0_iff not_less)
qed

lemma unat_fsplit: "unat (a :: 'a :: len word) = (if fneg a then 2 ^ (LENGTH('a) - 1) else 0) + mbits a"
proof (cases "fneg a")
  case True
  have "unat a < 2 * 2 ^ (LENGTH('a) - 1)" using unat_bound [of a] by (simp flip: power_Suc)
  then have "unat a div 2 ^ (LENGTH('a) - 1) = 1"
    using True by (intro div_nat_eqI) (simp_all add: fneg_def)
  then show ?thesis using True div_mult_mod_eq [of "unat a" "2 ^ (LENGTH('a) - 1)"] by (simp add: mbits_def)
next
  case False
  then show ?thesis by (simp add: fneg_def mbits_def)
qed

lemma mbits_bound: "mbits (a :: 'a :: len word) < 2 ^ (LENGTH('a) - 1)"
  by (simp add: mbits_def)

lemma mbits_take: "mbits a = unat (take_bit (LENGTH('a) - 1) (a :: 'a :: len word))"
  by (simp add: mbits_def unat_take_bit)

lemma mbits_or_0: "mbits (a OR b) = 0 \<longleftrightarrow> mbits a = 0 \<and> mbits (b :: 'a :: len word) = 0"
  by (simp add: mbits_take unat_eq_0 or_eq_0_iff)

lemma push_1_0_iff: "push_bit 1 a = 0 \<longleftrightarrow> mbits (a :: 'a :: len word) = 0"
proof -
  have "unat (push_bit 1 a) = 2 * unat a mod (2 * 2 ^ (LENGTH('a) - 1))"
    unfolding unat_push_bit by (simp add: mult.commute flip: power_Suc)
  also have "\<dots> = 2 * mbits a" by (simp only: mbits_def mult_mod_right)
  finally show ?thesis by (simp flip: unat_eq_0)
qed

lemma word_eq_split: "a = b \<longleftrightarrow> fneg a = fneg b \<and> mbits a = mbits (b :: 'a :: len word)"
proof
  assume "fneg a = fneg b \<and> mbits a = mbits b"
  then have "unat a = unat b" by (simp add: unat_fsplit)
  then show "a = b" by (rule unsigned_word_eqI)
qed simp

lemma word_less_split: "fneg a = fneg b \<Longrightarrow> a < b \<longleftrightarrow> mbits a < mbits (b :: 'a :: len word)"
  by (simp add: word_less_nat_alt unat_fsplit)

lemma exp_field:
  assumes "p + q = LENGTH('a) - 1"
  shows "unat (take_bit q (drop_bit p (a :: 'a :: len word))) = mbits a div 2 ^ p"
proof -
  have "take_bit q (drop_bit p (unat a)) = drop_bit p (take_bit (p + q) (unat a))"
    by (simp add: drop_bit_take_bit)
  then show ?thesis
    unfolding unat_take_bit unat_drop_bit mbits_def by (simp add: take_bit_eq_mod drop_bit_eq_div assms)
qed

lemma frac_field:
  assumes "p \<le> LENGTH('a) - 1"
  shows "unat (take_bit p (a :: 'a :: len word)) = mbits a mod 2 ^ p"
  using assms by (simp add: unat_take_bit mbits_def mod_mod_cancel le_imp_power_dvd)

lemma not_and_field:
  assumes "p + q \<le> LENGTH('a)"
  shows "NOT (a :: 'a :: len word) AND push_bit p (mask q) = 0 \<longleftrightarrow> take_bit q (drop_bit p a) = mask q"
proof
  assume z: "NOT a AND push_bit p (mask q) = 0"
  show "take_bit q (drop_bit p a) = mask q"
  proof (rule bit_eqI)
    fix n
    assume "possible_bit TYPE('a word) n"
    have "bit a (p + n)" if "n < q"
      using arg_cong [OF z, of "\<lambda>w. bit w (p + n)"] that assms by (simp add: bit_simps)
    then show "bit (take_bit q (drop_bit p a)) n \<longleftrightarrow> bit (mask q :: 'a word) n"
      using \<open>possible_bit TYPE('a word) n\<close> by (auto simp: bit_simps)
  qed
next
  assume z: "take_bit q (drop_bit p a) = mask q"
  show "NOT a AND push_bit p (mask q) = 0"
  proof (rule bit_eqI)
    fix n
    have "bit a n" if "p \<le> n" "n - p < q" "n < LENGTH('a)"
      using arg_cong [OF z, of "\<lambda>w. bit w (n - p)"] that by (simp add: bit_simps)
    then show "bit (NOT a AND push_bit p (mask q)) n \<longleftrightarrow> bit (0 :: 'a word) n"
      by (auto simp: bit_simps)
  qed
qed

lemma nan_pattern:
  assumes "p + q = LENGTH('a) - 1"
  shows "mbits (a :: 'a :: len word) div 2 ^ p = 2 ^ q - 1 \<and> mbits a mod 2 ^ p \<noteq> 0 \<longleftrightarrow> (2 ^ q - 1) * 2 ^ p < mbits a"
proof -
  let ?x = "mbits a"
  have "?x < 2 ^ q * 2 ^ p" using mbits_bound [of a] unfolding assms [symmetric] by (simp only: power_add mult.commute)
  then have q: "?x div 2 ^ p < 2 ^ q" by (simp add: less_mult_imp_div_less)
  have e: "?x = ?x div 2 ^ p * 2 ^ p + ?x mod 2 ^ p" by (simp only: div_mult_mod_eq)
  show ?thesis
  proof
    assume "?x div 2 ^ p = 2 ^ q - 1 \<and> ?x mod 2 ^ p \<noteq> 0"
    then show "(2 ^ q - 1) * 2 ^ p < ?x" using e by (metis less_add_same_cancel1 not_gr_zero)
  next
    assume lt: "(2 ^ q - 1) * 2 ^ p < ?x"
    then have "2 ^ q - 1 \<le> ?x div 2 ^ p" by (simp add: less_eq_div_iff_mult_less_eq)
    then have d: "?x div 2 ^ p = 2 ^ q - 1" using q by simp
    then have "?x mod 2 ^ p \<noteq> 0" using lt e by (metis add.right_neutral less_irrefl)
    with d show "?x div 2 ^ p = 2 ^ q - 1 \<and> ?x mod 2 ^ p \<noteq> 0" by simp
  qed
qed

lemma fields32:
  "signF32UI a = fneg a" "f32_sign_bit a = fneg a" "expF32UI a = int (mbits a div 2 ^ 23)"
  "unat (fracF32UI a) = mbits a mod 2 ^ 23"
  "isNaNF32UI a = (255 * 2 ^ 23 < mbits a)" "f32_is_nan a = (255 * 2 ^ 23 < mbits a)"
proof -
  show "signF32UI a = fneg a" "f32_sign_bit a = fneg a"
    using fneg_drop [of a] by (simp_all add: signF32UI_def f32_sign_bit_def)
  have f: "a AND 0x7FFFFF = take_bit 23 a" "drop_bit 23 a AND 0xFF = take_bit 8 (drop_bit 23 a)"
    "a AND 0x7FFFFFFF = take_bit 31 a" by (simp_all add: take_bit_eq_mask mask_numeral)
  show e: "expF32UI a = int (mbits a div 2 ^ 23)"
    unfolding expF32UI_def f using arg_cong [OF exp_field [of 23 8 a], of int] by simp
  show r: "unat (fracF32UI a) = mbits a mod 2 ^ 23"
    using frac_field [of 23 a] unfolding fracF32UI_def f by simp
  have "isNaNF32UI a \<longleftrightarrow> take_bit 8 (drop_bit 23 a) = mask 8 \<and> take_bit 23 a \<noteq> 0"
    using not_and_field [of 23 8 a] unfolding isNaNF32UI_def f by (simp add: mask_numeral)
  also have "\<dots> \<longleftrightarrow> mbits a div 2 ^ 23 = 255 \<and> mbits a mod 2 ^ 23 \<noteq> 0"
    using exp_field [of 23 8 a] frac_field [of 23 a]
    by (simp add: word_unat_eq_iff mask_numeral flip: unat_eq_0)
  finally show "isNaNF32UI a = (255 * 2 ^ 23 < mbits a)" using nan_pattern [of 23 8 a] by simp
  show "f32_is_nan a = (255 * 2 ^ 23 < mbits a)"
    unfolding f32_is_nan_def f by (simp add: word_less_nat_alt mbits_take)
qed

lemma fields64:
  "signF64UI a = fneg a" "f64_sign_bit a = fneg a" "expF64UI a = int (mbits a div 2 ^ 52)"
  "unat (fracF64UI a) = mbits a mod 2 ^ 52"
  "isNaNF64UI a = (2047 * 2 ^ 52 < mbits a)" "f64_is_nan a = (2047 * 2 ^ 52 < mbits a)"
proof -
  show "signF64UI a = fneg a" "f64_sign_bit a = fneg a"
    using fneg_drop [of a] by (simp_all add: signF64UI_def f64_sign_bit_def)
  have f: "a AND 0xFFFFFFFFFFFFF = take_bit 52 a" "drop_bit 52 a AND 0x7FF = take_bit 11 (drop_bit 52 a)"
    "a AND 0x7FFFFFFFFFFFFFFF = take_bit 63 a" by (simp_all add: take_bit_eq_mask mask_numeral)
  show e: "expF64UI a = int (mbits a div 2 ^ 52)"
    unfolding expF64UI_def f using arg_cong [OF exp_field [of 52 11 a], of int] by simp
  show r: "unat (fracF64UI a) = mbits a mod 2 ^ 52"
    using frac_field [of 52 a] unfolding fracF64UI_def f by simp
  have "isNaNF64UI a \<longleftrightarrow> take_bit 11 (drop_bit 52 a) = mask 11 \<and> take_bit 52 a \<noteq> 0"
    using not_and_field [of 52 11 a] unfolding isNaNF64UI_def f by (simp add: mask_numeral)
  also have "\<dots> \<longleftrightarrow> mbits a div 2 ^ 52 = 2047 \<and> mbits a mod 2 ^ 52 \<noteq> 0"
    using exp_field [of 52 11 a] frac_field [of 52 a]
    by (simp add: word_unat_eq_iff mask_numeral flip: unat_eq_0)
  finally show "isNaNF64UI a = (2047 * 2 ^ 52 < mbits a)" using nan_pattern [of 52 11 a] by simp
  show "f64_is_nan a = (2047 * 2 ^ 52 < mbits a)"
    unfolding f64_is_nan_def f by (simp add: word_less_nat_alt mbits_take)
qed

lemma fmag_pos_iff [simp]: "0 < fmag p x \<longleftrightarrow> 0 < x"
  using fmag_less_iff [of p 0 x] by simp

lemma opposite_signs:
  "- int (fmag p x) < int (fmag p y) \<longleftrightarrow> 0 < x \<or> 0 < y" "int (fmag p x) \<le> - int (fmag p y) \<longleftrightarrow> x = 0 \<and> y = 0"
  "int (fmag p x) = - int (fmag p y) \<longleftrightarrow> x = 0 \<and> y = 0" "- int (fmag p x) = int (fmag p y) \<longleftrightarrow> x = 0 \<and> y = 0"
  using fmag_0_iff [of p x] fmag_0_iff [of p y] by linarith+

lemma f32_compare_value:
  "f32_lt a b \<longleftrightarrow> \<not> f32_is_nan a \<and> \<not> f32_is_nan b \<and> fval 23 a < fval 23 b"
  "f32_le a b \<longleftrightarrow> \<not> f32_is_nan a \<and> \<not> f32_is_nan b \<and> fval 23 a \<le> fval 23 b"
  "f32_eq a b \<longleftrightarrow> \<not> f32_is_nan a \<and> \<not> f32_is_nan b \<and> fval 23 a = fval 23 b"
  unfolding f32_lt_def f32_le_def f32_eq_def Let_def fields32 push_1_0_iff mbits_or_0
  by (auto simp: fval_def word_eq_split word_less_split opposite_signs)

lemma f64_compare_value:
  "f64_lt a b \<longleftrightarrow> \<not> f64_is_nan a \<and> \<not> f64_is_nan b \<and> fval 52 a < fval 52 b"
  "f64_le a b \<longleftrightarrow> \<not> f64_is_nan a \<and> \<not> f64_is_nan b \<and> fval 52 a \<le> fval 52 b"
  "f64_eq a b \<longleftrightarrow> \<not> f64_is_nan a \<and> \<not> f64_is_nan b \<and> fval 52 a = fval 52 b"
proof -
  have "x AND 0x7FFFFFFFFFFFFFFF = take_bit 63 x" for x :: u64 by (simp add: take_bit_eq_mask mask_numeral)
  then have z: "x AND 0x7FFFFFFFFFFFFFFF = 0 \<longleftrightarrow> mbits x = 0" for x :: u64 by (simp add: mbits_take unat_eq_0)
  show "f64_lt a b \<longleftrightarrow> \<not> f64_is_nan a \<and> \<not> f64_is_nan b \<and> fval 52 a < fval 52 b"
    "f64_le a b \<longleftrightarrow> \<not> f64_is_nan a \<and> \<not> f64_is_nan b \<and> fval 52 a \<le> fval 52 b"
    "f64_eq a b \<longleftrightarrow> \<not> f64_is_nan a \<and> \<not> f64_is_nan b \<and> fval 52 a = fval 52 b"
    unfolding f64_lt_def f64_le_def f64_eq_def Let_def fields64 z mbits_or_0
    by (auto simp: fval_def word_eq_split word_less_split opposite_signs)
qed

subsection \<open>Truncation by shifting\<close>

lemma shift_div: "(s * 2 ^ k) div (2 :: nat) ^ d = (if k \<le> d then s div 2 ^ (d - k) else s * 2 ^ (k - d))"
proof (cases "k \<le> d")
  case True
  then have "(2 :: nat) ^ d = 2 ^ (d - k) * 2 ^ k" by (simp flip: power_add)
  then show ?thesis using True by simp
next
  case False
  then have "(2 :: nat) ^ k = 2 ^ (k - d) * 2 ^ d" by (simp flip: power_add)
  then show ?thesis using False by simp
qed

lemma trunc_shift:
  assumes "0 < b" "b \<le> x div 2 ^ p" "d + x div 2 ^ p = b + p + k"
  shows "(2 ^ p + x mod 2 ^ p) * 2 ^ k div 2 ^ d = fmag p x div 2 ^ (b + p - 1)"
proof -
  let ?E = "x div 2 ^ p"
  have "fmag p x div 2 ^ (b + p - 1) = (2 ^ p + x mod 2 ^ p) * 2 ^ (?E - 1) div 2 ^ (b + p - 1)"
    using assms(1,2) by (simp add: fmag_def)
  moreover have "k \<le> d \<longleftrightarrow> ?E - 1 \<le> b + p - 1" "b + p - 1 - (?E - 1) = d - k" "?E - 1 - (b + p - 1) = k - d"
    using assms by linarith+
  ultimately show ?thesis by (simp only: shift_div)
qed

lemma trunc_small: "x div 2 ^ p < b \<Longrightarrow> fmag p x div 2 ^ (b + p - 1) = 0"
  using fmag_below_one [of x p b] by simp

lemma trunc_bounds:
  assumes "0 < b" "b \<le> x div 2 ^ p"
  shows "2 ^ (x div 2 ^ p - b) \<le> fmag p x div 2 ^ (b + p - 1)" "fmag p x div 2 ^ (b + p - 1) < 2 ^ (x div 2 ^ p - b + 1)"
proof -
  let ?E = "x div 2 ^ p"
  have m: "fmag p x = (2 ^ p + x mod 2 ^ p) * 2 ^ (?E - 1)" using assms by (simp add: fmag_def)
  have e: "(2 :: nat) ^ p * 2 ^ (?E - 1) = 2 ^ (?E - b) * 2 ^ (b + p - 1)"
    "(2 :: nat) ^ (p + 1) * 2 ^ (?E - 1) = 2 ^ (?E - b + 1) * 2 ^ (b + p - 1)"
    using assms by (simp_all flip: power_add)
  have "2 ^ (?E - b) * 2 ^ (b + p - 1) \<le> fmag p x" unfolding m e(1) [symmetric] by simp
  then show "2 ^ (?E - b) \<le> fmag p x div 2 ^ (b + p - 1)"
    by (simp add: less_eq_div_iff_mult_less_eq)
  have "fmag p x < 2 ^ (p + 1) * 2 ^ (?E - 1)" unfolding m by simp
  then show "fmag p x div 2 ^ (b + p - 1) < 2 ^ (?E - b + 1)" unfolding e(2) by (simp add: less_mult_imp_div_less)
qed

lemma signed_bounds: "(if s then int t \<le> m else int t < m) \<Longrightarrow> 0 < m \<Longrightarrow> - m \<le> (if s then - int t else int t) \<and> (if s then - int t else int t) < m"
  by (cases s) simp_all

lemma signed_result:
  assumes "unat (z :: u64) = t" and "if s then t \<le> 2 ^ (LENGTH('b) - 1) else t < 2 ^ (LENGTH('b) - 1)" and "LENGTH('b) \<le> 64"
  shows "sint (ucast (if s then - z else z) :: 'b :: len word) = (if s then - int t else int t)"
proof -
  have c: "(ucast (word_of_int k :: u64) :: 'b word) = word_of_int k" for k
    using assms(3) by (intro bit_eqI) (simp add: bit_simps)
  have z: "z = word_of_int (int t)" using assms(1) by auto
  then have "- z = word_of_int (- int t)" by simp
  then have "(ucast (if s then - z else z) :: 'b word) = word_of_int (if s then - int t else int t)"
    using z c by (cases s) (simp_all only: if_True if_False)
  moreover have "if s then int t \<le> 2 ^ (LENGTH('b) - 1) else int t < 2 ^ (LENGTH('b) - 1)" using assms(2) by (cases s) simp_all
  then have "- (2 ^ (LENGTH('b) - 1)) \<le> (if s then - int t else int t) \<and> (if s then - int t else int t) < 2 ^ (LENGTH('b) - 1)"
    by (rule signed_bounds) simp
  then have "sint (word_of_int (if s then - int t else int t) :: 'b word) = (if s then - int t else int t)"
    by (elim conjE) (rule sint_in_range)
  ultimately show ?thesis by (simp only:)
qed

lemma unat_add_top:
  assumes "unat (w :: 'a :: len word) < 2 ^ p" and "p < LENGTH('a)"
  shows "unat (w OR push_bit p 1) = 2 ^ p + unat w"
proof -
  have "w = take_bit p w" using assms(1) by (metis mod_less unat_take_bit unsigned_word_eqI)
  then have "w AND push_bit p 1 = 0"
    by (metis (no_types, lifting) bit_eqI bit_and_iff bit_take_bit_iff bit_push_bit_iff bit_1_iff bit_0_eq bot_apply bot_bool_def leD diff_is_0_eq)
  then have "unat (w OR push_bit p 1) = unat w + unat (push_bit p (1 :: 'a word))" by (rule unat_or_disjoint)
  also have "unat (push_bit p (1 :: 'a word)) = 2 ^ p"
    unfolding unat_push_bit using assms(2) by simp
  finally show ?thesis by simp
qed

lemma sig_f32: "unat (ucast (fracF32UI a) OR 0x800000 :: u64) = 2 ^ 23 + mbits a mod 2 ^ 23"
  using unat_add_top [of "ucast (fracF32UI a) :: u64" 23] fields32(4) [of a] by (simp add: unat_ucast_up)

lemma sig_f64: "unat (fracF64UI a OR 0x10000000000000) = 2 ^ 52 + mbits a mod 2 ^ 52"
  using unat_add_top [of "fracF64UI a" 52] fields64(4) [of a] by simp

lemma unat_shifted_sig:
  assumes "unat (z :: u64) = s" and "s * 2 ^ k < 2 ^ 64"
  shows "unat (drop_bit d (push_bit k z)) = s * 2 ^ k div 2 ^ d" "unat (push_bit k z) = s * 2 ^ k"
  using assms by (simp_all add: unat_drop_bit unat_push_bit)

lemma ftrunc_cases:
  obtains (pos) "\<not> fneg a" "ftrunc b p a = int (fmag p (mbits a) div 2 ^ (b + p - 1))"
  | (neg) "fneg a" "ftrunc b p a = - int (fmag p (mbits a) div 2 ^ (b + p - 1))"
  by (auto simp: ftrunc_def)

lemma ftrunc_if: "ftrunc b p a = (if fneg a then - int t else int t)" if "fmag p (mbits a) div 2 ^ (b + p - 1) = t"
  using that by (simp add: ftrunc_def)

lemma ftrunc_large:
  assumes "0 < b" and "b + w \<le> mbits a div 2 ^ p"
  shows "2 ^ w \<le> \<bar>ftrunc b p a\<bar>"
proof -
  have "(2 :: nat) ^ w \<le> 2 ^ (mbits a div 2 ^ p - b)" using assms(2) by (intro power_increasing) auto
  also have "\<dots> \<le> fmag p (mbits a) div 2 ^ (b + p - 1)" using assms by (intro trunc_bounds) auto
  finally have "int (2 ^ w) \<le> int (fmag p (mbits a) div 2 ^ (b + p - 1))" by (simp only: of_nat_le_iff)
  then show ?thesis unfolding ftrunc_def by simp
qed

lemma ftrunc_mid:
  assumes "0 < b" and "b \<le> mbits a div 2 ^ p" and "mbits a div 2 ^ p < b + w"
  shows "fmag p (mbits a) div 2 ^ (b + p - 1) < 2 ^ w"
proof -
  have "fmag p (mbits a) div 2 ^ (b + p - 1) < 2 ^ (mbits a div 2 ^ p - b + 1)" by (rule trunc_bounds(2) [OF assms(1,2)])
  also have "\<dots> \<le> (2 :: nat) ^ w" using assms(2,3) by (intro power_increasing) auto
  finally show ?thesis .
qed

lemma ftrunc_small: "mbits a div 2 ^ p < b \<Longrightarrow> ftrunc b p a = 0"
  using trunc_small [of "mbits a" p b] by (simp add: ftrunc_def)

lemma shifted_f32:
  assumes "127 \<le> mbits a div 2 ^ 23" and "d + mbits a div 2 ^ 23 = 150 + k" and "k \<le> 40"
  shows "unat (drop_bit d (push_bit k (ucast (fracF32UI a) OR 0x800000 :: u64))) = fmag 23 (mbits a) div 2 ^ (127 + 23 - 1)"
proof -
  have "2 ^ 23 + mbits a mod 2 ^ 23 < (2 :: nat) ^ 24" using mod_less_divisor [of "2 ^ 23" "mbits a"] by simp
  then have "(2 ^ 23 + mbits a mod 2 ^ 23) * 2 ^ k < (2 :: nat) ^ 24 * 2 ^ k" by simp
  also have "\<dots> = 2 ^ (24 + k)" by (simp only: power_add)
  also have "\<dots> \<le> (2 :: nat) ^ 64" using assms(3) by (intro power_increasing) auto
  finally have "unat (drop_bit d (push_bit k (ucast (fracF32UI a) OR 0x800000 :: u64))) =
      (2 ^ 23 + mbits a mod 2 ^ 23) * 2 ^ k div 2 ^ d"
    by (rule unat_shifted_sig(1) [OF sig_f32])
  also have "\<dots> = fmag 23 (mbits a) div 2 ^ (127 + 23 - 1)" using assms by (intro trunc_shift) auto
  finally show ?thesis .
qed

lemma shifted_f64:
  assumes "1023 \<le> mbits a div 2 ^ 52" and "mbits a div 2 ^ 52 < 1087"
  shows "unat (if 1075 \<le> mbits a div 2 ^ 52 then push_bit (mbits a div 2 ^ 52 - 1075) (fracF64UI a OR 0x10000000000000)
           else drop_bit (1075 - mbits a div 2 ^ 52) (fracF64UI a OR 0x10000000000000)) =
         fmag 52 (mbits a) div 2 ^ (1023 + 52 - 1)"
proof -
  let ?E = "mbits a div 2 ^ 52"
  let ?k = "?E - 1075"
  have "2 ^ 52 + mbits a mod 2 ^ 52 < (2 :: nat) ^ 53" using mod_less_divisor [of "2 ^ 52" "mbits a"] by simp
  then have "(2 ^ 52 + mbits a mod 2 ^ 52) * 2 ^ ?k < (2 :: nat) ^ 53 * 2 ^ ?k" by simp
  also have "\<dots> = 2 ^ (53 + ?k)" by (simp only: power_add)
  also have "\<dots> \<le> (2 :: nat) ^ 64" using assms(2) by (intro power_increasing) auto
  finally have lt: "(2 ^ 52 + mbits a mod 2 ^ 52) * 2 ^ ?k < 2 ^ 64" .
  obtain t where t: "fmag 52 (mbits a) div 2 ^ (1023 + 52 - 1) = t" by blast
  have "(2 ^ 52 + mbits a mod 2 ^ 52) * 2 ^ ?k div 2 ^ (1075 - ?E) = t"
    unfolding t [symmetric] using assms by (intro trunc_shift) linarith+
  then show ?thesis
    unfolding t using unat_shifted_sig [OF sig_f64 lt] by (cases "1075 \<le> ?E") (simp_all add: unat_drop_bit sig_f64)
qed

lemma f32_to_i32_trunc:
  assumes "- (2 ^ 31) \<le> ftrunc 127 23 a" "ftrunc 127 23 a < 2 ^ 31"
  shows "sint (f32_to_i32_r_minMag a) = ftrunc 127 23 a"
proof -
  let ?E = "mbits a div 2 ^ 23" and ?t = "fmag 23 (mbits a) div 2 ^ (127 + 23 - 1)"
  consider "?E < 127" | "127 \<le> ?E" "?E < 127 + 31" | "127 + 31 \<le> ?E" by linarith
  then show ?thesis
  proof cases
    case 1
    then have "32 \<le> 0x9E - expF32UI a" unfolding fields32 by linarith
    then show ?thesis using ftrunc_small [OF 1] by (simp add: f32_to_i32_r_minMag_def Let_def)
  next
    case 2
    then have d: "nat (0x9E - expF32UI a) = 158 - ?E" "\<not> 32 \<le> 0x9E - expF32UI a" "\<not> 0x9E - expF32UI a \<le> 0"
      unfolding fields32 by linarith+
    have "unat (drop_bit (158 - ?E) (push_bit 8 (ucast (fracF32UI a) OR 0x800000 :: u64))) = ?t"
      using 2 by (intro shifted_f32) auto
    then have "sint (f32_to_i32_r_minMag a) = (if fneg a then - int ?t else int ?t)"
      unfolding f32_to_i32_r_minMag_def Let_def d fields32(1) if_not_P [OF d(2)] if_not_P [OF d(3)]
      using ftrunc_mid [of 127 a 23 31] 2 by (intro signed_result) auto
    then show ?thesis by (simp add: ftrunc_def)
  next
    case 3
    then have d: "\<not> 32 \<le> 0x9E - expF32UI a" "0x9E - expF32UI a \<le> 0" unfolding fields32 by linarith+
    have "ftrunc 127 23 a = - (2 ^ 31)" using ftrunc_large [of 127 31 a 23] 3 assms by simp
    then show ?thesis using d by (simp add: f32_to_i32_r_minMag_def Let_def i32_invalid_def)
  qed
qed

lemma ftrunc_neg_small:
  assumes "0 < b" "fneg a" "0 \<le> ftrunc b p a"
  shows "mbits a div 2 ^ p < b"
proof (rule ccontr)
  assume "\<not> mbits a div 2 ^ p < b"
  then have "2 ^ (mbits a div 2 ^ p - b) \<le> fmag p (mbits a) div 2 ^ (b + p - 1)" using assms(1) by (intro trunc_bounds) auto
  moreover have "(1 :: nat) \<le> 2 ^ (mbits a div 2 ^ p - b)" by simp
  ultimately have "0 < fmag p (mbits a) div 2 ^ (b + p - 1)" by linarith
  then show False using assms(2,3) unfolding ftrunc_def by (simp del: of_nat_numeral)
qed

lemma f32_to_ui32_trunc:
  assumes "0 \<le> ftrunc 127 23 a" "ftrunc 127 23 a < 2 ^ 32"
  shows "int (unat (f32_to_ui32_r_minMag a)) = ftrunc 127 23 a"
proof -
  let ?E = "mbits a div 2 ^ 23" and ?t = "fmag 23 (mbits a) div 2 ^ (127 + 23 - 1)"
  have "?E < 127 + 32" using ftrunc_large [of 127 32 a 23] assms by linarith
  then consider "?E < 127" | "127 \<le> ?E" "?E < 127 + 32" by linarith
  then show ?thesis
  proof cases
    case 1
    then have "32 \<le> 0x9E - expF32UI a" unfolding fields32 by linarith
    then show ?thesis using ftrunc_small [OF 1] by (simp add: f32_to_ui32_r_minMag_def Let_def)
  next
    case 2
    then have n: "\<not> fneg a" using ftrunc_neg_small [of 127 a 23] assms by auto
    have d: "nat (0x9E - expF32UI a) = 158 - ?E" "\<not> 32 \<le> 0x9E - expF32UI a" "\<not> 0x9E - expF32UI a < 0"
      using 2 unfolding fields32 by linarith+
    have z: "unat (drop_bit (158 - ?E) (push_bit 8 (ucast (fracF32UI a) OR 0x800000 :: u64))) = ?t"
      using 2 by (intro shifted_f32) auto
    moreover have "?t < 2 ^ 32" using 2 by (intro ftrunc_mid) auto
    ultimately have "unat (f32_to_ui32_r_minMag a) = ?t"
      unfolding f32_to_ui32_r_minMag_def Let_def d(1) fields32(1) using n d(2,3)
      by (simp add: unsigned_ucast_eq take_bit_nat_eq_self del: unat_drop_bit)
    then show ?thesis using n unfolding ftrunc_def by (simp only: if_False)
  qed
qed

lemma f32_to_i64_trunc:
  assumes "- (2 ^ 63) \<le> ftrunc 127 23 a" "ftrunc 127 23 a < 2 ^ 63"
  shows "sint (f32_to_i64_r_minMag a) = ftrunc 127 23 a"
proof -
  let ?E = "mbits a div 2 ^ 23" and ?t = "fmag 23 (mbits a) div 2 ^ (127 + 23 - 1)"
  consider "?E < 127" | "127 \<le> ?E" "?E < 127 + 63" | "127 + 63 \<le> ?E" by linarith
  then show ?thesis
  proof cases
    case 1
    then have "64 \<le> 0xBE - expF32UI a" unfolding fields32 by linarith
    then show ?thesis using ftrunc_small [OF 1] by (simp add: f32_to_i64_r_minMag_def Let_def)
  next
    case 2
    then have d: "nat (0xBE - expF32UI a) = 190 - ?E" "\<not> 64 \<le> 0xBE - expF32UI a" "\<not> 0xBE - expF32UI a \<le> 0"
      unfolding fields32 by linarith+
    have "unat (drop_bit (190 - ?E) (push_bit 40 (ucast (fracF32UI a) OR 0x800000 :: u64))) = ?t"
      using 2 by (intro shifted_f32) auto
    then have "sint (ucast (if fneg a then - drop_bit (190 - ?E) (push_bit 40 (ucast (fracF32UI a) OR 0x800000))
        else drop_bit (190 - ?E) (push_bit 40 (ucast (fracF32UI a) OR 0x800000)) :: u64) :: u64) =
        (if fneg a then - int ?t else int ?t)"
      using ftrunc_mid [of 127 a 23 63] 2 by (intro signed_result) auto
    then show ?thesis
      unfolding f32_to_i64_r_minMag_def Let_def d(1) fields32(1) if_not_P [OF d(2)] if_not_P [OF d(3)] ftrunc_def
      by (simp only: ucast_id)
  next
    case 3
    then have d: "\<not> 64 \<le> 0xBE - expF32UI a" "0xBE - expF32UI a \<le> 0" unfolding fields32 by linarith+
    have "ftrunc 127 23 a = - (2 ^ 63)" using ftrunc_large [of 127 63 a 23] 3 assms by simp
    then show ?thesis using d by (simp add: f32_to_i64_r_minMag_def Let_def i64_invalid_def)
  qed
qed

lemma f32_to_ui64_trunc:
  assumes "0 \<le> ftrunc 127 23 a" "ftrunc 127 23 a < 2 ^ 64"
  shows "int (unat (f32_to_ui64_r_minMag a)) = ftrunc 127 23 a"
proof -
  let ?E = "mbits a div 2 ^ 23" and ?t = "fmag 23 (mbits a) div 2 ^ (127 + 23 - 1)"
  have "?E < 127 + 64" using ftrunc_large [of 127 64 a 23] assms by linarith
  then consider "?E < 127" | "127 \<le> ?E" "?E < 127 + 64" by linarith
  then show ?thesis
  proof cases
    case 1
    then have "64 \<le> 0xBE - expF32UI a" unfolding fields32 by linarith
    then show ?thesis using ftrunc_small [OF 1] by (simp add: f32_to_ui64_r_minMag_def Let_def)
  next
    case 2
    then have n: "\<not> fneg a" using ftrunc_neg_small [of 127 a 23] assms by auto
    have d: "nat (0xBE - expF32UI a) = 190 - ?E" "\<not> 64 \<le> 0xBE - expF32UI a" "\<not> 0xBE - expF32UI a < 0"
      using 2 unfolding fields32 by linarith+
    have "unat (drop_bit (190 - ?E) (push_bit 40 (ucast (fracF32UI a) OR 0x800000 :: u64))) = ?t"
      using 2 by (intro shifted_f32) auto
    then have "unat (f32_to_ui64_r_minMag a) = ?t"
      unfolding f32_to_ui64_r_minMag_def Let_def d(1) fields32(1) using n d(2,3) by (simp del: unat_drop_bit)
    then show ?thesis using n unfolding ftrunc_def by (simp only: if_False)
  qed
qed

lemma f64_to_i32_trunc:
  assumes "- (2 ^ 31) \<le> ftrunc 1023 52 a" "ftrunc 1023 52 a < 2 ^ 31"
  shows "sint (f64_to_i32_r_minMag a) = ftrunc 1023 52 a"
proof -
  let ?E = "mbits a div 2 ^ 52" and ?t = "fmag 52 (mbits a) div 2 ^ (1023 + 52 - 1)"
  consider "?E < 1023" | "1023 \<le> ?E" "?E < 1023 + 31" | "1023 + 31 \<le> ?E" by linarith
  then show ?thesis
  proof cases
    case 1
    then have "53 \<le> 0x433 - expF64UI a" unfolding fields64 by linarith
    then show ?thesis using ftrunc_small [OF 1] by (simp add: f64_to_i32_r_minMag_def Let_def)
  next
    case 2
    then have d: "nat (0x433 - expF64UI a) = 1075 - ?E" "\<not> 53 \<le> 0x433 - expF64UI a" "\<not> 0x433 - expF64UI a < 22" "\<not> 1075 \<le> ?E"
      unfolding fields64 by linarith+
    have "unat (drop_bit (1075 - ?E) (fracF64UI a OR 0x10000000000000)) = ?t"
      using shifted_f64 [of a] 2 unfolding if_not_P [OF d(4)] by linarith
    then have "sint (f64_to_i32_r_minMag a) = (if fneg a then - int ?t else int ?t)"
      unfolding f64_to_i32_r_minMag_def Let_def d(1) fields64(1) if_not_P [OF d(2)] if_not_P [OF d(3)]
      using ftrunc_mid [of 1023 a 52 31] 2 by (intro signed_result) simp_all
    then show ?thesis unfolding ftrunc_def .
  next
    case 3
    then have d: "\<not> 53 \<le> 0x433 - expF64UI a" "0x433 - expF64UI a < 22" unfolding fields64 by linarith+
    have "ftrunc 1023 52 a = - (2 ^ 31)" using ftrunc_large [of 1023 31 a 52] 3 assms by simp
    then show ?thesis using d by (simp add: f64_to_i32_r_minMag_def Let_def i32_invalid_def)
  qed
qed

lemma f64_to_ui32_trunc:
  assumes "0 \<le> ftrunc 1023 52 a" "ftrunc 1023 52 a < 2 ^ 32"
  shows "int (unat (f64_to_ui32_r_minMag a)) = ftrunc 1023 52 a"
proof -
  let ?E = "mbits a div 2 ^ 52" and ?t = "fmag 52 (mbits a) div 2 ^ (1023 + 52 - 1)"
  have "?E < 1023 + 32" using ftrunc_large [of 1023 32 a 52] assms by linarith
  then consider "?E < 1023" | "1023 \<le> ?E" "?E < 1023 + 32" by linarith
  then show ?thesis
  proof cases
    case 1
    then have "53 \<le> 0x433 - expF64UI a" unfolding fields64 by linarith
    then show ?thesis using ftrunc_small [OF 1] by (simp add: f64_to_ui32_r_minMag_def Let_def)
  next
    case 2
    then have n: "\<not> fneg a" using ftrunc_neg_small [of 1023 a 52] assms by auto
    have d: "nat (0x433 - expF64UI a) = 1075 - ?E" "\<not> 53 \<le> 0x433 - expF64UI a" "\<not> 0x433 - expF64UI a < 21" "\<not> 1075 \<le> ?E"
      using 2 unfolding fields64 by linarith+
    have "unat (drop_bit (1075 - ?E) (fracF64UI a OR 0x10000000000000)) = ?t"
      using shifted_f64 [of a] 2 unfolding if_not_P [OF d(4)] by linarith
    moreover have "?t < 2 ^ 32" using 2 by (intro ftrunc_mid) simp_all
    ultimately have "unat (ucast (drop_bit (1075 - ?E) (fracF64UI a OR 0x10000000000000)) :: u32) = ?t"
      unfolding unsigned_ucast_eq by (simp add: take_bit_nat_eq_self)
    then have "unat (f64_to_ui32_r_minMag a) = ?t"
      unfolding f64_to_ui32_r_minMag_def Let_def d(1) fields64(1) using n d(2,3) by (simp only: if_False simp_thms)
    then show ?thesis using n unfolding ftrunc_def by (simp only: if_False)
  qed
qed

lemma f64_to_i64_trunc:
  assumes "- (2 ^ 63) \<le> ftrunc 1023 52 a" "ftrunc 1023 52 a < 2 ^ 63"
  shows "sint (f64_to_i64_r_minMag a) = ftrunc 1023 52 a"
proof -
  let ?E = "mbits a div 2 ^ 52" and ?t = "fmag 52 (mbits a) div 2 ^ (1023 + 52 - 1)"
  consider "?E < 1023" | "1023 \<le> ?E" "?E < 1023 + 63" | "1023 + 63 \<le> ?E" by linarith
  then show ?thesis
  proof cases
    case 1
    then have "53 \<le> 0x433 - expF64UI a" unfolding fields64 by linarith
    then show ?thesis using ftrunc_small [OF 1] by (simp add: f64_to_i64_r_minMag_def Let_def)
  next
    case 2
    let ?z = "if 1075 \<le> ?E then push_bit (?E - 1075) (fracF64UI a OR 0x10000000000000)
        else drop_bit (1075 - ?E) (fracF64UI a OR 0x10000000000000)"
    have d: "nat (0x433 - expF64UI a) = 1075 - ?E" "nat (- (0x433 - expF64UI a)) = ?E - 1075"
      "(0x433 - expF64UI a \<le> 0) = (1075 \<le> ?E)" "\<not> 0x433 - expF64UI a < - 10" "\<not> 53 \<le> 0x433 - expF64UI a"
      using 2 unfolding fields64 by linarith+
    have "unat ?z = ?t" using 2 by (intro shifted_f64) simp_all
    then have "sint (ucast (if fneg a then - ?z else ?z) :: u64) = (if fneg a then - int ?t else int ?t)"
      using ftrunc_mid [of 1023 a 52 63] 2 by (intro signed_result) simp_all
    moreover have "f64_to_i64_r_minMag a = (if fneg a then - ?z else ?z)"
      unfolding f64_to_i64_r_minMag_def Let_def d(1-3) fields64(1) using d(4,5) by (simp only: if_False if_distrib [of uminus] split: if_split) simp
    ultimately show ?thesis unfolding ftrunc_def by (simp only: ucast_id)
  next
    case 3
    then have d: "0x433 - expF64UI a < - 10" unfolding fields64 by linarith
    have "ftrunc 1023 52 a = - (2 ^ 63)" using ftrunc_large [of 1023 63 a 52] 3 assms by simp
    then show ?thesis using d by (simp add: f64_to_i64_r_minMag_def Let_def i64_invalid_def)
  qed
qed

lemma f64_to_ui64_trunc:
  assumes "0 \<le> ftrunc 1023 52 a" "ftrunc 1023 52 a < 2 ^ 64"
  shows "int (unat (f64_to_ui64_r_minMag a)) = ftrunc 1023 52 a"
proof -
  let ?E = "mbits a div 2 ^ 52" and ?t = "fmag 52 (mbits a) div 2 ^ (1023 + 52 - 1)"
  have "?E < 1023 + 64" using ftrunc_large [of 1023 64 a 52] assms by linarith
  then consider "?E < 1023" | "1023 \<le> ?E" "?E < 1023 + 64" by linarith
  then show ?thesis
  proof cases
    case 1
    then have "53 \<le> 0x433 - expF64UI a" unfolding fields64 by linarith
    then show ?thesis using ftrunc_small [OF 1] by (simp add: f64_to_ui64_r_minMag_def Let_def)
  next
    case 2
    then have n: "\<not> fneg a" using ftrunc_neg_small [of 1023 a 52] assms by auto
    have d: "nat (0x433 - expF64UI a) = 1075 - ?E" "nat (- (0x433 - expF64UI a)) = ?E - 1075"
      "(0x433 - expF64UI a \<le> 0) = (1075 \<le> ?E)" "\<not> 0x433 - expF64UI a < - 11" "\<not> 53 \<le> 0x433 - expF64UI a"
      using 2 unfolding fields64 by linarith+
    have "unat (f64_to_ui64_r_minMag a) = ?t"
      unfolding f64_to_ui64_r_minMag_def Let_def d(1-3) fields64(1) if_not_P [OF d(4)] if_not_P [OF d(5)] if_not_P [OF n]
      using 2 by (intro shifted_f64) simp_all
    then show ?thesis using n unfolding ftrunc_def by (simp only: if_False)
  qed
qed

subsection \<open>Rounding an integral value\<close>

lemma integral_small:
  assumes "2 ^ (b + p - 1) dvd fmag p x" and "x div 2 ^ p < b"
  shows "x = 0"
  using fmag_below_one [OF assms(2)] assms(1) by (metis dvd_imp_le fmag_0_iff linorder_not_less neq0_conv)

lemma exact_shift:
  assumes "2 ^ (b + p - 1) dvd fmag p x" and "0 < b" and "b \<le> x div 2 ^ p" and "d + x div 2 ^ p + c = b + p + k"
  shows "(2 ^ p + x mod 2 ^ p) * 2 ^ k = fmag p x div 2 ^ (b + p - 1) * 2 ^ c * 2 ^ d"
proof -
  let ?E = "x div 2 ^ p" and ?t = "fmag p x div 2 ^ (b + p - 1)"
  have "(2 ^ p + x mod 2 ^ p) * 2 ^ (?E - 1) = ?t * 2 ^ (b + p - 1)"
    using assms(1,2,3) by (simp add: fmag_def)
  then have "(2 ^ p + x mod 2 ^ p) * 2 ^ k * 2 ^ (?E - 1) = ?t * (2 ^ (b + p - 1) * 2 ^ k)"
    by (simp only: mult.assoc mult.commute mult.left_commute)
  also have "(2 :: nat) ^ (b + p - 1) * 2 ^ k = 2 ^ c * 2 ^ d * 2 ^ (?E - 1)"
    unfolding power_add [symmetric] using assms(2,3,4) by (intro arg_cong [of _ _ "\<lambda>n. 2 ^ n"]) linarith
  finally have "(2 ^ p + x mod 2 ^ p) * 2 ^ k * 2 ^ (?E - 1) = ?t * 2 ^ c * 2 ^ d * 2 ^ (?E - 1)"
    by (simp only: mult.assoc)
  then show ?thesis by simp
qed

lemma unat_neg_count: "0 < d \<Longrightarrow> d < 64 \<Longrightarrow> unat ((- of_nat d :: u64) AND 63) = 64 - d"
  using unat_take_bit_neg [of 6 "of_nat d :: u64"] by (simp add: and_63 unat_of_nat)

lemma push_exact:
  assumes "unat (a :: u64) = s * 2 ^ d" "0 < d" "d < 64"
  shows "push_bit (unat ((- of_nat d :: u64) AND 63)) a = 0"
proof -
  have "unat a * 2 ^ (64 - d) = s * 2 ^ 64" using assms by (simp flip: power_add)
  then have "unat (push_bit (64 - d) a) = 0" unfolding unat_push_bit by simp
  then show ?thesis unfolding unat_neg_count [OF assms(2,3)] by (simp add: unat_eq_0)
qed

lemma word_of_unat: "unat (z :: 'a :: len word) = t \<Longrightarrow> z = of_nat t"
  by auto

lemma drop_exact:
  assumes "unat (a :: u64) = s * 2 ^ d"
  shows "drop_bit d a = of_nat s"
proof -
  have "unat (drop_bit d a) = s" using assms by (simp add: unat_drop_bit)
  then show ?thesis by auto
qed

lemma shiftRightJam64_exact:
  "unat a = s * 2 ^ d \<Longrightarrow> 0 < d \<Longrightarrow> d < 63 \<Longrightarrow> softfloat_shiftRightJam64 a d = of_nat s"
  unfolding softfloat_shiftRightJam64_def by (subst push_exact) (simp_all add: drop_exact)

lemma shiftRightJam64Extra_exact:
  "unat a = s * 2 ^ d \<Longrightarrow> 0 < d \<Longrightarrow> d < 64 \<Longrightarrow> softfloat_shiftRightJam64Extra a 0 d = (of_nat s, 0)"
  unfolding softfloat_shiftRightJam64Extra_def by (subst push_exact) (simp_all add: drop_exact)

lemma shift_zero [simp]: "softfloat_shiftRightJam64 0 d = 0" "softfloat_shiftRightJam64Extra 0 0 d = (0, 0)"
  by (simp_all add: softfloat_shiftRightJam64_def softfloat_shiftRightJam64Extra_def)

lemma round_sum:
  assumes "t < 2 ^ 32"
  shows "(of_nat (t * 2 ^ 12) :: u64) AND 0xFFF = 0" "(of_nat (t * 2 ^ 12) + 0x800 :: u64) AND 0xFFFFF00000000000 = 0"
    "unat (drop_bit 12 (of_nat (t * 2 ^ 12) + 0x800 :: u64)) = t"
proof -
  have u: "unat (of_nat (t * 2 ^ 12) :: u64) = t * 2 ^ 12" using assms by (simp add: unat_of_nat del: of_nat_mult)
  have v: "unat (of_nat (t * 2 ^ 12) + 0x800 :: u64) = t * 2 ^ 12 + 0x800"
    using assms u by (simp add: unat_word_ariths del: of_nat_mult)
  have "(of_nat (t * 2 ^ 12) :: u64) AND 0xFFF = take_bit 12 (of_nat (t * 2 ^ 12))" by (simp add: take_bit_eq_mask mask_numeral)
  moreover have "unat (take_bit 12 (of_nat (t * 2 ^ 12) :: u64)) = 0" unfolding unat_take_bit u by simp
  ultimately show "(of_nat (t * 2 ^ 12) :: u64) AND 0xFFF = 0" by (simp add: unat_eq_0)
  show "unat (drop_bit 12 (of_nat (t * 2 ^ 12) + 0x800 :: u64)) = t" unfolding unat_drop_bit v by simp
  have "drop_bit 44 (of_nat (t * 2 ^ 12) + 0x800 :: u64) = 0"
    using assms v by (simp add: unat_drop_bit flip: unat_eq_0)
  then have "push_bit 44 (drop_bit 44 (of_nat (t * 2 ^ 12) + 0x800 :: u64)) = 0" by simp
  moreover have "x AND 0xFFFFF00000000000 = push_bit 44 (drop_bit 44 x)" for x :: u64
  proof -
    have m: "(0xFFFFF00000000000 :: u64) = push_bit 44 (mask 20)" by (simp add: mask_numeral)
    show ?thesis unfolding m by (rule bit_eqI) (auto simp: bit_simps)
  qed
  ultimately show "(of_nat (t * 2 ^ 12) + 0x800 :: u64) AND 0xFFFFF00000000000 = 0" by simp
qed

lemma roundToI32_exact:
  assumes "if s then t \<le> 2 ^ 31 else t < 2 ^ 31"
  shows "sint (softfloat_roundToI32 s (of_nat (t * 2 ^ 12)) softfloat_round_near_even) = (if s then - int t else int t)"
proof -
  have t: "t < 2 ^ 32" using assms by (cases s) simp_all
  let ?z = "drop_bit 12 (of_nat (t * 2 ^ 12) + 0x800 :: u64)"
  have z: "sint (ucast (if s then - ?z else ?z) :: u32) = (if s then - int t else int t)"
    using assms by (intro signed_result round_sum(3) [OF t]) (simp_all split: if_splits)
  then have "(ucast (if s then - ?z else ?z) :: u32) = 0 \<or> (sint (ucast (if s then - ?z else ?z) :: u32) < 0) = s"
    unfolding sint_0_iff [symmetric] by (cases s) auto
  then show ?thesis
    unfolding softfloat_roundToI32_def Let_def z [symmetric] using round_sum(1,2) [OF t] by (auto simp del: of_nat_mult)
qed

lemma roundToUI32_exact:
  assumes "t < 2 ^ 32" and "s \<Longrightarrow> t = 0"
  shows "unat (softfloat_roundToUI32 s (of_nat (t * 2 ^ 12)) softfloat_round_near_even) = t"
proof -
  let ?z = "drop_bit 12 (of_nat (t * 2 ^ 12) + 0x800 :: u64)"
  have z: "unat ?z = t" by (rule round_sum(3) [OF assms(1)])
  then have "s \<Longrightarrow> ?z = 0" using assms(2) by (simp flip: unat_eq_0)
  moreover have "unat (ucast ?z :: u32) = t" using z assms(1) unfolding unsigned_ucast_eq by (simp add: take_bit_nat_eq_self)
  ultimately show ?thesis
    unfolding softfloat_roundToUI32_def Let_def using round_sum(1,2) [OF assms(1)] by (auto simp del: of_nat_mult)
qed

lemma roundToI64_exact:
  assumes "if s then t \<le> 2 ^ 63 else t < 2 ^ 63"
  shows "sint (softfloat_roundToI64 s (of_nat t) 0 softfloat_round_near_even) = (if s then - int t else int t)"
proof -
  let ?z = "of_nat t :: u64"
  have "unat ?z = t" using assms by (cases s) (simp_all add: unat_of_nat)
  then have "sint (ucast (if s then - ?z else ?z) :: u64) = (if s then - int t else int t)"
    using assms by (intro signed_result) (simp_all split: if_splits)
  then have z: "sint (if s then - ?z else ?z) = (if s then - int t else int t)" by (simp only: ucast_id)
  then have "(if s then - ?z else ?z) = 0 \<or> (sint (if s then - ?z else ?z) < 0) = s"
    unfolding sint_0_iff [symmetric] by (cases s) auto
  then show ?thesis
    unfolding softfloat_roundToI64_def Let_def z [symmetric] by auto
qed

lemma roundToUI64_exact:
  "(s \<Longrightarrow> t = 0) \<Longrightarrow> t < 2 ^ 64 \<Longrightarrow> unat (softfloat_roundToUI64 s (of_nat t) 0 softfloat_round_near_even) = t"
  unfolding softfloat_roundToUI64_def Let_def by (auto simp: unat_of_nat)

text \<open>The patterns \<open>a\<close> that stand for an integer, with format \<open>(b, p)\<close>.\<close>

definition fintegral :: "nat \<Rightarrow> nat \<Rightarrow> 'a :: len word \<Rightarrow> bool" where
  "fintegral b p a \<longleftrightarrow> 2 ^ (b + p - 1) dvd fmag p (mbits a)"

lemma integral_zero_f32:
  assumes "fintegral 127 23 a" "mbits a div 2 ^ 23 < 127"
  shows "expF32UI a = 0" "fracF32UI a = 0" "ftrunc 127 23 a = 0"
proof -
  have x: "mbits a = 0" using integral_small [of 127 23 "mbits a"] assms by (simp add: fintegral_def)
  then show "expF32UI a = 0" "ftrunc 127 23 a = 0" by (simp_all add: fields32 ftrunc_def)
  show "fracF32UI a = 0" using fields32(4) [of a] x by (simp add: unat_eq_0)
qed

lemma integral_zero_f64:
  assumes "fintegral 1023 52 a" "mbits a div 2 ^ 52 < 1023"
  shows "expF64UI a = 0" "fracF64UI a = 0" "ftrunc 1023 52 a = 0"
proof -
  have x: "mbits a = 0" using integral_small [of 1023 52 "mbits a"] assms unfolding fintegral_def by blast
  then show "expF64UI a = 0" "ftrunc 1023 52 a = 0" by (simp_all add: fields64 ftrunc_def)
  show "fracF64UI a = 0" using fields64(4) [of a] x by (simp add: unat_eq_0)
qed

lemma exact_f32:
  assumes "fintegral 127 23 a" "127 \<le> mbits a div 2 ^ 23" "d + mbits a div 2 ^ 23 + c = 150 + k" "k \<le> 40"
  shows "unat (push_bit k (ucast (fracF32UI a) OR 0x800000 :: u64)) = fmag 23 (mbits a) div 2 ^ (127 + 23 - 1) * 2 ^ c * 2 ^ d"
proof -
  have "2 ^ 23 + mbits a mod 2 ^ 23 < (2 :: nat) ^ 24" using mod_less_divisor [of "2 ^ 23" "mbits a"] by simp
  then have "(2 ^ 23 + mbits a mod 2 ^ 23) * 2 ^ k < (2 :: nat) ^ 24 * 2 ^ k" by simp
  also have "\<dots> = 2 ^ (24 + k)" by (simp only: power_add)
  also have "\<dots> \<le> (2 :: nat) ^ 64" using assms(4) by (intro power_increasing) auto
  finally have "unat (push_bit k (ucast (fracF32UI a) OR 0x800000 :: u64)) = (2 ^ 23 + mbits a mod 2 ^ 23) * 2 ^ k"
    by (rule unat_shifted_sig(2) [OF sig_f32])
  also have "\<dots> = fmag 23 (mbits a) div 2 ^ (127 + 23 - 1) * 2 ^ c * 2 ^ d"
    using assms unfolding fintegral_def by (intro exact_shift) simp_all
  finally show ?thesis .
qed

lemma exact_f64:
  assumes "fintegral 1023 52 a" "1023 \<le> mbits a div 2 ^ 52" "d + mbits a div 2 ^ 52 + c = 1075"
  shows "unat (fracF64UI a OR 0x10000000000000) = fmag 52 (mbits a) div 2 ^ (1023 + 52 - 1) * 2 ^ c * 2 ^ d"
proof -
  have "(2 ^ 52 + mbits a mod 2 ^ 52) * 2 ^ 0 = fmag 52 (mbits a) div 2 ^ (1023 + 52 - 1) * 2 ^ c * 2 ^ d"
    using assms unfolding fintegral_def by (intro exact_shift) simp_all
  then show ?thesis unfolding sig_f64 by (simp only: power_0 mult_1_right)
qed

lemma f32_round_zero:
  assumes "fintegral 127 23 a" "mbits a div 2 ^ 23 < 127"
  shows "f32_to_i32 a softfloat_round_near_even = 0" "f32_to_ui32 a softfloat_round_near_even = 0"
    "f32_to_i64 a softfloat_round_near_even = 0" "f32_to_ui64 a softfloat_round_near_even = 0"
  by (simp_all add: f32_to_i32_def f32_to_ui32_def f32_to_i64_def f32_to_ui64_def Let_def integral_zero_f32 [OF assms]
      softfloat_roundToI32_def softfloat_roundToUI32_def softfloat_roundToI64_def softfloat_roundToUI64_def)

lemma f64_round_zero:
  assumes "fintegral 1023 52 a" "mbits a div 2 ^ 52 < 1023"
  shows "f64_to_i32 a softfloat_round_near_even = 0" "f64_to_ui32 a softfloat_round_near_even = 0"
    "f64_to_i64 a softfloat_round_near_even = 0" "f64_to_ui64 a softfloat_round_near_even = 0"
  by (simp_all add: f64_to_i32_def f64_to_ui32_def f64_to_i64_def f64_to_ui64_def Let_def integral_zero_f64 [OF assms]
      softfloat_roundToI32_def softfloat_roundToUI32_def softfloat_roundToI64_def softfloat_roundToUI64_def)

lemma in_range_signed:
  assumes "- (2 ^ w) \<le> ftrunc b p a" "ftrunc b p a < 2 ^ w"
  shows "if fneg a then fmag p (mbits a) div 2 ^ (b + p - 1) \<le> 2 ^ w else fmag p (mbits a) div 2 ^ (b + p - 1) < 2 ^ w"
proof -
  obtain t where t: "fmag p (mbits a) div 2 ^ (b + p - 1) = t" by blast
  show ?thesis using assms unfolding ftrunc_def t by (auto split: if_splits)
qed

lemma in_range_unsigned:
  assumes "0 \<le> ftrunc b p a" "ftrunc b p a < 2 ^ w"
  shows "fneg a \<Longrightarrow> fmag p (mbits a) div 2 ^ (b + p - 1) = 0" "fmag p (mbits a) div 2 ^ (b + p - 1) < 2 ^ w"
proof -
  obtain t where t: "fmag p (mbits a) div 2 ^ (b + p - 1) = t" by blast
  show "fneg a \<Longrightarrow> fmag p (mbits a) div 2 ^ (b + p - 1) = 0" using assms unfolding ftrunc_def t by simp
  show "fmag p (mbits a) div 2 ^ (b + p - 1) < 2 ^ w" using assms unfolding ftrunc_def t by (auto split: if_splits)
qed

lemma in_range_exp:
  assumes "0 < b" "- (2 ^ w) \<le> ftrunc b p a" "ftrunc b p a < 2 ^ w"
  shows "mbits a div 2 ^ p \<le> b + w"
proof (rule ccontr)
  assume "\<not> mbits a div 2 ^ p \<le> b + w"
  then have "2 ^ (w + 1) \<le> \<bar>ftrunc b p a\<bar>" using assms(1) by (intro ftrunc_large) auto
  moreover have "(2 :: int) ^ w < 2 ^ (w + 1)" by simp
  ultimately show False using assms(2,3) by linarith
qed

lemma f32_to_i32_exact:
  assumes "fintegral 127 23 a" "- (2 ^ 31) \<le> ftrunc 127 23 a" "ftrunc 127 23 a < 2 ^ 31"
  shows "sint (f32_to_i32 a softfloat_round_near_even) = ftrunc 127 23 a"
proof (cases "mbits a div 2 ^ 23 < 127")
  case True
  then show ?thesis using f32_round_zero(1) [OF assms(1)] integral_zero_f32(3) [OF assms(1)] by simp
next
  case False
  let ?E = "mbits a div 2 ^ 23" and ?t = "fmag 23 (mbits a) div 2 ^ (127 + 23 - 1)"
  have E: "127 \<le> ?E" "?E \<le> 127 + 31" using in_range_exp [of 127 31 23 a] assms False by simp_all
  have u: "unat (push_bit 32 (ucast (fracF32UI a) OR 0x800000 :: u64)) = ?t * 2 ^ 12 * 2 ^ (170 - ?E)"
    using E assms(1) by (intro exact_f32) auto
  have d: "nat (0xAA - expF32UI a) = 170 - ?E" "0 < 0xAA - expF32UI a" "expF32UI a \<noteq> 0" using E unfolding fields32 by linarith+
  have "softfloat_shiftRightJam64 (push_bit 32 (ucast (fracF32UI a) OR 0x800000)) (170 - ?E) = of_nat (?t * 2 ^ 12)"
    using E by (intro shiftRightJam64_exact [OF u]) auto
  then have "f32_to_i32 a softfloat_round_near_even = softfloat_roundToI32 (fneg a) (of_nat (?t * 2 ^ 12)) softfloat_round_near_even"
    unfolding f32_to_i32_def Let_def d(1) fields32(1) if_P [OF d(2)] using d(3) by (simp only: simp_thms if_True)
  then show ?thesis
    unfolding ftrunc_def using roundToI32_exact [OF in_range_signed [OF assms(2,3)]] by (simp only:)
qed

lemma f32_to_ui32_exact:
  assumes "fintegral 127 23 a" "0 \<le> ftrunc 127 23 a" "ftrunc 127 23 a < 2 ^ 32"
  shows "int (unat (f32_to_ui32 a softfloat_round_near_even)) = ftrunc 127 23 a"
proof (cases "mbits a div 2 ^ 23 < 127")
  case True
  then show ?thesis using f32_round_zero(2) [OF assms(1)] integral_zero_f32(3) [OF assms(1)] by simp
next
  case False
  let ?E = "mbits a div 2 ^ 23" and ?t = "fmag 23 (mbits a) div 2 ^ (127 + 23 - 1)"
  have E: "127 \<le> ?E" "?E \<le> 127 + 32" using in_range_exp [of 127 32 23 a] assms False by simp_all
  have n: "\<not> fneg a" using ftrunc_neg_small [of 127 a 23] assms(2) False by auto
  have u: "unat (push_bit 32 (ucast (fracF32UI a) OR 0x800000 :: u64)) = ?t * 2 ^ 12 * 2 ^ (170 - ?E)"
    using E assms(1) by (intro exact_f32) auto
  have d: "nat (0xAA - expF32UI a) = 170 - ?E" "0 < 0xAA - expF32UI a" "expF32UI a \<noteq> 0" using E unfolding fields32 by linarith+
  have "softfloat_shiftRightJam64 (push_bit 32 (ucast (fracF32UI a) OR 0x800000)) (170 - ?E) = of_nat (?t * 2 ^ 12)"
    using E by (intro shiftRightJam64_exact [OF u]) auto
  then have "f32_to_ui32 a softfloat_round_near_even = softfloat_roundToUI32 (fneg a) (of_nat (?t * 2 ^ 12)) softfloat_round_near_even"
    unfolding f32_to_ui32_def Let_def d(1) fields32(1) if_P [OF d(2)] using d(3) by (simp only: simp_thms if_True)
  then have "unat (f32_to_ui32 a softfloat_round_near_even) = ?t"
    using roundToUI32_exact [OF in_range_unsigned(2) [OF assms(2,3)], of "fneg a"] n by (simp only: simp_thms)
  then show ?thesis unfolding ftrunc_def using n by (simp only: if_False)
qed

lemma extra_f32:
  assumes "fintegral 127 23 a" "127 \<le> mbits a div 2 ^ 23" "mbits a div 2 ^ 23 \<le> 190"
  shows "(if 0xBE - expF32UI a \<noteq> 0 then softfloat_shiftRightJam64Extra (push_bit 40 (ucast (fracF32UI a) OR 0x800000)) 0 (nat (0xBE - expF32UI a))
     else (push_bit 40 (ucast (fracF32UI a) OR 0x800000), 0)) = (of_nat (fmag 23 (mbits a) div 2 ^ (127 + 23 - 1)), 0)"
proof -
  let ?E = "mbits a div 2 ^ 23" and ?t = "fmag 23 (mbits a) div 2 ^ (127 + 23 - 1)"
  have u: "unat (push_bit 40 (ucast (fracF32UI a) OR 0x800000 :: u64)) = ?t * 2 ^ 0 * 2 ^ (190 - ?E)"
    using assms by (intro exact_f32) auto
  have d: "nat (0xBE - expF32UI a) = 190 - ?E" "(0xBE - expF32UI a \<noteq> 0) = (?E \<noteq> 190)" using assms unfolding fields32 by linarith+
  show ?thesis
  proof (cases "?E = 190")
    case True
    then have "unat (push_bit 40 (ucast (fracF32UI a) OR 0x800000 :: u64)) = ?t" using u by (simp only: diff_self_eq_0 power_0 mult_1_right)
    then have "push_bit 40 (ucast (fracF32UI a) OR 0x800000 :: u64) = of_nat ?t" by (rule word_of_unat)
    then show ?thesis unfolding d using True by (simp only: simp_thms if_False)
  next
    case False
    have "softfloat_shiftRightJam64Extra (push_bit 40 (ucast (fracF32UI a) OR 0x800000)) 0 (190 - ?E) = (of_nat ?t, 0)"
      using False assms(2,3) by (intro shiftRightJam64Extra_exact; (simp only: u power_0 mult_1_right)?; linarith)
    then show ?thesis unfolding d using False by (simp only: simp_thms if_True)
  qed
qed

lemma f32_to_i64_exact:
  assumes "fintegral 127 23 a" "- (2 ^ 63) \<le> ftrunc 127 23 a" "ftrunc 127 23 a < 2 ^ 63"
  shows "sint (f32_to_i64 a softfloat_round_near_even) = ftrunc 127 23 a"
proof (cases "mbits a div 2 ^ 23 < 127")
  case True
  then show ?thesis using f32_round_zero(3) [OF assms(1)] integral_zero_f32(3) [OF assms(1)] by simp
next
  case False
  let ?E = "mbits a div 2 ^ 23" and ?t = "fmag 23 (mbits a) div 2 ^ (127 + 23 - 1)"
  have E: "127 \<le> ?E" "?E \<le> 190" using in_range_exp [of 127 63 23 a] assms False by simp_all
  have d: "\<not> 0xBE - expF32UI a < 0" "expF32UI a \<noteq> 0" using E unfolding fields32 by linarith+
  have "f32_to_i64 a softfloat_round_near_even = softfloat_roundToI64 (fneg a) (of_nat ?t) 0 softfloat_round_near_even"
    unfolding f32_to_i64_def Let_def if_not_P [OF d(1)] if_P [OF d(2)] extra_f32 [OF assms(1) E] fields32(1)
    by (simp only: prod.case)
  then show ?thesis
    unfolding ftrunc_def using roundToI64_exact [OF in_range_signed [OF assms(2,3)]] by (simp only:)
qed

lemma f32_to_ui64_exact:
  assumes "fintegral 127 23 a" "0 \<le> ftrunc 127 23 a" "ftrunc 127 23 a < 2 ^ 64"
  shows "int (unat (f32_to_ui64 a softfloat_round_near_even)) = ftrunc 127 23 a"
proof (cases "mbits a div 2 ^ 23 < 127")
  case True
  then show ?thesis using f32_round_zero(4) [OF assms(1)] integral_zero_f32(3) [OF assms(1)] by simp
next
  case False
  let ?E = "mbits a div 2 ^ 23" and ?t = "fmag 23 (mbits a) div 2 ^ (127 + 23 - 1)"
  have n: "\<not> fneg a" using ftrunc_neg_small [of 127 a 23] assms(2) False by auto
  have E: "127 \<le> ?E" "?E \<le> 190" using ftrunc_large [of 127 64 a 23] assms False by linarith+
  have d: "\<not> 0xBE - expF32UI a < 0" "expF32UI a \<noteq> 0" using E unfolding fields32 by linarith+
  have "f32_to_ui64 a softfloat_round_near_even = softfloat_roundToUI64 (fneg a) (of_nat ?t) 0 softfloat_round_near_even"
    unfolding f32_to_ui64_def Let_def if_not_P [OF d(1)] if_P [OF d(2)] extra_f32 [OF assms(1) E] fields32(1)
    by (simp only: prod.case)
  then have "unat (f32_to_ui64 a softfloat_round_near_even) = ?t"
    using roundToUI64_exact [of "fneg a" ?t, OF _ in_range_unsigned(2) [OF assms(2,3)]] n by (simp only: simp_thms)
  then show ?thesis unfolding ftrunc_def using n by (simp only: if_False)
qed

lemma f64_jam:
  assumes "fintegral 1023 52 a" "1023 \<le> mbits a div 2 ^ 52" "mbits a div 2 ^ 52 \<le> 1055"
  shows "(if expF64UI a \<noteq> 0 then fracF64UI a OR 0x10000000000000 else fracF64UI a) = fracF64UI a OR 0x10000000000000"
    "(if 0 < 0x427 - expF64UI a then softfloat_shiftRightJam64 (fracF64UI a OR 0x10000000000000) (nat (0x427 - expF64UI a))
      else fracF64UI a OR 0x10000000000000) = of_nat (fmag 52 (mbits a) div 2 ^ (1023 + 52 - 1) * 2 ^ 12)"
proof -
  let ?E = "mbits a div 2 ^ 52" and ?t = "fmag 52 (mbits a) div 2 ^ (1023 + 52 - 1)"
  have u: "unat (fracF64UI a OR 0x10000000000000) = ?t * 2 ^ 12 * 2 ^ (1063 - ?E)"
    using assms by (intro exact_f64) auto
  have d: "nat (0x427 - expF64UI a) = 1063 - ?E" "0 < 0x427 - expF64UI a" "expF64UI a \<noteq> 0"
    using assms unfolding fields64 by linarith+
  show "(if expF64UI a \<noteq> 0 then fracF64UI a OR 0x10000000000000 else fracF64UI a) = fracF64UI a OR 0x10000000000000"
    by (rule if_P [OF d(3)])
  have "softfloat_shiftRightJam64 (fracF64UI a OR 0x10000000000000) (1063 - ?E) = of_nat (?t * 2 ^ 12)"
    using assms(2,3) by (intro shiftRightJam64_exact [OF u]) linarith+
  then show "(if 0 < 0x427 - expF64UI a then softfloat_shiftRightJam64 (fracF64UI a OR 0x10000000000000) (nat (0x427 - expF64UI a))
      else fracF64UI a OR 0x10000000000000) = of_nat (?t * 2 ^ 12)"
    unfolding if_P [OF d(2)] d(1) .
qed

lemma f64_to_i32_exact:
  assumes "fintegral 1023 52 a" "- (2 ^ 31) \<le> ftrunc 1023 52 a" "ftrunc 1023 52 a < 2 ^ 31"
  shows "sint (f64_to_i32 a softfloat_round_near_even) = ftrunc 1023 52 a"
proof (cases "mbits a div 2 ^ 52 < 1023")
  case True
  then show ?thesis using f64_round_zero(1) [OF assms(1)] integral_zero_f64(3) [OF assms(1)] by simp
next
  case False
  then have E: "1023 \<le> mbits a div 2 ^ 52" "mbits a div 2 ^ 52 \<le> 1055"
    using in_range_exp [of 1023 31 52 a] assms(2,3) by simp_all
  show ?thesis
    unfolding f64_to_i32_def Let_def f64_jam [OF assms(1) E] fields64(1) ftrunc_def
    by (rule roundToI32_exact [OF in_range_signed [OF assms(2,3)]])
qed

lemma f64_to_ui32_exact:
  assumes "fintegral 1023 52 a" "0 \<le> ftrunc 1023 52 a" "ftrunc 1023 52 a < 2 ^ 32"
  shows "int (unat (f64_to_ui32 a softfloat_round_near_even)) = ftrunc 1023 52 a"
proof (cases "mbits a div 2 ^ 52 < 1023")
  case True
  then show ?thesis using f64_round_zero(2) [OF assms(1)] integral_zero_f64(3) [OF assms(1)] by simp
next
  case False
  then have E: "1023 \<le> mbits a div 2 ^ 52" "mbits a div 2 ^ 52 \<le> 1055" and n: "\<not> fneg a"
    using in_range_exp [of 1023 32 52 a] ftrunc_neg_small [of 1023 a 52] assms(2,3) by auto
  have "unat (f64_to_ui32 a softfloat_round_near_even) = fmag 52 (mbits a) div 2 ^ (1023 + 52 - 1)"
    unfolding f64_to_ui32_def Let_def f64_jam [OF assms(1) E] fields64(1)
    using n by (intro roundToUI32_exact [OF in_range_unsigned(2) [OF assms(2,3)]]) blast
  then show ?thesis unfolding ftrunc_def using n by (simp only: if_False)
qed

lemma extra_f64:
  assumes "fintegral 1023 52 a" "1023 \<le> mbits a div 2 ^ 52" "mbits a div 2 ^ 52 < 1087"
  shows "(if 0x433 - expF64UI a \<le> 0 then (push_bit (nat (- (0x433 - expF64UI a))) (fracF64UI a OR 0x10000000000000), 0)
     else softfloat_shiftRightJam64Extra (fracF64UI a OR 0x10000000000000) 0 (nat (0x433 - expF64UI a))) =
    (of_nat (fmag 52 (mbits a) div 2 ^ (1023 + 52 - 1)), 0)"
    "\<not> 0x433 - expF64UI a < - 11" "expF64UI a \<noteq> 0"
proof -
  let ?E = "mbits a div 2 ^ 52" and ?t = "fmag 52 (mbits a) div 2 ^ (1023 + 52 - 1)"
  have d: "nat (0x433 - expF64UI a) = 1075 - ?E" "nat (- (0x433 - expF64UI a)) = ?E - 1075"
    "(0x433 - expF64UI a \<le> 0) = (1075 \<le> ?E)" "\<not> 0x433 - expF64UI a < - 11" "expF64UI a \<noteq> 0"
    using assms(2,3) unfolding fields64 by linarith+
  then show "\<not> 0x433 - expF64UI a < - 11" "expF64UI a \<noteq> 0" by blast+
  show "(if 0x433 - expF64UI a \<le> 0 then (push_bit (nat (- (0x433 - expF64UI a))) (fracF64UI a OR 0x10000000000000), 0)
     else softfloat_shiftRightJam64Extra (fracF64UI a OR 0x10000000000000) 0 (nat (0x433 - expF64UI a))) = (of_nat ?t, 0)"
  proof (cases "1075 \<le> ?E")
    case True
    then have "unat (push_bit (?E - 1075) (fracF64UI a OR 0x10000000000000)) = ?t"
      using shifted_f64 [OF assms(2,3)] by (simp only: if_True)
    then show ?thesis unfolding d if_P [OF True] using word_of_unat by blast
  next
    case False
    then have "unat (fracF64UI a OR 0x10000000000000) = ?t * 2 ^ 0 * 2 ^ (1075 - ?E)"
      using assms by (intro exact_f64) auto
    then have u: "unat (fracF64UI a OR 0x10000000000000) = ?t * 2 ^ (1075 - ?E)" by (simp only: power_0 mult_1_right)
    show ?thesis
      unfolding d if_not_P [OF False] using False assms(2) by (intro shiftRightJam64Extra_exact [OF u]) linarith+
  qed
qed

lemma f64_to_i64_exact:
  assumes "fintegral 1023 52 a" "- (2 ^ 63) \<le> ftrunc 1023 52 a" "ftrunc 1023 52 a < 2 ^ 63"
  shows "sint (f64_to_i64 a softfloat_round_near_even) = ftrunc 1023 52 a"
proof (cases "mbits a div 2 ^ 52 < 1023")
  case True
  then show ?thesis using f64_round_zero(3) [OF assms(1)] integral_zero_f64(3) [OF assms(1)] by simp
next
  case False
  let ?t = "fmag 52 (mbits a) div 2 ^ (1023 + 52 - 1)"
  have E: "1023 \<le> mbits a div 2 ^ 52" "mbits a div 2 ^ 52 < 1087"
    using False in_range_exp [of 1023 63 52 a] assms(2,3) by simp_all
  note x = extra_f64 [OF assms(1) E]
  have "f64_to_i64 a softfloat_round_near_even = softfloat_roundToI64 (fneg a) (of_nat ?t) 0 softfloat_round_near_even"
    unfolding f64_to_i64_def Let_def if_not_P [OF x(2)] if_P [OF x(3)] x(1) fields64(1) by (simp only: prod.case)
  then show ?thesis
    unfolding ftrunc_def using roundToI64_exact [OF in_range_signed [OF assms(2,3)]] by (simp only:)
qed

lemma f64_to_ui64_exact:
  assumes "fintegral 1023 52 a" "0 \<le> ftrunc 1023 52 a" "ftrunc 1023 52 a < 2 ^ 64"
  shows "int (unat (f64_to_ui64 a softfloat_round_near_even)) = ftrunc 1023 52 a"
proof (cases "mbits a div 2 ^ 52 < 1023")
  case True
  then show ?thesis using f64_round_zero(4) [OF assms(1)] integral_zero_f64(3) [OF assms(1)] by simp
next
  case False
  let ?t = "fmag 52 (mbits a) div 2 ^ (1023 + 52 - 1)"
  have n: "\<not> fneg a" using ftrunc_neg_small [of 1023 a 52] assms(2) False by auto
  have E: "1023 \<le> mbits a div 2 ^ 52" "mbits a div 2 ^ 52 < 1087"
    using False ftrunc_large [of 1023 64 a 52] assms(2,3) by linarith+
  note x = extra_f64 [OF assms(1) E]
  have "f64_to_ui64 a softfloat_round_near_even = softfloat_roundToUI64 (fneg a) (of_nat ?t) 0 softfloat_round_near_even"
    unfolding f64_to_ui64_def Let_def if_not_P [OF x(2)] if_P [OF x(3)] x(1) fields64(1) by (simp only: prod.case)
  then have "unat (f64_to_ui64 a softfloat_round_near_even) = ?t"
    using roundToUI64_exact [of "fneg a" ?t, OF _ in_range_unsigned(2) [OF assms(2,3)]] n by (simp only: simp_thms)
  then show ?thesis unfolding ftrunc_def using n by (simp only: if_False)
qed

end
