(* ===== verification/Softfloat_Arith.thy ===== *)
theory Softfloat_Arith
  imports Softfloat_Core
begin

unbundle bit_operations_syntax

section \<open>SoftFloat: arithmetic and conversions to floats\<close>

text \<open>
  The arithmetic of the vendored Berkeley SoftFloat (\<open>libraries/psizam/external/softfloat/source\<close>, built with
  \<open>SOFTFLOAT_FAST_INT64\<close>, \<open>SOFTFLOAT_FAST_DIV64TO32\<close> and \<open>INLINE_LEVEL=5\<close>): addition, subtraction,
  multiplication, division, square root, the conversions from integers and between the two formats, down to the
  jamming shifts, the leading-zero counts, the normalisation and \<open>softfloat_roundPackTo*\<close>. Bit patterns are words of the
  format's width, \<open>uint_fast32_t\<close> and \<open>uint_fast64_t\<close> significands are 64-bit words, exponents and shift distances
  are integers. The rounding mode is the global \<open>softfloat_roundingMode\<close>, which nothing in the program assigns.
  A shift by a negative distance, which the callers never ask for, is a shift by zero here.
\<close>

subsection \<open>Primitives\<close>

definition softfloat_roundingMode :: rounding where
  "softfloat_roundingMode = softfloat_round_near_even"

definition softfloat_countLeadingZeros8 :: "int list" where
  "softfloat_countLeadingZeros8 =
     [8, 7] @ replicate 2 6 @ replicate 4 5 @ replicate 8 4 @ replicate 16 3 @ replicate 32 2
       @ replicate 64 1 @ replicate 128 0"

definition softfloat_countLeadingZeros32 :: "u32 \<Rightarrow> int" where
  "softfloat_countLeadingZeros32 a =
     (let count = 0;
          (count, a) = (if a < 0x10000 then (16, push_bit 16 a) else (count, a));
          (count, a) = (if a < 0x1000000 then (count + 8, push_bit 8 a) else (count, a))
      in count + softfloat_countLeadingZeros8 ! unat (drop_bit 24 a))"

definition softfloat_countLeadingZeros64 :: "u64 \<Rightarrow> int" where
  "softfloat_countLeadingZeros64 a =
     (let count = 0; a32 = ucast (drop_bit 32 a) :: u32;
          (count, a32) = (if a32 = 0 then (32, ucast a) else (count, a32));
          (count, a32) = (if a32 < 0x10000 then (count + 16, push_bit 16 a32) else (count, a32));
          (count, a32) = (if a32 < 0x1000000 then (count + 8, push_bit 8 a32) else (count, a32))
      in count + softfloat_countLeadingZeros8 ! unat (drop_bit 24 a32))"

definition softfloat_shortShiftRightJam64 :: "u64 \<Rightarrow> nat \<Rightarrow> u64" where
  "softfloat_shortShiftRightJam64 a dist = drop_bit dist a OR of_bool (a AND (push_bit dist 1 - 1) \<noteq> 0)"

definition softfloat_shiftRightJam32 :: "u32 \<Rightarrow> nat \<Rightarrow> u32" where
  "softfloat_shiftRightJam32 a dist =
     (if dist < 31 then drop_bit dist a OR of_bool (push_bit (unat ((- of_nat dist :: u64) AND 31)) a \<noteq> 0)
      else of_bool (a \<noteq> 0))"

definition softfloat_mul64To128 :: "u64 \<Rightarrow> u64 \<Rightarrow> u64 \<times> u64" where
  "softfloat_mul64To128 a b =
     (let a32 = drop_bit 32 a; a0 = a AND 0xFFFFFFFF; b32 = drop_bit 32 b; b0 = b AND 0xFFFFFFFF;
          v0 = a0 * b0; mid1 = a32 * b0; mid = mid1 + a0 * b32; v64 = a32 * b32;
          v64 = v64 + (push_bit 32 (of_bool (mid < mid1)) OR drop_bit 32 mid);
          mid = push_bit 32 mid;
          v0 = v0 + mid; v64 = v64 + of_bool (v0 < mid)
      in (v64, v0))"

definition softfloat_approxRecip32_1 :: "u32 \<Rightarrow> u32" where
  "softfloat_approxRecip32_1 a = ucast (0x7FFFFFFFFFFFFFFF div (ucast a :: u64))"

definition softfloat_approxRecipSqrt_1k0s :: "u16 list" where
  "softfloat_approxRecipSqrt_1k0s =
     [0xB4C9, 0xFFAB, 0xAA7D, 0xF11C, 0xA1C5, 0xE4C7, 0x9A43, 0xDA29,
      0x93B5, 0xD0E5, 0x8DED, 0xC8B7, 0x88C6, 0xC16D, 0x8424, 0xBAE1]"

definition softfloat_approxRecipSqrt_1k1s :: "u16 list" where
  "softfloat_approxRecipSqrt_1k1s =
     [0xA5A5, 0xEA42, 0x8C21, 0xC62D, 0x788F, 0xAA7F, 0x6928, 0x94B6,
      0x5CC7, 0x8335, 0x52A6, 0x74E2, 0x4A3E, 0x68FE, 0x432B, 0x5EFD]"

definition softfloat_approxRecipSqrt32_1 :: "bool \<Rightarrow> u32 \<Rightarrow> u32" where
  "softfloat_approxRecipSqrt32_1 oddExpA a =
     (let index = unat (drop_bit 27 a AND 0xE) + of_bool oddExpA;
          eps = ucast (drop_bit 12 a) :: u16;
          r0 = ucast (ucast (softfloat_approxRecipSqrt_1k0s ! index)
                      - drop_bit 20 (ucast (softfloat_approxRecipSqrt_1k1s ! index) * (ucast eps :: u64))) :: u16;
          ESqrR0 = ucast r0 * ucast r0 :: u64;
          ESqrR0 = (if \<not> oddExpA then push_bit 1 ESqrR0 else ESqrR0);
          sigma0 = ucast (NOT (drop_bit 23 (ucast (ucast ESqrR0 :: u32) * (ucast a :: u64)))) :: u32;
          r = push_bit 16 (ucast r0) + drop_bit 25 (ucast r0 * (ucast sigma0 :: u64)) :: u64;
          sqrSigma0 = ucast (drop_bit 32 (ucast sigma0 * (ucast sigma0 :: u64))) :: u32;
          r = r + drop_bit 48 (ucast (ucast (drop_bit 1 r + drop_bit 3 r - push_bit 14 (ucast r0)) :: u32)
                               * (ucast sqrSigma0 :: u64))
      in ucast (if r AND 0x80000000 = 0 then 0x80000000 else r))"

subsection \<open>NaNs\<close>

definition defaultNaNF32UI :: u32 where "defaultNaNF32UI = 0xFFC00000"
definition defaultNaNF64UI :: u64 where "defaultNaNF64UI = 0xFFF8000000000000"

definition softfloat_isSigNaNF32UI :: "u32 \<Rightarrow> bool" where
  "softfloat_isSigNaNF32UI a = (a AND 0x7FC00000 = 0x7F800000 \<and> a AND 0x003FFFFF \<noteq> 0)"

definition softfloat_isSigNaNF64UI :: "u64 \<Rightarrow> bool" where
  "softfloat_isSigNaNF64UI a = (a AND 0x7FF8000000000000 = 0x7FF0000000000000 \<and> a AND 0x0007FFFFFFFFFFFF \<noteq> 0)"

definition softfloat_propagateNaNF32UI :: "u32 \<Rightarrow> u32 \<Rightarrow> u32" where
  "softfloat_propagateNaNF32UI a b =
     (if softfloat_isSigNaNF32UI a then a OR 0x00400000
      else (if isNaNF32UI a then a else b) OR 0x00400000)"

definition softfloat_propagateNaNF64UI :: "u64 \<Rightarrow> u64 \<Rightarrow> u64" where
  "softfloat_propagateNaNF64UI a b =
     (if softfloat_isSigNaNF64UI a then a OR 0x0008000000000000
      else (if isNaNF64UI a then a else b) OR 0x0008000000000000)"

record commonNaN =
  cn_sign :: bool
  cn_v64 :: u64
  cn_v0 :: u64

definition softfloat_f32UIToCommonNaN :: "u32 \<Rightarrow> commonNaN" where
  "softfloat_f32UIToCommonNaN a = \<lparr>cn_sign = (drop_bit 31 a \<noteq> 0), cn_v64 = push_bit 41 (ucast a), cn_v0 = 0\<rparr>"

definition softfloat_f64UIToCommonNaN :: "u64 \<Rightarrow> commonNaN" where
  "softfloat_f64UIToCommonNaN a = \<lparr>cn_sign = (drop_bit 63 a \<noteq> 0), cn_v64 = push_bit 12 a, cn_v0 = 0\<rparr>"

definition softfloat_commonNaNToF32UI :: "commonNaN \<Rightarrow> u32" where
  "softfloat_commonNaNToF32UI z = push_bit 31 (of_bool (cn_sign z)) OR 0x7FC00000 OR ucast (drop_bit 41 (cn_v64 z))"

definition softfloat_commonNaNToF64UI :: "commonNaN \<Rightarrow> u64" where
  "softfloat_commonNaNToF64UI z = push_bit 63 (of_bool (cn_sign z)) OR 0x7FF8000000000000 OR drop_bit 12 (cn_v64 z)"

subsection \<open>Normalising, rounding and packing\<close>

definition softfloat_normSubnormalF32Sig :: "u64 \<Rightarrow> int \<times> u64" where
  "softfloat_normSubnormalF32Sig sig =
     (let shiftDist = softfloat_countLeadingZeros32 (ucast sig) - 8 in (1 - shiftDist, push_bit (nat shiftDist) sig))"

definition softfloat_normSubnormalF64Sig :: "u64 \<Rightarrow> int \<times> u64" where
  "softfloat_normSubnormalF64Sig sig =
     (let shiftDist = softfloat_countLeadingZeros64 sig - 11 in (1 - shiftDist, push_bit (nat shiftDist) sig))"

definition softfloat_roundPackToF32 :: "bool \<Rightarrow> int \<Rightarrow> u64 \<Rightarrow> u32" where
  "softfloat_roundPackToF32 sign e sig =
     (let roundNearEven = (softfloat_roundingMode = softfloat_round_near_even);
          roundIncrement =
            (if \<not> roundNearEven \<and> softfloat_roundingMode \<noteq> softfloat_round_near_maxMag
             then (if softfloat_roundingMode = (if sign then softfloat_round_min else softfloat_round_max) then 0x7F else 0)
             else 0x40);
          roundBits = sig AND 0x7F in
      if 0xFD \<le> e mod 2 ^ 32 \<and> \<not> e < 0 \<and> (0xFD < e \<or> 0x80000000 \<le> sig + roundIncrement)
      then packToF32UI sign 0xFF 0 - of_bool (roundIncrement = 0)
      else let (e, sig, roundBits) =
                 (if 0xFD \<le> e mod 2 ^ 32 \<and> e < 0
                  then let sig = ucast (softfloat_shiftRightJam32 (ucast sig) (nat (- e))) in (0, sig, sig AND 0x7F)
                  else (e, sig, roundBits));
               sig = drop_bit 7 (sig + roundIncrement);
               sig = sig AND NOT (of_bool (roundBits XOR 0x40 = 0 \<and> roundNearEven));
               e = (if sig = 0 then 0 else e)
           in packToF32UI sign e (ucast sig))"

definition softfloat_roundPackToF64 :: "bool \<Rightarrow> int \<Rightarrow> u64 \<Rightarrow> u64" where
  "softfloat_roundPackToF64 sign e sig =
     (let roundNearEven = (softfloat_roundingMode = softfloat_round_near_even);
          roundIncrement =
            (if \<not> roundNearEven \<and> softfloat_roundingMode \<noteq> softfloat_round_near_maxMag
             then (if softfloat_roundingMode = (if sign then softfloat_round_min else softfloat_round_max) then 0x3FF else 0)
             else 0x200);
          roundBits = sig AND 0x3FF in
      if 0x7FD \<le> e mod 2 ^ 16 \<and> \<not> e < 0 \<and> (0x7FD < e \<or> 0x8000000000000000 \<le> sig + roundIncrement)
      then packToF64UI sign 0x7FF 0 - of_bool (roundIncrement = 0)
      else let (e, sig, roundBits) =
                 (if 0x7FD \<le> e mod 2 ^ 16 \<and> e < 0
                  then let sig = softfloat_shiftRightJam64 sig (nat (- e)) in (0, sig, sig AND 0x3FF)
                  else (e, sig, roundBits));
               sig = drop_bit 10 (sig + roundIncrement);
               sig = sig AND NOT (of_bool (roundBits XOR 0x200 = 0 \<and> roundNearEven));
               e = (if sig = 0 then 0 else e)
           in packToF64UI sign e sig)"

definition softfloat_normRoundPackToF32 :: "bool \<Rightarrow> int \<Rightarrow> u64 \<Rightarrow> u32" where
  "softfloat_normRoundPackToF32 sign e sig =
     (let shiftDist = softfloat_countLeadingZeros32 (ucast sig) - 1; e = e - shiftDist in
      if 7 \<le> shiftDist \<and> e mod 2 ^ 32 < 0xFD
      then packToF32UI sign (if sig \<noteq> 0 then e else 0) (ucast (push_bit (nat (shiftDist - 7)) sig))
      else softfloat_roundPackToF32 sign e (push_bit (nat shiftDist) sig))"

definition softfloat_normRoundPackToF64 :: "bool \<Rightarrow> int \<Rightarrow> u64 \<Rightarrow> u64" where
  "softfloat_normRoundPackToF64 sign e sig =
     (let shiftDist = softfloat_countLeadingZeros64 sig - 1; e = e - shiftDist in
      if 10 \<le> shiftDist \<and> e mod 2 ^ 32 < 0x7FD
      then packToF64UI sign (if sig \<noteq> 0 then e else 0) (push_bit (nat (shiftDist - 10)) sig)
      else softfloat_roundPackToF64 sign e (push_bit (nat shiftDist) sig))"

subsection \<open>Addition and subtraction\<close>

definition softfloat_addMagsF32 :: "u32 \<Rightarrow> u32 \<Rightarrow> u32" where
  "softfloat_addMagsF32 uiA uiB =
     (let expA = expF32UI uiA; sigA = ucast (fracF32UI uiA) :: u64;
          expB = expF32UI uiB; sigB = ucast (fracF32UI uiB) :: u64;
          expDiff = expA - expB; signZ = signF32UI uiA in
      if expDiff = 0 then
        (if expA = 0 then ucast (ucast uiA + sigB)
         else if expA = 0xFF then (if sigA OR sigB \<noteq> 0 then softfloat_propagateNaNF32UI uiA uiB else uiA)
         else let expZ = expA; sigZ = 0x01000000 + sigA + sigB in
           if sigZ AND 1 = 0 \<and> expZ < 0xFE then packToF32UI signZ expZ (ucast (drop_bit 1 sigZ))
           else softfloat_roundPackToF32 signZ expZ (push_bit 6 sigZ))
      else
        let sigA = push_bit 6 sigA; sigB = push_bit 6 sigB in
        if expDiff < 0 \<and> expB = 0xFF then
          (if sigB \<noteq> 0 then softfloat_propagateNaNF32UI uiA uiB else packToF32UI signZ 0xFF 0)
        else if \<not> expDiff < 0 \<and> expA = 0xFF then
          (if sigA \<noteq> 0 then softfloat_propagateNaNF32UI uiA uiB else uiA)
        else
          let (expZ, sigA, sigB) =
                (if expDiff < 0 then
                   let sigA = sigA + (if expA \<noteq> 0 then 0x20000000 else sigA)
                   in (expB, ucast (softfloat_shiftRightJam32 (ucast sigA) (nat (- expDiff))), sigB)
                 else
                   let sigB = sigB + (if expB \<noteq> 0 then 0x20000000 else sigB)
                   in (expA, sigA, ucast (softfloat_shiftRightJam32 (ucast sigB) (nat expDiff))));
              sigZ = 0x20000000 + sigA + sigB;
              (expZ, sigZ) = (if sigZ < 0x40000000 then (expZ - 1, push_bit 1 sigZ) else (expZ, sigZ))
          in softfloat_roundPackToF32 signZ expZ sigZ)"

definition softfloat_subMagsF32 :: "u32 \<Rightarrow> u32 \<Rightarrow> u32" where
  "softfloat_subMagsF32 uiA uiB =
     (let expA = expF32UI uiA; sigA = ucast (fracF32UI uiA) :: u64;
          expB = expF32UI uiB; sigB = ucast (fracF32UI uiB) :: u64;
          expDiff = expA - expB; signZ = signF32UI uiA in
      if expDiff = 0 then
        (if expA = 0xFF then (if sigA OR sigB \<noteq> 0 then softfloat_propagateNaNF32UI uiA uiB else defaultNaNF32UI)
         else let sigDiff = uint sigA - uint sigB in
           if sigDiff = 0 then packToF32UI (softfloat_roundingMode = softfloat_round_min) 0 0
           else let expA = (if expA \<noteq> 0 then expA - 1 else expA);
                    (signZ, sigDiff) = (if sigDiff < 0 then (\<not> signZ, - sigDiff) else (signZ, sigDiff));
                    shiftDist = softfloat_countLeadingZeros32 (word_of_int sigDiff) - 8;
                    expZ = expA - shiftDist;
                    (shiftDist, expZ) = (if expZ < 0 then (expA, 0) else (shiftDist, expZ))
             in packToF32UI signZ expZ (word_of_int (push_bit (nat shiftDist) sigDiff)))
      else
        let sigA = push_bit 7 sigA; sigB = push_bit 7 sigB in
        if expDiff < 0 then
          (if expB = 0xFF then
             (if sigB \<noteq> 0 then softfloat_propagateNaNF32UI uiA uiB else packToF32UI (\<not> signZ) 0xFF 0)
           else let sigX = sigB OR 0x40000000; sigY = sigA + (if expA \<noteq> 0 then 0x40000000 else sigA)
             in softfloat_normRoundPackToF32 (\<not> signZ) (expB - 1)
                  (sigX - ucast (softfloat_shiftRightJam32 (ucast sigY) (nat (- expDiff)))))
        else
          (if expA = 0xFF then (if sigA \<noteq> 0 then softfloat_propagateNaNF32UI uiA uiB else uiA)
           else let sigX = sigA OR 0x40000000; sigY = sigB + (if expB \<noteq> 0 then 0x40000000 else sigB)
             in softfloat_normRoundPackToF32 signZ (expA - 1)
                  (sigX - ucast (softfloat_shiftRightJam32 (ucast sigY) (nat expDiff)))))"

definition f32_add :: "u32 \<Rightarrow> u32 \<Rightarrow> u32" where
  "f32_add a b = (if signF32UI (a XOR b) then softfloat_subMagsF32 a b else softfloat_addMagsF32 a b)"

definition f32_sub :: "u32 \<Rightarrow> u32 \<Rightarrow> u32" where
  "f32_sub a b = (if signF32UI (a XOR b) then softfloat_addMagsF32 a b else softfloat_subMagsF32 a b)"

definition softfloat_addMagsF64 :: "u64 \<Rightarrow> u64 \<Rightarrow> bool \<Rightarrow> u64" where
  "softfloat_addMagsF64 uiA uiB signZ =
     (let expA = expF64UI uiA; sigA = fracF64UI uiA; expB = expF64UI uiB; sigB = fracF64UI uiB;
          expDiff = expA - expB in
      if expDiff = 0 then
        (if expA = 0 then uiA + sigB
         else if expA = 0x7FF then (if sigA OR sigB \<noteq> 0 then softfloat_propagateNaNF64UI uiA uiB else uiA)
         else softfloat_roundPackToF64 signZ expA (push_bit 9 (0x0020000000000000 + sigA + sigB)))
      else
        let sigA = push_bit 9 sigA; sigB = push_bit 9 sigB in
        if expDiff < 0 \<and> expB = 0x7FF then
          (if sigB \<noteq> 0 then softfloat_propagateNaNF64UI uiA uiB else packToF64UI signZ 0x7FF 0)
        else if \<not> expDiff < 0 \<and> expA = 0x7FF then
          (if sigA \<noteq> 0 then softfloat_propagateNaNF64UI uiA uiB else uiA)
        else
          let (expZ, sigA, sigB) =
                (if expDiff < 0 then
                   let sigA = (if expA \<noteq> 0 then sigA + 0x2000000000000000 else push_bit 1 sigA)
                   in (expB, softfloat_shiftRightJam64 sigA (nat (- expDiff)), sigB)
                 else
                   let sigB = (if expB \<noteq> 0 then sigB + 0x2000000000000000 else push_bit 1 sigB)
                   in (expA, sigA, softfloat_shiftRightJam64 sigB (nat expDiff)));
              sigZ = 0x2000000000000000 + sigA + sigB;
              (expZ, sigZ) = (if sigZ < 0x4000000000000000 then (expZ - 1, push_bit 1 sigZ) else (expZ, sigZ))
          in softfloat_roundPackToF64 signZ expZ sigZ)"

definition softfloat_subMagsF64 :: "u64 \<Rightarrow> u64 \<Rightarrow> bool \<Rightarrow> u64" where
  "softfloat_subMagsF64 uiA uiB signZ =
     (let expA = expF64UI uiA; sigA = fracF64UI uiA; expB = expF64UI uiB; sigB = fracF64UI uiB;
          expDiff = expA - expB in
      if expDiff = 0 then
        (if expA = 0x7FF then (if sigA OR sigB \<noteq> 0 then softfloat_propagateNaNF64UI uiA uiB else defaultNaNF64UI)
         else let sigDiff = uint sigA - uint sigB in
           if sigDiff = 0 then packToF64UI (softfloat_roundingMode = softfloat_round_min) 0 0
           else let expA = (if expA \<noteq> 0 then expA - 1 else expA);
                    (signZ, sigDiff) = (if sigDiff < 0 then (\<not> signZ, - sigDiff) else (signZ, sigDiff));
                    shiftDist = softfloat_countLeadingZeros64 (word_of_int sigDiff) - 11;
                    expZ = expA - shiftDist;
                    (shiftDist, expZ) = (if expZ < 0 then (expA, 0) else (shiftDist, expZ))
             in packToF64UI signZ expZ (word_of_int (push_bit (nat shiftDist) sigDiff)))
      else
        let sigA = push_bit 10 sigA; sigB = push_bit 10 sigB in
        if expDiff < 0 then
          (if expB = 0x7FF then
             (if sigB \<noteq> 0 then softfloat_propagateNaNF64UI uiA uiB else packToF64UI (\<not> signZ) 0x7FF 0)
           else let sigA = sigA + (if expA \<noteq> 0 then 0x4000000000000000 else sigA);
                    sigA = softfloat_shiftRightJam64 sigA (nat (- expDiff));
                    sigB = sigB OR 0x4000000000000000
             in softfloat_normRoundPackToF64 (\<not> signZ) (expB - 1) (sigB - sigA))
        else
          (if expA = 0x7FF then (if sigA \<noteq> 0 then softfloat_propagateNaNF64UI uiA uiB else uiA)
           else let sigB = sigB + (if expB \<noteq> 0 then 0x4000000000000000 else sigB);
                    sigB = softfloat_shiftRightJam64 sigB (nat expDiff);
                    sigA = sigA OR 0x4000000000000000
             in softfloat_normRoundPackToF64 signZ (expA - 1) (sigA - sigB)))"

definition f64_add :: "u64 \<Rightarrow> u64 \<Rightarrow> u64" where
  "f64_add a b =
     (let signA = signF64UI a; signB = signF64UI b in
      if signA = signB then softfloat_addMagsF64 a b signA else softfloat_subMagsF64 a b signA)"

definition f64_sub :: "u64 \<Rightarrow> u64 \<Rightarrow> u64" where
  "f64_sub a b =
     (let signA = signF64UI a; signB = signF64UI b in
      if signA = signB then softfloat_subMagsF64 a b signA else softfloat_addMagsF64 a b signA)"

subsection \<open>Multiplication, division and square root\<close>

definition f32_mul :: "u32 \<Rightarrow> u32 \<Rightarrow> u32" where
  "f32_mul a b =
     (let signA = signF32UI a; expA = expF32UI a; sigA = ucast (fracF32UI a) :: u64;
          signB = signF32UI b; expB = expF32UI b; sigB = ucast (fracF32UI b) :: u64;
          signZ = (signA \<noteq> signB);
          infArg = (\<lambda>magBits. if magBits = 0 then defaultNaNF32UI else packToF32UI signZ 0xFF 0) in
      if expA = 0xFF then
        (if sigA \<noteq> 0 \<or> expB = 0xFF \<and> sigB \<noteq> 0 then softfloat_propagateNaNF32UI a b
         else infArg (word_of_int expB OR sigB))
      else if expB = 0xFF then
        (if sigB \<noteq> 0 then softfloat_propagateNaNF32UI a b else infArg (word_of_int expA OR sigA))
      else if expA = 0 \<and> sigA = 0 then packToF32UI signZ 0 0
      else let (expA, sigA) = (if expA = 0 then softfloat_normSubnormalF32Sig sigA else (expA, sigA)) in
      if expB = 0 \<and> sigB = 0 then packToF32UI signZ 0 0
      else let (expB, sigB) = (if expB = 0 then softfloat_normSubnormalF32Sig sigB else (expB, sigB));
               expZ = expA + expB - 0x7F;
               sigA = push_bit 7 (sigA OR 0x00800000);
               sigB = push_bit 8 (sigB OR 0x00800000);
               sigZ = softfloat_shortShiftRightJam64 (sigA * sigB) 32;
               (expZ, sigZ) = (if sigZ < 0x40000000 then (expZ - 1, push_bit 1 sigZ) else (expZ, sigZ))
           in softfloat_roundPackToF32 signZ expZ sigZ)"

definition f64_mul :: "u64 \<Rightarrow> u64 \<Rightarrow> u64" where
  "f64_mul a b =
     (let signA = signF64UI a; expA = expF64UI a; sigA = fracF64UI a;
          signB = signF64UI b; expB = expF64UI b; sigB = fracF64UI b;
          signZ = (signA \<noteq> signB);
          infArg = (\<lambda>magBits. if magBits = 0 then defaultNaNF64UI else packToF64UI signZ 0x7FF 0) in
      if expA = 0x7FF then
        (if sigA \<noteq> 0 \<or> expB = 0x7FF \<and> sigB \<noteq> 0 then softfloat_propagateNaNF64UI a b
         else infArg (word_of_int expB OR sigB))
      else if expB = 0x7FF then
        (if sigB \<noteq> 0 then softfloat_propagateNaNF64UI a b else infArg (word_of_int expA OR sigA))
      else if expA = 0 \<and> sigA = 0 then packToF64UI signZ 0 0
      else let (expA, sigA) = (if expA = 0 then softfloat_normSubnormalF64Sig sigA else (expA, sigA)) in
      if expB = 0 \<and> sigB = 0 then packToF64UI signZ 0 0
      else let (expB, sigB) = (if expB = 0 then softfloat_normSubnormalF64Sig sigB else (expB, sigB));
               expZ = expA + expB - 0x3FF;
               sigA = push_bit 10 (sigA OR 0x0010000000000000);
               sigB = push_bit 11 (sigB OR 0x0010000000000000);
               (v64, v0) = softfloat_mul64To128 sigA sigB;
               sigZ = v64 OR of_bool (v0 \<noteq> 0);
               (expZ, sigZ) = (if sigZ < 0x4000000000000000 then (expZ - 1, push_bit 1 sigZ) else (expZ, sigZ))
           in softfloat_roundPackToF64 signZ expZ sigZ)"

definition f32_div :: "u32 \<Rightarrow> u32 \<Rightarrow> u32" where
  "f32_div a b =
     (let signA = signF32UI a; expA = expF32UI a; sigA = ucast (fracF32UI a) :: u64;
          signB = signF32UI b; expB = expF32UI b; sigB = ucast (fracF32UI b) :: u64;
          signZ = (signA \<noteq> signB);
          infinity = packToF32UI signZ 0xFF 0; zero = packToF32UI signZ 0 0 in
      if expA = 0xFF then
        (if sigA \<noteq> 0 then softfloat_propagateNaNF32UI a b
         else if expB = 0xFF then (if sigB \<noteq> 0 then softfloat_propagateNaNF32UI a b else defaultNaNF32UI)
         else infinity)
      else if expB = 0xFF then (if sigB \<noteq> 0 then softfloat_propagateNaNF32UI a b else zero)
      else if expB = 0 \<and> sigB = 0 then (if word_of_int expA OR sigA = 0 then defaultNaNF32UI else infinity)
      else let (expB, sigB) = (if expB = 0 then softfloat_normSubnormalF32Sig sigB else (expB, sigB)) in
      if expA = 0 \<and> sigA = 0 then zero
      else let (expA, sigA) = (if expA = 0 then softfloat_normSubnormalF32Sig sigA else (expA, sigA));
               expZ = expA - expB + 0x7E;
               sigA = sigA OR 0x00800000;
               sigB = sigB OR 0x00800000;
               (expZ, sig64A) = (if sigA < sigB then (expZ - 1, push_bit 31 sigA) else (expZ, push_bit 30 sigA));
               sigZ = sig64A div sigB;
               sigZ = (if sigZ AND 0x3F = 0 then sigZ OR of_bool (sigB * sigZ \<noteq> sig64A) else sigZ)
           in softfloat_roundPackToF32 signZ expZ sigZ)"

definition f64_div :: "u64 \<Rightarrow> u64 \<Rightarrow> u64" where
  "f64_div a b =
     (let signA = signF64UI a; expA = expF64UI a; sigA = fracF64UI a;
          signB = signF64UI b; expB = expF64UI b; sigB = fracF64UI b;
          signZ = (signA \<noteq> signB);
          infinity = packToF64UI signZ 0x7FF 0; zero = packToF64UI signZ 0 0 in
      if expA = 0x7FF then
        (if sigA \<noteq> 0 then softfloat_propagateNaNF64UI a b
         else if expB = 0x7FF then (if sigB \<noteq> 0 then softfloat_propagateNaNF64UI a b else defaultNaNF64UI)
         else infinity)
      else if expB = 0x7FF then (if sigB \<noteq> 0 then softfloat_propagateNaNF64UI a b else zero)
      else if expB = 0 \<and> sigB = 0 then (if word_of_int expA OR sigA = 0 then defaultNaNF64UI else infinity)
      else let (expB, sigB) = (if expB = 0 then softfloat_normSubnormalF64Sig sigB else (expB, sigB)) in
      if expA = 0 \<and> sigA = 0 then zero
      else let (expA, sigA) = (if expA = 0 then softfloat_normSubnormalF64Sig sigA else (expA, sigA));
               expZ = expA - expB + 0x3FE;
               sigA = sigA OR 0x0010000000000000;
               sigB = sigB OR 0x0010000000000000;
               (expZ, sigA) = (if sigA < sigB then (expZ - 1, push_bit 11 sigA) else (expZ, push_bit 10 sigA));
               sigB = push_bit 11 sigB;
               sigB_hi = ucast (ucast (drop_bit 32 sigB) :: u32) :: u64;
               sigB_lo = ucast (drop_bit 4 (ucast sigB :: u32)) :: u64;
               recip32 = softfloat_approxRecip32_1 (ucast (drop_bit 32 sigB)) - 2;
               sig32Z = ucast (drop_bit 32 (ucast (ucast (drop_bit 32 sigA) :: u32) * (ucast recip32 :: u64))) :: u32;
               doubleTerm = push_bit 1 sig32Z;
               rem = push_bit 28 (sigA - ucast doubleTerm * sigB_hi) - ucast doubleTerm * sigB_lo;
               q = ucast (drop_bit 32 (ucast (ucast (drop_bit 32 rem) :: u32) * (ucast recip32 :: u64)) + 4) :: u32;
               sigZ = push_bit 32 (ucast sig32Z) + push_bit 4 (ucast q);
               sigZ = (if sigZ AND 0x1FF < push_bit 4 4 then
                         let q = q AND NOT 7; sigZ = sigZ AND NOT 0x7F; doubleTerm = push_bit 1 q;
                             rem = push_bit 28 (rem - ucast doubleTerm * sigB_hi) - ucast doubleTerm * sigB_lo
                         in if rem AND 0x8000000000000000 \<noteq> 0 then sigZ - push_bit 7 1
                            else if rem \<noteq> 0 then sigZ OR 1 else sigZ
                       else sigZ)
           in softfloat_roundPackToF64 signZ expZ sigZ)"

definition f32_sqrt :: "u32 \<Rightarrow> u32" where
  "f32_sqrt a =
     (let signA = signF32UI a; expA = expF32UI a; sigA = ucast (fracF32UI a) :: u64 in
      if expA = 0xFF then
        (if sigA \<noteq> 0 then softfloat_propagateNaNF32UI a 0 else if \<not> signA then a else defaultNaNF32UI)
      else if signA then (if word_of_int expA OR sigA = 0 then a else defaultNaNF32UI)
      else if expA = 0 \<and> sigA = 0 then a
      else let (expA, sigA) = (if expA = 0 then softfloat_normSubnormalF32Sig sigA else (expA, sigA));
               expZ = (expA - 0x7F) div 2 + 0x7E;
               odd_exp = odd expA;
               sigA = push_bit 8 (sigA OR 0x00800000);
               sigZ = drop_bit 32 (sigA * ucast (softfloat_approxRecipSqrt32_1 odd_exp (ucast sigA)));
               sigZ = (if odd_exp then drop_bit 1 sigZ else sigZ);
               sigZ = sigZ + 2;
               sigZ = (if sigZ AND 0x3F < 2 then
                         let shiftedSigZ = drop_bit 2 sigZ; negRem = ucast (shiftedSigZ * shiftedSigZ) :: u32;
                             sigZ = sigZ AND NOT 3
                         in if negRem AND 0x80000000 \<noteq> 0 then sigZ OR 1 else if negRem \<noteq> 0 then sigZ - 1 else sigZ
                       else sigZ)
           in softfloat_roundPackToF32 False expZ sigZ)"

definition f64_sqrt :: "u64 \<Rightarrow> u64" where
  "f64_sqrt a =
     (let signA = signF64UI a; expA = expF64UI a; sigA = fracF64UI a in
      if expA = 0x7FF then
        (if sigA \<noteq> 0 then softfloat_propagateNaNF64UI a 0 else if \<not> signA then a else defaultNaNF64UI)
      else if signA then (if word_of_int expA OR sigA = 0 then a else defaultNaNF64UI)
      else if expA = 0 \<and> sigA = 0 then a
      else let (expA, sigA) = (if expA = 0 then softfloat_normSubnormalF64Sig sigA else (expA, sigA));
               expZ = (expA - 0x3FF) div 2 + 0x3FE;
               odd_exp = odd expA;
               sigA = sigA OR 0x0010000000000000;
               sig32A = ucast (drop_bit 21 sigA) :: u32;
               recipSqrt32 = softfloat_approxRecipSqrt32_1 odd_exp sig32A;
               sig32Z = ucast (drop_bit 32 (ucast sig32A * (ucast recipSqrt32 :: u64))) :: u32;
               (sigA, sig32Z) = (if odd_exp then (push_bit 8 sigA, drop_bit 1 sig32Z) else (push_bit 9 sigA, sig32Z));
               rem = sigA - ucast sig32Z * ucast sig32Z;
               q = ucast (drop_bit 32 (ucast (ucast (drop_bit 2 rem) :: u32) * (ucast recipSqrt32 :: u64))) :: u32;
               sigZ = (push_bit 32 (ucast sig32Z) OR push_bit 5 1) + push_bit 3 (ucast q);
               sigZ = (if sigZ AND 0x1FF < 0x22 then
                         let sigZ = sigZ AND NOT 0x3F; shiftedSigZ = drop_bit 6 sigZ;
                             rem = push_bit 52 sigA - shiftedSigZ * shiftedSigZ
                         in if rem AND 0x8000000000000000 \<noteq> 0 then sigZ - 1 else if rem \<noteq> 0 then sigZ OR 1 else sigZ
                       else sigZ)
           in softfloat_roundPackToF64 False expZ sigZ)"

subsection \<open>Conversions\<close>

definition f32_to_f64 :: "u32 \<Rightarrow> u64" where
  "f32_to_f64 a =
     (let sign = signF32UI a; e = expF32UI a; frac = ucast (fracF32UI a) :: u64 in
      if e = 0xFF then
        (if frac \<noteq> 0 then softfloat_commonNaNToF64UI (softfloat_f32UIToCommonNaN a) else packToF64UI sign 0x7FF 0)
      else if e = 0 \<and> frac = 0 then packToF64UI sign 0 0
      else let (e, frac) = (if e = 0 then let (ne, ns) = softfloat_normSubnormalF32Sig frac in (ne - 1, ns) else (e, frac))
           in packToF64UI sign (e + 0x380) (push_bit 29 frac))"

definition f64_to_f32 :: "u64 \<Rightarrow> u32" where
  "f64_to_f32 a =
     (let sign = signF64UI a; e = expF64UI a; frac = fracF64UI a in
      if e = 0x7FF then
        (if frac \<noteq> 0 then softfloat_commonNaNToF32UI (softfloat_f64UIToCommonNaN a) else packToF32UI sign 0xFF 0)
      else let frac32 = softfloat_shortShiftRightJam64 frac 22 in
        if word_of_int e OR frac32 = 0 then packToF32UI sign 0 0
        else softfloat_roundPackToF32 sign (e - 0x381) (frac32 OR 0x40000000))"

definition i32_to_f32 :: "u32 \<Rightarrow> u32" where
  "i32_to_f32 a =
     (let sign = (sint a < 0) in
      if a AND 0x7FFFFFFF = 0 then (if sign then packToF32UI True 0x9E 0 else 0)
      else softfloat_normRoundPackToF32 sign 0x9C (if sign then - scast a else scast a))"

definition ui32_to_f32 :: "u32 \<Rightarrow> u32" where
  "ui32_to_f32 a =
     (if a = 0 then 0
      else if a AND 0x80000000 \<noteq> 0 then softfloat_roundPackToF32 False 0x9D (ucast (drop_bit 1 a OR (a AND 1)))
      else softfloat_normRoundPackToF32 False 0x9C (ucast a))"

definition i64_to_f32 :: "u64 \<Rightarrow> u32" where
  "i64_to_f32 a =
     (let sign = (sint a < 0); absA = (if sign then - a else a);
          shiftDist = softfloat_countLeadingZeros64 absA - 40 in
      if 0 \<le> shiftDist then
        (if a \<noteq> 0 then packToF32UI sign (0x95 - shiftDist) (ucast (push_bit (nat shiftDist) absA)) else 0)
      else let shiftDist = shiftDist + 7;
               sig = (if shiftDist < 0 then softfloat_shortShiftRightJam64 absA (nat (- shiftDist))
                      else push_bit (nat shiftDist) absA)
           in softfloat_roundPackToF32 sign (0x9C - shiftDist) sig)"

definition ui64_to_f32 :: "u64 \<Rightarrow> u32" where
  "ui64_to_f32 a =
     (let shiftDist = softfloat_countLeadingZeros64 a - 40 in
      if 0 \<le> shiftDist then
        (if a \<noteq> 0 then packToF32UI False (0x95 - shiftDist) (ucast (push_bit (nat shiftDist) a)) else 0)
      else let shiftDist = shiftDist + 7;
               sig = (if shiftDist < 0 then softfloat_shortShiftRightJam64 a (nat (- shiftDist))
                      else push_bit (nat shiftDist) a)
           in softfloat_roundPackToF32 False (0x9C - shiftDist) sig)"

definition i32_to_f64 :: "u32 \<Rightarrow> u64" where
  "i32_to_f64 a =
     (if a = 0 then 0
      else let sign = (sint a < 0); absA = (if sign then - scast a else scast a) :: u64;
               shiftDist = softfloat_countLeadingZeros32 (ucast absA) + 21
           in packToF64UI sign (0x432 - shiftDist) (push_bit (nat shiftDist) absA))"

definition ui32_to_f64 :: "u32 \<Rightarrow> u64" where
  "ui32_to_f64 a =
     (if a = 0 then 0
      else let shiftDist = softfloat_countLeadingZeros32 a + 21
           in packToF64UI False (0x432 - shiftDist) (push_bit (nat shiftDist) (ucast a)))"

definition i64_to_f64 :: "u64 \<Rightarrow> u64" where
  "i64_to_f64 a =
     (let sign = (sint a < 0) in
      if a AND 0x7FFFFFFFFFFFFFFF = 0 then (if sign then packToF64UI True 0x43E 0 else 0)
      else softfloat_normRoundPackToF64 sign 0x43C (if sign then - a else a))"

definition ui64_to_f64 :: "u64 \<Rightarrow> u64" where
  "ui64_to_f64 a =
     (if a = 0 then 0
      else if a AND 0x8000000000000000 \<noteq> 0 then softfloat_roundPackToF64 False 0x43D (softfloat_shortShiftRightJam64 a 1)
      else softfloat_normRoundPackToF64 False 0x43C a)"

end
