(* ===== verification/Softfloat.thy ===== *)
theory Softfloat
  imports Softfloat_Arith
begin

unbundle bit_operations_syntax

section \<open>Deterministic floating point\<close>

text \<open>
  The scalar half of \<open>psizam/detail/softfloat.hpp\<close>: the functions \<open>_psizam_f32_*\<close> and \<open>_psizam_f64_*\<close> that the
  interpreter calls in its deterministic mode, on top of the vendored SoftFloat. Floats are bit patterns
  (\<open>to_softfloat32\<close> and \<open>from_softfloat32\<close> are bit casts); a template parameter \<open>ArithNan\<close> or \<open>FixedBound\<close> is a boolean
  argument; a literal such as \<open>2147483648.0f\<close> is its bit pattern; a failed \<open>PSIZAM_ASSERT\<close> is the
  \<open>wasm_interpreter_exception\<close> the code throws. The lemmas read the results as exact values: with \<open>fval p a\<close> the
  value of a finite pattern in units of the least subnormal, the unit itself is \<open>1 / 2 ^ 149\<close> for \<open>float\<close> and
  \<open>1 / 2 ^ 1074\<close> for \<open>double\<close>.
\<close>

subsection \<open>NaNs\<close>

definition canonicalize_nan32 :: "u32 \<Rightarrow> u32" where
  "canonicalize_nan32 f = (if f32_is_nan f then 0x7FC00000 else f)"

definition propagate_nan32 :: "bool \<Rightarrow> u32 \<Rightarrow> u32" where
  "propagate_nan32 ForceArithmetic a = (if ForceArithmetic then 0x7FC00000 else a)"

definition canonicalize_nan64 :: "u64 \<Rightarrow> u64" where
  "canonicalize_nan64 f = (if f64_is_nan f then 0x7FF8000000000000 else f)"

definition propagate_nan64 :: "bool \<Rightarrow> u64 \<Rightarrow> u64" where
  "propagate_nan64 ForceArithmetic a = (if ForceArithmetic then 0x7FF8000000000000 else a)"

subsection \<open>Arithmetic\<close>

definition inv_float_eps :: u32 where "inv_float_eps = 0x4B000000"
definition inv_double_eps :: u64 where "inv_double_eps = 0x4330000000000000"

definition psizam_f32_add :: "u32 \<Rightarrow> u32 \<Rightarrow> u32" where
  "psizam_f32_add a b = canonicalize_nan32 (f32_add a b)"

definition psizam_f32_sub :: "u32 \<Rightarrow> u32 \<Rightarrow> u32" where
  "psizam_f32_sub a b = canonicalize_nan32 (f32_sub a b)"

definition psizam_f32_div :: "u32 \<Rightarrow> u32 \<Rightarrow> u32" where
  "psizam_f32_div a b = canonicalize_nan32 (f32_div a b)"

definition psizam_f32_mul :: "u32 \<Rightarrow> u32 \<Rightarrow> u32" where
  "psizam_f32_mul a b = canonicalize_nan32 (f32_mul a b)"

definition psizam_f32_min :: "bool \<Rightarrow> u32 \<Rightarrow> u32 \<Rightarrow> u32" where
  "psizam_f32_min ArithNan a b =
     (if f32_is_nan a then propagate_nan32 ArithNan a
      else if f32_is_nan b then propagate_nan32 ArithNan b
      else if f32_sign_bit a \<noteq> f32_sign_bit b then (if f32_sign_bit a then a else b)
      else if f32_lt a b then a else b)"

definition psizam_f32_max :: "bool \<Rightarrow> u32 \<Rightarrow> u32 \<Rightarrow> u32" where
  "psizam_f32_max ArithNan a b =
     (if f32_is_nan a then propagate_nan32 ArithNan a
      else if f32_is_nan b then propagate_nan32 ArithNan b
      else if f32_sign_bit a \<noteq> f32_sign_bit b then (if f32_sign_bit a then b else a)
      else if f32_lt a b then b else a)"

definition psizam_f32_copysign :: "u32 \<Rightarrow> u32 \<Rightarrow> u32" where
  "psizam_f32_copysign a b = (a AND NOT (push_bit 31 1)) OR push_bit 31 (drop_bit 31 b)"

definition psizam_f32_abs :: "u32 \<Rightarrow> u32" where
  "psizam_f32_abs a = a AND NOT (push_bit 31 1)"

definition psizam_f32_neg :: "u32 \<Rightarrow> u32" where
  "psizam_f32_neg a = (let sign = drop_bit 31 a in (a AND NOT (push_bit 31 1)) OR push_bit 31 (of_bool (sign = 0)))"

definition psizam_f32_sqrt :: "u32 \<Rightarrow> u32" where
  "psizam_f32_sqrt a = canonicalize_nan32 (f32_sqrt a)"

definition psizam_f64_add :: "u64 \<Rightarrow> u64 \<Rightarrow> u64" where
  "psizam_f64_add a b = canonicalize_nan64 (f64_add a b)"

definition psizam_f64_sub :: "u64 \<Rightarrow> u64 \<Rightarrow> u64" where
  "psizam_f64_sub a b = canonicalize_nan64 (f64_sub a b)"

definition psizam_f64_div :: "u64 \<Rightarrow> u64 \<Rightarrow> u64" where
  "psizam_f64_div a b = canonicalize_nan64 (f64_div a b)"

definition psizam_f64_mul :: "u64 \<Rightarrow> u64 \<Rightarrow> u64" where
  "psizam_f64_mul a b = canonicalize_nan64 (f64_mul a b)"

definition psizam_f64_min :: "bool \<Rightarrow> u64 \<Rightarrow> u64 \<Rightarrow> u64" where
  "psizam_f64_min ArithNan a b =
     (if f64_is_nan a then propagate_nan64 ArithNan a
      else if f64_is_nan b then propagate_nan64 ArithNan b
      else if f64_sign_bit a \<noteq> f64_sign_bit b then (if f64_sign_bit a then a else b)
      else if f64_lt a b then a else b)"

definition psizam_f64_max :: "bool \<Rightarrow> u64 \<Rightarrow> u64 \<Rightarrow> u64" where
  "psizam_f64_max ArithNan a b =
     (if f64_is_nan a then propagate_nan64 ArithNan a
      else if f64_is_nan b then propagate_nan64 ArithNan b
      else if f64_sign_bit a \<noteq> f64_sign_bit b then (if f64_sign_bit a then b else a)
      else if f64_lt a b then b else a)"

definition psizam_f64_copysign :: "u64 \<Rightarrow> u64 \<Rightarrow> u64" where
  "psizam_f64_copysign a b = (a AND NOT (push_bit 63 1)) OR push_bit 63 (drop_bit 63 b)"

definition psizam_f64_abs :: "u64 \<Rightarrow> u64" where
  "psizam_f64_abs a = a AND NOT (push_bit 63 1)"

definition psizam_f64_neg :: "u64 \<Rightarrow> u64" where
  "psizam_f64_neg a = (let sign = drop_bit 63 a in (a AND NOT (push_bit 63 1)) OR push_bit 63 (of_bool (sign = 0)))"

definition psizam_f64_sqrt :: "u64 \<Rightarrow> u64" where
  "psizam_f64_sqrt a = canonicalize_nan64 (f64_sqrt a)"

subsection \<open>Rounding to integral values\<close>

definition psizam_f32_ceil :: "bool \<Rightarrow> u32 \<Rightarrow> u32" where
  "psizam_f32_ceil ArithNan a =
     (let e = uint (drop_bit 23 a AND 0xFF) - 0x7F in
      if ArithNan \<and> f32_is_nan a then propagate_nan32 ArithNan a
      else if 23 \<le> e then a
      else if 0 \<le> e then
        let m = drop_bit (nat e) 0x007FFFFF in
        if a AND m = 0 then a
        else (if drop_bit 31 a = 0 then a + m else a) AND NOT m
      else if drop_bit 31 a \<noteq> 0 then 0x80000000
      else if push_bit 1 a \<noteq> 0 then 0x3F800000
      else a)"

definition psizam_f32_floor :: "bool \<Rightarrow> u32 \<Rightarrow> u32" where
  "psizam_f32_floor ArithNan a =
     (let e = uint (drop_bit 23 a AND 0xFF) - 0x7F in
      if ArithNan \<and> f32_is_nan a then propagate_nan32 ArithNan a
      else if 23 \<le> e then a
      else if 0 \<le> e then
        let m = drop_bit (nat e) 0x007FFFFF in
        if a AND m = 0 then a
        else (if drop_bit 31 a \<noteq> 0 then a + m else a) AND NOT m
      else if drop_bit 31 a = 0 then 0
      else if push_bit 1 a \<noteq> 0 then 0xBF800000
      else a)"

definition psizam_f32_trunc :: "bool \<Rightarrow> u32 \<Rightarrow> u32" where
  "psizam_f32_trunc ArithNan a =
     (let e = uint (drop_bit 23 a AND 0xFF) - 0x7F + 9 in
      if ArithNan \<and> f32_is_nan a then propagate_nan32 ArithNan a
      else if 23 + 9 \<le> e then a
      else let e = (if e < 9 then 1 else e); m = drop_bit (nat e) (- 1) in
        if a AND m = 0 then a else a AND NOT m)"

definition psizam_f32_nearest :: "bool \<Rightarrow> u32 \<Rightarrow> u32" where
  "psizam_f32_nearest ArithNan a =
     (let e = uint (drop_bit 23 a AND 0xFF); s = drop_bit 31 a in
      if ArithNan \<and> f32_is_nan a then propagate_nan32 ArithNan a
      else if 0x7F + 23 \<le> e then a
      else let y = (if s \<noteq> 0 then f32_add (f32_sub a inv_float_eps) inv_float_eps
                    else f32_sub (f32_add a inv_float_eps) inv_float_eps) in
        if f32_eq y 0 then (if s \<noteq> 0 then 0x80000000 else 0) else y)"

definition psizam_f64_ceil :: "bool \<Rightarrow> u64 \<Rightarrow> u64" where
  "psizam_f64_ceil ArithNan a =
     (let e = uint (drop_bit 52 a AND 0x7FF) in
      if ArithNan \<and> f64_is_nan a then propagate_nan64 ArithNan a
      else if 0x3FF + 52 \<le> e \<or> f64_eq a 0 then a
      else let y = (if drop_bit 63 a \<noteq> 0 then f64_sub (f64_add (f64_sub a inv_double_eps) inv_double_eps) a
                    else f64_sub (f64_sub (f64_add a inv_double_eps) inv_double_eps) a) in
        if e \<le> 0x3FF - 1 then (if drop_bit 63 a \<noteq> 0 then 0x8000000000000000 else 0x3FF0000000000000)
        else if f64_lt y 0 then f64_add (f64_add a y) 0x3FF0000000000000
        else f64_add a y)"

definition psizam_f64_floor :: "bool \<Rightarrow> u64 \<Rightarrow> u64" where
  "psizam_f64_floor ArithNan a =
     (let e = uint (drop_bit 52 a AND 0x7FF) in
      if ArithNan \<and> f64_is_nan a then propagate_nan64 ArithNan a
      else if a = 0x8000000000000000 then a
      else if 0x3FF + 52 \<le> e \<or> a = 0 then a
      else let y = (if drop_bit 63 a \<noteq> 0 then f64_sub (f64_add (f64_sub a inv_double_eps) inv_double_eps) a
                    else f64_sub (f64_sub (f64_add a inv_double_eps) inv_double_eps) a) in
        if e \<le> 0x3FF - 1 then (if drop_bit 63 a \<noteq> 0 then 0xBFF0000000000000 else 0)
        else if \<not> f64_le y 0 then f64_sub (f64_add a y) 0x3FF0000000000000
        else f64_add a y)"

definition psizam_f64_trunc :: "bool \<Rightarrow> u64 \<Rightarrow> u64" where
  "psizam_f64_trunc ArithNan a =
     (let e = uint (drop_bit 52 a AND 0x7FF) - 0x3FF + 12 in
      if ArithNan \<and> f64_is_nan a then propagate_nan64 ArithNan a
      else if 52 + 12 \<le> e then a
      else let e = (if e < 12 then 1 else e); m = drop_bit (nat e) (- 1) in
        if a AND m = 0 then a else a AND NOT m)"

definition psizam_f64_nearest :: "bool \<Rightarrow> u64 \<Rightarrow> u64" where
  "psizam_f64_nearest ArithNan a =
     (let e = uint (drop_bit 52 a AND 0x7FF); s = drop_bit 63 a in
      if ArithNan \<and> f64_is_nan a then propagate_nan64 ArithNan a
      else if 0x3FF + 52 \<le> e then a
      else let y = (if s \<noteq> 0 then f64_add (f64_sub a inv_double_eps) inv_double_eps
                    else f64_sub (f64_add a inv_double_eps) inv_double_eps) in
        if f64_eq y 0 then (if s \<noteq> 0 then 0x8000000000000000 else 0) else y)"

subsection \<open>Comparisons\<close>

definition psizam_f32_eq :: "u32 \<Rightarrow> u32 \<Rightarrow> bool" where "psizam_f32_eq a b = (f32_eq a b)"
definition psizam_f32_ne :: "u32 \<Rightarrow> u32 \<Rightarrow> bool" where "psizam_f32_ne a b = (\<not> f32_eq a b)"
definition psizam_f32_lt :: "u32 \<Rightarrow> u32 \<Rightarrow> bool" where "psizam_f32_lt a b = (f32_lt a b)"
definition psizam_f32_le :: "u32 \<Rightarrow> u32 \<Rightarrow> bool" where "psizam_f32_le a b = (f32_le a b)"
definition psizam_f32_gt :: "u32 \<Rightarrow> u32 \<Rightarrow> bool" where
  "psizam_f32_gt a b = (if f32_is_nan a then False else if f32_is_nan b then False else \<not> f32_le a b)"
definition psizam_f32_ge :: "u32 \<Rightarrow> u32 \<Rightarrow> bool" where
  "psizam_f32_ge a b = (if f32_is_nan a then False else if f32_is_nan b then False else \<not> f32_lt a b)"

definition psizam_f64_eq :: "u64 \<Rightarrow> u64 \<Rightarrow> bool" where "psizam_f64_eq a b = (f64_eq a b)"
definition psizam_f64_ne :: "u64 \<Rightarrow> u64 \<Rightarrow> bool" where "psizam_f64_ne a b = (\<not> f64_eq a b)"
definition psizam_f64_lt :: "u64 \<Rightarrow> u64 \<Rightarrow> bool" where "psizam_f64_lt a b = (f64_lt a b)"
definition psizam_f64_le :: "u64 \<Rightarrow> u64 \<Rightarrow> bool" where "psizam_f64_le a b = (f64_le a b)"
definition psizam_f64_gt :: "u64 \<Rightarrow> u64 \<Rightarrow> bool" where
  "psizam_f64_gt a b = (if f64_is_nan a then False else if f64_is_nan b then False else \<not> f64_le a b)"
definition psizam_f64_ge :: "u64 \<Rightarrow> u64 \<Rightarrow> bool" where
  "psizam_f64_ge a b = (if f64_is_nan a then False else if f64_is_nan b then False else \<not> f64_lt a b)"

subsection \<open>Conversions\<close>

definition psizam_f32_promote :: "u32 \<Rightarrow> u64" where "psizam_f32_promote a = f32_to_f64 a"
definition psizam_f64_demote :: "u64 \<Rightarrow> u32" where "psizam_f64_demote a = f64_to_f32 a"

definition psizam_f32_trunc_i32s :: "u32 \<Rightarrow> u32 res" where
  "psizam_f32_trunc_i32s a =
     assertR (\<not> (psizam_f32_ge a 0x4F000000 \<or> psizam_f32_lt a 0xCF000000))
       (wasm_interpreter_exception ''Error, f32.convert_s/i32 overflow'')
     (assertR (\<not> f32_is_nan a) (wasm_interpreter_exception ''Error, f32.convert_s/i32 unrepresentable'')
     (Inr (f32_to_i32 (psizam_f32_trunc False a) softfloat_round_near_even)))"

definition psizam_f64_trunc_i32s :: "bool \<Rightarrow> u64 \<Rightarrow> u32 res" where
  "psizam_f64_trunc_i32s FixedBound a =
     assertR (if FixedBound then \<not> (psizam_f64_ge a 0x41E0000000000000 \<or> psizam_f64_le a 0xC1E0000000200000)
                else \<not> (psizam_f64_ge a 0x41E0000000000000 \<or> psizam_f64_lt a 0xC1E0000000000000))
       (wasm_interpreter_exception ''Error, f64.convert_s/i32 overflow'')
     (assertR (\<not> f64_is_nan a) (wasm_interpreter_exception ''Error, f64.convert_s/i32 unrepresentable'')
     (Inr (f64_to_i32 (psizam_f64_trunc False a) softfloat_round_near_even)))"

definition psizam_f32_trunc_i32u :: "u32 \<Rightarrow> u32 res" where
  "psizam_f32_trunc_i32u a =
     assertR (\<not> (psizam_f32_ge a 0x4F800000 \<or> psizam_f32_le a 0xBF800000))
       (wasm_interpreter_exception ''Error, f32.convert_u/i32 overflow'')
     (assertR (\<not> f32_is_nan a) (wasm_interpreter_exception ''Error, f32.convert_u/i32 unrepresentable'')
     (Inr (f32_to_ui32 (psizam_f32_trunc False a) softfloat_round_near_even)))"

definition psizam_f64_trunc_i32u :: "u64 \<Rightarrow> u32 res" where
  "psizam_f64_trunc_i32u a =
     assertR (\<not> (psizam_f64_ge a 0x41F0000000000000 \<or> psizam_f64_le a 0xBFF0000000000000))
       (wasm_interpreter_exception ''Error, f64.convert_u/i32 overflow'')
     (assertR (\<not> f64_is_nan a) (wasm_interpreter_exception ''Error, f64.convert_u/i32 unrepresentable'')
     (Inr (f64_to_ui32 (psizam_f64_trunc False a) softfloat_round_near_even)))"

definition psizam_f32_trunc_i64s :: "u32 \<Rightarrow> u64 res" where
  "psizam_f32_trunc_i64s a =
     assertR (\<not> (psizam_f32_ge a 0x5F000000 \<or> psizam_f32_lt a 0xDF000000))
       (wasm_interpreter_exception ''Error, f32.convert_s/i64 overflow'')
     (assertR (\<not> f32_is_nan a) (wasm_interpreter_exception ''Error, f32.convert_s/i64 unrepresentable'')
     (Inr (f32_to_i64 (psizam_f32_trunc False a) softfloat_round_near_even)))"

definition psizam_f64_trunc_i64s :: "u64 \<Rightarrow> u64 res" where
  "psizam_f64_trunc_i64s a =
     assertR (\<not> (psizam_f64_ge a 0x43E0000000000000 \<or> psizam_f64_lt a 0xC3E0000000000000))
       (wasm_interpreter_exception ''Error, f64.convert_s/i64 overflow'')
     (assertR (\<not> f64_is_nan a) (wasm_interpreter_exception ''Error, f64.convert_s/i64 unrepresentable'')
     (Inr (f64_to_i64 (psizam_f64_trunc False a) softfloat_round_near_even)))"

definition psizam_f32_trunc_i64u :: "u32 \<Rightarrow> u64 res" where
  "psizam_f32_trunc_i64u a =
     assertR (\<not> (psizam_f32_ge a 0x5F800000 \<or> psizam_f32_le a 0xBF800000))
       (wasm_interpreter_exception ''Error, f32.convert_u/i64 overflow'')
     (assertR (\<not> f32_is_nan a) (wasm_interpreter_exception ''Error, f32.convert_u/i64 unrepresentable'')
     (Inr (f32_to_ui64 (psizam_f32_trunc False a) softfloat_round_near_even)))"

definition psizam_f64_trunc_i64u :: "u64 \<Rightarrow> u64 res" where
  "psizam_f64_trunc_i64u a =
     assertR (\<not> (psizam_f64_ge a 0x43F0000000000000 \<or> psizam_f64_le a 0xBFF0000000000000))
       (wasm_interpreter_exception ''Error, f64.convert_u/i64 overflow'')
     (assertR (\<not> f64_is_nan a) (wasm_interpreter_exception ''Error, f64.convert_u/i64 unrepresentable'')
     (Inr (f64_to_ui64 (psizam_f64_trunc False a) softfloat_round_near_even)))"

definition psizam_i32_to_f32 :: "u32 \<Rightarrow> u32" where "psizam_i32_to_f32 a = i32_to_f32 a"
definition psizam_i64_to_f32 :: "u64 \<Rightarrow> u32" where "psizam_i64_to_f32 a = i64_to_f32 a"
definition psizam_ui32_to_f32 :: "u32 \<Rightarrow> u32" where "psizam_ui32_to_f32 a = ui32_to_f32 a"
definition psizam_ui64_to_f32 :: "u64 \<Rightarrow> u32" where "psizam_ui64_to_f32 a = ui64_to_f32 a"
definition psizam_i32_to_f64 :: "u32 \<Rightarrow> u64" where "psizam_i32_to_f64 a = i32_to_f64 a"
definition psizam_i64_to_f64 :: "u64 \<Rightarrow> u64" where "psizam_i64_to_f64 a = i64_to_f64 a"
definition psizam_ui32_to_f64 :: "u32 \<Rightarrow> u64" where "psizam_ui32_to_f64 a = ui32_to_f64 a"
definition psizam_ui64_to_f64 :: "u64 \<Rightarrow> u64" where "psizam_ui64_to_f64 a = ui64_to_f64 a"

definition psizam_i32_trunc_sat_f32_s :: "u32 \<Rightarrow> u32" where
  "psizam_i32_trunc_sat_f32_s a =
     (if f32_is_nan a then 0
      else if psizam_f32_ge a 0x4F000000 then 0x7FFFFFFF
      else if psizam_f32_lt a 0xCF000000 then 0x80000000
      else f32_to_i32_r_minMag a)"

definition psizam_i32_trunc_sat_f64_s :: "u64 \<Rightarrow> u32" where
  "psizam_i32_trunc_sat_f64_s a =
     (if f64_is_nan a then 0
      else if psizam_f64_ge a 0x41E0000000000000 then 0x7FFFFFFF
      else if psizam_f64_lt a 0xC1E0000000000000 then 0x80000000
      else f64_to_i32_r_minMag a)"

definition psizam_i32_trunc_sat_f32_u :: "u32 \<Rightarrow> u32" where
  "psizam_i32_trunc_sat_f32_u a =
     (if f32_is_nan a then 0
      else if psizam_f32_ge a 0x4F800000 then 0xFFFFFFFF
      else if psizam_f32_le a 0xBF800000 then 0
      else f32_to_ui32_r_minMag a)"

definition psizam_i32_trunc_sat_f64_u :: "u64 \<Rightarrow> u32" where
  "psizam_i32_trunc_sat_f64_u a =
     (if f64_is_nan a then 0
      else if psizam_f64_ge a 0x41F0000000000000 then 0xFFFFFFFF
      else if psizam_f64_le a 0xBFF0000000000000 then 0
      else f64_to_ui32_r_minMag a)"

definition psizam_i64_trunc_sat_f32_s :: "u32 \<Rightarrow> u64" where
  "psizam_i64_trunc_sat_f32_s a =
     (if f32_is_nan a then 0
      else if psizam_f32_ge a 0x5F000000 then 0x7FFFFFFFFFFFFFFF
      else if psizam_f32_lt a 0xDF000000 then 0x8000000000000000
      else f32_to_i64_r_minMag a)"

definition psizam_i64_trunc_sat_f64_s :: "u64 \<Rightarrow> u64" where
  "psizam_i64_trunc_sat_f64_s a =
     (if f64_is_nan a then 0
      else if psizam_f64_ge a 0x43E0000000000000 then 0x7FFFFFFFFFFFFFFF
      else if psizam_f64_lt a 0xC3E0000000000000 then 0x8000000000000000
      else f64_to_i64_r_minMag a)"

definition psizam_i64_trunc_sat_f32_u :: "u32 \<Rightarrow> u64" where
  "psizam_i64_trunc_sat_f32_u a =
     (if f32_is_nan a then 0
      else if psizam_f32_ge a 0x5F800000 then 0xFFFFFFFFFFFFFFFF
      else if psizam_f32_le a 0xBF800000 then 0
      else f32_to_ui64_r_minMag a)"

definition psizam_i64_trunc_sat_f64_u :: "u64 \<Rightarrow> u64" where
  "psizam_i64_trunc_sat_f64_u a =
     (if f64_is_nan a then 0
      else if psizam_f64_ge a 0x43F0000000000000 then 0xFFFFFFFFFFFFFFFF
      else if psizam_f64_le a 0xBFF0000000000000 then 0
      else f64_to_ui64_r_minMag a)"


subsection \<open>Clearing and rounding up the low bits\<close>

lemma and_not_mask: "a AND NOT (mask k) = push_bit k (drop_bit k (a :: 'a :: len word))"
  by (rule bit_eqI) (auto simp: bit_simps)

lemma unat_clear_low: "unat (a AND NOT (mask k)) = unat (a :: 'a :: len word) - unat a mod 2 ^ k"
proof -
  have "unat a div 2 ^ k * 2 ^ k < 2 ^ LENGTH('a)"
    using unat_bound [of a] div_times_less_eq_dividend [of "unat a" "2 ^ k"] by linarith
  then show ?thesis
    unfolding and_not_mask unat_push_bit unat_drop_bit by (simp add: minus_mod_eq_div_mult)
qed

lemma fsplit_unique:
  assumes "unat (a :: 'a :: len word) = (if s then 2 ^ (LENGTH('a) - 1) else 0) + x" and "x < 2 ^ (LENGTH('a) - 1)"
  shows "fneg a = s" "mbits a = x"
  using assms by (cases s; simp add: fneg_def mbits_def)+

lemma low_bits:
  assumes "k \<le> LENGTH('a) - 1"
  shows "unat (a :: 'a :: len word) mod 2 ^ k = mbits a mod 2 ^ k"
  using assms by (simp add: mbits_def mod_mod_cancel le_imp_power_dvd)

lemma take_low_0_iff:
  assumes "k \<le> LENGTH('a) - 1"
  shows "take_bit k (a :: 'a :: len word) = 0 \<longleftrightarrow> mbits a mod 2 ^ k = 0"
  using frac_field [OF assms, of a] by (simp flip: unat_eq_0)

lemma clear_low:
  assumes "k \<le> LENGTH('a) - 1"
  shows "fneg (a AND NOT (mask k)) = fneg (a :: 'a :: len word)" "mbits (a AND NOT (mask k)) = mbits a - mbits a mod 2 ^ k"
proof -
  have "unat (a AND NOT (mask k)) = (if fneg a then 2 ^ (LENGTH('a) - 1) else 0) + (mbits a - mbits a mod 2 ^ k)"
    unfolding unat_clear_low low_bits [OF assms] by (subst unat_fsplit) simp
  moreover have "mbits a - mbits a mod 2 ^ k < 2 ^ (LENGTH('a) - 1)" using mbits_bound [of a] by simp
  ultimately show "fneg (a AND NOT (mask k)) = fneg a" "mbits (a AND NOT (mask k)) = mbits a - mbits a mod 2 ^ k"
    by (rule fsplit_unique)+
qed

lemma unat_mask_low: "k \<le> LENGTH('a) - 1 \<Longrightarrow> unat (mask k :: 'a :: len word) = 2 ^ k - 1"
proof -
  assume k: "k \<le> LENGTH('a) - 1"
  have "unat (take_bit k (- 1 :: 'a word)) = take_bit k (mask LENGTH('a))"
    unfolding unat_take_bit unsigned_minus_1_eq_mask by (simp only: take_bit_eq_mod)
  also have "\<dots> = mask k" using k by (simp add: take_bit_of_mask min_def)
  finally show ?thesis by (simp add: take_bit_minus_one_eq_mask mask_eq_exp_minus_1)
qed

lemma round_up_low:
  assumes k: "k \<le> LENGTH('a) - 1" and r: "mbits a mod 2 ^ k \<noteq> 0" and lt: "mbits a + 2 ^ k \<le> 2 ^ (LENGTH('a) - 1)"
  shows "fneg ((a + mask k) AND NOT (mask k)) = fneg (a :: 'a :: len word)"
    and "mbits ((a + mask k) AND NOT (mask k)) = mbits a - mbits a mod 2 ^ k + 2 ^ k"
proof -
  let ?m = "mbits a mod 2 ^ k" and ?s = "if fneg a then 2 ^ (LENGTH('a) - 1) else 0 :: nat"
  have m: "?m < 2 ^ k" by simp
  have mask: "unat (mask k :: 'a word) = 2 ^ k - 1" using k by (rule unat_mask_low)
  obtain H K :: nat where H: "2 ^ (LENGTH('a) - 1) = H" and K: "2 ^ k = K" and "0 < K" "0 < H" by simp
  have L: "(2 :: nat) ^ LENGTH('a) = 2 * H" unfolding H [symmetric] by (simp flip: power_Suc)
  have "unat a + unat (mask k :: 'a word) < 2 ^ LENGTH('a)"
    unfolding mask unat_fsplit [of a] L H K using lt [unfolded H K] \<open>0 < K\<close> \<open>0 < H\<close> by (cases "fneg a") simp_all
  then have "unat (a + mask k) = unat a + (2 ^ k - 1)" unfolding unat_word_ariths mask by simp
  then have u: "unat (a + mask k) = (?s + (mbits a - ?m + 2 ^ k)) + (?m - 1)"
    unfolding unat_fsplit [of a] using m r mod_less_eq_dividend [of "mbits a" "2 ^ k"] by linarith
  have "2 ^ k dvd (?s :: nat)" using k by (auto intro: le_imp_power_dvd)
  then have "2 ^ k dvd ?s + (mbits a - ?m + 2 ^ k)" by (intro dvd_add) simp_all
  then obtain q where q: "?s + (mbits a - ?m + 2 ^ k) = 2 ^ k * q" by (rule dvdE)
  have "unat (a + mask k) mod 2 ^ k = ?m - 1" unfolding u q mod_mult_self4 using m by (intro mod_less) linarith
  then have v: "unat ((a + mask k) AND NOT (mask k)) = ?s + (mbits a - ?m + 2 ^ k)"
    unfolding unat_clear_low unfolding u by simp
  have "mbits a - ?m + 2 ^ k < 2 ^ (LENGTH('a) - 1)" using lt r mod_less_eq_dividend [of "mbits a" "2 ^ k"] by linarith
  with v show "fneg ((a + mask k) AND NOT (mask k)) = fneg a" "mbits ((a + mask k) AND NOT (mask k)) = mbits a - ?m + 2 ^ k"
    by (rule fsplit_unique)+
qed

lemma shifted_ones: "k \<le> LENGTH('a) \<Longrightarrow> drop_bit (LENGTH('a) - k) (- 1 :: 'a :: len word) = mask k"
  by (rule bit_eqI) (auto simp: bit_simps)

lemma clear_none:
  assumes "a AND m = 0"
  shows "a AND NOT m = (a :: 'a :: len word)"
proof (rule bit_eqI)
  fix n
  have "\<not> (bit a n \<and> bit m n)" using arg_cong [OF assms, of "\<lambda>w. bit w n"] by (simp add: bit_simps)
  moreover assume "possible_bit TYPE('a word) n"
  ultimately show "bit (a AND NOT m) n \<longleftrightarrow> bit a n" by (auto simp: bit_simps)
qed

lemma clear_if: "(if a AND m = 0 then a else a AND NOT m) = a AND NOT (m :: 'a :: len word)"
  by (simp add: clear_none [of a m])

lemma exp_bits32: "uint (drop_bit 23 (a :: u32) AND 0xFF) = int (mbits a div 2 ^ 23)"
  using fields32(3) [of a] by (simp add: expF32UI_def)

lemma exp_bits64: "uint (drop_bit 52 (a :: u64) AND 0x7FF) = int (mbits a div 2 ^ 52)"
  using fields64(3) [of a] by (simp add: expF64UI_def)

subsection \<open>Rounding towards zero, up and down\<close>

text \<open>
  The value of a pattern rounded down and up to an integer, in format \<open>(b, p)\<close>.
\<close>

definition ffloor :: "nat \<Rightarrow> nat \<Rightarrow> 'a :: len word \<Rightarrow> int" where
  "ffloor b p a = fval p a div 2 ^ (b + p - 1)"

definition fceil :: "nat \<Rightarrow> nat \<Rightarrow> 'a :: len word \<Rightarrow> int" where
  "fceil b p a = - (- fval p a div 2 ^ (b + p - 1))"

lemma trunc_format:
  assumes "0 < b" and "p \<le> LENGTH('a) - 1"
    and r: "r = (if b + p \<le> mbits a div 2 ^ p then a
                 else a AND NOT (mask (if mbits a div 2 ^ p < b then LENGTH('a) - 1 else b + p - mbits a div 2 ^ p)))"
  shows "fneg r = fneg (a :: 'a :: len word)" "fmag p (mbits r) = fmag p (mbits a) div 2 ^ (b + p - 1) * 2 ^ (b + p - 1)"
proof -
  let ?E = "mbits a div 2 ^ p"
  obtain U :: nat where U: "2 ^ (b + p - 1) = U" by blast
  consider "b + p \<le> ?E" | "?E < b" | "b \<le> ?E" "?E < b + p" by linarith
  then have "fneg r = fneg a \<and> fmag p (mbits r) = fmag p (mbits a) div U * U"
  proof cases
    case 1
    have "U dvd fmag p (mbits a)" using fmag_integral [OF 1 assms(1)] unfolding U .
    then show ?thesis using 1 r by simp
  next
    case 2
    have "mbits a mod 2 ^ (LENGTH('a) - 1) = mbits a" using mbits_bound [of a] by simp
    then have "fneg r = fneg a" "mbits r = 0" using clear_low [of "LENGTH('a) - 1" a] r 2 by auto
    then show ?thesis using trunc_small [OF 2] unfolding U by simp
  next
    case 3
    have "b + p - ?E \<le> p" using 3 by simp
    then have k: "b + p - ?E \<le> LENGTH('a) - 1" using assms(2) by (rule order_trans)
    have "fneg r = fneg a" "mbits r = mbits a - mbits a mod 2 ^ (b + p - ?E)" using clear_low [OF k, of a] r 3 by auto
    then show ?thesis using fmag_trunc(1) [OF assms(1) 3] unfolding U by simp
  qed
  then show "fneg r = fneg a" "fmag p (mbits r) = fmag p (mbits a) div 2 ^ (b + p - 1) * 2 ^ (b + p - 1)" unfolding U by auto
qed

lemma f32_trunc_bits:
  "psizam_f32_trunc False a = (if 127 + 23 \<le> mbits a div 2 ^ 23 then a
     else a AND NOT (mask (if mbits a div 2 ^ 23 < 127 then LENGTH(32) - 1 else 127 + 23 - mbits a div 2 ^ 23)))"
proof -
  obtain E where E: "mbits a div 2 ^ 23 = E" by blast
  consider "127 + 23 \<le> E" | "E < 127" | "127 \<le> E" "E < 127 + 23" by linarith
  then show ?thesis
  proof cases
    case 3
    then have "nat (int E - 0x7F + 9) = LENGTH(32) - (127 + 23 - E)" by simp
    then have "drop_bit (nat (int E - 0x7F + 9)) (- 1 :: u32) = mask (127 + 23 - E)"
      using shifted_ones [where ?'a = 32, of "127 + 23 - E"] 3 by simp
    then show ?thesis unfolding psizam_f32_trunc_def exp_bits32 E using 3 by (simp add: Let_def clear_if)
  next
    case 2
    have "drop_bit 1 (- 1 :: u32) = mask 31" using shifted_ones [where ?'a = 32, of 31] by simp
    then show ?thesis unfolding psizam_f32_trunc_def exp_bits32 E using 2 by (simp add: Let_def clear_if)
  next
    case 1
    then show ?thesis unfolding psizam_f32_trunc_def exp_bits32 E by (simp add: Let_def)
  qed
qed

lemma f64_trunc_bits:
  "psizam_f64_trunc False a = (if 1023 + 52 \<le> mbits a div 2 ^ 52 then a
     else a AND NOT (mask (if mbits a div 2 ^ 52 < 1023 then LENGTH(64) - 1 else 1023 + 52 - mbits a div 2 ^ 52)))"
proof -
  obtain E where E: "mbits a div 2 ^ 52 = E" by blast
  consider "1023 + 52 \<le> E" | "E < 1023" | "1023 \<le> E" "E < 1023 + 52" by linarith
  then show ?thesis
  proof cases
    case 3
    then have "nat (int E - 0x3FF + 12) = LENGTH(64) - (1023 + 52 - E)" by simp
    then have "drop_bit (nat (int E - 0x3FF + 12)) (- 1 :: u64) = mask (1023 + 52 - E)"
      using shifted_ones [where ?'a = 64, of "1023 + 52 - E"] 3 by simp
    then show ?thesis unfolding psizam_f64_trunc_def exp_bits64 E using 3 by (simp add: Let_def clear_if)
  next
    case 2
    have "drop_bit 1 (- 1 :: u64) = mask 63" using shifted_ones [where ?'a = 64, of 63] by simp
    then show ?thesis unfolding psizam_f64_trunc_def exp_bits64 E using 2 by (simp add: Let_def clear_if)
  next
    case 1
    then show ?thesis unfolding psizam_f64_trunc_def exp_bits64 E by (simp add: Let_def)
  qed
qed

lemma fmag_one: "0 < b \<Longrightarrow> fmag p (b * 2 ^ p) = 2 ^ (b + p - 1)"
  by (simp add: fmag_def flip: power_add)

lemma and_low_0_iff:
  assumes "k \<le> LENGTH('a) - 1"
  shows "a AND mask k = 0 \<longleftrightarrow> mbits (a :: 'a :: len word) mod 2 ^ k = 0"
  using take_low_0_iff [OF assms, of a] by (simp add: take_bit_eq_mask)

lemma away_format:
  assumes "0 < b" and p: "p \<le> LENGTH('a) - 1" and top: "(b + p + 1) * 2 ^ p \<le> 2 ^ (LENGTH('a) - 1)"
    and large: "b + p \<le> mbits a div 2 ^ p \<Longrightarrow> r = a"
    and mid: "\<And>k. b \<le> mbits a div 2 ^ p \<Longrightarrow> mbits a div 2 ^ p < b + p \<Longrightarrow> k = b + p - mbits a div 2 ^ p
                \<Longrightarrow> r = (if a AND mask k = 0 then a else (a + mask k) AND NOT (mask k))"
    and small: "mbits a div 2 ^ p < b \<Longrightarrow> fneg r = fneg a \<and> mbits r = (if mbits a = 0 then 0 else b * 2 ^ p)"
  shows "fneg r = fneg (a :: 'a :: len word)"
    and "fmag p (mbits r) =
      (fmag p (mbits a) div 2 ^ (b + p - 1) + of_bool (fmag p (mbits a) mod 2 ^ (b + p - 1) \<noteq> 0)) * 2 ^ (b + p - 1)"
proof -
  let ?E = "mbits a div 2 ^ p"
  obtain U :: nat where U: "2 ^ (b + p - 1) = U" and "0 < U" by simp
  consider "b + p \<le> ?E" | "?E < b" | "b \<le> ?E" "?E < b + p" by linarith
  then have "fneg r = fneg a \<and> fmag p (mbits r) = (fmag p (mbits a) div U + of_bool (fmag p (mbits a) mod U \<noteq> 0)) * U"
  proof cases
    case 1
    have "U dvd fmag p (mbits a)" using fmag_integral [OF 1 assms(1)] unfolding U .
    then show ?thesis using large [OF 1] by simp
  next
    case 2
    have "fmag p (mbits a) < U" using fmag_below_one [OF 2] unfolding U .
    then show ?thesis using small [OF 2] fmag_one [OF assms(1), of p] unfolding U by (cases "mbits a = 0") auto
  next
    case 3
    let ?k = "b + p - ?E"
    have "?k \<le> p" using 3 by simp
    then have k: "?k \<le> LENGTH('a) - 1" and kp: "(2 :: nat) ^ ?k \<le> 2 ^ p" using p by (auto intro: power_increasing)
    have "mbits a mod 2 ^ ?k \<noteq> 0 \<longleftrightarrow> fmag p (mbits a) mod U \<noteq> 0"
      using fmag_trunc(2) [OF assms(1) 3] unfolding U by simp
    moreover have "mbits a + 2 ^ ?k \<le> 2 ^ (LENGTH('a) - 1)"
    proof -
      have "mbits a = ?E * 2 ^ p + mbits a mod 2 ^ p" by (simp only: div_mult_mod_eq)
      also have "\<dots> \<le> (?E + 1) * 2 ^ p" by simp
      also have "\<dots> \<le> (b + p) * 2 ^ p" using 3 by (intro mult_right_mono) auto
      finally have "mbits a \<le> (b + p) * 2 ^ p" .
      moreover have "(b + p + 1) * 2 ^ p = (b + p) * 2 ^ p + 2 ^ p" by simp
      ultimately show ?thesis using top kp by linarith
    qed
    ultimately show ?thesis
      using mid [OF 3 refl] round_up_low [OF k, of a] fmag_ceil [OF assms(1) 3] and_low_0_iff [OF k, of a] fmag_trunc(1) [OF assms(1) 3]
      unfolding U by (cases "mbits a mod 2 ^ ?k = 0") simp_all
  qed
  then show "fneg r = fneg a"
    and "fmag p (mbits r) =
      (fmag p (mbits a) div 2 ^ (b + p - 1) + of_bool (fmag p (mbits a) mod 2 ^ (b + p - 1) \<noteq> 0)) * 2 ^ (b + p - 1)"
    unfolding U by auto
qed

lemma int_ceil: "0 < U \<Longrightarrow> - (- int M div int U) = int (M div U + of_bool (M mod U \<noteq> 0))"
  by (simp add: zdiv_zminus1_eq_if zdiv_int flip: zmod_int)

lemma fval_trunc:
  assumes "fneg r = fneg (a :: 'a :: len word)" and "fmag p (mbits r) = fmag p (mbits a) div 2 ^ (b + p - 1) * 2 ^ (b + p - 1)"
  shows "fval p r = ftrunc b p a * 2 ^ (b + p - 1)"
    and "fneg a \<Longrightarrow> fval p r = fceil b p a * 2 ^ (b + p - 1)"
    and "\<not> fneg a \<Longrightarrow> fval p r = ffloor b p a * 2 ^ (b + p - 1)"
proof -
  obtain U :: nat where U: "2 ^ (b + p - 1) = U" and "0 < U" by simp
  have V: "(2 :: int) ^ (b + p - 1) = int U" unfolding U [symmetric] by simp
  show "fval p r = ftrunc b p a * 2 ^ (b + p - 1)" "fneg a \<Longrightarrow> fval p r = fceil b p a * 2 ^ (b + p - 1)"
    "\<not> fneg a \<Longrightarrow> fval p r = ffloor b p a * 2 ^ (b + p - 1)"
    using assms unfolding fval_def ftrunc_def fceil_def ffloor_def U V by (simp_all add: zdiv_int)
qed

lemma fval_away:
  assumes "fneg r = fneg (a :: 'a :: len word)"
    and "fmag p (mbits r) =
      (fmag p (mbits a) div 2 ^ (b + p - 1) + of_bool (fmag p (mbits a) mod 2 ^ (b + p - 1) \<noteq> 0)) * 2 ^ (b + p - 1)"
  shows "\<not> fneg a \<Longrightarrow> fval p r = fceil b p a * 2 ^ (b + p - 1)"
    and "fneg a \<Longrightarrow> fval p r = ffloor b p a * 2 ^ (b + p - 1)"
proof -
  obtain U :: nat where U: "2 ^ (b + p - 1) = U" and "0 < U" by simp
  have V: "(2 :: int) ^ (b + p - 1) = int U" unfolding U [symmetric] by simp
  note c = int_ceil [OF \<open>0 < U\<close>, of "fmag p (mbits a)"]
  show "\<not> fneg a \<Longrightarrow> fval p r = fceil b p a * 2 ^ (b + p - 1)"
    unfolding fval_def fceil_def V using assms unfolding U by (simp only: c if_False of_nat_mult)
  assume "fneg a"
  have "int (fmag p (mbits r)) = - (- int (fmag p (mbits a)) div int U) * int U"
    using assms(2) unfolding U by (simp only: c of_nat_mult)
  then show "fval p r = ffloor b p a * 2 ^ (b + p - 1)"
    unfolding fval_def ffloor_def V using assms(1) \<open>fneg a\<close> by simp
qed

lemmas f32_trunc_format = trunc_format [OF _ _ f32_trunc_bits, simplified]
lemmas f64_trunc_format = trunc_format [OF _ _ f64_trunc_bits]

lemma shifted_frac: "k \<le> 23 \<Longrightarrow> drop_bit (23 - k) (0x007FFFFF :: u32) = mask k"
proof -
  assume "k \<le> 23"
  have "(0x007FFFFF :: u32) = mask 23" by (simp add: mask_numeral)
  then have "drop_bit (23 - k) (0x007FFFFF :: u32) = drop_bit (23 - k) (mask 23)" by (rule arg_cong)
  also have "\<dots> = mask k" using \<open>k \<le> 23\<close> by (intro bit_eqI) (auto simp: bit_simps)
  finally show ?thesis .
qed

lemma sign_shift32: "drop_bit 31 (a :: u32) = 0 \<longleftrightarrow> \<not> fneg a"
  using fneg_drop [of a] by simp

lemma sign_shift64: "drop_bit 63 (a :: u64) = 0 \<longleftrightarrow> \<not> fneg a"
  using fneg_drop [of a] by simp

lemma fneg_mbits_const32: "fneg (0x80000000 :: u32)" "mbits (0x80000000 :: u32) = 0" "\<not> fneg (0x3F800000 :: u32)"
  "mbits (0x3F800000 :: u32) = 127 * 2 ^ 23" "fneg (0xBF800000 :: u32)" "mbits (0xBF800000 :: u32) = 127 * 2 ^ 23"
  "\<not> fneg (0 :: u32)" "mbits (0 :: u32) = 0"
  by (simp_all add: fneg_def mbits_def)

lemma f32_ceil_toward:
  assumes "\<not> f32_is_nan a" "fneg a"
  shows "psizam_f32_ceil n a = (if 127 + 23 \<le> mbits a div 2 ^ 23 then a
      else a AND NOT (mask (if mbits a div 2 ^ 23 < 127 then LENGTH(32) - 1 else 127 + 23 - mbits a div 2 ^ 23)))"
proof -
  obtain E where E: "mbits a div 2 ^ 23 = E" by blast
  consider "127 + 23 \<le> E" | "E < 127" | "127 \<le> E" "E < 127 + 23" by linarith
  then show ?thesis
  proof cases
    case 3
    then have "nat (int E - 0x7F) = 23 - (127 + 23 - E)" by simp
    then have "drop_bit (nat (int E - 0x7F)) (0x007FFFFF :: u32) = mask (127 + 23 - E)"
      using shifted_frac [of "127 + 23 - E"] 3 by simp
    then show ?thesis
      unfolding psizam_f32_ceil_def exp_bits32 E sign_shift32 using 3 assms by (simp add: Let_def clear_none)
  next
    case 2
    have "(0x80000000 :: u32) = a AND NOT (mask 31)"
      using assms(2) clear_low [of 31 a] mbits_bound [of a] by (simp add: word_eq_split fneg_mbits_const32)
    then show ?thesis unfolding psizam_f32_ceil_def exp_bits32 E sign_shift32 using 2 assms by (simp add: Let_def)
  next
    case 1
    then show ?thesis unfolding psizam_f32_ceil_def exp_bits32 E using assms(1) by (simp add: Let_def)
  qed
qed

lemma f32_ceil_value:
  assumes "\<not> f32_is_nan a"
  shows "fneg (psizam_f32_ceil n a) = fneg a \<and> fval 23 (psizam_f32_ceil n a) = fceil 127 23 a * 2 ^ (127 + 23 - 1)"
proof (cases "fneg a")
  case True
  note t = trunc_format [OF _ _ f32_ceil_toward [OF assms True]]
  show ?thesis using t(1) fval_trunc(2) [OF t True] by simp
next
  case False
  let ?r = "psizam_f32_ceil n a"
  obtain E where E: "mbits a div 2 ^ 23 = E" by blast
  have large: "?r = a" if "127 + 23 \<le> mbits a div 2 ^ 23"
    using that assms unfolding psizam_f32_ceil_def exp_bits32 E by (simp add: Let_def)
  have mid: "?r = (if a AND mask k = 0 then a else (a + mask k) AND NOT (mask k))"
    if "127 \<le> mbits a div 2 ^ 23" "mbits a div 2 ^ 23 < 127 + 23" "k = 127 + 23 - mbits a div 2 ^ 23" for k
  proof -
    have "nat (int E - 0x7F) = 23 - k" "k \<le> 23" using that unfolding E by simp_all
    then have "drop_bit (nat (int E - 0x7F)) (0x007FFFFF :: u32) = mask k" using shifted_frac [of k] by simp
    then show ?thesis
      using that False assms unfolding psizam_f32_ceil_def exp_bits32 E sign_shift32 by (simp add: Let_def)
  qed
  have small: "fneg ?r = fneg a \<and> mbits ?r = (if mbits a = 0 then 0 else 127 * 2 ^ 23)" if "mbits a div 2 ^ 23 < 127"
    using that False assms unfolding psizam_f32_ceil_def exp_bits32 E sign_shift32 push_1_0_iff
    by (simp add: Let_def fneg_mbits_const32)
  note t = away_format [of 127 23 a ?r, OF _ _ _ large mid small]
  show ?thesis using t(1) fval_away(1) [OF t] False by simp
qed

lemma f32_floor_toward:
  assumes "\<not> f32_is_nan a" "\<not> fneg a"
  shows "psizam_f32_floor n a = (if 127 + 23 \<le> mbits a div 2 ^ 23 then a
      else a AND NOT (mask (if mbits a div 2 ^ 23 < 127 then LENGTH(32) - 1 else 127 + 23 - mbits a div 2 ^ 23)))"
proof -
  obtain E where E: "mbits a div 2 ^ 23 = E" by blast
  consider "127 + 23 \<le> E" | "E < 127" | "127 \<le> E" "E < 127 + 23" by linarith
  then show ?thesis
  proof cases
    case 3
    then have "nat (int E - 0x7F) = 23 - (127 + 23 - E)" by simp
    then have "drop_bit (nat (int E - 0x7F)) (0x007FFFFF :: u32) = mask (127 + 23 - E)"
      using shifted_frac [of "127 + 23 - E"] 3 by simp
    then show ?thesis
      unfolding psizam_f32_floor_def exp_bits32 E sign_shift32 using 3 assms by (simp add: Let_def clear_none)
  next
    case 2
    have "(0 :: u32) = a AND NOT (mask 31)"
      using assms(2) clear_low [of 31 a] mbits_bound [of a] by (simp add: word_eq_split fneg_mbits_const32)
    then show ?thesis unfolding psizam_f32_floor_def exp_bits32 E sign_shift32 using 2 assms by (simp add: Let_def)
  next
    case 1
    then show ?thesis unfolding psizam_f32_floor_def exp_bits32 E using assms(1) by (simp add: Let_def)
  qed
qed

lemma f32_floor_value:
  assumes "\<not> f32_is_nan a"
  shows "fneg (psizam_f32_floor n a) = fneg a \<and> fval 23 (psizam_f32_floor n a) = ffloor 127 23 a * 2 ^ (127 + 23 - 1)"
proof (cases "\<not> fneg a")
  case True
  note t = trunc_format [OF _ _ f32_floor_toward [OF assms True]]
  show ?thesis using t(1) fval_trunc(3) [OF t True] by simp
next
  case False
  let ?r = "psizam_f32_floor n a"
  obtain E where E: "mbits a div 2 ^ 23 = E" by blast
  have large: "?r = a" if "127 + 23 \<le> mbits a div 2 ^ 23"
    using that assms unfolding psizam_f32_floor_def exp_bits32 E by (simp add: Let_def)
  have mid: "?r = (if a AND mask k = 0 then a else (a + mask k) AND NOT (mask k))"
    if "127 \<le> mbits a div 2 ^ 23" "mbits a div 2 ^ 23 < 127 + 23" "k = 127 + 23 - mbits a div 2 ^ 23" for k
  proof -
    have "nat (int E - 0x7F) = 23 - k" "k \<le> 23" using that unfolding E by simp_all
    then have "drop_bit (nat (int E - 0x7F)) (0x007FFFFF :: u32) = mask k" using shifted_frac [of k] by simp
    then show ?thesis
      using that False assms unfolding psizam_f32_floor_def exp_bits32 E sign_shift32 by (simp add: Let_def)
  qed
  have small: "fneg ?r = fneg a \<and> mbits ?r = (if mbits a = 0 then 0 else 127 * 2 ^ 23)" if "mbits a div 2 ^ 23 < 127"
    using that False assms unfolding psizam_f32_floor_def exp_bits32 E sign_shift32 push_1_0_iff
    by (simp add: Let_def fneg_mbits_const32)
  note t = away_format [of 127 23 a ?r, OF _ _ _ large mid small]
  show ?thesis using t(1) fval_away(2) [OF t] False by simp
qed

subsection \<open>Ranges of the conversions\<close>

lemma fmag_pow: "0 < b \<Longrightarrow> fmag p ((b + w) * 2 ^ p) = 2 ^ w * 2 ^ (b + p - 1)"
  by (simp add: fmag_def flip: power_add)

lemma fval_ge_iff:
  assumes "fval p c = 2 ^ w * 2 ^ (b + p - 1)"
  shows "fval p c \<le> fval p a \<longleftrightarrow> 2 ^ w \<le> ftrunc b p a"
proof -
  obtain U :: nat where U: "2 ^ (b + p - 1) = U" and "0 < U" by simp
  have V: "(2 :: int) ^ (b + p - 1) = int U" unfolding U [symmetric] by simp
  obtain M where M: "fmag p (mbits a) = M" by blast
  have pos: "0 < (2 :: int) ^ w * int U" "0 < (2 :: int) ^ w" using \<open>0 < U\<close> by simp_all
  have "2 ^ w \<le> M div U \<longleftrightarrow> 2 ^ w * U \<le> M" using \<open>0 < U\<close> by (simp add: less_eq_div_iff_mult_less_eq)
  then have "int (2 ^ w) \<le> int (M div U) \<longleftrightarrow> int (2 ^ w * U) \<le> int M" by (simp only: of_nat_le_iff)
  then have "\<not> fneg a \<Longrightarrow> ?thesis"
    unfolding assms V unfolding fval_def ftrunc_def M U by simp
  moreover have "\<not> 2 ^ w * int U \<le> - int M" "\<not> 2 ^ w \<le> - int (M div U)" using pos by linarith+
  then have "fneg a \<Longrightarrow> ?thesis" unfolding assms V unfolding fval_def ftrunc_def M U by (simp only: if_True)
  ultimately show ?thesis by blast
qed

lemma fval_le_neg_iff:
  assumes "fval p c = - int k * 2 ^ (b + p - 1)" and "0 < k"
  shows "fval p a \<le> fval p c \<longleftrightarrow> ftrunc b p a \<le> - int k"
proof -
  obtain U :: nat where U: "2 ^ (b + p - 1) = U" and "0 < U" by simp
  have V: "(2 :: int) ^ (b + p - 1) = int U" unfolding U [symmetric] by simp
  obtain M where M: "fmag p (mbits a) = M" by blast
  have pos: "0 < int k * int U" using \<open>0 < U\<close> assms(2) by simp
  have "k \<le> M div U \<longleftrightarrow> k * U \<le> M" using \<open>0 < U\<close> by (simp add: less_eq_div_iff_mult_less_eq)
  then have "int k \<le> int (M div U) \<longleftrightarrow> int (k * U) \<le> int M" by (simp only: of_nat_le_iff)
  then have "fneg a \<Longrightarrow> ?thesis" unfolding assms V unfolding fval_def ftrunc_def M U by simp
  moreover have "\<not> int M \<le> - int k * int U" "\<not> int (M div U) \<le> - int k" using pos assms(2) by linarith+
  then have "\<not> fneg a \<Longrightarrow> ?thesis" unfolding assms V unfolding fval_def ftrunc_def M U by (simp only: if_False)
  ultimately show ?thesis by blast
qed

lemma fval_less_neg_iff:
  assumes "fval p c = - (2 ^ w) * 2 ^ (b + p - 1)" and "0 < b" and "p \<le> w"
  shows "fval p a < fval p c \<longleftrightarrow> ftrunc b p a < - (2 ^ w)"
proof -
  obtain U :: nat where U: "2 ^ (b + p - 1) = U" and "0 < U" by simp
  have V: "(2 :: int) ^ (b + p - 1) = int U" unfolding U [symmetric] by simp
  obtain M where M: "fmag p (mbits a) = M" by blast
  have pos: "0 < (2 :: int) ^ w * int U" "0 < (2 :: int) ^ w" using \<open>0 < U\<close> by simp_all
  have "2 ^ w < M div U \<longleftrightarrow> 2 ^ w * U < M"
  proof
    assume "2 ^ w < M div U"
    then have "Suc (2 ^ w) * U \<le> M" using \<open>0 < U\<close> by (simp add: less_eq_div_iff_mult_less_eq flip: Suc_le_eq)
    then show "2 ^ w * U < M" using \<open>0 < U\<close> by simp
  next
    assume gt: "2 ^ w * U < M"
    then have "(b + w) * 2 ^ p < mbits a"
      unfolding M [symmetric] U [symmetric] fmag_pow [OF assms(2), symmetric] by simp
    then have "b + w \<le> mbits a div 2 ^ p" by (simp add: less_eq_div_iff_mult_less_eq)
    then have "U dvd M" using fmag_integral [of b p "mbits a"] assms(2,3) unfolding U M by simp
    then obtain q where "M = U * q" by (rule dvdE)
    then show "2 ^ w < M div U" using gt \<open>0 < U\<close> by (simp add: mult.commute)
  qed
  then have "int (2 ^ w) < int (M div U) \<longleftrightarrow> int (2 ^ w * U) < int M" by (simp only: of_nat_less_iff)
  then have "fneg a \<Longrightarrow> ?thesis" unfolding assms V unfolding fval_def ftrunc_def M U by simp
  moreover have "\<not> int M < - (2 ^ w) * int U" "\<not> int (M div U) < - (2 ^ w)" using pos by linarith+
  then have "\<not> fneg a \<Longrightarrow> ?thesis" unfolding assms V unfolding fval_def ftrunc_def M U by (simp only: if_False)
  ultimately show ?thesis by blast
qed

lemma fval_pow:
  assumes "0 < b" "mbits c = (b + w) * 2 ^ p"
  shows "\<not> fneg c \<Longrightarrow> fval p c = 2 ^ w * 2 ^ (b + p - 1)" "fneg c \<Longrightarrow> fval p c = - (2 ^ w) * 2 ^ (b + p - 1)"
  unfolding fval_def assms(2) fmag_pow [OF assms(1)] by simp_all

subsection \<open>Comparisons and conversions\<close>

lemma psizam_f32_compare:
  "psizam_f32_eq a b \<longleftrightarrow> \<not> f32_is_nan a \<and> \<not> f32_is_nan b \<and> fval 23 a = fval 23 b"
  "psizam_f32_ne a b \<longleftrightarrow> f32_is_nan a \<or> f32_is_nan b \<or> fval 23 a \<noteq> fval 23 b"
  "psizam_f32_lt a b \<longleftrightarrow> \<not> f32_is_nan a \<and> \<not> f32_is_nan b \<and> fval 23 a < fval 23 b"
  "psizam_f32_le a b \<longleftrightarrow> \<not> f32_is_nan a \<and> \<not> f32_is_nan b \<and> fval 23 a \<le> fval 23 b"
  "psizam_f32_gt a b \<longleftrightarrow> \<not> f32_is_nan a \<and> \<not> f32_is_nan b \<and> fval 23 b < fval 23 a"
  "psizam_f32_ge a b \<longleftrightarrow> \<not> f32_is_nan a \<and> \<not> f32_is_nan b \<and> fval 23 b \<le> fval 23 a"
  unfolding psizam_f32_eq_def psizam_f32_ne_def psizam_f32_lt_def psizam_f32_le_def psizam_f32_gt_def psizam_f32_ge_def
    f32_compare_value by auto

lemma psizam_f64_compare:
  "psizam_f64_eq a b \<longleftrightarrow> \<not> f64_is_nan a \<and> \<not> f64_is_nan b \<and> fval 52 a = fval 52 b"
  "psizam_f64_ne a b \<longleftrightarrow> f64_is_nan a \<or> f64_is_nan b \<or> fval 52 a \<noteq> fval 52 b"
  "psizam_f64_lt a b \<longleftrightarrow> \<not> f64_is_nan a \<and> \<not> f64_is_nan b \<and> fval 52 a < fval 52 b"
  "psizam_f64_le a b \<longleftrightarrow> \<not> f64_is_nan a \<and> \<not> f64_is_nan b \<and> fval 52 a \<le> fval 52 b"
  "psizam_f64_gt a b \<longleftrightarrow> \<not> f64_is_nan a \<and> \<not> f64_is_nan b \<and> fval 52 b < fval 52 a"
  "psizam_f64_ge a b \<longleftrightarrow> \<not> f64_is_nan a \<and> \<not> f64_is_nan b \<and> fval 52 b \<le> fval 52 a"
  unfolding psizam_f64_eq_def psizam_f64_ne_def psizam_f64_lt_def psizam_f64_le_def psizam_f64_gt_def psizam_f64_ge_def
    f64_compare_value by auto

lemma f32_bounds:
  "psizam_f32_ge a 0x4F000000 \<longleftrightarrow> \<not> f32_is_nan a \<and> 2 ^ 31 \<le> ftrunc 127 23 a"
  "psizam_f32_ge a 0x4F800000 \<longleftrightarrow> \<not> f32_is_nan a \<and> 2 ^ 32 \<le> ftrunc 127 23 a"
  "psizam_f32_ge a 0x5F000000 \<longleftrightarrow> \<not> f32_is_nan a \<and> 2 ^ 63 \<le> ftrunc 127 23 a"
  "psizam_f32_ge a 0x5F800000 \<longleftrightarrow> \<not> f32_is_nan a \<and> 2 ^ 64 \<le> ftrunc 127 23 a"
  "psizam_f32_le a 0xBF800000 \<longleftrightarrow> \<not> f32_is_nan a \<and> ftrunc 127 23 a \<le> - 1"
  "psizam_f32_lt a 0xDF000000 \<longleftrightarrow> \<not> f32_is_nan a \<and> ftrunc 127 23 a < - (2 ^ 63)"
proof -
  have "fval 23 (0x4F000000 :: u32) = 2 ^ 31 * 2 ^ (127 + 23 - 1)"
    by (rule fval_pow(1)) (simp_all add: mbits_def fneg_def)
  note c = fval_ge_iff [OF this, of a]
  have "\<not> f32_is_nan 0x4F000000" by (simp add: f32_is_nan_def)
  then show "psizam_f32_ge a 0x4F000000 \<longleftrightarrow> \<not> f32_is_nan a \<and> 2 ^ 31 \<le> ftrunc 127 23 a"
    unfolding psizam_f32_compare c by blast
  have "fval 23 (0x4F800000 :: u32) = 2 ^ 32 * 2 ^ (127 + 23 - 1)"
    by (rule fval_pow(1)) (simp_all add: mbits_def fneg_def)
  note c = fval_ge_iff [OF this, of a]
  have "\<not> f32_is_nan 0x4F800000" by (simp add: f32_is_nan_def)
  then show "psizam_f32_ge a 0x4F800000 \<longleftrightarrow> \<not> f32_is_nan a \<and> 2 ^ 32 \<le> ftrunc 127 23 a"
    unfolding psizam_f32_compare c by blast
  have "fval 23 (0x5F000000 :: u32) = 2 ^ 63 * 2 ^ (127 + 23 - 1)"
    by (rule fval_pow(1)) (simp_all add: mbits_def fneg_def)
  note c = fval_ge_iff [OF this, of a]
  have "\<not> f32_is_nan 0x5F000000" by (simp add: f32_is_nan_def)
  then show "psizam_f32_ge a 0x5F000000 \<longleftrightarrow> \<not> f32_is_nan a \<and> 2 ^ 63 \<le> ftrunc 127 23 a"
    unfolding psizam_f32_compare c by blast
  have "fval 23 (0x5F800000 :: u32) = 2 ^ 64 * 2 ^ (127 + 23 - 1)"
    by (rule fval_pow(1)) (simp_all add: mbits_def fneg_def)
  note c = fval_ge_iff [OF this, of a]
  have "\<not> f32_is_nan 0x5F800000" by (simp add: f32_is_nan_def)
  then show "psizam_f32_ge a 0x5F800000 \<longleftrightarrow> \<not> f32_is_nan a \<and> 2 ^ 64 \<le> ftrunc 127 23 a"
    unfolding psizam_f32_compare c by blast
  have "fval 23 (0xBF800000 :: u32) = - (2 ^ 0) * 2 ^ (127 + 23 - 1)"
    by (rule fval_pow(2)) (simp_all add: mbits_def fneg_def)
  then have "fval 23 (0xBF800000 :: u32) = - int 1 * 2 ^ (127 + 23 - 1)" by (simp only: power_0 of_nat_1)
  note c = fval_le_neg_iff [OF this zero_less_one, of a]
  have "\<not> f32_is_nan 0xBF800000" by (simp add: f32_is_nan_def)
  then show "psizam_f32_le a 0xBF800000 \<longleftrightarrow> \<not> f32_is_nan a \<and> ftrunc 127 23 a \<le> - 1"
    unfolding psizam_f32_compare c of_nat_1 by blast
  have "fval 23 (0xDF000000 :: u32) = - (2 ^ 63) * 2 ^ (127 + 23 - 1)"
    by (rule fval_pow(2)) (simp_all add: mbits_def fneg_def)
  note c = fval_less_neg_iff [OF this, of a]
  have "\<not> f32_is_nan 0xDF000000" by (simp add: f32_is_nan_def)
  then show "psizam_f32_lt a 0xDF000000 \<longleftrightarrow> \<not> f32_is_nan a \<and> ftrunc 127 23 a < - (2 ^ 63)"
    unfolding psizam_f32_compare using c by simp
qed

lemma f64_bounds:
  "psizam_f64_ge a 0x41E0000000000000 \<longleftrightarrow> \<not> f64_is_nan a \<and> 2 ^ 31 \<le> ftrunc 1023 52 a"
  "psizam_f64_ge a 0x41F0000000000000 \<longleftrightarrow> \<not> f64_is_nan a \<and> 2 ^ 32 \<le> ftrunc 1023 52 a"
  "psizam_f64_ge a 0x43E0000000000000 \<longleftrightarrow> \<not> f64_is_nan a \<and> 2 ^ 63 \<le> ftrunc 1023 52 a"
  "psizam_f64_ge a 0x43F0000000000000 \<longleftrightarrow> \<not> f64_is_nan a \<and> 2 ^ 64 \<le> ftrunc 1023 52 a"
  "psizam_f64_le a 0xBFF0000000000000 \<longleftrightarrow> \<not> f64_is_nan a \<and> ftrunc 1023 52 a \<le> - 1"
  "psizam_f64_lt a 0xC3E0000000000000 \<longleftrightarrow> \<not> f64_is_nan a \<and> ftrunc 1023 52 a < - (2 ^ 63)"
proof -
  have "fval 52 (0x41E0000000000000 :: u64) = 2 ^ 31 * 2 ^ (1023 + 52 - 1)"
    by (rule fval_pow(1)) (simp_all add: mbits_def fneg_def)
  note c = fval_ge_iff [OF this, of a]
  have "\<not> f64_is_nan 0x41E0000000000000" by (simp add: f64_is_nan_def)
  then show "psizam_f64_ge a 0x41E0000000000000 \<longleftrightarrow> \<not> f64_is_nan a \<and> 2 ^ 31 \<le> ftrunc 1023 52 a"
    unfolding psizam_f64_compare c by blast
  have "fval 52 (0x41F0000000000000 :: u64) = 2 ^ 32 * 2 ^ (1023 + 52 - 1)"
    by (rule fval_pow(1)) (simp_all add: mbits_def fneg_def)
  note c = fval_ge_iff [OF this, of a]
  have "\<not> f64_is_nan 0x41F0000000000000" by (simp add: f64_is_nan_def)
  then show "psizam_f64_ge a 0x41F0000000000000 \<longleftrightarrow> \<not> f64_is_nan a \<and> 2 ^ 32 \<le> ftrunc 1023 52 a"
    unfolding psizam_f64_compare c by blast
  have "fval 52 (0x43E0000000000000 :: u64) = 2 ^ 63 * 2 ^ (1023 + 52 - 1)"
    by (rule fval_pow(1)) (simp_all add: mbits_def fneg_def)
  note c = fval_ge_iff [OF this, of a]
  have "\<not> f64_is_nan 0x43E0000000000000" by (simp add: f64_is_nan_def)
  then show "psizam_f64_ge a 0x43E0000000000000 \<longleftrightarrow> \<not> f64_is_nan a \<and> 2 ^ 63 \<le> ftrunc 1023 52 a"
    unfolding psizam_f64_compare c by blast
  have "fval 52 (0x43F0000000000000 :: u64) = 2 ^ 64 * 2 ^ (1023 + 52 - 1)"
    by (rule fval_pow(1)) (simp_all add: mbits_def fneg_def)
  note c = fval_ge_iff [OF this, of a]
  have "\<not> f64_is_nan 0x43F0000000000000" by (simp add: f64_is_nan_def)
  then show "psizam_f64_ge a 0x43F0000000000000 \<longleftrightarrow> \<not> f64_is_nan a \<and> 2 ^ 64 \<le> ftrunc 1023 52 a"
    unfolding psizam_f64_compare c by blast
  have "fval 52 (0xBFF0000000000000 :: u64) = - (2 ^ 0) * 2 ^ (1023 + 52 - 1)"
    by (rule fval_pow(2)) (simp_all add: mbits_def fneg_def)
  then have "fval 52 (0xBFF0000000000000 :: u64) = - int 1 * 2 ^ (1023 + 52 - 1)" by (simp only: power_0 of_nat_1)
  note c = fval_le_neg_iff [OF this zero_less_one, of a]
  have "\<not> f64_is_nan 0xBFF0000000000000" by (simp add: f64_is_nan_def)
  then show "psizam_f64_le a 0xBFF0000000000000 \<longleftrightarrow> \<not> f64_is_nan a \<and> ftrunc 1023 52 a \<le> - 1"
    unfolding psizam_f64_compare c of_nat_1 by blast
  have "fval 52 (0xC3E0000000000000 :: u64) = - (2 ^ 63) * 2 ^ (1023 + 52 - 1)"
    by (rule fval_pow(2)) (simp_all add: mbits_def fneg_def)
  note c = fval_less_neg_iff [OF this, of a]
  have "\<not> f64_is_nan 0xC3E0000000000000" by (simp add: f64_is_nan_def)
  then show "psizam_f64_lt a 0xC3E0000000000000 \<longleftrightarrow> \<not> f64_is_nan a \<and> ftrunc 1023 52 a < - (2 ^ 63)"
    unfolding psizam_f64_compare using c by simp
qed

lemma f32_lt_n31: "psizam_f32_lt a 0xCF000000 \<longleftrightarrow> \<not> f32_is_nan a \<and> ftrunc 127 23 a < - (2 ^ 31)"
proof -
  have "fval 23 (0xCF000000 :: u32) = - (2 ^ 31) * 2 ^ (127 + 23 - 1)"
    by (rule fval_pow(2)) (simp_all add: mbits_def fneg_def)
  note c = fval_less_neg_iff [OF this, of a]
  have "\<not> f32_is_nan 0xCF000000" by (simp add: f32_is_nan_def)
  then show ?thesis unfolding psizam_f32_compare using c by simp
qed

lemma f64_le_n31: "psizam_f64_le a 0xC1E0000000200000 \<longleftrightarrow> \<not> f64_is_nan a \<and> ftrunc 1023 52 a \<le> - (2 ^ 31 + 1)"
proof -
  have "mbits (0xC1E0000000200000 :: u64) = 1054 * 2 ^ 52 + 2 ^ 21" by (simp add: mbits_def)
  then have "mbits (0xC1E0000000200000 :: u64) div 2 ^ 52 = 1054" "mbits (0xC1E0000000200000 :: u64) mod 2 ^ 52 = 2 ^ 21"
    by simp_all
  then have "fmag 52 (mbits (0xC1E0000000200000 :: u64)) = (2 ^ 31 + 1) * 2 ^ 21 * 2 ^ (1054 - 1)"
    unfolding fmag_def by (simp only:) simp
  also have "\<dots> = (2 ^ 31 + 1) * 2 ^ (1023 + 52 - 1)"
    unfolding mult.assoc power_add [symmetric] by (rule arg_cong [of _ _ "\<lambda>n. (2 ^ 31 + 1) * 2 ^ n"]) simp
  finally have "fval 52 (0xC1E0000000200000 :: u64) = - int ((2 ^ 31 + 1) * 2 ^ (1023 + 52 - 1))"
    unfolding fval_def by (simp add: fneg_def)
  then have "fval 52 (0xC1E0000000200000 :: u64) = - int (2 ^ 31 + 1) * 2 ^ (1023 + 52 - 1)"
    by (simp only: of_nat_mult of_nat_power of_nat_numeral mult_minus_left)
  note c = fval_le_neg_iff [OF this, of a]
  have "\<not> f64_is_nan 0xC1E0000000200000" by (simp add: f64_is_nan_def)
  then show ?thesis unfolding psizam_f64_compare using c by simp
qed

lemma ftrunc_of_trunc:
  assumes "fneg r = fneg (a :: 'a :: len word)" and "fmag p (mbits r) = fmag p (mbits a) div 2 ^ (b + p - 1) * 2 ^ (b + p - 1)"
  shows "fintegral b p r" "ftrunc b p r = ftrunc b p a"
proof -
  obtain U :: nat where U: "2 ^ (b + p - 1) = U" and "0 < U" by simp
  show "fintegral b p r" unfolding fintegral_def assms(2) by simp
  show "ftrunc b p r = ftrunc b p a" using assms \<open>0 < U\<close> unfolding ftrunc_def U by simp
qed

lemma f32_trunc_integral: "fintegral 127 23 (psizam_f32_trunc False a)" "ftrunc 127 23 (psizam_f32_trunc False a) = ftrunc 127 23 a"
  by (rule ftrunc_of_trunc [OF trunc_format [OF _ _ f32_trunc_bits]]; simp)+

lemma f64_trunc_integral: "fintegral 1023 52 (psizam_f64_trunc False a)" "ftrunc 1023 52 (psizam_f64_trunc False a) = ftrunc 1023 52 a"
  by (rule ftrunc_of_trunc [OF trunc_format [OF _ _ f64_trunc_bits]]; simp)+

text \<open>
  What a trapping and a saturating conversion promise: \<open>t\<close> is the value truncated to an integer, \<open>lo\<close> and \<open>hi\<close>
  the bounds of the target type, \<open>val\<close> reads a result.
\<close>

definition trap_spec :: "int \<Rightarrow> int \<Rightarrow> bool \<Rightarrow> int \<Rightarrow> ('a \<Rightarrow> int) \<Rightarrow> 'a res \<Rightarrow> bool" where
  "trap_spec lo hi nan t val r \<longleftrightarrow>
     (if nan \<or> t < lo \<or> hi < t then int_trap r else \<exists>z. r = Inr z \<and> val z = t)"

definition sat_spec :: "int \<Rightarrow> int \<Rightarrow> bool \<Rightarrow> int \<Rightarrow> int" where
  "sat_spec lo hi nan t = (if nan then 0 else max lo (min hi t))"

lemma trap_specI:
  assumes "r = assertR c e1 (assertR (\<not> nan) e2 (Inr z))"
    and "e1 = wasm_interpreter_exception m1" "e2 = wasm_interpreter_exception m2"
    and "\<not> nan \<Longrightarrow> c \<longleftrightarrow> lo \<le> t \<and> t \<le> hi"
    and "lo \<le> t \<Longrightarrow> t \<le> hi \<Longrightarrow> val z = t"
  shows "trap_spec lo hi nan t val r"
  using assms by (auto simp: trap_spec_def assertR_def int_trap_def)

lemma f32_trunc_i32s_spec: "trap_spec (- (2 ^ 31)) (2 ^ 31 - 1) (f32_is_nan a) (ftrunc 127 23 a) sint (psizam_f32_trunc_i32s a)"
proof (rule trap_specI [OF psizam_f32_trunc_i32s_def refl refl])
  show "sint (f32_to_i32 (psizam_f32_trunc False a) softfloat_round_near_even) = ftrunc 127 23 a"
    if "- (2 ^ 31) \<le> ftrunc 127 23 a" "ftrunc 127 23 a \<le> 2 ^ 31 - 1"
    using that f32_to_i32_exact [OF f32_trunc_integral(1), of a] unfolding f32_trunc_integral by simp
qed (auto simp: f32_bounds f32_lt_n31)

lemma f32_trunc_i32u_spec: "trap_spec (0) (2 ^ 32 - 1) (f32_is_nan a) (ftrunc 127 23 a) uint (psizam_f32_trunc_i32u a)"
proof (rule trap_specI [OF psizam_f32_trunc_i32u_def refl refl])
  show "uint (f32_to_ui32 (psizam_f32_trunc False a) softfloat_round_near_even) = ftrunc 127 23 a"
    if "0 \<le> ftrunc 127 23 a" "ftrunc 127 23 a \<le> 2 ^ 32 - 1"
    using that f32_to_ui32_exact [OF f32_trunc_integral(1), of a] unfolding f32_trunc_integral by simp
qed (auto simp: f32_bounds )

lemma f32_trunc_i64s_spec: "trap_spec (- (2 ^ 63)) (2 ^ 63 - 1) (f32_is_nan a) (ftrunc 127 23 a) sint (psizam_f32_trunc_i64s a)"
proof (rule trap_specI [OF psizam_f32_trunc_i64s_def refl refl])
  show "sint (f32_to_i64 (psizam_f32_trunc False a) softfloat_round_near_even) = ftrunc 127 23 a"
    if "- (2 ^ 63) \<le> ftrunc 127 23 a" "ftrunc 127 23 a \<le> 2 ^ 63 - 1"
    using that f32_to_i64_exact [OF f32_trunc_integral(1), of a] unfolding f32_trunc_integral by simp
qed (auto simp: f32_bounds )

lemma f32_trunc_i64u_spec: "trap_spec (0) (2 ^ 64 - 1) (f32_is_nan a) (ftrunc 127 23 a) uint (psizam_f32_trunc_i64u a)"
proof (rule trap_specI [OF psizam_f32_trunc_i64u_def refl refl])
  show "uint (f32_to_ui64 (psizam_f32_trunc False a) softfloat_round_near_even) = ftrunc 127 23 a"
    if "0 \<le> ftrunc 127 23 a" "ftrunc 127 23 a \<le> 2 ^ 64 - 1"
    using that f32_to_ui64_exact [OF f32_trunc_integral(1), of a] unfolding f32_trunc_integral by simp
qed (auto simp: f32_bounds )

lemma f64_trunc_i32s_spec: "trap_spec (- (2 ^ 31)) (2 ^ 31 - 1) (f64_is_nan a) (ftrunc 1023 52 a) sint (psizam_f64_trunc_i32s True a)"
proof (rule trap_specI [OF psizam_f64_trunc_i32s_def refl refl])
  show "sint (f64_to_i32 (psizam_f64_trunc False a) softfloat_round_near_even) = ftrunc 1023 52 a"
    if "- (2 ^ 31) \<le> ftrunc 1023 52 a" "ftrunc 1023 52 a \<le> 2 ^ 31 - 1"
    using that f64_to_i32_exact [OF f64_trunc_integral(1), of a] unfolding f64_trunc_integral by simp
qed (auto simp: f64_bounds f64_le_n31)

lemma f64_trunc_i32u_spec: "trap_spec (0) (2 ^ 32 - 1) (f64_is_nan a) (ftrunc 1023 52 a) uint (psizam_f64_trunc_i32u a)"
proof (rule trap_specI [OF psizam_f64_trunc_i32u_def refl refl])
  show "uint (f64_to_ui32 (psizam_f64_trunc False a) softfloat_round_near_even) = ftrunc 1023 52 a"
    if "0 \<le> ftrunc 1023 52 a" "ftrunc 1023 52 a \<le> 2 ^ 32 - 1"
    using that f64_to_ui32_exact [OF f64_trunc_integral(1), of a] unfolding f64_trunc_integral by simp
qed (auto simp: f64_bounds )

lemma f64_trunc_i64s_spec: "trap_spec (- (2 ^ 63)) (2 ^ 63 - 1) (f64_is_nan a) (ftrunc 1023 52 a) sint (psizam_f64_trunc_i64s a)"
proof (rule trap_specI [OF psizam_f64_trunc_i64s_def refl refl])
  show "sint (f64_to_i64 (psizam_f64_trunc False a) softfloat_round_near_even) = ftrunc 1023 52 a"
    if "- (2 ^ 63) \<le> ftrunc 1023 52 a" "ftrunc 1023 52 a \<le> 2 ^ 63 - 1"
    using that f64_to_i64_exact [OF f64_trunc_integral(1), of a] unfolding f64_trunc_integral by simp
qed (auto simp: f64_bounds )

lemma f64_trunc_i64u_spec: "trap_spec (0) (2 ^ 64 - 1) (f64_is_nan a) (ftrunc 1023 52 a) uint (psizam_f64_trunc_i64u a)"
proof (rule trap_specI [OF psizam_f64_trunc_i64u_def refl refl])
  show "uint (f64_to_ui64 (psizam_f64_trunc False a) softfloat_round_near_even) = ftrunc 1023 52 a"
    if "0 \<le> ftrunc 1023 52 a" "ftrunc 1023 52 a \<le> 2 ^ 64 - 1"
    using that f64_to_ui64_exact [OF f64_trunc_integral(1), of a] unfolding f64_trunc_integral by simp
qed (auto simp: f64_bounds )

lemma i32_trunc_sat_f32_s_spec: "sint (psizam_i32_trunc_sat_f32_s a) = sat_spec (- (2 ^ 31)) (2 ^ 31 - 1) (f32_is_nan a) (ftrunc 127 23 a)"
  using f32_to_i32_trunc [of a] by (auto simp: psizam_i32_trunc_sat_f32_s_def sat_spec_def f32_bounds f32_lt_n31 max_def min_def)

lemma i32_trunc_sat_f32_u_spec: "uint (psizam_i32_trunc_sat_f32_u a) = sat_spec (0) (2 ^ 32 - 1) (f32_is_nan a) (ftrunc 127 23 a)"
  using f32_to_ui32_trunc [of a] by (auto simp: psizam_i32_trunc_sat_f32_u_def sat_spec_def f32_bounds  max_def min_def)

lemma i64_trunc_sat_f32_s_spec: "sint (psizam_i64_trunc_sat_f32_s a) = sat_spec (- (2 ^ 63)) (2 ^ 63 - 1) (f32_is_nan a) (ftrunc 127 23 a)"
  using f32_to_i64_trunc [of a] by (auto simp: psizam_i64_trunc_sat_f32_s_def sat_spec_def f32_bounds  max_def min_def)

lemma i64_trunc_sat_f32_u_spec: "uint (psizam_i64_trunc_sat_f32_u a) = sat_spec (0) (2 ^ 64 - 1) (f32_is_nan a) (ftrunc 127 23 a)"
  using f32_to_ui64_trunc [of a] by (auto simp: psizam_i64_trunc_sat_f32_u_def sat_spec_def f32_bounds  max_def min_def)

lemma i32_trunc_sat_f64_u_spec: "uint (psizam_i32_trunc_sat_f64_u a) = sat_spec (0) (2 ^ 32 - 1) (f64_is_nan a) (ftrunc 1023 52 a)"
  using f64_to_ui32_trunc [of a] by (auto simp: psizam_i32_trunc_sat_f64_u_def sat_spec_def f64_bounds  max_def min_def)

lemma i64_trunc_sat_f64_s_spec: "sint (psizam_i64_trunc_sat_f64_s a) = sat_spec (- (2 ^ 63)) (2 ^ 63 - 1) (f64_is_nan a) (ftrunc 1023 52 a)"
  using f64_to_i64_trunc [of a] by (auto simp: psizam_i64_trunc_sat_f64_s_def sat_spec_def f64_bounds  max_def min_def)

lemma i64_trunc_sat_f64_u_spec: "uint (psizam_i64_trunc_sat_f64_u a) = sat_spec (0) (2 ^ 64 - 1) (f64_is_nan a) (ftrunc 1023 52 a)"
  using f64_to_ui64_trunc [of a] by (auto simp: psizam_i64_trunc_sat_f64_u_def sat_spec_def f64_bounds  max_def min_def)

lemma f64_lt_n31: "psizam_f64_lt a 0xC1E0000000000000 \<longleftrightarrow> \<not> f64_is_nan a \<and> fval 52 a < - (2 ^ 31) * 2 ^ (1023 + 52 - 1)"
proof -
  have "fval 52 (0xC1E0000000000000 :: u64) = - (2 ^ 31) * 2 ^ (1023 + 52 - 1)"
    by (rule fval_pow(2)) (simp_all add: mbits_def fneg_def)
  moreover have "\<not> f64_is_nan 0xC1E0000000000000" by (simp add: f64_is_nan_def)
  ultimately show ?thesis unfolding psizam_f64_compare by simp
qed

lemma i32_trunc_sat_f64_s_spec:
  "sint (psizam_i32_trunc_sat_f64_s a) = sat_spec (- (2 ^ 31)) (2 ^ 31 - 1) (f64_is_nan a) (ftrunc 1023 52 a)"
proof -
  have c: "fval 52 (0xC1E0000000000000 :: u64) = - int (2 ^ 31) * 2 ^ (1023 + 52 - 1)"
    unfolding of_nat_power of_nat_numeral by (rule fval_pow(2)) (simp_all add: mbits_def fneg_def)
  have below: "ftrunc 1023 52 a \<le> - (2 ^ 31)" if "psizam_f64_lt a 0xC1E0000000000000"
    using that fval_le_neg_iff [OF c, of a] unfolding psizam_f64_compare by simp
  have "ftrunc 1023 52 a \<ge> - (2 ^ 31)" if "\<not> psizam_f64_lt a 0xC1E0000000000000" "\<not> f64_is_nan a"
  proof (rule ccontr)
    assume "\<not> - (2 ^ 31) \<le> ftrunc 1023 52 a"
    then have "psizam_f64_le a 0xC1E0000000200000" unfolding f64_le_n31 using that(2) by simp
    moreover have "psizam_f64_lt 0xC1E0000000200000 0xC1E0000000000000" by (simp add: psizam_f64_lt_def f64_lt_def isNaNF64UI_def signF64UI_def Let_def)
    ultimately show False using that(1) unfolding psizam_f64_compare by auto
  qed
  then show ?thesis
    using f64_to_i32_trunc [of a] below by (auto simp: psizam_i32_trunc_sat_f64_s_def sat_spec_def f64_bounds max_def min_def)
qed

subsection \<open>Signs, minimum and maximum\<close>

lemma fneg_bit: "fneg a \<longleftrightarrow> bit (a :: 'a :: len word) (LENGTH('a) - 1)"
proof -
  have "bit a (LENGTH('a) - 1) \<longleftrightarrow> drop_bit (LENGTH('a) - 1) a \<noteq> 0"
  proof
    assume "drop_bit (LENGTH('a) - 1) a \<noteq> 0"
    then obtain n where "bit a (LENGTH('a) - 1 + n)" by (auto simp: bit_eq_iff bit_simps)
    moreover from this have "LENGTH('a) - 1 + n < LENGTH('a)" by (rule bit_imp_le_length)
    then have "n = 0" by simp
    ultimately show "bit a (LENGTH('a) - 1)" by simp
  next
    assume "bit a (LENGTH('a) - 1)"
    then have "bit (drop_bit (LENGTH('a) - 1) a) 0" by (simp add: bit_simps)
    then show "drop_bit (LENGTH('a) - 1) a \<noteq> 0" by (metis bit_0_eq bot_apply bot_bool_def)
  qed
  then show ?thesis by (simp add: fneg_drop)
qed

lemma set_sign:
  assumes n: "n = LENGTH('a) - 1" and x: "\<And>i. bit x i \<longleftrightarrow> i = 0 \<and> s"
  shows "fneg ((a AND NOT (push_bit n 1)) OR push_bit n x) = s"
    and "mbits ((a AND NOT (push_bit n 1)) OR push_bit n x) = mbits (a :: 'a :: len word)"
proof -
  show "fneg ((a AND NOT (push_bit n 1)) OR push_bit n x) = s"
    unfolding fneg_bit n using x by (simp add: bit_simps)
  have "take_bit n ((a AND NOT (push_bit n 1)) OR push_bit n x) = take_bit n a"
    by (rule bit_eqI) (auto simp: bit_simps)
  then show "mbits ((a AND NOT (push_bit n 1)) OR push_bit n x) = mbits a"
    unfolding mbits_take n by simp
qed

lemma top_bit: "bit (drop_bit (LENGTH('a) - 1) a) i \<longleftrightarrow> i = 0 \<and> fneg (a :: 'a :: len word)"
proof (cases i)
  case (Suc j)
  then have "\<not> bit a (LENGTH('a) - 1 + i)" using bit_imp_le_length [of a "LENGTH('a) - 1 + i"] by auto
  then show ?thesis using Suc by (simp add: bit_simps)
qed (simp add: fneg_bit bit_simps)

lemma bit_of_bool_word: "bit (of_bool s :: 'a :: len word) i \<longleftrightarrow> i = 0 \<and> s"
  by (cases s) (auto simp: bit_simps)

lemma f32_sign_ops:
  "fneg (psizam_f32_abs a) = False" "mbits (psizam_f32_abs a) = mbits a"
  "fneg (psizam_f32_neg a) = (\<not> fneg a)" "mbits (psizam_f32_neg a) = mbits a"
  "fneg (psizam_f32_copysign a b) = fneg b" "mbits (psizam_f32_copysign a b) = mbits a"
  using set_sign [of 31 "0 :: u32" False a] set_sign [of 31 "of_bool (\<not> fneg a) :: u32" "\<not> fneg a" a]
    set_sign [of 31 "drop_bit 31 b :: u32" "fneg b" a] top_bit [of b] sign_shift32 [of a]
  by (simp_all add: psizam_f32_abs_def psizam_f32_neg_def psizam_f32_copysign_def bit_of_bool_word)

lemma f64_sign_ops:
  "fneg (psizam_f64_abs a) = False" "mbits (psizam_f64_abs a) = mbits a"
  "fneg (psizam_f64_neg a) = (\<not> fneg a)" "mbits (psizam_f64_neg a) = mbits a"
  "fneg (psizam_f64_copysign a b) = fneg b" "mbits (psizam_f64_copysign a b) = mbits a"
  using set_sign [of 63 "0 :: u64" False a] set_sign [of 63 "of_bool (\<not> fneg a) :: u64" "\<not> fneg a" a]
    set_sign [of 63 "drop_bit 63 b :: u64" "fneg b" a] top_bit [of b] sign_shift64 [of a]
  by (simp_all add: psizam_f64_abs_def psizam_f64_neg_def psizam_f64_copysign_def bit_of_bool_word)

lemma fval_sign: "fneg a \<Longrightarrow> fval p a \<le> 0" "\<not> fneg a \<Longrightarrow> 0 \<le> fval p a"
  by (simp_all add: fval_def)

text \<open>
  What \<open>min\<close> (\<open>lo\<close>) and \<open>max\<close> promise of two patterns that are not NaN: one of them, of the smaller or larger value, and
  of two zeros the negative or the positive one.
\<close>

definition select_spec :: "bool \<Rightarrow> nat \<Rightarrow> 'a :: len word \<Rightarrow> 'a word \<Rightarrow> 'a word \<Rightarrow> bool" where
  "select_spec lo p a b r \<longleftrightarrow>
     (r = a \<or> r = b) \<and> fval p r = (if lo then min else max) (fval p a) (fval p b)
     \<and> (fval p a = fval p b \<longrightarrow> fneg r = (if lo then fneg a \<or> fneg b else fneg a \<and> fneg b))"

lemma f32_min_max_spec:
  assumes "\<not> f32_is_nan a" "\<not> f32_is_nan b"
  shows "select_spec True 23 a b (psizam_f32_min n a b)" "select_spec False 23 a b (psizam_f32_max n a b)"
proof -
  have "fval 23 a \<le> fval 23 b" if "fneg a" "\<not> fneg b" using that fval_sign [of a 23] fval_sign [of b 23] by simp
  moreover have "fval 23 b \<le> fval 23 a" if "\<not> fneg a" "fneg b" using that fval_sign [of a 23] fval_sign [of b 23] by simp
  ultimately show "select_spec True 23 a b (psizam_f32_min n a b)" "select_spec False 23 a b (psizam_f32_max n a b)"
    using assms by (cases "fneg a"; cases "fneg b";
      simp add: select_spec_def psizam_f32_min_def psizam_f32_max_def f32_compare_value(1) fields32(2) min_def max_def)+
qed

lemma f64_min_max_spec:
  assumes "\<not> f64_is_nan a" "\<not> f64_is_nan b"
  shows "select_spec True 52 a b (psizam_f64_min n a b)" "select_spec False 52 a b (psizam_f64_max n a b)"
proof -
  have "fval 52 a \<le> fval 52 b" if "fneg a" "\<not> fneg b" using that fval_sign [of a 52] fval_sign [of b 52] by simp
  moreover have "fval 52 b \<le> fval 52 a" if "\<not> fneg a" "fneg b" using that fval_sign [of a 52] fval_sign [of b 52] by simp
  ultimately show "select_spec True 52 a b (psizam_f64_min n a b)" "select_spec False 52 a b (psizam_f64_max n a b)"
    using assms by (cases "fneg a"; cases "fneg b";
      simp add: select_spec_def psizam_f64_min_def psizam_f64_max_def f64_compare_value(1) fields64(2) min_def max_def)+
qed

lemma trunc_any:
  "\<not> f32_is_nan a \<Longrightarrow> psizam_f32_trunc n a = psizam_f32_trunc False a"
  "\<not> f64_is_nan c \<Longrightarrow> psizam_f64_trunc n c = psizam_f64_trunc False c"
  by (simp_all add: psizam_f32_trunc_def psizam_f64_trunc_def)

lemma f32_trunc_value: "fneg (psizam_f32_trunc False a) = fneg a" "fval 23 (psizam_f32_trunc False a) = ftrunc 127 23 a * 2 ^ (127 + 23 - 1)"
proof -
  note t = trunc_format [OF zero_less_numeral _ f32_trunc_bits]
  show "fneg (psizam_f32_trunc False a) = fneg a" by (rule t) simp
  show "fval 23 (psizam_f32_trunc False a) = ftrunc 127 23 a * 2 ^ (127 + 23 - 1)" by (rule fval_trunc(1)) (rule t; simp)+
qed

lemma f64_trunc_value: "fneg (psizam_f64_trunc False a) = fneg a" "fval 52 (psizam_f64_trunc False a) = ftrunc 1023 52 a * 2 ^ (1023 + 52 - 1)"
proof -
  note t = trunc_format [OF zero_less_numeral _ f64_trunc_bits]
  show "fneg (psizam_f64_trunc False a) = fneg a" by (rule t) simp
  show "fval 52 (psizam_f64_trunc False a) = ftrunc 1023 52 a * 2 ^ (1023 + 52 - 1)" by (rule fval_trunc(1)) (rule t; simp)+
qed

subsection \<open>The correctness of the scalar operations\<close>

text \<open>
  \<^bold>\<open>C13\<close>: the comparisons compare values. With a NaN operand only \<open>ne\<close> holds; otherwise the six comparisons of two
  patterns agree with the order of the numbers they stand for, so that the two zeros are equal and the infinities
  are the extremes.
\<close>

theorem float_comparisons:
  "psizam_f32_eq a b = (\<not> f32_is_nan a \<and> \<not> f32_is_nan b \<and> fval 23 a = fval 23 b) \<and>
   psizam_f32_ne a b = (\<not> (\<not> f32_is_nan a \<and> \<not> f32_is_nan b \<and> fval 23 a = fval 23 b)) \<and>
   psizam_f32_lt a b = (\<not> f32_is_nan a \<and> \<not> f32_is_nan b \<and> fval 23 a < fval 23 b) \<and>
   psizam_f32_le a b = (\<not> f32_is_nan a \<and> \<not> f32_is_nan b \<and> fval 23 a \<le> fval 23 b) \<and>
   psizam_f32_gt a b = (\<not> f32_is_nan a \<and> \<not> f32_is_nan b \<and> fval 23 b < fval 23 a) \<and>
   psizam_f32_ge a b = (\<not> f32_is_nan a \<and> \<not> f32_is_nan b \<and> fval 23 b \<le> fval 23 a) \<and>
   psizam_f64_eq c d = (\<not> f64_is_nan c \<and> \<not> f64_is_nan d \<and> fval 52 c = fval 52 d) \<and>
   psizam_f64_ne c d = (\<not> (\<not> f64_is_nan c \<and> \<not> f64_is_nan d \<and> fval 52 c = fval 52 d)) \<and>
   psizam_f64_lt c d = (\<not> f64_is_nan c \<and> \<not> f64_is_nan d \<and> fval 52 c < fval 52 d) \<and>
   psizam_f64_le c d = (\<not> f64_is_nan c \<and> \<not> f64_is_nan d \<and> fval 52 c \<le> fval 52 d) \<and>
   psizam_f64_gt c d = (\<not> f64_is_nan c \<and> \<not> f64_is_nan d \<and> fval 52 d < fval 52 c) \<and>
   psizam_f64_ge c d = (\<not> f64_is_nan c \<and> \<not> f64_is_nan d \<and> fval 52 d \<le> fval 52 c)"
  unfolding psizam_f32_compare psizam_f64_compare by simp

text \<open>
  \<^bold>\<open>C7\<close>: the bit manipulations of \<open>f32.ceil\<close>, \<open>f32.floor\<close>, \<open>f32.trunc\<close> and \<open>f64.trunc\<close> round the value. For every
  pattern that is not a NaN, infinities and subnormals included, the result has the sign of the operand, so that a
  negative operand rounds to \<open>-0\<close> and not to \<open>+0\<close>, and its value is the operand's rounded up, down or towards
  zero to an integer.
\<close>

theorem float_rounding:
  assumes "\<not> f32_is_nan a" "\<not> f64_is_nan c"
  shows "fneg (psizam_f32_ceil n a) = fneg a \<and> fval 23 (psizam_f32_ceil n a) = fceil 127 23 a * 2 ^ (127 + 23 - 1) \<and>
    fneg (psizam_f32_floor n a) = fneg a \<and> fval 23 (psizam_f32_floor n a) = ffloor 127 23 a * 2 ^ (127 + 23 - 1) \<and>
    fneg (psizam_f32_trunc n a) = fneg a \<and> fval 23 (psizam_f32_trunc n a) = ftrunc 127 23 a * 2 ^ (127 + 23 - 1) \<and>
    fneg (psizam_f64_trunc n c) = fneg c \<and> fval 52 (psizam_f64_trunc n c) = ftrunc 1023 52 c * 2 ^ (1023 + 52 - 1)"
  unfolding trunc_any(1) [OF assms(1), of n] trunc_any(2) [OF assms(2), of n]
  by (intro conjI f32_ceil_value [OF assms(1), THEN conjunct1] f32_ceil_value [OF assms(1), THEN conjunct2]
      f32_floor_value [OF assms(1), THEN conjunct1] f32_floor_value [OF assms(1), THEN conjunct2]
      f32_trunc_value f64_trunc_value)

theorem float_rounding_witness:
  "\<not> f32_is_nan 0xBFC00000 \<and> \<not> f64_is_nan 0x4004000000000000 \<and> fneg (psizam_f32_ceil True 0xBFC00000) \<and>
   fval 23 (psizam_f32_ceil True 0xBFC00000) = - (2 ^ 149) \<and> fval 23 (psizam_f32_floor True 0xBFC00000) = - 2 * 2 ^ 149"
proof -
  have n: "\<not> f32_is_nan 0xBFC00000" "\<not> f64_is_nan 0x4004000000000000" by (simp_all add: f32_is_nan_def f64_is_nan_def)
  have v: "fneg (0xBFC00000 :: u32)" "fceil 127 23 (0xBFC00000 :: u32) = - 1" "ffloor 127 23 (0xBFC00000 :: u32) = - 2"
    by (simp_all add: fneg_def fceil_def ffloor_def fval_def mbits_def fmag_def)
  show ?thesis using n v(1) float_rounding [OF n, of True] unfolding v(2,3) by simp
qed

text \<open>
  \<^bold>\<open>C6\<close>: the trapping conversions. Each of the eight conversions of a float to an integer traps exactly when the
  operand is a NaN or its value, truncated towards zero, does not fit the target type, and otherwise returns
  that integer; in particular the internal rounding to nearest of SoftFloat is never visible. (For the conversion
  of a double to a signed 32-bit integer this is the instance \<open>FixedBound = true\<close> that the interpreter uses.)
\<close>

theorem trapping_conversions:
  "trap_spec (- (2 ^ 31)) (2 ^ 31 - 1) (f32_is_nan a) (ftrunc 127 23 a) sint (psizam_f32_trunc_i32s a) \<and>
   trap_spec 0 (2 ^ 32 - 1) (f32_is_nan a) (ftrunc 127 23 a) uint (psizam_f32_trunc_i32u a) \<and>
   trap_spec (- (2 ^ 63)) (2 ^ 63 - 1) (f32_is_nan a) (ftrunc 127 23 a) sint (psizam_f32_trunc_i64s a) \<and>
   trap_spec 0 (2 ^ 64 - 1) (f32_is_nan a) (ftrunc 127 23 a) uint (psizam_f32_trunc_i64u a) \<and>
   trap_spec (- (2 ^ 31)) (2 ^ 31 - 1) (f64_is_nan c) (ftrunc 1023 52 c) sint (psizam_f64_trunc_i32s True c) \<and>
   trap_spec 0 (2 ^ 32 - 1) (f64_is_nan c) (ftrunc 1023 52 c) uint (psizam_f64_trunc_i32u c) \<and>
   trap_spec (- (2 ^ 63)) (2 ^ 63 - 1) (f64_is_nan c) (ftrunc 1023 52 c) sint (psizam_f64_trunc_i64s c) \<and>
   trap_spec 0 (2 ^ 64 - 1) (f64_is_nan c) (ftrunc 1023 52 c) uint (psizam_f64_trunc_i64u c)"
  by (intro conjI f32_trunc_i32s_spec f32_trunc_i32u_spec f32_trunc_i64s_spec f32_trunc_i64u_spec
      f64_trunc_i32s_spec f64_trunc_i32u_spec f64_trunc_i64s_spec f64_trunc_i64u_spec)

text \<open>
  \<^bold>\<open>C9\<close>: the saturating conversions never trap: a NaN becomes zero and every other operand its value truncated
  towards zero and clamped to the range of the target type.
\<close>

theorem saturating_conversions:
  "sint (psizam_i32_trunc_sat_f32_s a) = sat_spec (- (2 ^ 31)) (2 ^ 31 - 1) (f32_is_nan a) (ftrunc 127 23 a) \<and>
   uint (psizam_i32_trunc_sat_f32_u a) = sat_spec 0 (2 ^ 32 - 1) (f32_is_nan a) (ftrunc 127 23 a) \<and>
   sint (psizam_i64_trunc_sat_f32_s a) = sat_spec (- (2 ^ 63)) (2 ^ 63 - 1) (f32_is_nan a) (ftrunc 127 23 a) \<and>
   uint (psizam_i64_trunc_sat_f32_u a) = sat_spec 0 (2 ^ 64 - 1) (f32_is_nan a) (ftrunc 127 23 a) \<and>
   sint (psizam_i32_trunc_sat_f64_s c) = sat_spec (- (2 ^ 31)) (2 ^ 31 - 1) (f64_is_nan c) (ftrunc 1023 52 c) \<and>
   uint (psizam_i32_trunc_sat_f64_u c) = sat_spec 0 (2 ^ 32 - 1) (f64_is_nan c) (ftrunc 1023 52 c) \<and>
   sint (psizam_i64_trunc_sat_f64_s c) = sat_spec (- (2 ^ 63)) (2 ^ 63 - 1) (f64_is_nan c) (ftrunc 1023 52 c) \<and>
   uint (psizam_i64_trunc_sat_f64_u c) = sat_spec 0 (2 ^ 64 - 1) (f64_is_nan c) (ftrunc 1023 52 c)"
  by (intro conjI i32_trunc_sat_f32_s_spec i32_trunc_sat_f32_u_spec i64_trunc_sat_f32_s_spec i64_trunc_sat_f32_u_spec
      i32_trunc_sat_f64_s_spec i32_trunc_sat_f64_u_spec i64_trunc_sat_f64_s_spec i64_trunc_sat_f64_u_spec)

text \<open>
  \<^bold>\<open>C24\<close>: \<open>min\<close> and \<open>max\<close>. A NaN operand gives the canonical NaN in the instance \<open>ArithNan = true\<close> the interpreter
  uses; otherwise the result is the operand of the smaller (larger) value, and of two zeros the negative
  (positive) one.
\<close>

theorem float_min_max:
  "(if f32_is_nan a \<or> f32_is_nan b then psizam_f32_min True a b = 0x7FC00000 \<and> psizam_f32_max True a b = 0x7FC00000
    else select_spec True 23 a b (psizam_f32_min True a b) \<and> select_spec False 23 a b (psizam_f32_max True a b)) \<and>
   (if f64_is_nan c \<or> f64_is_nan d
    then psizam_f64_min True c d = 0x7FF8000000000000 \<and> psizam_f64_max True c d = 0x7FF8000000000000
    else select_spec True 52 c d (psizam_f64_min True c d) \<and> select_spec False 52 c d (psizam_f64_max True c d))"
  using f32_min_max_spec [of a b True] f64_min_max_spec [of c d True]
  by (auto simp: psizam_f32_min_def psizam_f32_max_def psizam_f64_min_def psizam_f64_max_def
      propagate_nan32_def propagate_nan64_def)

end
