(* ===== verification/Softfloat_Simd.thy ===== *)
theory Softfloat_Simd
  imports Softfloat
begin

unbundle bit_operations_syntax

section \<open>Deterministic vector floating point\<close>

text \<open>
  The vector half of \<open>psizam/detail/softfloat.hpp\<close>: the functions \<open>_psizam_f32x4_*\<close> and \<open>_psizam_f64x2_*\<close>, the vector
  conversions and the relaxed operations. A \<open>v128_t\<close> is a 128-bit word; the \<open>memcpy\<close> between it and an array of
  lanes is \<open>to_lanes\<close> and \<open>of_lanes\<close>, lane 0 in the low bits. The lemmas relate every lane to the scalar operation.
\<close>

subsection \<open>Lanes\<close>

definition to_lanes :: "u128 \<Rightarrow> 'a :: len word list" where
  "to_lanes v = map (\<lambda>i. ucast (drop_bit (LENGTH('a) * i) v)) [0..<128 div LENGTH('a)]"

definition of_lanes :: "'a :: len word list \<Rightarrow> u128" where
  "of_lanes xs = foldr (\<lambda>x v. ucast x OR push_bit LENGTH('a) v) xs 0"

definition apply_f32x4 :: "(u32 \<Rightarrow> u32) \<Rightarrow> u128 \<Rightarrow> u128" where
  "apply_f32x4 f a = of_lanes (map f (to_lanes a))"

definition apply_f32x4_2 :: "(u32 \<Rightarrow> u32 \<Rightarrow> u32) \<Rightarrow> u128 \<Rightarrow> u128 \<Rightarrow> u128" where
  "apply_f32x4_2 f a b = of_lanes (map2 f (to_lanes a) (to_lanes b))"

definition apply_f64x2 :: "(u64 \<Rightarrow> u64) \<Rightarrow> u128 \<Rightarrow> u128" where
  "apply_f64x2 f a = of_lanes (map f (to_lanes a))"

definition apply_f64x2_2 :: "(u64 \<Rightarrow> u64 \<Rightarrow> u64) \<Rightarrow> u128 \<Rightarrow> u128 \<Rightarrow> u128" where
  "apply_f64x2_2 f a b = of_lanes (map2 f (to_lanes a) (to_lanes b))"

definition apply_f64x2_zero :: "(u64 \<Rightarrow> u32) \<Rightarrow> u128 \<Rightarrow> u128" where
  "apply_f64x2_zero f a = of_lanes (map f (to_lanes a) @ [0, 0])"

definition apply_f32x4_low :: "(u32 \<Rightarrow> u64) \<Rightarrow> u128 \<Rightarrow> u128" where
  "apply_f32x4_low f a = of_lanes (map f (take 2 (to_lanes a)))"

subsection \<open>Four floats\<close>

definition psizam_f32x4_eq :: "u128 \<Rightarrow> u128 \<Rightarrow> u128" where
  "psizam_f32x4_eq = apply_f32x4_2 (\<lambda>a b. if f32_eq a b then - 1 else 0)"

definition psizam_f32x4_ne :: "u128 \<Rightarrow> u128 \<Rightarrow> u128" where
  "psizam_f32x4_ne = apply_f32x4_2 (\<lambda>a b. if \<not> f32_eq a b then - 1 else 0)"

definition psizam_f32x4_lt :: "u128 \<Rightarrow> u128 \<Rightarrow> u128" where
  "psizam_f32x4_lt = apply_f32x4_2 (\<lambda>a b. if f32_lt a b then - 1 else 0)"

definition psizam_f32x4_gt :: "u128 \<Rightarrow> u128 \<Rightarrow> u128" where
  "psizam_f32x4_gt = apply_f32x4_2 (\<lambda>a b. if f32_lt b a then - 1 else 0)"

definition psizam_f32x4_le :: "u128 \<Rightarrow> u128 \<Rightarrow> u128" where
  "psizam_f32x4_le = apply_f32x4_2 (\<lambda>a b. if f32_le a b then - 1 else 0)"

definition psizam_f32x4_ge :: "u128 \<Rightarrow> u128 \<Rightarrow> u128" where
  "psizam_f32x4_ge = apply_f32x4_2 (\<lambda>a b. if f32_le b a then - 1 else 0)"

definition psizam_f32x4_ceil :: "u128 \<Rightarrow> u128" where
  "psizam_f32x4_ceil = apply_f32x4 (psizam_f32_ceil True)"

definition psizam_f32x4_floor :: "u128 \<Rightarrow> u128" where
  "psizam_f32x4_floor = apply_f32x4 (psizam_f32_floor True)"

definition psizam_f32x4_trunc :: "u128 \<Rightarrow> u128" where
  "psizam_f32x4_trunc = apply_f32x4 (psizam_f32_trunc True)"

definition psizam_f32x4_nearest :: "u128 \<Rightarrow> u128" where
  "psizam_f32x4_nearest = apply_f32x4 (psizam_f32_nearest True)"

definition psizam_f32x4_abs :: "u128 \<Rightarrow> u128" where
  "psizam_f32x4_abs = apply_f32x4 psizam_f32_abs"

definition psizam_f32x4_neg :: "u128 \<Rightarrow> u128" where
  "psizam_f32x4_neg = apply_f32x4 psizam_f32_neg"

definition psizam_f32x4_sqrt :: "u128 \<Rightarrow> u128" where
  "psizam_f32x4_sqrt = apply_f32x4 psizam_f32_sqrt"

definition psizam_f32x4_add :: "u128 \<Rightarrow> u128 \<Rightarrow> u128" where
  "psizam_f32x4_add = apply_f32x4_2 f32_add"

definition psizam_f32x4_sub :: "u128 \<Rightarrow> u128 \<Rightarrow> u128" where
  "psizam_f32x4_sub = apply_f32x4_2 f32_sub"

definition psizam_f32x4_mul :: "u128 \<Rightarrow> u128 \<Rightarrow> u128" where
  "psizam_f32x4_mul = apply_f32x4_2 f32_mul"

definition psizam_f32x4_div :: "u128 \<Rightarrow> u128 \<Rightarrow> u128" where
  "psizam_f32x4_div = apply_f32x4_2 f32_div"

definition psizam_f32x4_min :: "u128 \<Rightarrow> u128 \<Rightarrow> u128" where
  "psizam_f32x4_min = apply_f32x4_2 (psizam_f32_min True)"

definition psizam_f32x4_max :: "u128 \<Rightarrow> u128 \<Rightarrow> u128" where
  "psizam_f32x4_max = apply_f32x4_2 (psizam_f32_max True)"

definition psizam_f32x4_pmin :: "u128 \<Rightarrow> u128 \<Rightarrow> u128" where
  "psizam_f32x4_pmin = apply_f32x4_2 (\<lambda>a b. if f32_lt b a then b else a)"

definition psizam_f32x4_pmax :: "u128 \<Rightarrow> u128 \<Rightarrow> u128" where
  "psizam_f32x4_pmax = apply_f32x4_2 (\<lambda>a b. if f32_lt a b then b else a)"

subsection \<open>Two doubles\<close>

definition psizam_f64x2_eq :: "u128 \<Rightarrow> u128 \<Rightarrow> u128" where
  "psizam_f64x2_eq = apply_f64x2_2 (\<lambda>a b. if f64_eq a b then - 1 else 0)"

definition psizam_f64x2_ne :: "u128 \<Rightarrow> u128 \<Rightarrow> u128" where
  "psizam_f64x2_ne = apply_f64x2_2 (\<lambda>a b. if \<not> f64_eq a b then - 1 else 0)"

definition psizam_f64x2_lt :: "u128 \<Rightarrow> u128 \<Rightarrow> u128" where
  "psizam_f64x2_lt = apply_f64x2_2 (\<lambda>a b. if f64_lt a b then - 1 else 0)"

definition psizam_f64x2_gt :: "u128 \<Rightarrow> u128 \<Rightarrow> u128" where
  "psizam_f64x2_gt = apply_f64x2_2 (\<lambda>a b. if f64_lt b a then - 1 else 0)"

definition psizam_f64x2_le :: "u128 \<Rightarrow> u128 \<Rightarrow> u128" where
  "psizam_f64x2_le = apply_f64x2_2 (\<lambda>a b. if f64_le a b then - 1 else 0)"

definition psizam_f64x2_ge :: "u128 \<Rightarrow> u128 \<Rightarrow> u128" where
  "psizam_f64x2_ge = apply_f64x2_2 (\<lambda>a b. if f64_le b a then - 1 else 0)"

definition psizam_f64x2_ceil :: "u128 \<Rightarrow> u128" where
  "psizam_f64x2_ceil = apply_f64x2 (psizam_f64_ceil True)"

definition psizam_f64x2_floor :: "u128 \<Rightarrow> u128" where
  "psizam_f64x2_floor = apply_f64x2 (psizam_f64_floor True)"

definition psizam_f64x2_trunc :: "u128 \<Rightarrow> u128" where
  "psizam_f64x2_trunc = apply_f64x2 (psizam_f64_trunc True)"

definition psizam_f64x2_nearest :: "u128 \<Rightarrow> u128" where
  "psizam_f64x2_nearest = apply_f64x2 (psizam_f64_nearest True)"

definition psizam_f64x2_abs :: "u128 \<Rightarrow> u128" where
  "psizam_f64x2_abs = apply_f64x2 psizam_f64_abs"

definition psizam_f64x2_neg :: "u128 \<Rightarrow> u128" where
  "psizam_f64x2_neg = apply_f64x2 psizam_f64_neg"

definition psizam_f64x2_sqrt :: "u128 \<Rightarrow> u128" where
  "psizam_f64x2_sqrt = apply_f64x2 psizam_f64_sqrt"

definition psizam_f64x2_add :: "u128 \<Rightarrow> u128 \<Rightarrow> u128" where
  "psizam_f64x2_add = apply_f64x2_2 f64_add"

definition psizam_f64x2_sub :: "u128 \<Rightarrow> u128 \<Rightarrow> u128" where
  "psizam_f64x2_sub = apply_f64x2_2 f64_sub"

definition psizam_f64x2_mul :: "u128 \<Rightarrow> u128 \<Rightarrow> u128" where
  "psizam_f64x2_mul = apply_f64x2_2 f64_mul"

definition psizam_f64x2_div :: "u128 \<Rightarrow> u128 \<Rightarrow> u128" where
  "psizam_f64x2_div = apply_f64x2_2 f64_div"

definition psizam_f64x2_min :: "u128 \<Rightarrow> u128 \<Rightarrow> u128" where
  "psizam_f64x2_min = apply_f64x2_2 (psizam_f64_min True)"

definition psizam_f64x2_max :: "u128 \<Rightarrow> u128 \<Rightarrow> u128" where
  "psizam_f64x2_max = apply_f64x2_2 (psizam_f64_max True)"

definition psizam_f64x2_pmin :: "u128 \<Rightarrow> u128 \<Rightarrow> u128" where
  "psizam_f64x2_pmin = apply_f64x2_2 (\<lambda>a b. if f64_lt b a then b else a)"

definition psizam_f64x2_pmax :: "u128 \<Rightarrow> u128 \<Rightarrow> u128" where
  "psizam_f64x2_pmax = apply_f64x2_2 (\<lambda>a b. if f64_lt a b then b else a)"

subsection \<open>Conversions\<close>

definition psizam_i32x4_trunc_sat_f32x4_s :: "u128 \<Rightarrow> u128" where
  "psizam_i32x4_trunc_sat_f32x4_s = apply_f32x4 psizam_i32_trunc_sat_f32_s"

definition psizam_i32x4_trunc_sat_f32x4_u :: "u128 \<Rightarrow> u128" where
  "psizam_i32x4_trunc_sat_f32x4_u = apply_f32x4 psizam_i32_trunc_sat_f32_u"

definition psizam_f32x4_convert_i32x4_s :: "u128 \<Rightarrow> u128" where
  "psizam_f32x4_convert_i32x4_s = apply_f32x4 psizam_i32_to_f32"

definition psizam_f32x4_convert_i32x4_u :: "u128 \<Rightarrow> u128" where
  "psizam_f32x4_convert_i32x4_u = apply_f32x4 psizam_ui32_to_f32"

definition psizam_i32x4_trunc_sat_f64x2_s_zero :: "u128 \<Rightarrow> u128" where
  "psizam_i32x4_trunc_sat_f64x2_s_zero = apply_f64x2_zero psizam_i32_trunc_sat_f64_s"

definition psizam_i32x4_trunc_sat_f64x2_u_zero :: "u128 \<Rightarrow> u128" where
  "psizam_i32x4_trunc_sat_f64x2_u_zero = apply_f64x2_zero psizam_i32_trunc_sat_f64_u"

definition psizam_f64x2_convert_low_i32x4_s :: "u128 \<Rightarrow> u128" where
  "psizam_f64x2_convert_low_i32x4_s = apply_f32x4_low psizam_i32_to_f64"

definition psizam_f64x2_convert_low_i32x4_u :: "u128 \<Rightarrow> u128" where
  "psizam_f64x2_convert_low_i32x4_u = apply_f32x4_low psizam_ui32_to_f64"

definition psizam_f32x4_demote_f64x2_zero :: "u128 \<Rightarrow> u128" where
  "psizam_f32x4_demote_f64x2_zero = apply_f64x2_zero psizam_f64_demote"

definition psizam_f64x2_promote_low_f32x4 :: "u128 \<Rightarrow> u128" where
  "psizam_f64x2_promote_low_f32x4 = apply_f32x4_low psizam_f32_promote"

subsection \<open>Relaxed operations\<close>

definition psizam_f32x4_relaxed_madd :: "u128 \<Rightarrow> u128 \<Rightarrow> u128 \<Rightarrow> u128" where
  "psizam_f32x4_relaxed_madd a b c = psizam_f32x4_add (psizam_f32x4_mul a b) c"

definition psizam_f32x4_relaxed_nmadd :: "u128 \<Rightarrow> u128 \<Rightarrow> u128 \<Rightarrow> u128" where
  "psizam_f32x4_relaxed_nmadd a b c = psizam_f32x4_add (psizam_f32x4_neg (psizam_f32x4_mul a b)) c"

definition psizam_f64x2_relaxed_madd :: "u128 \<Rightarrow> u128 \<Rightarrow> u128 \<Rightarrow> u128" where
  "psizam_f64x2_relaxed_madd a b c = psizam_f64x2_add (psizam_f64x2_mul a b) c"

definition psizam_f64x2_relaxed_nmadd :: "u128 \<Rightarrow> u128 \<Rightarrow> u128 \<Rightarrow> u128" where
  "psizam_f64x2_relaxed_nmadd a b c = psizam_f64x2_add (psizam_f64x2_neg (psizam_f64x2_mul a b)) c"

definition psizam_i16x8_relaxed_dot_i8x16_i7x16_s :: "u128 \<Rightarrow> u128 \<Rightarrow> u128" where
  "psizam_i16x8_relaxed_dot_i8x16_i7x16_s a b =
     (let va = to_lanes a :: u8 list; vb = to_lanes b :: u8 list in
      of_lanes (map (\<lambda>i. word_of_int (sint (word_of_int (sint (va ! (2 * i)) * sint (vb ! (2 * i))) :: u16)
                                      + sint (word_of_int (sint (va ! (2 * i + 1)) * sint (vb ! (2 * i + 1))) :: u16)) :: u16)
                 [0..<8]))"

text \<open>
  \<open>sum += va[..] * vb[..]\<close> is a signed 32-bit addition, whose overflow is undefined.
\<close>

definition add_i32 :: "int \<Rightarrow> int \<Rightarrow> int res" where
  "add_i32 x y = (if - (2 ^ 31) \<le> x + y \<and> x + y < 2 ^ 31 then Inr (x + y) else Inl (Undefined ''signed overflow''))"

fun dot_sum :: "int \<Rightarrow> (int \<times> int) list \<Rightarrow> int res" where
  "dot_sum acc [] = Inr acc"
| "dot_sum acc ((x, y) # ps) = bindR (add_i32 acc (x * y)) (\<lambda>s. dot_sum s ps)"

fun dot_lanes :: "(int \<times> (int \<times> int) list) list \<Rightarrow> u32 list res" where
  "dot_lanes [] = Inr []"
| "dot_lanes ((c, ps) # ls) = bindR (dot_sum c ps) (\<lambda>s. bindR (dot_lanes ls) (\<lambda>rs. Inr (word_of_int s # rs)))"

definition psizam_i32x4_relaxed_dot_i8x16_i7x16_add_s :: "u128 \<Rightarrow> u128 \<Rightarrow> u128 \<Rightarrow> u128 res" where
  "psizam_i32x4_relaxed_dot_i8x16_i7x16_add_s a b c =
     (let va = to_lanes a :: u8 list; vb = to_lanes b :: u8 list; vc = to_lanes c :: u32 list in
      bindR (dot_lanes (map (\<lambda>i. (sint (vc ! i), map (\<lambda>j. (sint (va ! (4 * i + j)), sint (vb ! (4 * i + j)))) [0..<4])) [0..<4]))
        (\<lambda>rs. Inr (of_lanes rs)))"

subsection \<open>Reading and writing lanes\<close>

lemma bit_of_lanes:
  assumes "LENGTH('a) * length xs \<le> 128" "i < length xs" "n < LENGTH('a)"
  shows "bit (of_lanes (xs :: 'a :: len word list)) (LENGTH('a) * i + n) = bit (xs ! i) n"
  using assms
proof (induction xs arbitrary: i)
  case (Cons x xs)
  have s: "of_lanes (x # xs) = ucast x OR push_bit LENGTH('a) (of_lanes xs)" by (simp add: of_lanes_def)
  have "LENGTH('a) * i + n < LENGTH('a) * (i + 1)" using Cons.prems(3) by simp
  also have "\<dots> \<le> LENGTH('a) * length (x # xs)" using Cons.prems(2) by (intro mult_le_mono2) simp
  finally have lt: "LENGTH('a) * i + n < 128" using Cons.prems(1) by linarith
  show ?case
  proof (cases i)
    case 0
    then show ?thesis using lt Cons.prems(3) by (simp add: s bit_simps)
  next
    case (Suc j)
    have "\<not> bit x (LENGTH('a) * i + n)" using Suc bit_imp_le_length [of x "LENGTH('a) * i + n"] by auto
    moreover have "LENGTH('a) * i + n - LENGTH('a) = LENGTH('a) * j + n" using Suc by simp
    moreover have "LENGTH('a) \<le> LENGTH('a) * i + n" using Suc by simp
    ultimately show ?thesis using lt Suc Cons.IH [of j] Cons.prems by (simp add: s bit_simps)
  qed
qed simp

lemma to_of_lanes:
  assumes "LENGTH('a) * length xs = 128"
  shows "to_lanes (of_lanes xs) = (xs :: 'a :: len word list)"
proof (rule nth_equalityI)
  have l: "128 div LENGTH('a) = length xs" using assms by (metis len_not_eq_0 nonzero_mult_div_cancel_left)
  then show "length (to_lanes (of_lanes xs) :: 'a word list) = length xs" by (simp add: to_lanes_def)
  fix i
  assume "i < length (to_lanes (of_lanes xs) :: 'a word list)"
  then have i: "i < length xs" by (simp add: to_lanes_def l)
  have "ucast (drop_bit (LENGTH('a) * i) (of_lanes xs)) = xs ! i"
  proof (rule bit_word_eqI)
    fix n
    assume n: "n < LENGTH('a)"
    have "LENGTH('a) * i + n < LENGTH('a) * (i + 1)" using n by simp
    also have "\<dots> \<le> LENGTH('a) * length xs" using i by (intro mult_le_mono2) simp
    finally show "bit (ucast (drop_bit (LENGTH('a) * i) (of_lanes xs)) :: 'a word) n = bit (xs ! i) n"
      using bit_of_lanes [of xs i n] assms i n by (simp add: bit_simps)
  qed
  then show "to_lanes (of_lanes xs) ! i = xs ! i" by (simp add: to_lanes_def l i)
qed

lemma length_lanes: "length (to_lanes v :: u32 list) = 4" "length (to_lanes v :: u64 list) = 2"
  by (simp_all add: to_lanes_def)

lemma lanes_f32x4: "(to_lanes (apply_f32x4 f a) :: u32 list) = map f (to_lanes a)"
  "(to_lanes (apply_f32x4_2 g a b) :: u32 list) = map2 g (to_lanes a) (to_lanes b)"
  by (simp_all add: apply_f32x4_def apply_f32x4_2_def to_of_lanes length_lanes)

lemma lanes_f64x2: "(to_lanes (apply_f64x2 f a) :: u64 list) = map f (to_lanes a)"
  "(to_lanes (apply_f64x2_2 g a b) :: u64 list) = map2 g (to_lanes a) (to_lanes b)"
  by (simp_all add: apply_f64x2_def apply_f64x2_2_def to_of_lanes length_lanes)

lemma lanes_mixed: "(to_lanes (apply_f64x2_zero f a) :: u32 list) = map f (to_lanes a) @ [0, 0]"
  "(to_lanes (apply_f32x4_low g a) :: u64 list) = map g (take 2 (to_lanes a))"
  by (simp_all add: apply_f64x2_zero_def apply_f32x4_low_def to_of_lanes length_lanes)

lemma nth_f32x4:
  "i < 4 \<Longrightarrow> (to_lanes (apply_f32x4 f a) :: u32 list) ! i = f (to_lanes a ! i)"
  "i < 4 \<Longrightarrow> (to_lanes (apply_f32x4_2 g a b) :: u32 list) ! i = g (to_lanes a ! i) (to_lanes b ! i)"
  by (simp_all add: lanes_f32x4 length_lanes)

lemma nth_f64x2:
  "j < 2 \<Longrightarrow> (to_lanes (apply_f64x2 f a) :: u64 list) ! j = f (to_lanes a ! j)"
  "j < 2 \<Longrightarrow> (to_lanes (apply_f64x2_2 g a b) :: u64 list) ! j = g (to_lanes a ! j) (to_lanes b ! j)"
  by (simp_all add: lanes_f64x2 length_lanes)

lemma nth_zero:
  "k < 4 \<Longrightarrow> (to_lanes (apply_f64x2_zero f a) :: u32 list) ! k = (if k < 2 then f (to_lanes a ! k) else 0)"
  by (auto simp: lanes_mixed length_lanes nth_append nth_Cons' less_Suc_eq numeral_eq_Suc)

subsection \<open>NaN operands\<close>

text \<open>
  The operations that canonicalise return the canonical NaN; SoftFloat's arithmetic, which the vector code calls directly,
  returns the first NaN operand with its quiet bit set.
\<close>

lemma nan_results:
  "f32_is_nan x \<Longrightarrow> psizam_f32_ceil True x = 0x7FC00000" "f32_is_nan x \<Longrightarrow> psizam_f32_floor True x = 0x7FC00000"
  "f32_is_nan x \<Longrightarrow> psizam_f32_trunc True x = 0x7FC00000" "f64_is_nan u \<Longrightarrow> psizam_f64_trunc True u = 0x7FF8000000000000"
  "f32_is_nan x \<or> f32_is_nan y \<Longrightarrow> psizam_f32_min True x y = 0x7FC00000" "f32_is_nan x \<or> f32_is_nan y \<Longrightarrow> psizam_f32_max True x y = 0x7FC00000"
  "f64_is_nan u \<or> f64_is_nan v \<Longrightarrow> psizam_f64_min True u v = 0x7FF8000000000000" "f64_is_nan u \<or> f64_is_nan v \<Longrightarrow> psizam_f64_max True u v = 0x7FF8000000000000"
  by (auto simp: psizam_f32_ceil_def psizam_f32_floor_def psizam_f32_trunc_def psizam_f64_trunc_def psizam_f32_min_def psizam_f32_max_def
      psizam_f64_min_def psizam_f64_max_def propagate_nan32_def propagate_nan64_def)

lemma nan_fields32:
  "f32_is_nan a \<longleftrightarrow> expF32UI a = 255 \<and> fracF32UI a \<noteq> 0" "expF32UI a \<le> 255" "0 \<le> expF32UI a"
proof -
  have m: "mbits a < 2 ^ 31" by (simp add: mbits_def)
  have "fracF32UI a = 0 \<longleftrightarrow> mbits a mod 2 ^ 23 = 0" unfolding fields32(4) [symmetric] by (simp add: unat_eq_0)
  moreover have "mbits a div 2 ^ 23 < 256" using m by (simp add: div_less_iff_less_mult)
  ultimately show "f32_is_nan a \<longleftrightarrow> expF32UI a = 255 \<and> fracF32UI a \<noteq> 0" "expF32UI a \<le> 255" "0 \<le> expF32UI a"
    unfolding fields32(3,6) using nan_pattern [of 23 8 a] by auto
qed

lemma nan_fields64:
  "f64_is_nan a \<longleftrightarrow> expF64UI a = 2047 \<and> fracF64UI a \<noteq> 0" "expF64UI a \<le> 2047" "0 \<le> expF64UI a"
proof -
  have m: "mbits a < 2 ^ 63" by (simp add: mbits_def)
  have "fracF64UI a = 0 \<longleftrightarrow> mbits a mod 2 ^ 52 = 0" unfolding fields64(4) [symmetric] by (simp add: unat_eq_0)
  moreover have "mbits a div 2 ^ 52 < 2048" using m by (simp add: div_less_iff_less_mult)
  ultimately show "f64_is_nan a \<longleftrightarrow> expF64UI a = 2047 \<and> fracF64UI a \<noteq> 0" "expF64UI a \<le> 2047" "0 \<le> expF64UI a"
    unfolding fields64(3,6) using nan_pattern [of 52 11 a] by auto
qed

lemma wide_frac32:
  "ucast (fracF32UI a) = (0 :: u64) \<longleftrightarrow> fracF32UI a = 0"
  "push_bit 6 (ucast (fracF32UI a)) = (0 :: u64) \<longleftrightarrow> fracF32UI a = 0"
  "push_bit 7 (ucast (fracF32UI a)) = (0 :: u64) \<longleftrightarrow> fracF32UI a = 0"
proof -
  have b: "unat (fracF32UI a) < 2 ^ 23" by (simp add: fields32)
  then show "ucast (fracF32UI a) = (0 :: u64) \<longleftrightarrow> fracF32UI a = 0"
    "push_bit 6 (ucast (fracF32UI a)) = (0 :: u64) \<longleftrightarrow> fracF32UI a = 0"
    "push_bit 7 (ucast (fracF32UI a)) = (0 :: u64) \<longleftrightarrow> fracF32UI a = 0"
    by (simp_all add: push_bit_eq_mult unat_word_ariths unat_ucast_up flip: unat_eq_0)
qed

lemma shifted_frac64:
  "push_bit 9 (fracF64UI a) = 0 \<longleftrightarrow> fracF64UI a = 0" "push_bit 10 (fracF64UI a) = 0 \<longleftrightarrow> fracF64UI a = 0"
proof -
  have b: "unat (fracF64UI a) < 2 ^ 52" by (simp add: fields64)
  then show "push_bit 9 (fracF64UI a) = 0 \<longleftrightarrow> fracF64UI a = 0" "push_bit 10 (fracF64UI a) = 0 \<longleftrightarrow> fracF64UI a = 0"
    by (simp_all add: push_bit_eq_mult unat_word_ariths flip: unat_eq_0)
qed

lemma propagate32: "softfloat_propagateNaNF32UI a b = (if f32_is_nan a then a else b) OR 0x00400000"
proof -
  have "f32_is_nan a" if "softfloat_isSigNaNF32UI a"
  proof -
    have "a AND 0x7F800000 = (a AND 0x7FC00000) AND 0x7F800000" by (simp add: and.assoc)
    then have 1: "a AND 0x7F800000 = 0x7F800000" using that by (simp add: softfloat_isSigNaNF32UI_def)
    have "a AND 0x3FFFFF = (a AND 0x7FFFFF) AND 0x3FFFFF" by (simp add: and.assoc)
    then have 2: "a AND 0x7FFFFF \<noteq> 0" using that by (auto simp: softfloat_isSigNaNF32UI_def)
    have "NOT a AND 0x7F800000 = 0" by (subst 1 [symmetric]) (simp add: bit_eq_iff bit_simps)
    then have "isNaNF32UI a" using 2 by (simp add: isNaNF32UI_def)
    then show ?thesis by (simp add: fields32)
  qed
  moreover have "isNaNF32UI a = f32_is_nan a" by (simp add: fields32)
  ultimately show ?thesis by (simp add: softfloat_propagateNaNF32UI_def)
qed

lemma propagate64: "softfloat_propagateNaNF64UI a b = (if f64_is_nan a then a else b) OR 0x0008000000000000"
proof -
  have "f64_is_nan a" if "softfloat_isSigNaNF64UI a"
  proof -
    have "a AND 0x7FF0000000000000 = (a AND 0x7FF8000000000000) AND 0x7FF0000000000000" by (simp add: and.assoc)
    then have 1: "a AND 0x7FF0000000000000 = 0x7FF0000000000000" using that by (simp add: softfloat_isSigNaNF64UI_def)
    have "a AND 0x0007FFFFFFFFFFFF = (a AND 0xFFFFFFFFFFFFF) AND 0x0007FFFFFFFFFFFF" by (simp add: and.assoc)
    then have 2: "a AND 0xFFFFFFFFFFFFF \<noteq> 0" using that by (auto simp: softfloat_isSigNaNF64UI_def)
    have "NOT a AND 0x7FF0000000000000 = 0" by (subst 1 [symmetric]) (simp add: bit_eq_iff bit_simps)
    then have "isNaNF64UI a" using 2 by (simp add: isNaNF64UI_def)
    then show ?thesis by (simp add: fields64)
  qed
  moreover have "isNaNF64UI a = f64_is_nan a" by (simp add: fields64)
  ultimately show ?thesis by (simp add: softfloat_propagateNaNF64UI_def)
qed

lemma mags_nan32:
  assumes "f32_is_nan a \<or> f32_is_nan b"
  shows "softfloat_addMagsF32 a b = softfloat_propagateNaNF32UI a b" "softfloat_subMagsF32 a b = softfloat_propagateNaNF32UI a b"
proof -
  consider "expF32UI a = 255" "expF32UI b = 255" "fracF32UI a \<noteq> 0 \<or> fracF32UI b \<noteq> 0"
    | "expF32UI a = 255" "expF32UI b < 255" "fracF32UI a \<noteq> 0" | "expF32UI a < 255" "expF32UI b = 255" "fracF32UI b \<noteq> 0"
    using assms nan_fields32(2) [of a] nan_fields32(2) [of b] unfolding nan_fields32(1) by linarith
  then have "softfloat_addMagsF32 a b = softfloat_propagateNaNF32UI a b \<and> softfloat_subMagsF32 a b = softfloat_propagateNaNF32UI a b"
    by cases (simp_all add: softfloat_addMagsF32_def softfloat_subMagsF32_def wide_frac32 or_eq_0_iff)
  then show "softfloat_addMagsF32 a b = softfloat_propagateNaNF32UI a b" "softfloat_subMagsF32 a b = softfloat_propagateNaNF32UI a b"
    by simp_all
qed

lemma mags_nan64:
  assumes "f64_is_nan a \<or> f64_is_nan b"
  shows "softfloat_addMagsF64 a b z = softfloat_propagateNaNF64UI a b" "softfloat_subMagsF64 a b z = softfloat_propagateNaNF64UI a b"
proof -
  consider "expF64UI a = 2047" "expF64UI b = 2047" "fracF64UI a \<noteq> 0 \<or> fracF64UI b \<noteq> 0"
    | "expF64UI a = 2047" "expF64UI b < 2047" "fracF64UI a \<noteq> 0" | "expF64UI a < 2047" "expF64UI b = 2047" "fracF64UI b \<noteq> 0"
    using assms nan_fields64(2) [of a] nan_fields64(2) [of b] unfolding nan_fields64(1) by linarith
  then have "softfloat_addMagsF64 a b z = softfloat_propagateNaNF64UI a b \<and> softfloat_subMagsF64 a b z = softfloat_propagateNaNF64UI a b"
    by cases (simp_all add: softfloat_addMagsF64_def softfloat_subMagsF64_def shifted_frac64 or_eq_0_iff)
  then show "softfloat_addMagsF64 a b z = softfloat_propagateNaNF64UI a b" "softfloat_subMagsF64 a b z = softfloat_propagateNaNF64UI a b"
    by simp_all
qed

lemma arith_nan32:
  assumes "f32_is_nan a \<or> f32_is_nan b"
  shows "f32_add a b = softfloat_propagateNaNF32UI a b" "f32_sub a b = softfloat_propagateNaNF32UI a b"
    "f32_mul a b = softfloat_propagateNaNF32UI a b" "f32_div a b = softfloat_propagateNaNF32UI a b"
proof -
  show "f32_add a b = softfloat_propagateNaNF32UI a b" "f32_sub a b = softfloat_propagateNaNF32UI a b"
    by (simp_all add: f32_add_def f32_sub_def mags_nan32 [OF assms])
  consider "expF32UI a = 255" "expF32UI b = 255" "fracF32UI a \<noteq> 0 \<or> fracF32UI b \<noteq> 0"
    | "expF32UI a = 255" "expF32UI b < 255" "fracF32UI a \<noteq> 0" | "expF32UI a < 255" "expF32UI b = 255" "fracF32UI b \<noteq> 0"
    using assms nan_fields32(2) [of a] nan_fields32(2) [of b] unfolding nan_fields32(1) by linarith
  then have "f32_mul a b = softfloat_propagateNaNF32UI a b \<and> f32_div a b = softfloat_propagateNaNF32UI a b"
    by cases (auto simp: f32_mul_def f32_div_def wide_frac32)
  then show "f32_mul a b = softfloat_propagateNaNF32UI a b" "f32_div a b = softfloat_propagateNaNF32UI a b" by simp_all
qed

lemma arith_nan64:
  assumes "f64_is_nan a \<or> f64_is_nan b"
  shows "f64_add a b = softfloat_propagateNaNF64UI a b" "f64_sub a b = softfloat_propagateNaNF64UI a b"
    "f64_mul a b = softfloat_propagateNaNF64UI a b" "f64_div a b = softfloat_propagateNaNF64UI a b"
proof -
  show "f64_add a b = softfloat_propagateNaNF64UI a b" "f64_sub a b = softfloat_propagateNaNF64UI a b"
    by (simp_all add: f64_add_def f64_sub_def Let_def mags_nan64 [OF assms])
  consider "expF64UI a = 2047" "expF64UI b = 2047" "fracF64UI a \<noteq> 0 \<or> fracF64UI b \<noteq> 0"
    | "expF64UI a = 2047" "expF64UI b < 2047" "fracF64UI a \<noteq> 0" | "expF64UI a < 2047" "expF64UI b = 2047" "fracF64UI b \<noteq> 0"
    using assms nan_fields64(2) [of a] nan_fields64(2) [of b] unfolding nan_fields64(1) by linarith
  then have "f64_mul a b = softfloat_propagateNaNF64UI a b \<and> f64_div a b = softfloat_propagateNaNF64UI a b"
    by cases (auto simp: f64_mul_def f64_div_def)
  then show "f64_mul a b = softfloat_propagateNaNF64UI a b" "f64_div a b = softfloat_propagateNaNF64UI a b" by simp_all
qed

lemma quieted_nan: "f32_is_nan x \<Longrightarrow> f32_is_nan (x OR 0x00400000)" "f64_is_nan y \<Longrightarrow> f64_is_nan (y OR 0x0008000000000000)"
proof -
  have "x AND 0x7FFFFFFF \<le> (x OR 0x00400000) AND 0x7FFFFFFF" for x :: u32
    by (simp add: bit.conj_disj_distrib2 bit.conj_disj_distrib word_and_le1 le_word_or2)
  then show "f32_is_nan x \<Longrightarrow> f32_is_nan (x OR 0x00400000)" unfolding f32_is_nan_def by (meson less_le_trans)
  have "y AND 0x7FFFFFFFFFFFFFFF \<le> (y OR 0x0008000000000000) AND 0x7FFFFFFFFFFFFFFF" for y :: u64
    by (simp add: bit.conj_disj_distrib2 bit.conj_disj_distrib word_and_le1 le_word_or2)
  then show "f64_is_nan y \<Longrightarrow> f64_is_nan (y OR 0x0008000000000000)" unfolding f64_is_nan_def by (meson less_le_trans)
qed

subsection \<open>The relaxed dot product\<close>

text \<open>The exact sum of the products and the range of a signed 32-bit integer.\<close>

definition dot_prods :: "(int \<times> int) list \<Rightarrow> int" where
  "dot_prods ps = sum_list (map (\<lambda>(x, y). x * y) ps)"

definition in_i32 :: "int \<Rightarrow> bool" where
  "in_i32 x \<longleftrightarrow> - (2 ^ 31) \<le> x \<and> x < 2 ^ 31"

lemma dot_sum_exact:
  "dot_sum acc ps = (if list_all (\<lambda>k. in_i32 (acc + dot_prods (take k ps))) [1..<Suc (length ps)] then Inr (acc + dot_prods ps)
     else Inl (Undefined ''signed overflow''))"
proof (induction ps arbitrary: acc)
  case Nil
  then show ?case by (simp add: dot_prods_def)
next
  case (Cons p ps)
  obtain x y where p: "p = (x, y)" by (cases p)
  have r: "[1..<Suc (length (p # ps))] = 1 # map Suc [1..<Suc (length ps)]" by (simp add: upt_conv_Cons map_Suc_upt del: upt_Suc)
  have t: "acc + dot_prods (take (Suc k) (p # ps)) = acc + x * y + dot_prods (take k ps)" for k by (simp add: dot_prods_def p)
  have "list_all (\<lambda>k. in_i32 (acc + dot_prods (take k (p # ps)))) [1..<Suc (length (p # ps))] \<longleftrightarrow>
      in_i32 (acc + x * y) \<and> list_all (\<lambda>k. in_i32 (acc + x * y + dot_prods (take k ps))) [1..<Suc (length ps)]"
    unfolding r list.pred_inject list.pred_map comp_def t by (simp add: dot_prods_def p del: upt_Suc)
  moreover have "acc + dot_prods (p # ps) = acc + x * y + dot_prods ps" by (simp add: dot_prods_def p)
  moreover have "dot_sum acc (p # ps) = (if in_i32 (acc + x * y) then dot_sum (acc + x * y) ps else Inl (Undefined ''signed overflow''))"
    by (simp add: p add_i32_def in_i32_def)
  ultimately show ?case using Cons.IH [of "acc + x * y"] by (simp del: upt_Suc dot_sum.simps)
qed

lemma dot_lanes_exact:
  "dot_lanes ls = (if list_all (\<lambda>(c, ps). list_all (\<lambda>k. in_i32 (c + dot_prods (take k ps))) [1..<Suc (length ps)]) ls
     then Inr (map (\<lambda>(c, ps). word_of_int (c + dot_prods ps)) ls) else Inl (Undefined ''signed overflow''))"
  by (induction ls rule: dot_lanes.induct) (simp_all add: dot_sum_exact del: upt_Suc)

text \<open>The operands of lane \<open>i\<close>: the accumulator and the four pairs of bytes.\<close>

definition dot_acc :: "u128 \<Rightarrow> nat \<Rightarrow> int" where
  "dot_acc c i = sint ((to_lanes c :: u32 list) ! i)"

definition dot_pairs :: "u128 \<Rightarrow> u128 \<Rightarrow> nat \<Rightarrow> (int \<times> int) list" where
  "dot_pairs a b i = map (\<lambda>j. (sint ((to_lanes a :: u8 list) ! (4 * i + j)), sint ((to_lanes b :: u8 list) ! (4 * i + j)))) [0..<4]"

subsection \<open>Vector operations against scalar operations\<close>

lemma fval_abs: "fval p r = \<bar>fval p a\<bar>" if "fneg r = False" "mbits r = mbits a"
  using that by (simp add: fval_def)

lemma fval_minus: "fval p r = - fval p a" if "fneg r = (\<not> fneg a)" "mbits r = mbits a"
  using that by (simp add: fval_def)

lemma gt_ge_flip:
  "psizam_f32_gt a b = f32_lt b a" "psizam_f32_ge a b = f32_le b a"
  "psizam_f64_gt c d = f64_lt d c" "psizam_f64_ge c d = f64_le d c"
  by (auto simp: psizam_f32_compare psizam_f64_compare f32_compare_value f64_compare_value)

text \<open>
  \<^bold>\<open>C31\<close>: the lanes of a vector comparison. Each lane of the result is all ones when the scalar comparison of the lanes
  holds and zero otherwise, although the vector code has no \<open>gt\<close> and \<open>ge\<close> of its own and swaps the operands of \<open>lt\<close> and
  \<open>le\<close> where the scalar code negates \<open>le\<close> and \<open>lt\<close> after two tests for NaN.
\<close>

theorem simd_comparisons:
  "(to_lanes (psizam_f32x4_eq a b) :: u32 list) = map2 (\<lambda>x y. if psizam_f32_eq x y then - 1 else 0) (to_lanes a) (to_lanes b) \<and>
   (to_lanes (psizam_f32x4_ne a b) :: u32 list) = map2 (\<lambda>x y. if psizam_f32_ne x y then - 1 else 0) (to_lanes a) (to_lanes b) \<and>
   (to_lanes (psizam_f32x4_lt a b) :: u32 list) = map2 (\<lambda>x y. if psizam_f32_lt x y then - 1 else 0) (to_lanes a) (to_lanes b) \<and>
   (to_lanes (psizam_f32x4_gt a b) :: u32 list) = map2 (\<lambda>x y. if psizam_f32_gt x y then - 1 else 0) (to_lanes a) (to_lanes b) \<and>
   (to_lanes (psizam_f32x4_le a b) :: u32 list) = map2 (\<lambda>x y. if psizam_f32_le x y then - 1 else 0) (to_lanes a) (to_lanes b) \<and>
   (to_lanes (psizam_f32x4_ge a b) :: u32 list) = map2 (\<lambda>x y. if psizam_f32_ge x y then - 1 else 0) (to_lanes a) (to_lanes b) \<and>
   (to_lanes (psizam_f64x2_eq a b) :: u64 list) = map2 (\<lambda>x y. if psizam_f64_eq x y then - 1 else 0) (to_lanes a) (to_lanes b) \<and>
   (to_lanes (psizam_f64x2_ne a b) :: u64 list) = map2 (\<lambda>x y. if psizam_f64_ne x y then - 1 else 0) (to_lanes a) (to_lanes b) \<and>
   (to_lanes (psizam_f64x2_lt a b) :: u64 list) = map2 (\<lambda>x y. if psizam_f64_lt x y then - 1 else 0) (to_lanes a) (to_lanes b) \<and>
   (to_lanes (psizam_f64x2_gt a b) :: u64 list) = map2 (\<lambda>x y. if psizam_f64_gt x y then - 1 else 0) (to_lanes a) (to_lanes b) \<and>
   (to_lanes (psizam_f64x2_le a b) :: u64 list) = map2 (\<lambda>x y. if psizam_f64_le x y then - 1 else 0) (to_lanes a) (to_lanes b) \<and>
   (to_lanes (psizam_f64x2_ge a b) :: u64 list) = map2 (\<lambda>x y. if psizam_f64_ge x y then - 1 else 0) (to_lanes a) (to_lanes b)"
  unfolding psizam_f32x4_eq_def psizam_f32x4_ne_def psizam_f32x4_lt_def psizam_f32x4_gt_def psizam_f32x4_le_def
    psizam_f32x4_ge_def psizam_f64x2_eq_def psizam_f64x2_ne_def psizam_f64x2_lt_def psizam_f64x2_gt_def
    psizam_f64x2_le_def psizam_f64x2_ge_def lanes_f32x4 lanes_f64x2 gt_ge_flip
    psizam_f32_eq_def psizam_f32_ne_def psizam_f32_lt_def psizam_f32_le_def
    psizam_f64_eq_def psizam_f64_ne_def psizam_f64_lt_def psizam_f64_le_def
  by (intro conjI refl)

text \<open>
  \<^bold>\<open>C26\<close>: what the lanes of the vector operations stand for, for every lane of every operand. \<open>abs\<close> and \<open>neg\<close> change only the
  sign; \<open>ceil\<close>, \<open>floor\<close> and \<open>trunc\<close> of floats and \<open>trunc\<close> of doubles round the value, keeping the sign; \<open>min\<close> and \<open>max\<close> select by
  value and by the sign of zeros and give the canonical NaN for a NaN operand, where \<open>pmin\<close> and \<open>pmax\<close> give the first operand
  and otherwise one of the smaller or larger value; the saturating conversions clamp the truncated value, with 0 for a NaN,
  and those from doubles clear the upper two lanes. Addition, subtraction, multiplication, division, square root and
  nearest are not covered.
\<close>

theorem simd_lane_values:
  assumes "i < 4" and "j < 2"
  shows "let x = (to_lanes a :: u32 list) ! i; y = (to_lanes b :: u32 list) ! i; L = (\<lambda>v. (to_lanes v :: u32 list) ! i);
      u = (to_lanes a :: u64 list) ! j; v = (to_lanes b :: u64 list) ! j; M = (\<lambda>v. (to_lanes v :: u64 list) ! j) in
    fval 23 (L (psizam_f32x4_abs a)) = \<bar>fval 23 x\<bar> \<and> fval 23 (L (psizam_f32x4_neg a)) = - fval 23 x \<and>
    mbits (L (psizam_f32x4_abs a)) = mbits x \<and> \<not> fneg (L (psizam_f32x4_abs a)) \<and>
    mbits (L (psizam_f32x4_neg a)) = mbits x \<and> fneg (L (psizam_f32x4_neg a)) = (\<not> fneg x) \<and>
    fval 52 (M (psizam_f64x2_abs a)) = \<bar>fval 52 u\<bar> \<and> fval 52 (M (psizam_f64x2_neg a)) = - fval 52 u \<and>
    mbits (M (psizam_f64x2_abs a)) = mbits u \<and> \<not> fneg (M (psizam_f64x2_abs a)) \<and>
    mbits (M (psizam_f64x2_neg a)) = mbits u \<and> fneg (M (psizam_f64x2_neg a)) = (\<not> fneg u) \<and>
    (if f32_is_nan x
     then L (psizam_f32x4_ceil a) = 0x7FC00000 \<and> L (psizam_f32x4_floor a) = 0x7FC00000 \<and> L (psizam_f32x4_trunc a) = 0x7FC00000
     else fneg (L (psizam_f32x4_ceil a)) = fneg x \<and> fval 23 (L (psizam_f32x4_ceil a)) = fceil 127 23 x * 2 ^ 149 \<and>
          fneg (L (psizam_f32x4_floor a)) = fneg x \<and> fval 23 (L (psizam_f32x4_floor a)) = ffloor 127 23 x * 2 ^ 149 \<and>
          fneg (L (psizam_f32x4_trunc a)) = fneg x \<and> fval 23 (L (psizam_f32x4_trunc a)) = ftrunc 127 23 x * 2 ^ 149) \<and>
    (if f64_is_nan u then M (psizam_f64x2_trunc a) = 0x7FF8000000000000
     else fneg (M (psizam_f64x2_trunc a)) = fneg u \<and> fval 52 (M (psizam_f64x2_trunc a)) = ftrunc 1023 52 u * 2 ^ 1074) \<and>
    (if f32_is_nan x \<or> f32_is_nan y
     then L (psizam_f32x4_min a b) = 0x7FC00000 \<and> L (psizam_f32x4_max a b) = 0x7FC00000 \<and>
          L (psizam_f32x4_pmin a b) = x \<and> L (psizam_f32x4_pmax a b) = x
     else select_spec True 23 x y (L (psizam_f32x4_min a b)) \<and> select_spec False 23 x y (L (psizam_f32x4_max a b)) \<and>
          L (psizam_f32x4_pmin a b) \<in> {x, y} \<and> fval 23 (L (psizam_f32x4_pmin a b)) = min (fval 23 x) (fval 23 y) \<and>
          L (psizam_f32x4_pmax a b) \<in> {x, y} \<and> fval 23 (L (psizam_f32x4_pmax a b)) = max (fval 23 x) (fval 23 y)) \<and>
    (if f64_is_nan u \<or> f64_is_nan v
     then M (psizam_f64x2_min a b) = 0x7FF8000000000000 \<and> M (psizam_f64x2_max a b) = 0x7FF8000000000000 \<and>
          M (psizam_f64x2_pmin a b) = u \<and> M (psizam_f64x2_pmax a b) = u
     else select_spec True 52 u v (M (psizam_f64x2_min a b)) \<and> select_spec False 52 u v (M (psizam_f64x2_max a b)) \<and>
          M (psizam_f64x2_pmin a b) \<in> {u, v} \<and> fval 52 (M (psizam_f64x2_pmin a b)) = min (fval 52 u) (fval 52 v) \<and>
          M (psizam_f64x2_pmax a b) \<in> {u, v} \<and> fval 52 (M (psizam_f64x2_pmax a b)) = max (fval 52 u) (fval 52 v)) \<and>
    sint (L (psizam_i32x4_trunc_sat_f32x4_s a)) = sat_spec (- (2 ^ 31)) (2 ^ 31 - 1) (f32_is_nan x) (ftrunc 127 23 x) \<and>
    uint (L (psizam_i32x4_trunc_sat_f32x4_u a)) = sat_spec 0 (2 ^ 32 - 1) (f32_is_nan x) (ftrunc 127 23 x) \<and>
    sint ((to_lanes (psizam_i32x4_trunc_sat_f64x2_s_zero a) :: u32 list) ! j) =
      sat_spec (- (2 ^ 31)) (2 ^ 31 - 1) (f64_is_nan u) (ftrunc 1023 52 u) \<and>
    uint ((to_lanes (psizam_i32x4_trunc_sat_f64x2_u_zero a) :: u32 list) ! j) =
      sat_spec 0 (2 ^ 32 - 1) (f64_is_nan u) (ftrunc 1023 52 u) \<and>
    (to_lanes (psizam_i32x4_trunc_sat_f64x2_s_zero a) :: u32 list) ! (j + 2) = 0 \<and>
    (to_lanes (psizam_i32x4_trunc_sat_f64x2_u_zero a) :: u32 list) ! (j + 2) = 0"
proof -
  have z: "j < 4" "j + 2 < 4" using assms(2) by simp_all
  have f: "psizam_f32_trunc True x = psizam_f32_trunc False x" if "\<not> f32_is_nan x" for x using trunc_any(1) [OF that] .
  have g: "psizam_f64_trunc True x = psizam_f64_trunc False x" if "\<not> f64_is_nan x" for x using trunc_any(2) [OF that] .
  note s = fval_abs [OF f32_sign_ops(1,2)] fval_minus [OF f32_sign_ops(3,4)] fval_abs [OF f64_sign_ops(1,2)] fval_minus [OF f64_sign_ops(3,4)]
  note c = f32_ceil_value [of _ True] f32_floor_value [of _ True] f32_trunc_value f64_trunc_value f32_min_max_spec [of _ _ True]
    f64_min_max_spec [of _ _ True] nan_results f g
  show ?thesis
    unfolding Let_def psizam_f32x4_abs_def psizam_f32x4_neg_def psizam_f64x2_abs_def psizam_f64x2_neg_def psizam_f32x4_ceil_def
      psizam_f32x4_floor_def psizam_f32x4_trunc_def psizam_f64x2_trunc_def psizam_f32x4_min_def psizam_f32x4_max_def
      psizam_f32x4_pmin_def psizam_f32x4_pmax_def psizam_f64x2_min_def psizam_f64x2_max_def psizam_f64x2_pmin_def psizam_f64x2_pmax_def
      psizam_i32x4_trunc_sat_f32x4_s_def psizam_i32x4_trunc_sat_f32x4_u_def psizam_i32x4_trunc_sat_f64x2_s_zero_def
      psizam_i32x4_trunc_sat_f64x2_u_zero_def nth_f32x4 [OF assms(1)] nth_f64x2 [OF assms(2)] nth_zero [OF z(1)] nth_zero [OF z(2)]
    by (intro conjI)
       (simp_all add: s c f32_sign_ops f64_sign_ops f32_compare_value f64_compare_value assms(2) i32_trunc_sat_f32_s_spec
         i32_trunc_sat_f32_u_spec i32_trunc_sat_f64_s_spec i32_trunc_sat_f64_u_spec)
qed

theorem simd_lane_values_witness:
  "let v = 0xBFC0000000000000 :: u128 in
   fval 23 ((to_lanes (psizam_f32x4_ceil v) :: u32 list) ! 1) = - (2 ^ 149) \<and>
   fval 23 ((to_lanes (psizam_f32x4_neg v) :: u32 list) ! 1) = 3 * 2 ^ 148 \<and>
   sint ((to_lanes (psizam_i32x4_trunc_sat_f32x4_s v) :: u32 list) ! 1) = - 1"
proof -
  have l: "(to_lanes (0xBFC0000000000000 :: u128) :: u32 list) = [0, 0xBFC00000, 0, 0]" by (simp add: to_lanes_def upt_rec)
  have n: "\<not> f32_is_nan 0xBFC00000" by (simp add: f32_is_nan_def)
  have v: "fval 23 (0xBFC00000 :: u32) = - 3 * 2 ^ 148" "fceil 127 23 (0xBFC00000 :: u32) = - 1" "ftrunc 127 23 (0xBFC00000 :: u32) = - 1"
    by (simp_all add: fval_def fceil_def ftrunc_def fneg_def mbits_def fmag_def)
  show ?thesis
    using simd_lane_values [of 1 0 "0xBFC0000000000000" "0xBFC0000000000000"] n
    by (simp add: l Let_def v sat_spec_def)
qed

text \<open>
  \<^bold>\<open>C32\<close>: the NaNs of vector arithmetic are not canonical. The comment over \<open>canonicalize_nan\<close> asks for all NaN results of
  arithmetic to take the positive canonical form. In every lane with a NaN operand the scalar addition, subtraction, multiplication and division
  do so, while the vector instructions return the first NaN operand with its quiet bit set: its sign and payload, which
  the guest chooses, can be observed.
\<close>

theorem simd_nan_payload:
  assumes "i < 4" and "f32_is_nan (to_lanes a ! i) \<or> f32_is_nan (to_lanes b ! i)"
    and "j < 2" and "f64_is_nan (to_lanes c ! j) \<or> f64_is_nan (to_lanes d ! j)"
  shows "let x = to_lanes a ! i; y = to_lanes b ! i; q = (if f32_is_nan x then x else y) OR 0x00400000;
      u = to_lanes c ! j; v = to_lanes d ! j; r = (if f64_is_nan u then u else v) OR 0x0008000000000000 in
    f32_is_nan q \<and> f64_is_nan r \<and>
    to_lanes (psizam_f32x4_add a b) ! i = q \<and> psizam_f32_add x y = 0x7FC00000 \<and>
    to_lanes (psizam_f32x4_sub a b) ! i = q \<and> psizam_f32_sub x y = 0x7FC00000 \<and>
    to_lanes (psizam_f32x4_mul a b) ! i = q \<and> psizam_f32_mul x y = 0x7FC00000 \<and>
    to_lanes (psizam_f32x4_div a b) ! i = q \<and> psizam_f32_div x y = 0x7FC00000 \<and>
    to_lanes (psizam_f64x2_add c d) ! j = r \<and> psizam_f64_add u v = 0x7FF8000000000000 \<and>
    to_lanes (psizam_f64x2_sub c d) ! j = r \<and> psizam_f64_sub u v = 0x7FF8000000000000 \<and>
    to_lanes (psizam_f64x2_mul c d) ! j = r \<and> psizam_f64_mul u v = 0x7FF8000000000000 \<and>
    to_lanes (psizam_f64x2_div c d) ! j = r \<and> psizam_f64_div u v = 0x7FF8000000000000"
proof -
  have "f32_is_nan ((if f32_is_nan (to_lanes a ! i) then to_lanes a ! i else to_lanes b ! i) OR 0x00400000)"
    "f64_is_nan ((if f64_is_nan (to_lanes c ! j) then to_lanes c ! j else to_lanes d ! j) OR 0x0008000000000000)"
    using assms(2,4) by (auto intro: quieted_nan)
  then show ?thesis
    unfolding psizam_f32x4_add_def psizam_f32x4_sub_def psizam_f32x4_mul_def psizam_f32x4_div_def psizam_f64x2_add_def
      psizam_f64x2_sub_def psizam_f64x2_mul_def psizam_f64x2_div_def nth_f32x4 [OF assms(1)] nth_f64x2 [OF assms(3)]
      arith_nan32 [OF assms(2)] arith_nan64 [OF assms(4)] propagate32 propagate64 Let_def
      psizam_f32_add_def psizam_f32_sub_def psizam_f32_mul_def psizam_f32_div_def
      psizam_f64_add_def psizam_f64_sub_def psizam_f64_mul_def psizam_f64_div_def
    by (simp only: canonicalize_nan32_def canonicalize_nan64_def simp_thms if_True)
qed

theorem simd_nan_payload_witness:
  "(to_lanes (psizam_f32x4_add 0xFF80000100000000 0x3F80000000000000) :: u32 list) ! 1 = 0xFFC00001 \<and>
   psizam_f32_add 0xFF800001 0x3F800000 = 0x7FC00000"
proof -
  have l: "(to_lanes (0xFF80000100000000 :: u128) :: u32 list) = [0, 0xFF800001, 0, 0]"
    "(to_lanes (0x3F80000000000000 :: u128) :: u32 list) = [0, 0x3F800000, 0, 0]"
    "(to_lanes (0x7FF0000000000001 :: u128) :: u64 list) = [0x7FF0000000000001, 0]"
    by (simp_all add: to_lanes_def upt_rec)
  have n: "f32_is_nan 0xFF800001" "f64_is_nan 0x7FF0000000000001" by (simp_all add: f32_is_nan_def f64_is_nan_def)
  show ?thesis
    using simd_nan_payload [of 1 "0xFF80000100000000" "0x3F80000000000000" 0 "0x7FF0000000000001" "0x7FF0000000000001"] n
    by (simp add: l Let_def)
qed

text \<open>
  \<^bold>\<open>C33\<close>: the relaxed dot product with accumulator, for all operands. If the accumulator plus every prefix of the four products stays
  in the range of a signed 32-bit integer, in each of the four lanes, the lanes of the result are exactly these sums; otherwise
  the signed addition \<open>sum += ...\<close> overflows, which is undefined behaviour. The operands come from the guest.
\<close>

theorem relaxed_dot_exact:
  "if \<forall>i < 4. \<forall>k \<le> 4. in_i32 (dot_acc c i + dot_prods (take k (dot_pairs a b i)))
   then \<exists>r. psizam_i32x4_relaxed_dot_i8x16_i7x16_add_s a b c = Inr r \<and>
          (\<forall>i < 4. sint ((to_lanes r :: u32 list) ! i) = dot_acc c i + dot_prods (dot_pairs a b i))
   else is_undefined (psizam_i32x4_relaxed_dot_i8x16_i7x16_add_s a b c)"
proof -
  let ?ls = "map (\<lambda>i. (dot_acc c i, dot_pairs a b i)) [0..<4]"
  have d: "psizam_i32x4_relaxed_dot_i8x16_i7x16_add_s a b c = bindR (dot_lanes ?ls) (\<lambda>rs. Inr (of_lanes rs))"
    by (simp add: psizam_i32x4_relaxed_dot_i8x16_i7x16_add_s_def dot_acc_def dot_pairs_def Let_def)
  have acc: "in_i32 (dot_acc c i)" for i
    using sint_range_size [of "(to_lanes c :: u32 list) ! i"] by (simp add: in_i32_def dot_acc_def word_size)
  have len: "length (dot_pairs a b i) = 4" for i by (simp add: dot_pairs_def)
  have all: "(\<forall>i < 4. \<forall>k \<le> 4. in_i32 (dot_acc c i + dot_prods (take k (dot_pairs a b i)))) \<longleftrightarrow>
      list_all (\<lambda>(c, ps). list_all (\<lambda>k. in_i32 (c + dot_prods (take k ps))) [1..<Suc (length ps)]) ?ls"
  proof -
    have "(\<forall>k \<le> 4. in_i32 (dot_acc c i + dot_prods (take k (dot_pairs a b i)))) \<longleftrightarrow>
        (\<forall>k \<in> {1..<Suc 4}. in_i32 (dot_acc c i + dot_prods (take k (dot_pairs a b i))))" for i
      using acc [of i] by (metis (no_types) One_nat_def Suc_leI add.right_neutral atLeastLessThan_iff dot_prods_def le_imp_less_Suc
          less_Suc_eq_le list.map(1) neq0_conv sum_list.Nil take0)
    then show ?thesis by (auto simp: list_all_iff len simp del: upt_Suc)
  qed
  show ?thesis
  proof (cases "\<forall>i < 4. \<forall>k \<le> 4. in_i32 (dot_acc c i + dot_prods (take k (dot_pairs a b i)))")
    case True
    let ?rs = "map (\<lambda>i. word_of_int (dot_acc c i + dot_prods (dot_pairs a b i)) :: u32) [0..<4]"
    have "dot_lanes ?ls = Inr ?rs" using True all by (simp add: dot_lanes_exact comp_def del: upt_Suc)
    moreover have "(to_lanes (of_lanes ?rs) :: u32 list) = ?rs" by (intro to_of_lanes) simp
    moreover have "sint (?rs ! i) = dot_acc c i + dot_prods (dot_pairs a b i)" if "i < 4" for i
    proof -
      have "in_i32 (dot_acc c i + dot_prods (dot_pairs a b i))" using True that len [of i] by (metis le_refl take_all)
      then show ?thesis using that by (simp add: in_i32_def signed_of_int signed_take_bit_int_eq_self del: of_int_add)
    qed
    ultimately show ?thesis using True d by auto
  next
    case False
    then show ?thesis using all d by (simp add: dot_lanes_exact del: upt_Suc)
  qed
qed

theorem relaxed_dot_exact_witness:
  "is_undefined (psizam_i32x4_relaxed_dot_i8x16_i7x16_add_s 0x01000000 0x01000000 0x7FFFFFFF) \<and>
   (\<exists>r. psizam_i32x4_relaxed_dot_i8x16_i7x16_add_s 0xFF02 0x0503 7 = Inr r \<and> sint ((to_lanes r :: u32 list) ! 0) = 8)"
proof (rule conjI)
  have l: "(to_lanes (0x01000000 :: u128) :: u8 list) = [0, 0, 0, 1, 0, 0, 0, 0, 0, 0, 0, 0, 0, 0, 0, 0]"
    "(to_lanes (0x7FFFFFFF :: u128) :: u32 list) = [0x7FFFFFFF, 0, 0, 0]"
    "(to_lanes (0xFF02 :: u128) :: u8 list) = [2, 0xFF, 0, 0, 0, 0, 0, 0, 0, 0, 0, 0, 0, 0, 0, 0]"
    "(to_lanes (0x0503 :: u128) :: u8 list) = [3, 5, 0, 0, 0, 0, 0, 0, 0, 0, 0, 0, 0, 0, 0, 0]"
    "(to_lanes (7 :: u128) :: u32 list) = [7, 0, 0, 0]"
    by (simp_all add: to_lanes_def upt_rec)
  have "\<not> in_i32 (dot_acc 0x7FFFFFFF 0 + dot_prods (take 4 (dot_pairs 0x01000000 0x01000000 0)))"
    by (simp add: in_i32_def dot_acc_def dot_prods_def dot_pairs_def l upt_rec)
  then have "\<not> (\<forall>i < 4. \<forall>k \<le> 4. in_i32 (dot_acc 0x7FFFFFFF i + dot_prods (take k (dot_pairs 0x01000000 0x01000000 i))))"
    by (metis order_refl zero_less_numeral)
  then show "is_undefined (psizam_i32x4_relaxed_dot_i8x16_i7x16_add_s 0x01000000 0x01000000 0x7FFFFFFF)"
    using relaxed_dot_exact [of "0x7FFFFFFF" "0x01000000" "0x01000000"] by (simp only: if_False)
  have "\<forall>i < 4. \<forall>k \<le> 4. in_i32 (dot_acc 7 i + dot_prods (take k (dot_pairs 0xFF02 0x0503 i)))"
    by (simp add: in_i32_def dot_acc_def dot_prods_def dot_pairs_def l upt_rec numeral_eq_Suc le_Suc_eq less_Suc_eq)
  moreover have "dot_acc 7 0 + dot_prods (dot_pairs 0xFF02 0x0503 0) = 8"
    by (simp add: dot_acc_def dot_prods_def dot_pairs_def l upt_rec)
  ultimately show "\<exists>r. psizam_i32x4_relaxed_dot_i8x16_i7x16_add_s 0xFF02 0x0503 7 = Inr r \<and> sint ((to_lanes r :: u32 list) ! 0) = 8"
    using relaxed_dot_exact [of 7 "0xFF02" "0x0503"] by (metis zero_less_numeral)
qed

end
