(* ===== verification/Num_Ops.thy ===== *)
theory Num_Ops
  imports Int_Ops Softfloat
begin

unbundle bit_operations_syntax

section \<open>Floating-point and conversion instructions\<close>

text \<open>
  The floating-point comparisons and arithmetic and the conversions of
  \<open>psizam/detail/interpret_visitor.hpp\<close> in the modes other than \<open>fp_mode::fast\<close>, where each calls the
  software implementation of \<open>psizam/detail/softfloat.hpp\<close>, and one type \<open>numop\<close> of all numeric
  instructions with their operand and result types (the \<open>UNOP\<close>, \<open>BINOP\<close>, \<open>CASTOP\<close>, \<open>EXTENDOP\<close> and
  \<open>TRUNC_SAT_OP\<close> cases of \<open>psizam/detail/parser.hpp\<close>). A numeric instruction on operands of its types
  yields a value of its result type or one of the traps of the standard, and never reads an inactive
  alternative of an operand.
\<close>

subsection \<open>Comparisons\<close>

datatype f32_relop = f32_eq_t | f32_ne_t | f32_lt_t | f32_gt_t | f32_le_t | f32_ge_t

datatype f64_relop = f64_eq_t | f64_ne_t | f64_lt_t | f64_gt_t | f64_le_t | f64_ge_t

fun f32_compare :: "f32_relop \<Rightarrow> u32 \<Rightarrow> u32 \<Rightarrow> bool" where
  "f32_compare f32_eq_t lhs rhs = psizam_f32_eq lhs rhs"
| "f32_compare f32_ne_t lhs rhs = psizam_f32_ne lhs rhs"
| "f32_compare f32_lt_t lhs rhs = psizam_f32_lt lhs rhs"
| "f32_compare f32_gt_t lhs rhs = psizam_f32_gt lhs rhs"
| "f32_compare f32_le_t lhs rhs = psizam_f32_le lhs rhs"
| "f32_compare f32_ge_t lhs rhs = psizam_f32_ge lhs rhs"

fun f64_compare :: "f64_relop \<Rightarrow> u64 \<Rightarrow> u64 \<Rightarrow> bool" where
  "f64_compare f64_eq_t lhs rhs = psizam_f64_eq lhs rhs"
| "f64_compare f64_ne_t lhs rhs = psizam_f64_ne lhs rhs"
| "f64_compare f64_lt_t lhs rhs = psizam_f64_lt lhs rhs"
| "f64_compare f64_gt_t lhs rhs = psizam_f64_gt lhs rhs"
| "f64_compare f64_le_t lhs rhs = psizam_f64_le lhs rhs"
| "f64_compare f64_ge_t lhs rhs = psizam_f64_ge lhs rhs"

definition f32_rel :: "f32_relop \<Rightarrow> stack_elem \<Rightarrow> stack_elem \<Rightarrow> stack_elem res" where
  "f32_rel op l r = bindR (to_fui32 r) (\<lambda>rhs. bindR (to_fui32 l) (\<lambda>lhs. Inr (of_bool_i32 (f32_compare op lhs rhs))))"

definition f64_rel :: "f64_relop \<Rightarrow> stack_elem \<Rightarrow> stack_elem \<Rightarrow> stack_elem res" where
  "f64_rel op l r = bindR (to_fui64 r) (\<lambda>rhs. bindR (to_fui64 l) (\<lambda>lhs. Inr (of_bool_i32 (f64_compare op lhs rhs))))"

subsection \<open>Arithmetic\<close>

datatype f32_unop = f32_abs_t | f32_neg_t | f32_ceil_t | f32_floor_t | f32_trunc_t | f32_nearest_t | f32_sqrt_t

datatype f32_binop = f32_add_t | f32_sub_t | f32_mul_t | f32_div_t | f32_min_t | f32_max_t | f32_copysign_t

datatype f64_unop = f64_abs_t | f64_neg_t | f64_ceil_t | f64_floor_t | f64_trunc_t | f64_nearest_t | f64_sqrt_t

datatype f64_binop = f64_add_t | f64_sub_t | f64_mul_t | f64_div_t | f64_min_t | f64_max_t | f64_copysign_t

fun f32_unary :: "f32_unop \<Rightarrow> u32 \<Rightarrow> u32" where
  "f32_unary f32_abs_t oper = psizam_f32_abs oper"
| "f32_unary f32_neg_t oper = psizam_f32_neg oper"
| "f32_unary f32_ceil_t oper = psizam_f32_ceil True oper"
| "f32_unary f32_floor_t oper = psizam_f32_floor True oper"
| "f32_unary f32_trunc_t oper = psizam_f32_trunc True oper"
| "f32_unary f32_nearest_t oper = psizam_f32_nearest True oper"
| "f32_unary f32_sqrt_t oper = psizam_f32_sqrt oper"

fun f32_arith :: "f32_binop \<Rightarrow> u32 \<Rightarrow> u32 \<Rightarrow> u32" where
  "f32_arith f32_add_t lhs rhs = psizam_f32_add lhs rhs"
| "f32_arith f32_sub_t lhs rhs = psizam_f32_sub lhs rhs"
| "f32_arith f32_mul_t lhs rhs = psizam_f32_mul lhs rhs"
| "f32_arith f32_div_t lhs rhs = psizam_f32_div lhs rhs"
| "f32_arith f32_min_t lhs rhs = psizam_f32_min True lhs rhs"
| "f32_arith f32_max_t lhs rhs = psizam_f32_max True lhs rhs"
| "f32_arith f32_copysign_t lhs rhs = psizam_f32_copysign lhs rhs"

fun f64_unary :: "f64_unop \<Rightarrow> u64 \<Rightarrow> u64" where
  "f64_unary f64_abs_t oper = psizam_f64_abs oper"
| "f64_unary f64_neg_t oper = psizam_f64_neg oper"
| "f64_unary f64_ceil_t oper = psizam_f64_ceil True oper"
| "f64_unary f64_floor_t oper = psizam_f64_floor True oper"
| "f64_unary f64_trunc_t oper = psizam_f64_trunc True oper"
| "f64_unary f64_nearest_t oper = psizam_f64_nearest True oper"
| "f64_unary f64_sqrt_t oper = psizam_f64_sqrt oper"

fun f64_arith :: "f64_binop \<Rightarrow> u64 \<Rightarrow> u64 \<Rightarrow> u64" where
  "f64_arith f64_add_t lhs rhs = psizam_f64_add lhs rhs"
| "f64_arith f64_sub_t lhs rhs = psizam_f64_sub lhs rhs"
| "f64_arith f64_mul_t lhs rhs = psizam_f64_mul lhs rhs"
| "f64_arith f64_div_t lhs rhs = psizam_f64_div lhs rhs"
| "f64_arith f64_min_t lhs rhs = psizam_f64_min True lhs rhs"
| "f64_arith f64_max_t lhs rhs = psizam_f64_max True lhs rhs"
| "f64_arith f64_copysign_t lhs rhs = psizam_f64_copysign lhs rhs"

definition f32_un :: "f32_unop \<Rightarrow> stack_elem \<Rightarrow> stack_elem res" where
  "f32_un op e = bindR (to_fui32 e) (\<lambda>oper. Inr (f32_const (f32_unary op oper)))"

definition f32_bin :: "f32_binop \<Rightarrow> stack_elem \<Rightarrow> stack_elem \<Rightarrow> stack_elem res" where
  "f32_bin op l r =
     bindR (to_fui32 l) (\<lambda>lhs. bindR (to_fui32 r) (\<lambda>rhs. Inr (f32_const (f32_arith op lhs rhs))))"

definition f64_un :: "f64_unop \<Rightarrow> stack_elem \<Rightarrow> stack_elem res" where
  "f64_un op e = bindR (to_fui64 e) (\<lambda>oper. Inr (f64_const (f64_unary op oper)))"

definition f64_bin :: "f64_binop \<Rightarrow> stack_elem \<Rightarrow> stack_elem \<Rightarrow> stack_elem res" where
  "f64_bin op l r =
     bindR (to_fui64 l) (\<lambda>lhs. bindR (to_fui64 r) (\<lambda>rhs. Inr (f64_const (f64_arith op lhs rhs))))"

subsection \<open>Conversions\<close>

datatype cvtop =
    i32_wrap_i64_t | i32_trunc_s_f32_t | i32_trunc_s_f64_t | i32_trunc_u_f32_t
  | i32_trunc_u_f64_t | i64_extend_s_i32_t | i64_extend_u_i32_t | i64_trunc_s_f32_t
  | i64_trunc_s_f64_t | i64_trunc_u_f32_t | i64_trunc_u_f64_t | f32_convert_s_i32_t
  | f32_convert_u_i32_t | f32_convert_s_i64_t | f32_convert_u_i64_t | f32_demote_f64_t
  | f64_convert_s_i32_t | f64_convert_u_i32_t | f64_convert_s_i64_t | f64_convert_u_i64_t
  | f64_promote_f32_t | i32_reinterpret_f32_t | i64_reinterpret_f64_t | f32_reinterpret_i32_t
  | f64_reinterpret_i64_t | i32_trunc_sat_f32_s_t | i32_trunc_sat_f32_u_t | i32_trunc_sat_f64_s_t
  | i32_trunc_sat_f64_u_t | i64_trunc_sat_f32_s_t | i64_trunc_sat_f32_u_t | i64_trunc_sat_f64_s_t
  | i64_trunc_sat_f64_u_t

fun cvt :: "cvtop \<Rightarrow> stack_elem \<Rightarrow> stack_elem res" where
  "cvt i32_wrap_i64_t oper = bindR (to_ui64 oper) (\<lambda>v. Inr (i32_const (ucast v)))"
| "cvt i32_trunc_s_f32_t oper = bindR (to_fui32 oper) (\<lambda>v. bindR (psizam_f32_trunc_i32s v) (\<lambda>r. Inr (i32_const r)))"
| "cvt i32_trunc_s_f64_t oper = bindR (to_fui64 oper) (\<lambda>v. bindR (psizam_f64_trunc_i32s True v) (\<lambda>r. Inr (i32_const r)))"
| "cvt i32_trunc_u_f32_t oper = bindR (to_fui32 oper) (\<lambda>v. bindR (psizam_f32_trunc_i32u v) (\<lambda>r. Inr (i32_const r)))"
| "cvt i32_trunc_u_f64_t oper = bindR (to_fui64 oper) (\<lambda>v. bindR (psizam_f64_trunc_i32u v) (\<lambda>r. Inr (i32_const r)))"
| "cvt i64_extend_s_i32_t oper = bindR (to_ui32 oper) (\<lambda>v. Inr (i64_const (scast v)))"
| "cvt i64_extend_u_i32_t oper = bindR (to_ui32 oper) (\<lambda>v. Inr (i64_const (ucast v)))"
| "cvt i64_trunc_s_f32_t oper = bindR (to_fui32 oper) (\<lambda>v. bindR (psizam_f32_trunc_i64s v) (\<lambda>r. Inr (i64_const r)))"
| "cvt i64_trunc_s_f64_t oper = bindR (to_fui64 oper) (\<lambda>v. bindR (psizam_f64_trunc_i64s v) (\<lambda>r. Inr (i64_const r)))"
| "cvt i64_trunc_u_f32_t oper = bindR (to_fui32 oper) (\<lambda>v. bindR (psizam_f32_trunc_i64u v) (\<lambda>r. Inr (i64_const r)))"
| "cvt i64_trunc_u_f64_t oper = bindR (to_fui64 oper) (\<lambda>v. bindR (psizam_f64_trunc_i64u v) (\<lambda>r. Inr (i64_const r)))"
| "cvt f32_convert_s_i32_t oper = bindR (to_ui32 oper) (\<lambda>v. Inr (f32_const (psizam_i32_to_f32 v)))"
| "cvt f32_convert_u_i32_t oper = bindR (to_ui32 oper) (\<lambda>v. Inr (f32_const (psizam_ui32_to_f32 v)))"
| "cvt f32_convert_s_i64_t oper = bindR (to_ui64 oper) (\<lambda>v. Inr (f32_const (psizam_i64_to_f32 v)))"
| "cvt f32_convert_u_i64_t oper = bindR (to_ui64 oper) (\<lambda>v. Inr (f32_const (psizam_ui64_to_f32 v)))"
| "cvt f32_demote_f64_t oper = bindR (to_fui64 oper) (\<lambda>v. Inr (f32_const (psizam_f64_demote v)))"
| "cvt f64_convert_s_i32_t oper = bindR (to_ui32 oper) (\<lambda>v. Inr (f64_const (psizam_i32_to_f64 v)))"
| "cvt f64_convert_u_i32_t oper = bindR (to_ui32 oper) (\<lambda>v. Inr (f64_const (psizam_ui32_to_f64 v)))"
| "cvt f64_convert_s_i64_t oper = bindR (to_ui64 oper) (\<lambda>v. Inr (f64_const (psizam_i64_to_f64 v)))"
| "cvt f64_convert_u_i64_t oper = bindR (to_ui64 oper) (\<lambda>v. Inr (f64_const (psizam_ui64_to_f64 v)))"
| "cvt f64_promote_f32_t oper = bindR (to_fui32 oper) (\<lambda>v. Inr (f64_const (psizam_f32_promote v)))"
| "cvt i32_reinterpret_f32_t oper = bindR (to_fui32 oper) (\<lambda>v. Inr (i32_const v))"
| "cvt i64_reinterpret_f64_t oper = bindR (to_fui64 oper) (\<lambda>v. Inr (i64_const v))"
| "cvt f32_reinterpret_i32_t oper = bindR (to_ui32 oper) (\<lambda>v. Inr (f32_const v))"
| "cvt f64_reinterpret_i64_t oper = bindR (to_ui64 oper) (\<lambda>v. Inr (f64_const v))"
| "cvt i32_trunc_sat_f32_s_t oper = bindR (to_fui32 oper) (\<lambda>v. Inr (i32_const (psizam_i32_trunc_sat_f32_s v)))"
| "cvt i32_trunc_sat_f32_u_t oper = bindR (to_fui32 oper) (\<lambda>v. Inr (i32_const (psizam_i32_trunc_sat_f32_u v)))"
| "cvt i32_trunc_sat_f64_s_t oper = bindR (to_fui64 oper) (\<lambda>v. Inr (i32_const (psizam_i32_trunc_sat_f64_s v)))"
| "cvt i32_trunc_sat_f64_u_t oper = bindR (to_fui64 oper) (\<lambda>v. Inr (i32_const (psizam_i32_trunc_sat_f64_u v)))"
| "cvt i64_trunc_sat_f32_s_t oper = bindR (to_fui32 oper) (\<lambda>v. Inr (i64_const (psizam_i64_trunc_sat_f32_s v)))"
| "cvt i64_trunc_sat_f32_u_t oper = bindR (to_fui32 oper) (\<lambda>v. Inr (i64_const (psizam_i64_trunc_sat_f32_u v)))"
| "cvt i64_trunc_sat_f64_s_t oper = bindR (to_fui64 oper) (\<lambda>v. Inr (i64_const (psizam_i64_trunc_sat_f64_s v)))"
| "cvt i64_trunc_sat_f64_u_t oper = bindR (to_fui64 oper) (\<lambda>v. Inr (i64_const (psizam_i64_trunc_sat_f64_u v)))"

subsection \<open>Value types\<close>

definition ty_i32 :: u8 where "ty_i32 = 0x7f"
definition ty_i64 :: u8 where "ty_i64 = 0x7e"
definition ty_f32 :: u8 where "ty_f32 = 0x7d"
definition ty_f64 :: u8 where "ty_f64 = 0x7c"
definition ty_v128 :: u8 where "ty_v128 = 0x7b"
definition ty_funcref :: u8 where "ty_funcref = 0x70"
definition ty_externref :: u8 where "ty_externref = 0x6f"
definition ty_exnref :: u8 where "ty_exnref = 0x69"
definition ty_pseudo :: u8 where "ty_pseudo = 0x40"

lemmas ty_defs = ty_i32_def ty_i64_def ty_f32_def ty_f64_def ty_v128_def ty_funcref_def ty_externref_def
  ty_exnref_def ty_pseudo_def

subsection \<open>All numeric instructions\<close>

datatype numop =
    I32_rel i32_relop | I64_rel i64_relop | F32_rel f32_relop | F64_rel f64_relop
  | I32_un i32_unop | I64_un i64_unop | F32_un f32_unop | F64_un f64_unop
  | I32_bin i32_binop | I64_bin i64_binop | F32_bin f32_binop | F64_bin f64_binop
  | Cvt cvtop

fun cvt_src :: "cvtop \<Rightarrow> u8" where
  "cvt_src i32_wrap_i64_t = ty_i64"
| "cvt_src i32_trunc_s_f32_t = ty_f32"
| "cvt_src i32_trunc_s_f64_t = ty_f64"
| "cvt_src i32_trunc_u_f32_t = ty_f32"
| "cvt_src i32_trunc_u_f64_t = ty_f64"
| "cvt_src i64_extend_s_i32_t = ty_i32"
| "cvt_src i64_extend_u_i32_t = ty_i32"
| "cvt_src i64_trunc_s_f32_t = ty_f32"
| "cvt_src i64_trunc_s_f64_t = ty_f64"
| "cvt_src i64_trunc_u_f32_t = ty_f32"
| "cvt_src i64_trunc_u_f64_t = ty_f64"
| "cvt_src f32_convert_s_i32_t = ty_i32"
| "cvt_src f32_convert_u_i32_t = ty_i32"
| "cvt_src f32_convert_s_i64_t = ty_i64"
| "cvt_src f32_convert_u_i64_t = ty_i64"
| "cvt_src f32_demote_f64_t = ty_f64"
| "cvt_src f64_convert_s_i32_t = ty_i32"
| "cvt_src f64_convert_u_i32_t = ty_i32"
| "cvt_src f64_convert_s_i64_t = ty_i64"
| "cvt_src f64_convert_u_i64_t = ty_i64"
| "cvt_src f64_promote_f32_t = ty_f32"
| "cvt_src i32_reinterpret_f32_t = ty_f32"
| "cvt_src i64_reinterpret_f64_t = ty_f64"
| "cvt_src f32_reinterpret_i32_t = ty_i32"
| "cvt_src f64_reinterpret_i64_t = ty_i64"
| "cvt_src i32_trunc_sat_f32_s_t = ty_f32"
| "cvt_src i32_trunc_sat_f32_u_t = ty_f32"
| "cvt_src i32_trunc_sat_f64_s_t = ty_f64"
| "cvt_src i32_trunc_sat_f64_u_t = ty_f64"
| "cvt_src i64_trunc_sat_f32_s_t = ty_f32"
| "cvt_src i64_trunc_sat_f32_u_t = ty_f32"
| "cvt_src i64_trunc_sat_f64_s_t = ty_f64"
| "cvt_src i64_trunc_sat_f64_u_t = ty_f64"

fun cvt_dst :: "cvtop \<Rightarrow> u8" where
  "cvt_dst i32_wrap_i64_t = ty_i32"
| "cvt_dst i32_trunc_s_f32_t = ty_i32"
| "cvt_dst i32_trunc_s_f64_t = ty_i32"
| "cvt_dst i32_trunc_u_f32_t = ty_i32"
| "cvt_dst i32_trunc_u_f64_t = ty_i32"
| "cvt_dst i64_extend_s_i32_t = ty_i64"
| "cvt_dst i64_extend_u_i32_t = ty_i64"
| "cvt_dst i64_trunc_s_f32_t = ty_i64"
| "cvt_dst i64_trunc_s_f64_t = ty_i64"
| "cvt_dst i64_trunc_u_f32_t = ty_i64"
| "cvt_dst i64_trunc_u_f64_t = ty_i64"
| "cvt_dst f32_convert_s_i32_t = ty_f32"
| "cvt_dst f32_convert_u_i32_t = ty_f32"
| "cvt_dst f32_convert_s_i64_t = ty_f32"
| "cvt_dst f32_convert_u_i64_t = ty_f32"
| "cvt_dst f32_demote_f64_t = ty_f32"
| "cvt_dst f64_convert_s_i32_t = ty_f64"
| "cvt_dst f64_convert_u_i32_t = ty_f64"
| "cvt_dst f64_convert_s_i64_t = ty_f64"
| "cvt_dst f64_convert_u_i64_t = ty_f64"
| "cvt_dst f64_promote_f32_t = ty_f64"
| "cvt_dst i32_reinterpret_f32_t = ty_i32"
| "cvt_dst i64_reinterpret_f64_t = ty_i64"
| "cvt_dst f32_reinterpret_i32_t = ty_f32"
| "cvt_dst f64_reinterpret_i64_t = ty_f64"
| "cvt_dst i32_trunc_sat_f32_s_t = ty_i32"
| "cvt_dst i32_trunc_sat_f32_u_t = ty_i32"
| "cvt_dst i32_trunc_sat_f64_s_t = ty_i32"
| "cvt_dst i32_trunc_sat_f64_u_t = ty_i32"
| "cvt_dst i64_trunc_sat_f32_s_t = ty_i64"
| "cvt_dst i64_trunc_sat_f32_u_t = ty_i64"
| "cvt_dst i64_trunc_sat_f64_s_t = ty_i64"
| "cvt_dst i64_trunc_sat_f64_u_t = ty_i64"

text \<open>The \<open>A\<close> and \<open>R\<close> of the parser's macros, \<open>src\<close> and \<open>dst\<close> of a conversion, and the number of operands.\<close>

fun num_arg :: "numop \<Rightarrow> u8" where
  "num_arg (I32_rel _) = ty_i32"
| "num_arg (I64_rel _) = ty_i64"
| "num_arg (F32_rel _) = ty_f32"
| "num_arg (F64_rel _) = ty_f64"
| "num_arg (I32_un _) = ty_i32"
| "num_arg (I64_un _) = ty_i64"
| "num_arg (F32_un _) = ty_f32"
| "num_arg (F64_un _) = ty_f64"
| "num_arg (I32_bin _) = ty_i32"
| "num_arg (I64_bin _) = ty_i64"
| "num_arg (F32_bin _) = ty_f32"
| "num_arg (F64_bin _) = ty_f64"
| "num_arg (Cvt c) = cvt_src c"

fun num_result :: "numop \<Rightarrow> u8" where
  "num_result (I32_rel _) = ty_i32"
| "num_result (I64_rel _) = ty_i32"
| "num_result (F32_rel _) = ty_i32"
| "num_result (F64_rel _) = ty_i32"
| "num_result (I32_un _) = ty_i32"
| "num_result (I64_un i) = (if i = i64_eqz_t then ty_i32 else ty_i64)"
| "num_result (F32_un _) = ty_f32"
| "num_result (F64_un _) = ty_f64"
| "num_result (I32_bin _) = ty_i32"
| "num_result (I64_bin _) = ty_i64"
| "num_result (F32_bin _) = ty_f32"
| "num_result (F64_bin _) = ty_f64"
| "num_result (Cvt c) = cvt_dst c"

fun num_binary :: "numop \<Rightarrow> bool" where
  "num_binary (I32_un _) = False"
| "num_binary (I64_un _) = False"
| "num_binary (F32_un _) = False"
| "num_binary (F64_un _) = False"
| "num_binary (Cvt _) = False"
| "num_binary _ = True"

fun num_un :: "numop \<Rightarrow> stack_elem \<Rightarrow> stack_elem res" where
  "num_un (I32_un i) e = i32_un i e"
| "num_un (I64_un i) e = i64_un i e"
| "num_un (F32_un i) e = f32_un i e"
| "num_un (F64_un i) e = f64_un i e"
| "num_un (Cvt c) e = cvt c e"
| "num_un _ e = bad_alternative"

fun num_bin :: "numop \<Rightarrow> stack_elem \<Rightarrow> stack_elem \<Rightarrow> stack_elem res" where
  "num_bin (I32_rel i) l r = i32_rel i l r"
| "num_bin (I64_rel i) l r = i64_rel i l r"
| "num_bin (F32_rel i) l r = f32_rel i l r"
| "num_bin (F64_rel i) l r = f64_rel i l r"
| "num_bin (I32_bin i) l r = i32_bin i l r"
| "num_bin (I64_bin i) l r = i64_bin i l r"
| "num_bin (F32_bin i) l r = f32_bin i l r"
| "num_bin (F64_bin i) l r = f64_bin i l r"
| "num_bin _ l r = bad_alternative"

subsection \<open>Operands of a type\<close>

text \<open>The alternative a value of each type is held in; references are 32-bit indices.\<close>

fun elem_ty :: "stack_elem \<Rightarrow> u8" where
  "elem_ty (i32_const _) = ty_i32"
| "elem_ty (i64_const _) = ty_i64"
| "elem_ty (f32_const _) = ty_f32"
| "elem_ty (f64_const _) = ty_f64"
| "elem_ty (v128_const _) = ty_v128"

definition elem_ok :: "u8 \<Rightarrow> stack_elem \<Rightarrow> bool" where
  "elem_ok t e \<longleftrightarrow> elem_ty e = (if t \<in> {ty_funcref, ty_externref, ty_exnref} then ty_i32 else t)"

lemma elem_ok_cases [simp]:
  "elem_ok ty_i32 e \<longleftrightarrow> (\<exists>v. e = i32_const v)"
  "elem_ok ty_i64 e \<longleftrightarrow> (\<exists>v. e = i64_const v)"
  "elem_ok ty_f32 e \<longleftrightarrow> (\<exists>v. e = f32_const v)"
  "elem_ok ty_f64 e \<longleftrightarrow> (\<exists>v. e = f64_const v)"
  "elem_ok ty_v128 e \<longleftrightarrow> (\<exists>v. e = v128_const v)"
  "elem_ok ty_funcref e \<longleftrightarrow> (\<exists>v. e = i32_const v)"
  "elem_ok ty_externref e \<longleftrightarrow> (\<exists>v. e = i32_const v)"
  "elem_ok ty_exnref e \<longleftrightarrow> (\<exists>v. e = i32_const v)"
  by (cases e; simp add: elem_ok_def ty_defs)+

text \<open>
  Errors that a well-typed program must not reach: undefined behaviour, and the exceptions by which the
  interpreter and the module report an inconsistency of their own.
\<close>

definition internal_msgs :: "string list" where
  "internal_msgs =
     [''operand stack underflow'', ''invalid stack index'', ''operand stack eat: index out of bounds'',
      ''global index out of range'', ''global is not mutable'', ''expected i32 global type'',
      ''expected i64 global type'', ''expected f32 global type'', ''expected f64 global type'',
      ''expected v128 global type'', ''invalid global type'', ''invalid function param type'',
      ''trying to get the PC of an imported function'']"

fun internal :: "exn \<Rightarrow> bool" where
  "internal (Undefined _) = True"
| "internal (wasm_invalid_element _) = True"
| "internal (wasm_parse_exception _) = True"
| "internal (std_out_of_range _) = True"
| "internal (wasm_interpreter_exception m) = (m \<in> set internal_msgs)"
| "internal _ = False"

definition yields :: "u8 \<Rightarrow> stack_elem res \<Rightarrow> bool" where
  "yields t r \<longleftrightarrow> (case r of Inr e \<Rightarrow> elem_ok t e | Inl x \<Rightarrow> \<not> internal x)"

lemma yields_Inr [simp]: "yields t (Inr e) \<longleftrightarrow> elem_ok t e"
  by (simp add: yields_def)

lemma yields_Inl [simp]: "yields t (Inl x) \<longleftrightarrow> \<not> internal x"
  by (simp add: yields_def)

definition traps_only :: "'a res \<Rightarrow> bool" where
  "traps_only r \<longleftrightarrow> (\<forall>x. r = Inl x \<longrightarrow> \<not> internal x)"

lemma traps_only_simps [simp]:
  "traps_only (Inr v)" "traps_only (Inl x) \<longleftrightarrow> \<not> internal x"
  "traps_only (assertR b x k) \<longleftrightarrow> (if b then traps_only k else \<not> internal x)"
  by (simp_all add: traps_only_def assertR_def)

lemma yields_bind:
  "traps_only m \<Longrightarrow> (\<And>x. m = Inr x \<Longrightarrow> yields t (f x)) \<Longrightarrow> yields t (bindR m f)"
  by (cases m) auto

lemma of_bool_ok [simp]: "\<exists>v. of_bool_i32 b = i32_const v"
  by (simp add: of_bool_i32_def)

lemma trunc_traps_only:
  "traps_only (psizam_f32_trunc_i32s a)" "traps_only (psizam_f64_trunc_i32s True b)"
  "traps_only (psizam_f32_trunc_i32u a)" "traps_only (psizam_f64_trunc_i32u b)"
  "traps_only (psizam_f32_trunc_i64s a)" "traps_only (psizam_f64_trunc_i64s b)"
  "traps_only (psizam_f32_trunc_i64u a)" "traps_only (psizam_f64_trunc_i64u b)"
  by (simp_all add: psizam_f32_trunc_i32s_def psizam_f64_trunc_i32s_def psizam_f32_trunc_i32u_def
      psizam_f64_trunc_i32u_def psizam_f32_trunc_i64s_def psizam_f64_trunc_i64s_def psizam_f32_trunc_i64u_def
      psizam_f64_trunc_i64u_def internal_msgs_def)

lemma c_ops_traps_only:
  fixes a b :: "'a :: len word"
  assumes "1 < LENGTH('a)" "b \<noteq> 0"
  shows "\<not> (a = int_min \<and> b = - 1) \<Longrightarrow> traps_only (c_div_s a b)"
    and "\<not> (a = int_min \<and> b = - 1) \<Longrightarrow> traps_only (c_mod_s a b)"
    and "traps_only (c_div_u a b)" and "traps_only (c_mod_u a b)"
  using c_div_s_spec [of b a] c_mod_s_spec [of b a] assms
  by (auto simp: c_div_u_def c_mod_u_def)

lemma i32_arith_traps_only: "traps_only (i32_arith op a b)"
proof (cases op)
  case i32_div_s_t
  then show ?thesis using c_ops_traps_only [of b a] by (simp add: i32_div_s_def internal_msgs_def)
next
  case i32_div_u_t
  then show ?thesis using c_ops_traps_only [of b a] by (simp add: i32_div_u_def internal_msgs_def)
next
  case i32_rem_s_t
  then show ?thesis using c_ops_traps_only [of b a] by (simp add: i32_rem_s_def internal_msgs_def)
next
  case i32_rem_u_t
  then show ?thesis using c_ops_traps_only [of b a] by (simp add: i32_rem_u_def internal_msgs_def)
qed (simp_all add: c_shl_def c_shr_s_def c_shr_u_def and_31 unat_take_bit i32_rotates)

lemma i64_arith_traps_only: "traps_only (i64_arith op a b)"
proof (cases op)
  case i64_div_s_t
  then show ?thesis using c_ops_traps_only [of b a] by (simp add: i64_div_s_def internal_msgs_def)
next
  case i64_div_u_t
  then show ?thesis using c_ops_traps_only [of b a] by (simp add: i64_div_u_def internal_msgs_def)
next
  case i64_rem_s_t
  then show ?thesis using c_ops_traps_only [of b a] by (simp add: i64_rem_s_def internal_msgs_def)
next
  case i64_rem_u_t
  then show ?thesis using c_ops_traps_only [of b a] by (simp add: i64_rem_u_def internal_msgs_def)
qed (simp_all add: c_shl_def c_shr_s_def c_shr_u_def and_63 unat_take_bit i64_rotates)

lemma cvt_ok: "elem_ok (cvt_src c) e \<Longrightarrow> yields (cvt_dst c) (cvt c e)"
  by (cases c) (auto intro!: yields_bind simp: trunc_traps_only)

lemma num_un_ok:
  assumes "\<not> num_binary op" and "elem_ok (num_arg op) e"
  shows "yields (num_result op) (num_un op e)"
proof (cases op)
  case (I32_un i)
  then obtain v where v: "e = i32_const v" using assms by auto
  show ?thesis using i32_un_total [of i v] I32_un v by auto
next
  case (I64_un i)
  then obtain v where v: "e = i64_const v" using assms by auto
  show ?thesis using i64_un_total [of i v] I64_un v by (auto split: if_splits)
qed (use assms cvt_ok in \<open>auto simp: f32_un_def f64_un_def\<close>)

lemma num_bin_ok:
  assumes "num_binary op" and "elem_ok (num_arg op) l" and "elem_ok (num_arg op) r"
  shows "yields (num_result op) (num_bin op l r)"
proof (cases op)
  case (I32_bin i)
  then obtain a b where v: "l = i32_const a" "r = i32_const b" using assms by auto
  show ?thesis using I32_bin v by (auto simp: i32_bin_def i32_arith_traps_only intro!: yields_bind)
next
  case (I64_bin i)
  then obtain a b where v: "l = i64_const a" "r = i64_const b" using assms by auto
  show ?thesis using I64_bin v by (auto simp: i64_bin_def i64_arith_traps_only intro!: yields_bind)
qed (use assms in \<open>auto simp: i32_rel_def i64_rel_def f32_rel_def f64_rel_def f32_bin_def f64_bin_def\<close>)

end
