(* ===== verification/Bitcode.thy ===== *)
theory Bitcode
  imports Num_Ops Linear_Memory Gas Leb128
begin

unbundle bit_operations_syntax

section \<open>Modules and bitcode\<close>

text \<open>
  The data the parser produces and the interpreter runs: the module of \<open>psizam/types.hpp\<close>, the bitcode
  instructions of \<open>psizam/detail/opcodes_def.hpp\<close>, and \<open>psizam/detail/bitcode_writer.hpp\<close>, which
  appends them. Covered are the instructions of the WebAssembly MVP, multi-value blocks, references,
  table access, sign extension and saturating conversions.
\<close>

subsection \<open>Modules\<close>

record func_type =
  param_types :: "u8 list"
  return_types :: "u8 list"

definition return_count :: "func_type \<Rightarrow> nat" where
  "return_count ft = length (return_types ft)"

definition return_type :: "func_type \<Rightarrow> u8" where
  "return_type ft = (case return_types ft of [] \<Rightarrow> 0 | t # _ \<Rightarrow> t)"

record global_type =
  content_type :: u8
  mutability :: bool

record local_entry =
  local_count :: u32
  local_type :: u8

text \<open>\<open>body_code\<close> is the index of the body's first instruction in the code segment (the \<open>code\<close> pointer
  minus \<open>code[0].code\<close>); bodies are laid out one after the other. \<open>body_start\<close> is an offset into the binary, a
  \<open>branch_hint\<close> the pair of its offset and value.\<close>

record function_body =
  body_bytes :: u32
  wasm_body_bytes :: u32
  locals :: "local_entry list"
  body_code :: nat
  body_stack_size :: u32
  prologue_gas_extra :: int
  body_start :: nat
  branch_hints :: "(u32 \<times> u8) list"

text \<open>
  Kind and type of an import are one value. \<open>func_list\<close> is the field \<open>functions\<close>; \<open>import_functions\<close> are the entries of
  the host function table the function imports were resolved to. Of the tables, memories and globals the module keeps
  what code is validated and run against: element type, \<open>is_memory64\<close>, content type and mutability.
\<close>

record resizable_limits =
  lim_flags :: bool
  lim_initial :: u32
  lim_maximum :: u32

record table_type =
  element_type :: u8
  table_limits :: resizable_limits

record memory_type =
  memory_limits :: resizable_limits
  mt_memory64 :: bool

datatype import_kind = Func_import nat | Table_import table_type | Memory_import memory_type | Global_import global_type | Tag_import

record import_entry =
  module_str :: "u8 list"
  field_str :: "u8 list"
  ikind :: import_kind

record module =
  types :: "func_type list"
  imports_of :: "import_entry list"
  import_functions :: "nat list"
  func_list :: "nat list"
  tables :: "u8 list"
  memories :: "bool list"
  globals :: "global_type list"
  body_list :: "function_body list"
  stack_limit_is_bytes :: bool
  maximum_stack :: nat

text \<open>The type indices of the function imports, in order.\<close>

fun func_imports :: "import_entry list \<Rightarrow> nat list" where
  "func_imports [] = []"
| "func_imports (i # is) = (case ikind i of Func_import t \<Rightarrow> t # func_imports is | _ \<Rightarrow> func_imports is)"

definition import_types :: "module \<Rightarrow> nat list" where
  "import_types m = func_imports (imports_of m)"

definition get_imported_functions_size :: "module \<Rightarrow> nat" where
  "get_imported_functions_size m = length (import_types m)"

definition get_functions_total :: "module \<Rightarrow> nat" where
  "get_functions_total m = get_imported_functions_size m + length (func_list m)"

definition types_at :: "module \<Rightarrow> nat \<Rightarrow> func_type res" where
  "types_at m i = assertR (i < length (types m)) (std_out_of_range ''types'') (Inr (types m ! i))"

definition body_at :: "module \<Rightarrow> nat \<Rightarrow> function_body res" where
  "body_at m i = assertR (i < length (body_list m)) (std_out_of_range ''code'') (Inr (body_list m ! i))"

text \<open>\<open>types[...]\<close> of an import is not range checked, \<open>types.at(...)\<close> of a defined function is.\<close>

definition get_function_type :: "module \<Rightarrow> nat \<Rightarrow> func_type res" where
  "get_function_type m fidx =
     (if fidx < get_imported_functions_size m then
        (if import_types m ! fidx < length (types m) then Inr (types m ! (import_types m ! fidx))
         else Inl (Undefined ''type index of an import out of range''))
      else
        assertR (fidx - get_imported_functions_size m < length (func_list m))
          (wasm_parse_exception ''function index out of range'')
          (types_at m (func_list m ! (fidx - get_imported_functions_size m))))"

definition get_function_stack_size :: "module \<Rightarrow> nat \<Rightarrow> u32 res" where
  "get_function_stack_size m fidx =
     (if \<not> stack_limit_is_bytes m then Inr 1
      else if fidx < get_imported_functions_size m then Inr 0
      else bindR (body_at m (fidx - get_imported_functions_size m)) (\<lambda>b. Inr (body_stack_size b)))"

definition get_function_pc :: "module \<Rightarrow> nat \<Rightarrow> nat res" where
  "get_function_pc m fidx =
     assertR (fidx \<ge> get_imported_functions_size m)
       (wasm_interpreter_exception ''trying to get the PC of an imported function'')
       (bindR (body_at m (fidx - get_imported_functions_size m)) (\<lambda>b. Inr (body_code b)))"

definition mem_addr_type :: "module \<Rightarrow> u8" where
  "mem_addr_type m = (if memories m \<noteq> [] \<and> hd (memories m) then ty_i64 else ty_i32)"

subsection \<open>Memory instructions\<close>

datatype loadop =
    i32_load_t | i64_load_t | f32_load_t | f64_load_t
  | i32_load8_s_t | i32_load8_u_t | i32_load16_s_t | i32_load16_u_t
  | i64_load8_s_t | i64_load8_u_t | i64_load16_s_t | i64_load16_u_t | i64_load32_s_t | i64_load32_u_t

datatype storeop =
    i32_store_t | i64_store_t | f32_store_t | f64_store_t
  | i32_store8_t | i32_store16_t | i64_store8_t | i64_store16_t | i64_store32_t

text \<open>The parser's \<open>LOAD_OP(name, max_align, type)\<close> and \<open>STORE_OP(name, max_align, type)\<close>.\<close>

fun load_max_align :: "loadop \<Rightarrow> nat" where
  "load_max_align i32_load_t = 2"
| "load_max_align i64_load_t = 3"
| "load_max_align f32_load_t = 2"
| "load_max_align f64_load_t = 3"
| "load_max_align i32_load8_s_t = 0"
| "load_max_align i32_load8_u_t = 0"
| "load_max_align i32_load16_s_t = 1"
| "load_max_align i32_load16_u_t = 1"
| "load_max_align i64_load8_s_t = 0"
| "load_max_align i64_load8_u_t = 0"
| "load_max_align i64_load16_s_t = 1"
| "load_max_align i64_load16_u_t = 1"
| "load_max_align i64_load32_s_t = 2"
| "load_max_align i64_load32_u_t = 2"

definition load_type :: "loadop \<Rightarrow> u8" where
  "load_type l =
     (if l \<in> {i32_load_t, i32_load8_s_t, i32_load8_u_t, i32_load16_s_t, i32_load16_u_t} then ty_i32
      else if l = f32_load_t then ty_f32 else if l = f64_load_t then ty_f64 else ty_i64)"

fun store_max_align :: "storeop \<Rightarrow> nat" where
  "store_max_align i32_store_t = 2"
| "store_max_align i64_store_t = 3"
| "store_max_align f32_store_t = 2"
| "store_max_align f64_store_t = 3"
| "store_max_align i32_store8_t = 0"
| "store_max_align i32_store16_t = 1"
| "store_max_align i64_store8_t = 0"
| "store_max_align i64_store16_t = 1"
| "store_max_align i64_store32_t = 2"

definition store_type :: "storeop \<Rightarrow> u8" where
  "store_type s =
     (if s \<in> {i32_store_t, i32_store8_t, i32_store16_t} then ty_i32
      else if s = f32_store_t then ty_f32 else if s = f64_store_t then ty_f64 else ty_i64)"

text \<open>What the visitor reads: \<open>pop_memop_addr_read(op, n)\<close> and the conversion of the bytes read there.\<close>

fun load_size :: "loadop \<Rightarrow> nat" where
  "load_size i32_load_t = 4"
| "load_size i64_load_t = 8"
| "load_size f32_load_t = 4"
| "load_size f64_load_t = 8"
| "load_size i32_load8_s_t = 1"
| "load_size i32_load8_u_t = 1"
| "load_size i32_load16_s_t = 2"
| "load_size i32_load16_u_t = 2"
| "load_size i64_load8_s_t = 1"
| "load_size i64_load8_u_t = 1"
| "load_size i64_load16_s_t = 2"
| "load_size i64_load16_u_t = 2"
| "load_size i64_load32_s_t = 4"
| "load_size i64_load32_u_t = 4"

fun load_value :: "loadop \<Rightarrow> u8 list \<Rightarrow> stack_elem" where
  "load_value i32_load_t bs = i32_const (le_word bs)"
| "load_value i64_load_t bs = i64_const (le_word bs)"
| "load_value f32_load_t bs = f32_const (le_word bs)"
| "load_value f64_load_t bs = f64_const (le_word bs)"
| "load_value i32_load8_s_t bs = i32_const (scast (le_word bs :: u8))"
| "load_value i32_load8_u_t bs = i32_const (ucast (le_word bs :: u8))"
| "load_value i32_load16_s_t bs = i32_const (scast (le_word bs :: u16))"
| "load_value i32_load16_u_t bs = i32_const (ucast (le_word bs :: u16))"
| "load_value i64_load8_s_t bs = i64_const (scast (le_word bs :: u8))"
| "load_value i64_load8_u_t bs = i64_const (ucast (le_word bs :: u8))"
| "load_value i64_load16_s_t bs = i64_const (scast (le_word bs :: u16))"
| "load_value i64_load16_u_t bs = i64_const (ucast (le_word bs :: u16))"
| "load_value i64_load32_s_t bs = i64_const (scast (le_word bs :: u32))"
| "load_value i64_load32_u_t bs = i64_const (ucast (le_word bs :: u32))"

fun store_value :: "storeop \<Rightarrow> stack_elem \<Rightarrow> u8 list res" where
  "store_value i32_store_t v = bindR (to_ui32 v) (\<lambda>w. Inr (le_bytes 4 w))"
| "store_value i64_store_t v = bindR (to_ui64 v) (\<lambda>w. Inr (le_bytes 8 w))"
| "store_value f32_store_t v = bindR (to_fui32 v) (\<lambda>w. Inr (le_bytes 4 w))"
| "store_value f64_store_t v = bindR (to_fui64 v) (\<lambda>w. Inr (le_bytes 8 w))"
| "store_value i32_store8_t v = bindR (to_ui32 v) (\<lambda>w. Inr (le_bytes 1 (ucast w :: u8)))"
| "store_value i32_store16_t v = bindR (to_ui32 v) (\<lambda>w. Inr (le_bytes 2 (ucast w :: u16)))"
| "store_value i64_store8_t v = bindR (to_ui64 v) (\<lambda>w. Inr (le_bytes 1 (ucast w :: u8)))"
| "store_value i64_store16_t v = bindR (to_ui64 v) (\<lambda>w. Inr (le_bytes 2 (ucast w :: u16)))"
| "store_value i64_store32_t v = bindR (to_ui64 v) (\<lambda>w. Inr (le_bytes 4 (ucast w :: u32)))"

subsection \<open>Instructions\<close>

text \<open>
  The fields of an instruction in the order of its struct, without those no instruction here uses. A
  \<open>br_table_t\<close> is followed in memory by its table of \<open>elem_t\<close>; the model keeps the table with the
  instruction and marks the slots it occupies by \<open>table_slot\<close>.
\<close>

record elem_t =
  elem_pc :: u32
  stack_pop :: u32
  eh_leave_count :: u32

datatype opcode =
    unreachable_t
  | nop_t
  | return_t u32 u32 u32
  | gas_charge_t int
  | if_t u32
  | else_t u32
  | br_t u32 u32
  | br_if_t u32 u32 u32
  | br_table_t u32 "elem_t list"
  | table_slot
  | call_t u32
  | call_indirect_t u32
  | drop_t
  | select_t
  | get_local_t u32
  | set_local_t u32
  | tee_local_t u32
  | get_global_t u32
  | set_global_t u32
  | table_get_t u32
  | table_set_t u32
  | ref_null_t u8
  | ref_is_null_t
  | ref_func_t u32
  | load_t loadop u32 u32
  | store_t storeop u32 u32
  | current_memory_t
  | grow_memory_t
  | const_t stack_elem
  | num_t numop

subsection \<open>The writer\<close>

text \<open>
  \<open>fb\<close> is the part of the function's buffer written so far, its length \<open>op_index\<close>; \<open>capacity\<close> is the
  size of the buffer, which \<open>fb[...]\<close> checks. A \<open>branch_t\<close> points to the \<open>pc\<close> field of an instruction or
  of an entry of a branch table.
\<close>

record writer =
  fb :: "opcode list"
  capacity :: nat
  base_offset :: nat

datatype branch_t = Pc_of nat | Entry_of nat nat

definition sizeof_opcode :: nat where "sizeof_opcode = 24"
definition sizeof_elem :: nat where "sizeof_elem = 12"

definition op_index :: "writer \<Rightarrow> nat" where
  "op_index w = length (fb w)"

definition vector_oob :: exn where
  "vector_oob = wasm_vector_oob_exception ''vector read out of bounds''"

definition append_instr :: "opcode \<Rightarrow> writer \<Rightarrow> writer res" where
  "append_instr i w = assertR (op_index w < capacity w) vector_oob (Inr (w\<lparr>fb := fb w @ [i]\<rparr>))"

definition emit_end :: "writer \<Rightarrow> nat" where
  "emit_end w = op_index w"

fun set_pc_field :: "u32 \<Rightarrow> opcode \<Rightarrow> opcode" where
  "set_pc_field p (if_t _) = if_t p"
| "set_pc_field p (else_t _) = else_t p"
| "set_pc_field p (br_t d _) = br_t d p"
| "set_pc_field p (br_if_t d _ s) = br_if_t d p s"
| "set_pc_field p i = i"

fun set_entry_pc :: "nat \<Rightarrow> u32 \<Rightarrow> opcode \<Rightarrow> opcode" where
  "set_entry_pc k p (br_table_t n es) = br_table_t n (es[k := (es ! k)\<lparr>elem_pc := p\<rparr>])"
| "set_entry_pc k p i = i"

fun store_pc :: "branch_t \<Rightarrow> u32 \<Rightarrow> writer \<Rightarrow> writer" where
  "store_pc (Pc_of i) p w = w\<lparr>fb := (fb w)[i := set_pc_field p (fb w ! i)]\<rparr>"
| "store_pc (Entry_of i k) p w = w\<lparr>fb := (fb w)[i := set_entry_pc k p (fb w ! i)]\<rparr>"

definition fix_branch :: "branch_t \<Rightarrow> nat \<Rightarrow> writer \<Rightarrow> writer" where
  "fix_branch b target w = store_pc b (of_nat (base_offset w + target)) w"

text \<open>\<open>emit_loop\<close> returns the label; its index is also where \<open>last_loop_gas_handle\<close> points.\<close>

definition emit_loop :: "writer \<Rightarrow> (writer \<times> nat) res" where
  "emit_loop w = bindR (append_instr (gas_charge_t 1) w) (\<lambda>w'. Inr (w', op_index w))"

definition emit_if :: "writer \<Rightarrow> (writer \<times> branch_t) res" where
  "emit_if w = bindR (append_instr (if_t 0) w) (\<lambda>w'. Inr (w', Pc_of (op_index w)))"

definition emit_else :: "branch_t \<Rightarrow> writer \<Rightarrow> (writer \<times> branch_t) res" where
  "emit_else if_loc w =
     bindR (append_instr (else_t 0) w) (\<lambda>w'.
       Inr (store_pc if_loc (of_nat (base_offset w' + op_index w')) w', Pc_of (op_index w)))"

definition encode_depth_change :: "u32 \<Rightarrow> u32 \<Rightarrow> u32 res" where
  "encode_depth_change depth_change result_count =
     assertR (depth_change \<le> 0x00FFFFFF) (wasm_parse_exception ''branch depth too large for encoding'')
     (assertR (result_count \<le> 255) (wasm_parse_exception ''too many branch results'')
       (Inr (depth_change OR push_bit 24 result_count)))"

definition emit_br :: "u32 \<Rightarrow> u32 \<Rightarrow> writer \<Rightarrow> (writer \<times> branch_t) res" where
  "emit_br depth_change result_count w =
     bindR (append_instr (br_t 0 0) w) (\<lambda>w'.
     bindR (encode_depth_change depth_change result_count) (\<lambda>d.
       Inr (w'\<lparr>fb := (fb w')[op_index w := br_t d 0]\<rparr>, Pc_of (op_index w))))"

definition emit_return :: "u32 \<Rightarrow> u32 \<Rightarrow> writer \<Rightarrow> (writer \<times> branch_t) res" where
  "emit_return depth_change result_count w = emit_br depth_change result_count w"

definition emit_br_if :: "u32 \<Rightarrow> u32 \<Rightarrow> u32 \<Rightarrow> writer \<Rightarrow> (writer \<times> branch_t) res" where
  "emit_br_if depth_change result_count eh w =
     bindR (append_instr (br_if_t 0 0 0) w) (\<lambda>w'.
     bindR (encode_depth_change depth_change result_count) (\<lambda>d.
       Inr (w'\<lparr>fb := (fb w')[op_index w := br_if_t d 0 eh]\<rparr>, Pc_of (op_index w))))"

text \<open>The constructor of \<open>br_table_parser\<close>: the table starts behind the instruction and a canary behind it.\<close>

definition table_slots :: "nat \<Rightarrow> nat" where
  "table_slots n = n * sizeof_elem div sizeof_opcode + 2"

definition emit_br_table :: "u32 \<Rightarrow> writer \<Rightarrow> (writer \<times> nat) res" where
  "emit_br_table table_size w =
     bindR (append_instr (br_table_t table_size []) w) (\<lambda>w1.
     assertR (op_index w1 < capacity w1) vector_oob
      (let w2 = w1\<lparr>fb := fb w1 @ replicate (table_slots (unat table_size)) table_slot\<rparr> in
       assertR (op_index w2 < capacity w2) vector_oob (Inr (w2, op_index w))))"

fun table_entries :: "opcode \<Rightarrow> elem_t list" where
  "table_entries (br_table_t _ es) = es"
| "table_entries _ = []"

fun add_entry :: "elem_t \<Rightarrow> opcode \<Rightarrow> opcode" where
  "add_entry e (br_table_t n es) = br_table_t n (es @ [e])"
| "add_entry e i = i"

definition emit_case :: "nat \<Rightarrow> u32 \<Rightarrow> u32 \<Rightarrow> u32 \<Rightarrow> writer \<Rightarrow> (writer \<times> branch_t) res" where
  "emit_case tab depth_change result_count eh w =
     bindR (encode_depth_change depth_change result_count) (\<lambda>d.
       Inr (w\<lparr>fb := (fb w)[tab := add_entry \<lparr>elem_pc = 0, stack_pop = d, eh_leave_count = eh\<rparr> (fb w ! tab)]\<rparr>,
            Entry_of tab (length (table_entries (fb w ! tab)))))"

text \<open>The check of the canary: the entries written do not reach past the slots reserved for them.\<close>

definition emit_default :: "nat \<Rightarrow> u32 \<Rightarrow> u32 \<Rightarrow> u32 \<Rightarrow> writer \<Rightarrow> (writer \<times> branch_t) res" where
  "emit_default tab depth_change result_count eh w =
     bindR (emit_case tab depth_change result_count eh w) (\<lambda>(w', b).
       assertR (length (table_entries (fb w' ! tab)) * sizeof_elem \<le>
                table_slots (length (table_entries (fb w' ! tab)) - 1) * sizeof_opcode)
         (wasm_parse_exception ''overwrote br_table data'') (Inr (w', b)))"

definition emit_call :: "u32 \<Rightarrow> writer \<Rightarrow> writer res" where
  "emit_call funcnum = append_instr (call_t funcnum)"

definition emit_call_indirect :: "u32 \<Rightarrow> u32 \<Rightarrow> writer \<Rightarrow> writer res" where
  "emit_call_indirect functypeidx table_idx = append_instr (call_indirect_t (functypeidx OR push_bit 16 table_idx))"

definition emit_prologue :: "nat \<Rightarrow> writer \<Rightarrow> writer" where
  "emit_prologue body_size w = w\<lparr>fb := [], capacity := body_size\<rparr>"

text \<open>
  \<open>fb.resize(op_index + 1)\<close> beyond the capacity would allocate a new buffer without copying the old one.
  \<open>stack_usage\<close> keeps its initial value 1 for options without \<open>max_stack_bytes\<close>.
\<close>

definition emit_epilogue :: "func_type \<Rightarrow> local_entry list \<Rightarrow> writer \<Rightarrow> writer res" where
  "emit_epilogue ft ls w =
     (if op_index w + 1 \<le> capacity w
      then Inr (w\<lparr>fb := fb w @ [return_t (sum_list (map local_count ls) + of_nat (length (param_types ft)))
                                  (of_nat (return_count ft)) 1]\<rparr>)
      else Inl (Undefined ''buffer reallocated without its contents''))"

definition finalize :: "writer \<Rightarrow> function_body \<Rightarrow> writer \<times> function_body \<times> opcode list" where
  "finalize w body =
     (w\<lparr>base_offset := base_offset w + length (fb w), fb := []\<rparr>,
      body\<lparr>body_code := base_offset w, body_bytes := of_nat (length (fb w)), body_stack_size := 1\<rparr>,
      fb w)"

fun add_cost :: "int \<Rightarrow> opcode \<Rightarrow> opcode" where
  "add_cost x (gas_charge_t c) = gas_charge_t (c + x)"
| "add_cost x i = i"

definition patch_gas_imm_add_extra :: "nat \<Rightarrow> int \<Rightarrow> writer \<Rightarrow> writer" where
  "patch_gas_imm_add_extra handle extra w =
     (if extra = 0 then w else w\<lparr>fb := (fb w)[handle := add_cost extra (fb w ! handle)]\<rparr>)"

end
