(* ===== verification/Validate.thy ===== *)
theory Validate
  imports Bitcode
begin

unbundle bit_operations_syntax

section \<open>Validation of function bodies\<close>

text \<open>
  The single pass of \<open>psizam/detail/parser.hpp\<close> over the bytes of a function body: it tracks the types
  of the operands, the open control structures and their pending branches, and drives the bitcode
  writer. Stacks of the source (\<open>std::vector\<close> used at its back) are lists with the back first.
  The \<open>assert\<close>s of the type tracker are absent, as they are in a release build, and the options are
  those without \<open>max_func_local_bytes\<close>, \<open>max_stack_bytes\<close> and \<open>psizam_max_nested_structures\<close>, for which
  the corresponding checkers are empty. Opcodes of exception handling, tail calls, bulk memory, tables
  beyond get and set, vectors and atomics are not modelled; the model refuses a body that contains one.
\<close>

subsection \<open>Reading\<close>

definition parse_err :: "string \<Rightarrow> exn" where
  "parse_err msg = wasm_parse_exception msg"

definition read_byte :: "gptr \<Rightarrow> (u8 \<times> gptr) res" where
  "read_byte code = bindR (gp_incr code) (\<lambda>code'. bindR (gp_deref code) (\<lambda>b. Inr (b, code')))"

definition parse_varuint32 :: "gptr \<Rightarrow> (u32 \<times> gptr) res" where
  "parse_varuint32 code = bindR (varuint_from_code 32 code) (\<lambda>(l, code'). Inr (varuint_to l, code'))"

definition parse_varuint64 :: "gptr \<Rightarrow> (u64 \<times> gptr) res" where
  "parse_varuint64 code = bindR (varuint_from_code 64 code) (\<lambda>(l, code'). Inr (varuint_to l, code'))"

definition parse_varint32 :: "gptr \<Rightarrow> (u32 \<times> gptr) res" where
  "parse_varint32 code = bindR (varint_from_code 32 code) (\<lambda>(l, code'). Inr (varint_to 32 l, code'))"

definition parse_varint64 :: "gptr \<Rightarrow> (u64 \<times> gptr) res" where
  "parse_varint64 code = bindR (varint_from_code 64 code) (\<lambda>(l, code'). Inr (varint_to 64 l, code'))"

definition parse_raw :: "nat \<Rightarrow> gptr \<Rightarrow> ('a :: len word \<times> gptr) res" where
  "parse_raw n code =
     bindR (gp_shrink code n) (\<lambda>(code1, old).
     if raw_ptr code1 + n \<le> length (gp_buf code1)
     then bindR (gp_plus code1 n) (\<lambda>code2.
            Inr (le_word (take n (drop (raw_ptr code1) (gp_buf code1))), gp_unshrink code2 old))
     else Inl (Undefined ''read past the buffer''))"

text \<open>\<open>while (*code++ & 0x80) {}\<close>\<close>

lemma read_byte_ptr:
  "read_byte code = Inr (b, code') \<Longrightarrow>
     raw_ptr code < bnds code \<and> raw_ptr code' = raw_ptr code + 1 \<and> bnds code' = bnds code \<and> gp_buf code' = gp_buf code"
  by (auto simp: read_byte_def gp_incr_def res_simps)

function skip_leb :: "gptr \<Rightarrow> gptr res" where
  "skip_leb code =
     bindR (read_byte code) (\<lambda>(b, code'). if b AND 0x80 \<noteq> 0 then skip_leb code' else Inr code')"
  by pat_completeness auto
termination
  by (relation "measure (\<lambda>g. bnds g - raw_ptr g)") (auto dest: read_byte_ptr)

declare skip_leb.simps [simp del]

subsection \<open>The operand type tracker\<close>

definition unreachable_tag :: u8 where "unreachable_tag = 0x80"
definition scope_tag :: u8 where "scope_tag = 0x81"
definition any_type :: u8 where "any_type = 0x82"

record tracker =
  tstate :: "u8 list"
  operand_depth :: u32
  maximum_operand_depth :: u32

definition tracker_init :: tracker where
  "tracker_init = \<lparr>tstate = [scope_tag], operand_depth = 0, maximum_operand_depth = 0\<rparr>"

definition tr_push :: "u8 \<Rightarrow> tracker \<Rightarrow> tracker res" where
  "tr_push t s =
     assertR (operand_depth s < - 1) (parse_err ''integer overflow in operand depth'')
       (Inr (s\<lparr>tstate := t # tstate s, operand_depth := operand_depth s + 1,
               maximum_operand_depth := max (operand_depth s + 1) (maximum_operand_depth s)\<rparr>))"

definition tr_pop :: "u8 \<Rightarrow> tracker \<Rightarrow> tracker res" where
  "tr_pop expected s =
     (if expected = ty_pseudo then Inr s
      else case tstate s of
        [] \<Rightarrow> Inl (parse_err ''unexpected pop'')
      | t # ts \<Rightarrow>
          if t \<noteq> unreachable_tag
          then assertR (t = expected \<or> t = any_type) (parse_err ''wrong type'')
                 (Inr (s\<lparr>tstate := ts, operand_depth := operand_depth s - 1\<rparr>))
          else Inr s)"

definition tr_pop_any :: "tracker \<Rightarrow> (tracker \<times> u8) res" where
  "tr_pop_any s =
     (case tstate s of
        [] \<Rightarrow> Inl (parse_err ''unexpected pop'')
      | t # ts \<Rightarrow>
          assertR (t \<noteq> scope_tag) (parse_err ''unexpected pop'')
            (if t = unreachable_tag then Inr (s, any_type)
             else Inr (s\<lparr>tstate := ts, operand_depth := operand_depth s - 1\<rparr>, t)))"

definition tr_top :: "u8 \<Rightarrow> tracker \<Rightarrow> tracker res" where
  "tr_top expected s = bindR (tr_pop expected s) (tr_push expected)"

text \<open>The loops that pop a list of types from its end and push one from its start.\<close>

fun tr_pop_rev :: "u8 list \<Rightarrow> tracker \<Rightarrow> tracker res" where
  "tr_pop_rev [] s = Inr s"
| "tr_pop_rev (t # ts) s = bindR (tr_pop t s) (tr_pop_rev ts)"

definition tr_pops :: "u8 list \<Rightarrow> tracker \<Rightarrow> tracker res" where
  "tr_pops ts = tr_pop_rev (rev ts)"

fun tr_pushes :: "u8 list \<Rightarrow> tracker \<Rightarrow> tracker res" where
  "tr_pushes [] s = Inr s"
| "tr_pushes (t # ts) s = bindR (tr_push t s) (tr_pushes ts)"

fun drop_to_scope :: "u8 list \<Rightarrow> u32 \<Rightarrow> u8 list \<times> u32" where
  "drop_to_scope [] d = ([], d)"
| "drop_to_scope (t # ts) d =
     (if t = scope_tag then (t # ts, d)
      else drop_to_scope ts (if t \<noteq> unreachable_tag then d - 1 else d))"

definition start_unreachable :: "tracker \<Rightarrow> tracker" where
  "start_unreachable s =
     (let (ts, d) = drop_to_scope (tstate s) (operand_depth s)
      in s\<lparr>tstate := unreachable_tag # ts, operand_depth := d\<rparr>)"

definition push_scope :: "tracker \<Rightarrow> tracker" where
  "push_scope s = s\<lparr>tstate := scope_tag # tstate s\<rparr>"

definition pop_scope_multi :: "u8 list \<Rightarrow> tracker \<Rightarrow> tracker res" where
  "pop_scope_multi expected_results s =
     bindR (tr_pops expected_results s) (\<lambda>s1.
     case tstate s1 of
       [] \<Rightarrow> Inl (parse_err ''unexpected end'')
     | t # ts \<Rightarrow>
         (case (if t = unreachable_tag then ts else t # ts) of
            [] \<Rightarrow> Inl (Undefined ''back of an empty vector'')
          | u # us \<Rightarrow>
              assertR (u = scope_tag) (parse_err ''unexpected end'')
                (tr_pushes expected_results (s1\<lparr>tstate := us\<rparr>))))"

definition pop_scope :: "u8 \<Rightarrow> tracker \<Rightarrow> tracker res" where
  "pop_scope expected_result s =
     pop_scope_multi (if expected_result = ty_pseudo then [] else [expected_result]) s"

definition is_polymorphic :: "tracker \<Rightarrow> bool" where
  "is_polymorphic s = (case tstate s of [] \<Rightarrow> False | t # _ \<Rightarrow> t = unreachable_tag)"

subsection \<open>Locals\<close>

record local_types_t =
  lt_ft :: func_type
  lt_locals :: "local_entry list"
  boundaries :: "u32 list"

fun boundaries_loop :: "u32 \<Rightarrow> local_entry list \<Rightarrow> u32 list res" where
  "boundaries_loop cnt [] = Inr []"
| "boundaries_loop cnt (l # ls) =
     assertR (cnt \<le> 0xFFFFFFFF - local_count l) (parse_err ''too many locals'')
       (bindR (boundaries_loop (cnt + local_count l) ls) (\<lambda>bs. Inr ((cnt + local_count l) # bs)))"

definition local_types :: "func_type \<Rightarrow> local_entry list \<Rightarrow> local_types_t res" where
  "local_types ft ls =
     (let cnt = of_nat (length (param_types ft)) in
      bindR (boundaries_loop cnt ls) (\<lambda>bs. Inr \<lparr>lt_ft = ft, lt_locals = ls, boundaries = cnt # bs\<rparr>))"

text \<open>\<open>std::upper_bound\<close> on the sorted boundaries: the position of the first one above the index.\<close>

definition type_of_local :: "local_types_t \<Rightarrow> u32 \<Rightarrow> u8 res" where
  "type_of_local lt local_idx =
     assertR (local_idx < last (boundaries lt)) (parse_err ''undefined local'')
       (let pos = length (takeWhile (\<lambda>b. b \<le> local_idx) (boundaries lt)) in
        if pos = 0 then Inr (param_types (lt_ft lt) ! unat local_idx)
        else Inr (local_type (lt_locals lt ! (pos - 1))))"

definition locals_count :: "local_types_t \<Rightarrow> nat" where
  "locals_count lt = unat (last (boundaries lt)) - length (param_types (lt_ft lt))"

subsection \<open>Parser state\<close>

record options =
  max_nested_structures :: u32
  max_br_table_elements :: u32
  max_memory_offset :: u32
  enable_simd :: bool
  enable_sign_ext :: bool
  enable_nontrapping_fptoint :: bool

definition default_options :: options where
  "default_options =
     \<lparr>max_nested_structures = 0xFFFFFFFF, max_br_table_elements = 0xFFFFFFFF, max_memory_offset = 0xFFFFFFFF,
      enable_simd = True, enable_sign_ext = True, enable_nontrapping_fptoint = True\<rparr>"

datatype relocations_t = Label nat | Branches "branch_t list"

record pc_element_t =
  pe_depth :: u32
  expected_result :: u8
  label_result :: u8
  is_if :: bool
  is_loop :: bool
  gas_handle :: nat
  relocations :: relocations_t
  expected_results :: "u8 list"
  label_results :: "u8 list"
  block_params :: "u8 list"

record parse_ctx =
  pmod :: module
  opts :: options
  pft :: func_type
  plocals :: local_types_t

record parse_state =
  op_stack :: tracker
  pc_stack :: "pc_element_t list"
  wr :: writer
  inj :: gas_injection_state

definition func_scope :: "func_type \<Rightarrow> pc_element_t" where
  "func_scope ft =
     (let r = (if return_count ft \<noteq> 0 then return_type ft else ty_pseudo);
          rs = (if return_count ft > 1 then return_types ft else [])
      in \<lparr>pe_depth = 0, expected_result = r, label_result = r, is_if = False, is_loop = False, gas_handle = 0,
          relocations = Branches [], expected_results = rs, label_results = rs, block_params = []\<rparr>)"

definition check_in_bounds :: "parse_state \<Rightarrow> 'a res \<Rightarrow> 'a res" where
  "check_in_bounds st k = assertR (pc_stack st \<noteq> []) (parse_err ''code after function end'') k"

definition on_tracker :: "(tracker \<Rightarrow> tracker res) \<Rightarrow> parse_state \<Rightarrow> parse_state res" where
  "on_tracker f st = bindR (f (op_stack st)) (\<lambda>t. Inr (st\<lparr>op_stack := t\<rparr>))"

definition on_writer :: "(writer \<Rightarrow> writer res) \<Rightarrow> parse_state \<Rightarrow> parse_state res" where
  "on_writer f st = bindR (f (wr st)) (\<lambda>w. Inr (st\<lparr>wr := w\<rparr>))"

definition handle_branch_target :: "u32 \<Rightarrow> branch_t \<Rightarrow> parse_state \<Rightarrow> parse_state res" where
  "handle_branch_target label address st =
     assertR (unat label < length (pc_stack st)) (parse_err ''invalid label'')
       (let tgt = pc_stack st ! unat label in
        case relocations tgt of
          Label target \<Rightarrow> Inr (st\<lparr>wr := fix_branch address target (wr st)\<rparr>)
        | Branches bs \<Rightarrow>
            Inr (st\<lparr>pc_stack := (pc_stack st)[unat label := tgt\<lparr>relocations := Branches (bs @ [address])\<rparr>]\<rparr>))"

text \<open>The number of results a branch to the label carries.\<close>

definition label_arity :: "pc_element_t \<Rightarrow> nat" where
  "label_arity e =
     (if label_results e \<noteq> [] then length (label_results e) else if label_result e \<noteq> ty_pseudo then 1 else 0)"

text \<open>
  The first component of the source's tuple and the last; the result type between them is used by
  other writers only.
\<close>

definition compute_depth_change :: "u32 \<Rightarrow> parse_state \<Rightarrow> (parse_state \<times> u32 \<times> u32) res" where
  "compute_depth_change label st =
     assertR (unat label < length (pc_stack st)) (parse_err ''invalid label'')
       (let tgt = pc_stack st ! unat label;
            result = operand_depth (op_stack st) - pe_depth tgt
        in if label_results tgt \<noteq> [] then
             bindR (on_tracker (tr_pops (label_results tgt)) st) (\<lambda>st1.
             bindR (on_tracker (tr_pushes (label_results tgt)) st1) (\<lambda>st2.
               Inr (st2, result, of_nat (length (label_results tgt)))))
           else if label_result tgt \<noteq> ty_pseudo then
             bindR (on_tracker (tr_top (label_result tgt)) st) (\<lambda>st1. Inr (st1, result, 1))
           else Inr (st, result, 0))"

fun fix_branches :: "branch_t list \<Rightarrow> nat \<Rightarrow> writer \<Rightarrow> writer" where
  "fix_branches [] target w = w"
| "fix_branches (b # bs) target w = fix_branches bs target (fix_branch b target w)"

fun reloc_branches :: "relocations_t \<Rightarrow> branch_t list" where
  "reloc_branches (Branches bs) = bs"
| "reloc_branches (Label _) = []"

text \<open>
  The part \<open>else\<close> and an \<open>if\<close> with parameters and no \<open>else\<close> share: the operands are checked against
  the results, the scope restarts with the parameters, and the branch of the \<open>if\<close> is replaced by the
  one of a new \<open>else_t\<close>.
\<close>

definition start_else :: "pc_element_t \<Rightarrow> pc_element_t list \<Rightarrow> parse_state \<Rightarrow> parse_state res" where
  "start_else e rest st =
     bindR (if expected_results e \<noteq> [] then tr_pops (expected_results e) (op_stack st)
            else tr_pop (expected_result e) (op_stack st)) (\<lambda>t1.
     bindR (pop_scope ty_pseudo t1) (\<lambda>t2.
     bindR (tr_pushes (block_params e) (push_scope t2)) (\<lambda>t3.
     case relocations e of
       Branches (if_loc # bs) \<Rightarrow>
         bindR (emit_else if_loc (wr st)) (\<lambda>(w, b).
           Inr (st\<lparr>op_stack := t3, wr := w,
                   pc_stack := e\<lparr>relocations := Branches (b # bs), is_if := False\<rparr> # rest\<rparr>))
     | _ \<Rightarrow> Inl (Undefined ''relocations of an if''))))"

definition if_without_else :: "pc_element_t \<Rightarrow> pc_element_t list \<Rightarrow> parse_state \<Rightarrow> parse_state res" where
  "if_without_else e rest st =
     bindR (if block_params e \<noteq> [] \<or> expected_results e \<noteq> []
            then assertR (block_params e = expected_results e)
                   (parse_err ''type mismatch: if without else requires matching params and results'') (Inr ())
            else assertR (expected_result e = ty_pseudo)
                   (parse_err ''type mismatch: if without else cannot have a return value'') (Inr ()))
       (\<lambda>_. if block_params e \<noteq> [] then start_else e rest st else Inr st)"

definition close_loop :: "pc_element_t \<Rightarrow> parse_state \<Rightarrow> parse_state" where
  "close_loop e st =
     (if is_loop e
      then let (g, loop_extra) = on_loop_exit (inj st)
           in st\<lparr>inj := g, wr := patch_gas_imm_add_extra (gas_handle e) loop_extra (wr st)\<rparr>
      else st)"

definition close_scope :: "parse_state \<Rightarrow> parse_state res" where
  "close_scope st =
     (case pc_stack st of
        [] \<Rightarrow> Inl (parse_err ''unexpected end instruction'')
      | e # rest \<Rightarrow>
          bindR (if expected_results e \<noteq> [] then pop_scope_multi (expected_results e) (op_stack st)
                 else pop_scope (expected_result e) (op_stack st)) (\<lambda>t.
            Inr (st\<lparr>op_stack := t, pc_stack := rest,
                    wr := fix_branches (reloc_branches (relocations e)) (emit_end (wr st)) (wr st)\<rparr>)))"

definition exit_scope :: "parse_state \<Rightarrow> parse_state res" where
  "exit_scope st =
     (case pc_stack st of
        [] \<Rightarrow> Inl (parse_err ''unexpected end instruction'')
      | e # rest \<Rightarrow>
          (let st1 = close_loop e st in
           bindR (if is_if e then if_without_else e rest st1 else Inr st1) close_scope))"

subsection \<open>Control instructions\<close>

text \<open>The block type of \<open>block\<close>, \<open>loop\<close> and \<open>if\<close>: the single result type, the parameters and the results.\<close>

definition is_block_byte :: "u8 \<Rightarrow> bool" where
  "is_block_byte b \<longleftrightarrow>
     b \<in> {ty_pseudo, ty_i32, ty_i64, ty_f32, ty_f64, ty_v128, ty_funcref, ty_externref, ty_exnref}"

definition parse_block_type :: "parse_ctx \<Rightarrow> string \<Rightarrow> gptr \<Rightarrow> ((u8 \<times> u8 list \<times> u8 list) \<times> gptr) res" where
  "parse_block_type C msg code =
     bindR (gp_deref code) (\<lambda>first_byte.
     if is_block_byte first_byte then
       bindR (gp_incr code) (\<lambda>code1.
         assertR (first_byte \<noteq> ty_v128 \<or> enable_simd (opts C)) (parse_err msg)
           (Inr ((first_byte, [], []), code1)))
     else if first_byte = 0x63 \<or> first_byte = 0x64 then
       bindR (gp_incr code) (\<lambda>code1.
       bindR (read_byte code1) (\<lambda>(heap, code2).
       bindR (if heap \<ge> 0x80 then skip_leb code2 else Inr code2) (\<lambda>code3.
         Inr ((if heap = ty_externref then ty_externref else ty_funcref, [], []), code3))))
     else
       bindR (parse_varint32 code) (\<lambda>(type_idx, code1).
       assertR (0 \<le> sint type_idx \<and> unat type_idx < length (types (pmod C)))
         (parse_err ''invalid block type index'')
         (let ft = types (pmod C) ! unat type_idx
          in Inr ((if return_count ft \<noteq> 0 then return_type ft else ty_pseudo, param_types ft, return_types ft),
                  code1))))"

definition op_unreachable :: "parse_state \<Rightarrow> parse_state res" where
  "op_unreachable st =
     check_in_bounds st
       (bindR (on_writer (append_instr unreachable_t) st) (\<lambda>st1.
          Inr (st1\<lparr>op_stack := start_unreachable (op_stack st1)\<rparr>)))"

definition op_nop :: "parse_state \<Rightarrow> parse_state res" where
  "op_nop = on_writer (append_instr nop_t)"

definition op_end :: "nat \<Rightarrow> gptr \<Rightarrow> parse_state \<Rightarrow> parse_state res" where
  "op_end bounds code st =
     check_in_bounds st
       (bindR (exit_scope st) (\<lambda>st1.
          assertR (pc_stack st1 \<noteq> [] \<or> gp_offset code = bounds) (parse_err ''function too short'') (Inr st1)))"

definition op_return :: "parse_state \<Rightarrow> parse_state res" where
  "op_return st =
     check_in_bounds st
       (let label = of_nat (length (pc_stack st) - 1) in
        bindR (compute_depth_change label st) (\<lambda>(st1, depth_change, rc).
        bindR (emit_return depth_change rc (wr st1)) (\<lambda>(w, branch).
        bindR (handle_branch_target label branch (st1\<lparr>wr := w\<rparr>)) (\<lambda>st2.
          Inr (st2\<lparr>op_stack := start_unreachable (op_stack st2)\<rparr>)))))"

definition block_element :: "u8 \<Rightarrow> u8 list \<Rightarrow> u8 list \<Rightarrow> u32 \<Rightarrow> pc_element_t" where
  "block_element single_type bp br d =
     \<lparr>pe_depth = d, expected_result = single_type, label_result = single_type, is_if = False, is_loop = False,
      gas_handle = 0, relocations = Branches [], expected_results = br, label_results = br, block_params = bp\<rparr>"

definition op_block :: "parse_ctx \<Rightarrow> gptr \<Rightarrow> parse_state \<Rightarrow> (gptr \<times> parse_state) res" where
  "op_block C code st =
     bindR (parse_block_type C ''Invalid type code in block'' code) (\<lambda>((single_type, bp, br), code1).
     bindR (tr_pops bp (op_stack st)) (\<lambda>t1.
     bindR (tr_pushes bp (push_scope t1)) (\<lambda>t2.
       Inr (code1, st\<lparr>op_stack := t2,
                      pc_stack := block_element single_type bp br (operand_depth t1) # pc_stack st\<rparr>))))"

definition op_loop :: "parse_ctx \<Rightarrow> gptr \<Rightarrow> parse_state \<Rightarrow> (gptr \<times> parse_state) res" where
  "op_loop C code st =
     bindR (parse_block_type C ''Invalid type code in loop'' code) (\<lambda>((single_type, bp, br), code1).
     bindR (tr_pops bp (op_stack st)) (\<lambda>t1.
     bindR (emit_loop (wr st)) (\<lambda>(w, pos).
     bindR (tr_pushes bp (push_scope t1)) (\<lambda>t2.
       Inr (code1, st\<lparr>op_stack := t2, wr := w, inj := on_loop_enter (inj st),
                      pc_stack := (block_element single_type bp br (operand_depth t1))
                        \<lparr>label_result := ty_pseudo, is_loop := True, gas_handle := pos,
                         relocations := Label pos, label_results := bp\<rparr> # pc_stack st\<rparr>)))))"

definition op_if :: "parse_ctx \<Rightarrow> gptr \<Rightarrow> parse_state \<Rightarrow> (gptr \<times> parse_state) res" where
  "op_if C code st =
     check_in_bounds st
      (bindR (parse_block_type C ''Invalid type code in if'' code) (\<lambda>((single_type, bp, br), code1).
       bindR (emit_if (wr st)) (\<lambda>(w, branch).
       bindR (tr_pop ty_i32 (op_stack st)) (\<lambda>t0.
       bindR (tr_pops bp t0) (\<lambda>t1.
       bindR (tr_pushes bp (push_scope t1)) (\<lambda>t2.
         Inr (code1, st\<lparr>op_stack := t2, wr := w,
                        pc_stack := (block_element single_type bp br (operand_depth t1))
                          \<lparr>is_if := True, relocations := Branches [branch]\<rparr> # pc_stack st\<rparr>)))))))"

definition op_else :: "parse_state \<Rightarrow> parse_state res" where
  "op_else st =
     check_in_bounds st
       (case pc_stack st of
          [] \<Rightarrow> Inl (parse_err ''code after function end'')
        | e # rest \<Rightarrow> assertR (is_if e) (parse_err ''else outside if'') (start_else e rest st))"

definition op_br :: "gptr \<Rightarrow> parse_state \<Rightarrow> (gptr \<times> parse_state) res" where
  "op_br code st =
     check_in_bounds st
      (bindR (parse_varuint32 code) (\<lambda>(label, code1).
       bindR (compute_depth_change label st) (\<lambda>(st1, depth_change, rc).
       bindR (emit_br depth_change rc (wr st1)) (\<lambda>(w, branch).
       bindR (handle_branch_target label branch (st1\<lparr>wr := w\<rparr>)) (\<lambda>st2.
         Inr (code1, st2\<lparr>op_stack := start_unreachable (op_stack st2)\<rparr>))))))"

definition op_br_if :: "gptr \<Rightarrow> parse_state \<Rightarrow> (gptr \<times> parse_state) res" where
  "op_br_if code st =
     check_in_bounds st
      (bindR (parse_varuint32 code) (\<lambda>(label, code1).
       bindR (on_tracker (tr_pop ty_i32) st) (\<lambda>st0.
       bindR (compute_depth_change label st0) (\<lambda>(st1, depth_change, rc).
       bindR (emit_br_if depth_change rc 0 (wr st1)) (\<lambda>(w, branch).
       bindR (handle_branch_target label branch (st1\<lparr>wr := w\<rparr>)) (\<lambda>st2.
         Inr (code1, st2)))))))"

fun parse_labels :: "nat \<Rightarrow> gptr \<Rightarrow> (u32 list \<times> gptr) res" where
  "parse_labels 0 code = Inr ([], code)"
| "parse_labels (Suc n) code =
     bindR (parse_varuint32 code) (\<lambda>(l, code1).
     bindR (parse_labels n code1) (\<lambda>(ls, code2). Inr (l # ls, code2)))"

fun check_labels :: "bool \<Rightarrow> pc_element_t \<Rightarrow> u32 list \<Rightarrow> pc_element_t list \<Rightarrow> unit res" where
  "check_labels polymorphic def_tgt [] pcs = Inr ()"
| "check_labels polymorphic def_tgt (label # ls) pcs =
     assertR (unat label < length pcs) (parse_err ''invalid label'')
     (assertR (label_arity (pcs ! unat label) = label_arity def_tgt)
        (parse_err ''br_table labels must have the same arity'')
     (assertR (polymorphic \<or> label_result (pcs ! unat label) = label_result def_tgt)
        (parse_err ''br_table labels must have the same type'')
        (check_labels polymorphic def_tgt ls pcs)))"

fun emit_cases :: "nat \<Rightarrow> u32 list \<Rightarrow> parse_state \<Rightarrow> parse_state res" where
  "emit_cases tab [] st = Inr st"
| "emit_cases tab (label # ls) st =
     (let tgt = pc_stack st ! unat label;
          result = operand_depth (op_stack st) - pe_depth tgt
      in bindR (emit_case tab result (of_nat (label_arity tgt)) 0 (wr st)) (\<lambda>(w, branch).
         bindR (handle_branch_target label branch (st\<lparr>wr := w\<rparr>)) (emit_cases tab ls)))"

definition op_br_table :: "parse_ctx \<Rightarrow> gptr \<Rightarrow> parse_state \<Rightarrow> (gptr \<times> parse_state) res" where
  "op_br_table C code st =
     check_in_bounds st
      (bindR (parse_varuint32 code) (\<lambda>(table_size, code1).
       assertR (table_size \<le> max_br_table_elements (opts C)) (parse_err ''Too many labels in br_table'')
      (bindR (on_tracker (tr_pop ty_i32) st) (\<lambda>st0.
       let polymorphic = is_polymorphic (op_stack st0) in
       bindR (emit_br_table table_size (wr st0)) (\<lambda>(w, tab).
       bindR (parse_labels (unat table_size) code1) (\<lambda>(case_labels, code2).
       bindR (parse_varuint32 code2) (\<lambda>(default_label, code3).
       assertR (unat default_label < length (pc_stack st0)) (parse_err ''invalid label'')
      (bindR (check_labels polymorphic (pc_stack st0 ! unat default_label) case_labels (pc_stack st0)) (\<lambda>_.
       bindR (emit_cases tab case_labels (st0\<lparr>wr := w\<rparr>)) (\<lambda>st1.
       bindR (compute_depth_change default_label st1) (\<lambda>(st2, def_depth, def_rc).
       bindR (emit_default tab def_depth def_rc 0 (wr st2)) (\<lambda>(w3, branch).
       bindR (handle_branch_target default_label branch (st2\<lparr>wr := w3\<rparr>)) (\<lambda>st3.
         Inr (code3, st3\<lparr>op_stack := start_unreachable (op_stack st3)\<rparr>))))))))))))))"

definition op_call :: "parse_ctx \<Rightarrow> gptr \<Rightarrow> parse_state \<Rightarrow> (gptr \<times> parse_state) res" where
  "op_call C code st =
     check_in_bounds st
      (bindR (parse_varuint32 code) (\<lambda>(funcnum, code1).
       assertR (unat funcnum < get_functions_total (pmod C)) (parse_err ''call function index out of range'')
      (bindR (get_function_type (pmod C) (unat funcnum)) (\<lambda>ft.
       bindR (on_tracker (tr_pops (param_types ft)) st) (\<lambda>st1.
       bindR (on_tracker (tr_pushes (return_types ft)) st1) (\<lambda>st2.
       bindR (on_writer (emit_call funcnum) st2) (\<lambda>st3. Inr (code1, st3))))))))"

text \<open>\<open>type_aliases\<close>: the first type with the same signature.\<close>

definition normal_type :: "module \<Rightarrow> nat \<Rightarrow> nat" where
  "normal_type m i = hd (filter (\<lambda>j. types m ! j = types m ! i) [0..<length (types m)])"

definition op_call_indirect :: "parse_ctx \<Rightarrow> gptr \<Rightarrow> parse_state \<Rightarrow> (gptr \<times> parse_state) res" where
  "op_call_indirect C code st =
     check_in_bounds st
      (bindR (parse_varuint32 code) (\<lambda>(functypeidx, code1).
       assertR (unat functypeidx < length (types (pmod C))) (parse_err ''call_indirect type index out of range'')
      (let ft = types (pmod C) ! unat functypeidx in
       assertR (tables (pmod C) \<noteq> []) (parse_err ''call_indirect requires a table'')
      (bindR (on_tracker (tr_pop ty_i32) st) (\<lambda>st0.
       bindR (on_tracker (tr_pops (param_types ft)) st0) (\<lambda>st1.
       bindR (on_tracker (tr_pushes (return_types ft)) st1) (\<lambda>st2.
       bindR (parse_varuint32 code1) (\<lambda>(table_idx, code2).
       assertR (unat table_idx < length (tables (pmod C))) (parse_err ''call_indirect table index out of range'')
      (assertR (tables (pmod C) ! unat table_idx = ty_funcref) (parse_err ''call_indirect requires funcref table'')
      (bindR (on_writer (emit_call_indirect (of_nat (normal_type (pmod C) (unat functypeidx))) table_idx) st2)
         (\<lambda>st3. Inr (code2, st3))))))))))))"

subsection \<open>Other instructions\<close>

definition op_drop :: "parse_state \<Rightarrow> parse_state res" where
  "op_drop st =
     check_in_bounds st
      (bindR (tr_pop_any (op_stack st)) (\<lambda>(t, _). on_writer (append_instr drop_t) (st\<lparr>op_stack := t\<rparr>)))"

definition op_select :: "parse_state \<Rightarrow> parse_state res" where
  "op_select st =
     check_in_bounds st
      (bindR (tr_pop ty_i32 (op_stack st)) (\<lambda>s0.
       bindR (tr_pop_any s0) (\<lambda>(s1, t0).
       bindR (tr_pop_any s1) (\<lambda>(s2, t1).
       assertR (t0 = t1 \<or> t0 = any_type \<or> t1 = any_type) (parse_err ''incorrect types for select'')
      (let resolved = (if t0 \<noteq> any_type then t0 else t1) in
       assertR (resolved \<in> {any_type, ty_i32, ty_i64, ty_f32, ty_f64, ty_v128}) (parse_err ''type mismatch'')
      (bindR (tr_push resolved s2) (\<lambda>s3. on_writer (append_instr select_t) (st\<lparr>op_stack := s3\<rparr>))))))))"

definition op_typed_select :: "gptr \<Rightarrow> parse_state \<Rightarrow> (gptr \<times> parse_state) res" where
  "op_typed_select code st =
     check_in_bounds st
      (bindR (parse_varuint32 code) (\<lambda>(vec_len, code1).
       assertR (vec_len = 1) (parse_err ''select t* must have exactly one type'')
      (bindR (read_byte code1) (\<lambda>(valtype, code2).
       bindR (tr_pop ty_i32 (op_stack st)) (\<lambda>s0.
       bindR (tr_pop valtype s0) (\<lambda>s1.
       bindR (tr_pop valtype s1) (\<lambda>s2.
       bindR (tr_push valtype s2) (\<lambda>s3.
       bindR (on_writer (append_instr select_t) (st\<lparr>op_stack := s3\<rparr>)) (\<lambda>st1. Inr (code2, st1))))))))))"

definition op_get_local :: "parse_ctx \<Rightarrow> gptr \<Rightarrow> parse_state \<Rightarrow> (gptr \<times> parse_state) res" where
  "op_get_local C code st =
     bindR (parse_varuint32 code) (\<lambda>(local_idx, code1).
     bindR (type_of_local (plocals C) local_idx) (\<lambda>t.
     bindR (on_tracker (tr_push t) st) (\<lambda>st1.
     bindR (on_writer (append_instr (get_local_t local_idx)) st1) (\<lambda>st2. Inr (code1, st2)))))"

definition op_set_local :: "parse_ctx \<Rightarrow> gptr \<Rightarrow> parse_state \<Rightarrow> (gptr \<times> parse_state) res" where
  "op_set_local C code st =
     check_in_bounds st
      (bindR (parse_varuint32 code) (\<lambda>(local_idx, code1).
       bindR (type_of_local (plocals C) local_idx) (\<lambda>t.
       bindR (on_tracker (tr_pop t) st) (\<lambda>st1.
       bindR (on_writer (append_instr (set_local_t local_idx)) st1) (\<lambda>st2. Inr (code1, st2))))))"

definition op_tee_local :: "parse_ctx \<Rightarrow> gptr \<Rightarrow> parse_state \<Rightarrow> (gptr \<times> parse_state) res" where
  "op_tee_local C code st =
     check_in_bounds st
      (bindR (parse_varuint32 code) (\<lambda>(local_idx, code1).
       bindR (type_of_local (plocals C) local_idx) (\<lambda>t.
       bindR (on_tracker (tr_top t) st) (\<lambda>st1.
       bindR (on_writer (append_instr (tee_local_t local_idx)) st1) (\<lambda>st2. Inr (code1, st2))))))"

definition op_get_global :: "parse_ctx \<Rightarrow> gptr \<Rightarrow> parse_state \<Rightarrow> (gptr \<times> parse_state) res" where
  "op_get_global C code st =
     bindR (parse_varuint32 code) (\<lambda>(global_idx, code1).
     assertR (unat global_idx < length (globals (pmod C))) (parse_err ''global index out of range'')
    (bindR (on_tracker (tr_push (content_type (globals (pmod C) ! unat global_idx))) st) (\<lambda>st1.
     bindR (on_writer (append_instr (get_global_t global_idx)) st1) (\<lambda>st2. Inr (code1, st2)))))"

definition op_set_global :: "parse_ctx \<Rightarrow> gptr \<Rightarrow> parse_state \<Rightarrow> (gptr \<times> parse_state) res" where
  "op_set_global C code st =
     check_in_bounds st
      (bindR (parse_varuint32 code) (\<lambda>(global_idx, code1).
       assertR (unat global_idx < length (globals (pmod C))) (parse_err ''global index out of range'')
      (assertR (mutability (globals (pmod C) ! unat global_idx)) (parse_err ''cannot set const global'')
      (bindR (on_tracker (tr_pop (content_type (globals (pmod C) ! unat global_idx))) st) (\<lambda>st1.
       bindR (on_writer (append_instr (set_global_t global_idx)) st1) (\<lambda>st2. Inr (code1, st2)))))))"

definition op_ref_null :: "gptr \<Rightarrow> parse_state \<Rightarrow> (gptr \<times> parse_state) res" where
  "op_ref_null code st =
     check_in_bounds st
      (bindR (read_byte code) (\<lambda>(first, code1).
       bindR (if first = ty_externref then Inr (ty_externref, code1)
              else if first = ty_funcref then Inr (ty_funcref, code1)
              else if first < 0x80 then Inr (ty_funcref, code1)
              else bindR (skip_leb code1) (\<lambda>code2. Inr (ty_funcref, code2))) (\<lambda>(ref_type, code2).
       bindR (on_tracker (tr_push ref_type) st) (\<lambda>st1.
       bindR (on_writer (append_instr (ref_null_t ref_type)) st1) (\<lambda>st2. Inr (code2, st2))))))"

definition op_ref_is_null :: "parse_state \<Rightarrow> parse_state res" where
  "op_ref_is_null st =
     check_in_bounds st
      (bindR (tr_pop_any (op_stack st)) (\<lambda>(s1, ref_type).
       assertR (ref_type \<in> {ty_funcref, ty_externref, any_type})
         (parse_err ''ref.is_null requires reference type'')
      (bindR (tr_push ty_i32 s1) (\<lambda>s2. on_writer (append_instr ref_is_null_t) (st\<lparr>op_stack := s2\<rparr>)))))"

definition op_ref_func :: "parse_ctx \<Rightarrow> gptr \<Rightarrow> parse_state \<Rightarrow> (gptr \<times> parse_state) res" where
  "op_ref_func C code st =
     check_in_bounds st
      (bindR (parse_varuint32 code) (\<lambda>(func_idx, code1).
       assertR (unat func_idx < get_functions_total (pmod C)) (parse_err ''ref.func function index out of range'')
      (bindR (on_tracker (tr_push ty_funcref) st) (\<lambda>st1.
       bindR (on_writer (append_instr (ref_func_t func_idx)) st1) (\<lambda>st2. Inr (code1, st2))))))"

definition op_table_get :: "parse_ctx \<Rightarrow> gptr \<Rightarrow> parse_state \<Rightarrow> (gptr \<times> parse_state) res" where
  "op_table_get C code st =
     check_in_bounds st
      (bindR (parse_varuint32 code) (\<lambda>(table_idx, code1).
       assertR (unat table_idx < length (tables (pmod C))) (parse_err ''table.get table index out of range'')
      (bindR (on_tracker (tr_pop ty_i32) st) (\<lambda>st1.
       bindR (on_tracker (tr_push (tables (pmod C) ! unat table_idx)) st1) (\<lambda>st2.
       bindR (on_writer (append_instr (table_get_t table_idx)) st2) (\<lambda>st3. Inr (code1, st3)))))))"

definition op_table_set :: "parse_ctx \<Rightarrow> gptr \<Rightarrow> parse_state \<Rightarrow> (gptr \<times> parse_state) res" where
  "op_table_set C code st =
     check_in_bounds st
      (bindR (parse_varuint32 code) (\<lambda>(table_idx, code1).
       assertR (unat table_idx < length (tables (pmod C))) (parse_err ''table.set table index out of range'')
      (bindR (on_tracker (tr_pop (tables (pmod C) ! unat table_idx)) st) (\<lambda>st1.
       bindR (on_tracker (tr_pop ty_i32) st1) (\<lambda>st2.
       bindR (on_writer (append_instr (table_set_t table_idx)) st2) (\<lambda>st3. Inr (code1, st3)))))))"

text \<open>The immediate of a memory instruction: alignment and offset.\<close>

definition parse_memarg :: "parse_ctx \<Rightarrow> gptr \<Rightarrow> ((u32 \<times> u32) \<times> gptr) res" where
  "parse_memarg C code =
     bindR (parse_varuint32 code) (\<lambda>(alignment, code1).
     if mem_addr_type (pmod C) = ty_i64 then
       bindR (parse_varuint64 code1) (\<lambda>(off64, code2).
         assertR (off64 \<le> 0xFFFFFFFF) (parse_err ''memory64 offset exceeds implementation limit'')
           (Inr ((alignment, ucast off64), code2)))
     else bindR (parse_varuint32 code1) (\<lambda>(offset, code2). Inr ((alignment, offset), code2)))"

definition op_load :: "parse_ctx \<Rightarrow> loadop \<Rightarrow> gptr \<Rightarrow> parse_state \<Rightarrow> (gptr \<times> parse_state) res" where
  "op_load C l code st =
     check_in_bounds st
      (assertR (memories (pmod C) \<noteq> []) (parse_err ''load requires memory'')
      (bindR (parse_memarg C code) (\<lambda>((alignment, offset), code1).
       assertR (unat alignment \<le> load_max_align l) (parse_err ''alignment cannot be greater than size.'')
      (assertR (offset \<le> max_memory_offset (opts C)) (parse_err ''load offset too large.'')
      (bindR (on_tracker (tr_pop (mem_addr_type (pmod C))) st) (\<lambda>st1.
       bindR (on_tracker (tr_push (load_type l)) st1) (\<lambda>st2.
       bindR (on_writer (append_instr (load_t l alignment offset)) st2) (\<lambda>st3. Inr (code1, st3)))))))))"

definition op_store :: "parse_ctx \<Rightarrow> storeop \<Rightarrow> gptr \<Rightarrow> parse_state \<Rightarrow> (gptr \<times> parse_state) res" where
  "op_store C s code st =
     check_in_bounds st
      (assertR (memories (pmod C) \<noteq> []) (parse_err ''store requires memory'')
      (bindR (parse_memarg C code) (\<lambda>((alignment, offset), code1).
       assertR (unat alignment \<le> store_max_align s) (parse_err ''alignment cannot be greater than size.'')
      (assertR (offset \<le> max_memory_offset (opts C)) (parse_err ''store offset too large.'')
      (bindR (on_tracker (tr_pop (store_type s)) st) (\<lambda>st1.
       bindR (on_tracker (tr_pop (mem_addr_type (pmod C))) st1) (\<lambda>st2.
       bindR (on_writer (append_instr (store_t s alignment offset)) st2) (\<lambda>st3. Inr (code1, st3)))))))))"

definition op_current_memory :: "parse_ctx \<Rightarrow> gptr \<Rightarrow> parse_state \<Rightarrow> (gptr \<times> parse_state) res" where
  "op_current_memory C code st =
     assertR (memories (pmod C) \<noteq> []) (parse_err ''memory.size requires memory'')
    (bindR (on_tracker (tr_push (mem_addr_type (pmod C))) st) (\<lambda>st1.
     bindR (gp_deref code) (\<lambda>b.
     assertR (b = 0) (parse_err ''memory.size must end with 0x00'')
    (bindR (gp_incr code) (\<lambda>code1.
     bindR (on_writer (append_instr current_memory_t) st1) (\<lambda>st2. Inr (code1, st2)))))))"

definition op_grow_memory :: "parse_ctx \<Rightarrow> gptr \<Rightarrow> parse_state \<Rightarrow> (gptr \<times> parse_state) res" where
  "op_grow_memory C code st =
     check_in_bounds st
    (assertR (memories (pmod C) \<noteq> []) (parse_err ''memory.grow requires memory'')
    (bindR (on_tracker (tr_pop (mem_addr_type (pmod C))) st) (\<lambda>st0.
     bindR (on_tracker (tr_push (mem_addr_type (pmod C))) st0) (\<lambda>st1.
     bindR (gp_deref code) (\<lambda>b.
     assertR (b = 0) (parse_err ''memory.grow must end with 0x00'')
    (bindR (gp_incr code) (\<lambda>code1.
     bindR (on_writer (append_instr grow_memory_t) st1) (\<lambda>st2. Inr (code1, st2)))))))))"

definition emit_const :: "stack_elem \<Rightarrow> parse_state \<Rightarrow> parse_state res" where
  "emit_const v st =
     bindR (on_writer (append_instr (const_t v)) st) (on_tracker (tr_push (elem_ty v)))"

definition op_const :: "u8 \<Rightarrow> gptr \<Rightarrow> parse_state \<Rightarrow> (gptr \<times> parse_state) res" where
  "op_const b code st =
     bindR (if b = 0x41 then bindR (parse_varint32 code) (\<lambda>(v, c). Inr (i32_const v, c))
            else if b = 0x42 then bindR (parse_varint64 code) (\<lambda>(v, c). Inr (i64_const v, c))
            else if b = 0x43 then bindR (parse_raw 4 code) (\<lambda>(v, c). Inr (f32_const v, c))
            else bindR (parse_raw 8 code) (\<lambda>(v, c). Inr (f64_const v, c))) (\<lambda>(v, code1).
     bindR (emit_const v st) (\<lambda>st1. Inr (code1, st1)))"

text \<open>The instruction first, then its operands: one or two pops of \<open>A\<close> and a push of \<open>R\<close>.\<close>

definition op_num :: "numop \<Rightarrow> parse_state \<Rightarrow> parse_state res" where
  "op_num n st =
     check_in_bounds st
      (bindR (on_writer (append_instr (num_t n)) st) (\<lambda>st1.
       bindR (on_tracker (tr_pop (num_arg n)) st1) (\<lambda>st2.
       bindR (if num_binary n then on_tracker (tr_pop (num_arg n)) st2 else Inr st2)
         (on_tracker (tr_push (num_result n))))))"

text \<open>The numeric opcodes in the order of their bytes, from \<open>0x45\<close>, from \<open>0xC0\<close>, and from 0 behind \<open>0xFC\<close>.\<close>

definition numeric_ops :: "numop list" where
  "numeric_ops =
     [I32_un i32_eqz_t, I32_rel i32_eq_t, I32_rel i32_ne_t,
      I32_rel i32_lt_s_t, I32_rel i32_lt_u_t, I32_rel i32_gt_s_t,
      I32_rel i32_gt_u_t, I32_rel i32_le_s_t, I32_rel i32_le_u_t,
      I32_rel i32_ge_s_t, I32_rel i32_ge_u_t, I64_un i64_eqz_t,
      I64_rel i64_eq_t, I64_rel i64_ne_t, I64_rel i64_lt_s_t,
      I64_rel i64_lt_u_t, I64_rel i64_gt_s_t, I64_rel i64_gt_u_t,
      I64_rel i64_le_s_t, I64_rel i64_le_u_t, I64_rel i64_ge_s_t,
      I64_rel i64_ge_u_t, F32_rel f32_eq_t, F32_rel f32_ne_t,
      F32_rel f32_lt_t, F32_rel f32_gt_t, F32_rel f32_le_t,
      F32_rel f32_ge_t, F64_rel f64_eq_t, F64_rel f64_ne_t,
      F64_rel f64_lt_t, F64_rel f64_gt_t, F64_rel f64_le_t,
      F64_rel f64_ge_t, I32_un i32_clz_t, I32_un i32_ctz_t,
      I32_un i32_popcnt_t, I32_bin i32_add_t, I32_bin i32_sub_t,
      I32_bin i32_mul_t, I32_bin i32_div_s_t, I32_bin i32_div_u_t,
      I32_bin i32_rem_s_t, I32_bin i32_rem_u_t, I32_bin i32_and_t,
      I32_bin i32_or_t, I32_bin i32_xor_t, I32_bin i32_shl_t,
      I32_bin i32_shr_s_t, I32_bin i32_shr_u_t, I32_bin i32_rotl_t,
      I32_bin i32_rotr_t, I64_un i64_clz_t, I64_un i64_ctz_t,
      I64_un i64_popcnt_t, I64_bin i64_add_t, I64_bin i64_sub_t,
      I64_bin i64_mul_t, I64_bin i64_div_s_t, I64_bin i64_div_u_t,
      I64_bin i64_rem_s_t, I64_bin i64_rem_u_t, I64_bin i64_and_t,
      I64_bin i64_or_t, I64_bin i64_xor_t, I64_bin i64_shl_t,
      I64_bin i64_shr_s_t, I64_bin i64_shr_u_t, I64_bin i64_rotl_t,
      I64_bin i64_rotr_t, F32_un f32_abs_t, F32_un f32_neg_t,
      F32_un f32_ceil_t, F32_un f32_floor_t, F32_un f32_trunc_t,
      F32_un f32_nearest_t, F32_un f32_sqrt_t, F32_bin f32_add_t,
      F32_bin f32_sub_t, F32_bin f32_mul_t, F32_bin f32_div_t,
      F32_bin f32_min_t, F32_bin f32_max_t, F32_bin f32_copysign_t,
      F64_un f64_abs_t, F64_un f64_neg_t, F64_un f64_ceil_t,
      F64_un f64_floor_t, F64_un f64_trunc_t, F64_un f64_nearest_t,
      F64_un f64_sqrt_t, F64_bin f64_add_t, F64_bin f64_sub_t,
      F64_bin f64_mul_t, F64_bin f64_div_t, F64_bin f64_min_t,
      F64_bin f64_max_t, F64_bin f64_copysign_t, Cvt i32_wrap_i64_t,
      Cvt i32_trunc_s_f32_t, Cvt i32_trunc_u_f32_t, Cvt i32_trunc_s_f64_t,
      Cvt i32_trunc_u_f64_t, Cvt i64_extend_s_i32_t, Cvt i64_extend_u_i32_t,
      Cvt i64_trunc_s_f32_t, Cvt i64_trunc_u_f32_t, Cvt i64_trunc_s_f64_t,
      Cvt i64_trunc_u_f64_t, Cvt f32_convert_s_i32_t, Cvt f32_convert_u_i32_t,
      Cvt f32_convert_s_i64_t, Cvt f32_convert_u_i64_t, Cvt f32_demote_f64_t,
      Cvt f64_convert_s_i32_t, Cvt f64_convert_u_i32_t, Cvt f64_convert_s_i64_t,
      Cvt f64_convert_u_i64_t, Cvt f64_promote_f32_t, Cvt i32_reinterpret_f32_t,
      Cvt i64_reinterpret_f64_t, Cvt f32_reinterpret_i32_t, Cvt f64_reinterpret_i64_t]"

definition extend_ops :: "numop list" where
  "extend_ops =
     [I32_un i32_extend8_s_t, I32_un i32_extend16_s_t, I64_un i64_extend8_s_t,
      I64_un i64_extend16_s_t, I64_un i64_extend32_s_t]"

definition trunc_sat_ops :: "numop list" where
  "trunc_sat_ops =
     [Cvt i32_trunc_sat_f32_s_t, Cvt i32_trunc_sat_f32_u_t, Cvt i32_trunc_sat_f64_s_t,
      Cvt i32_trunc_sat_f64_u_t, Cvt i64_trunc_sat_f32_s_t, Cvt i64_trunc_sat_f32_u_t,
      Cvt i64_trunc_sat_f64_s_t, Cvt i64_trunc_sat_f64_u_t]"

text \<open>The memory opcodes from \<open>0x28\<close> and from \<open>0x36\<close>.\<close>

definition load_ops :: "loadop list" where
  "load_ops =
     [i32_load_t, i64_load_t, f32_load_t, f64_load_t, i32_load8_s_t, i32_load8_u_t,
      i32_load16_s_t, i32_load16_u_t, i64_load8_s_t, i64_load8_u_t, i64_load16_s_t, i64_load16_u_t,
      i64_load32_s_t, i64_load32_u_t]"

definition store_ops :: "storeop list" where
  "store_ops =
     [i32_store_t, i64_store_t, f32_store_t, f64_store_t, i32_store8_t, i32_store16_t,
      i64_store8_t, i64_store16_t, i64_store32_t]"

definition op_extend :: "parse_ctx \<Rightarrow> numop \<Rightarrow> parse_state \<Rightarrow> parse_state res" where
  "op_extend C n st =
     check_in_bounds st
      (assertR (enable_sign_ext (opts C)) (parse_err ''Sign-extension operators not enabled'') (op_num n st))"

definition op_trunc_sat :: "parse_ctx \<Rightarrow> numop \<Rightarrow> parse_state \<Rightarrow> parse_state res" where
  "op_trunc_sat C n st =
     check_in_bounds st
      (assertR (enable_nontrapping_fptoint (opts C))
         (parse_err ''Non-trapping float-to-int conversions not enabled'')
      (bindR (on_tracker (tr_pop (num_arg n)) st) (\<lambda>st1.
       bindR (on_tracker (tr_push (num_result n)) st1) (on_writer (append_instr (num_t n))))))"

definition not_modelled :: exn where
  "not_modelled = parse_err ''opcode outside the modelled instructions''"

definition op_ext :: "parse_ctx \<Rightarrow> gptr \<Rightarrow> parse_state \<Rightarrow> (gptr \<times> parse_state) res" where
  "op_ext C code st =
     bindR (parse_varuint32 code) (\<lambda>(sub, code1).
     if unat sub < length trunc_sat_ops
     then bindR (op_trunc_sat C (trunc_sat_ops ! unat sub) st) (\<lambda>st1. Inr (code1, st1))
     else Inl not_modelled)"

subsection \<open>The loop\<close>

text \<open>An instruction without immediates leaves the pointer where it is.\<close>

definition keep_code :: "gptr \<Rightarrow> parse_state res \<Rightarrow> (gptr \<times> parse_state) res" where
  "keep_code code r = bindR r (\<lambda>st. Inr (code, st))"

definition dispatch :: "parse_ctx \<Rightarrow> nat \<Rightarrow> u8 \<Rightarrow> gptr \<Rightarrow> parse_state \<Rightarrow> (gptr \<times> parse_state) res" where
  "dispatch C bounds b code st =
     (if b = 0x00 then keep_code code (op_unreachable st)
      else if b = 0x01 then keep_code code (op_nop st)
      else if b = 0x02 then op_block C code st
      else if b = 0x03 then op_loop C code st
      else if b = 0x04 then op_if C code st
      else if b = 0x05 then keep_code code (op_else st)
      else if b = 0x0B then keep_code code (op_end bounds code st)
      else if b = 0x0C then op_br code st
      else if b = 0x0D then op_br_if code st
      else if b = 0x0E then op_br_table C code st
      else if b = 0x0F then keep_code code (op_return st)
      else if b = 0x10 then op_call C code st
      else if b = 0x11 then op_call_indirect C code st
      else if b = 0x1A then keep_code code (op_drop st)
      else if b = 0x1B then keep_code code (op_select st)
      else if b = 0x1C then op_typed_select code st
      else if b = 0x20 then op_get_local C code st
      else if b = 0x21 then op_set_local C code st
      else if b = 0x22 then op_tee_local C code st
      else if b = 0x23 then op_get_global C code st
      else if b = 0x24 then op_set_global C code st
      else if b = 0x25 then op_table_get C code st
      else if b = 0x26 then op_table_set C code st
      else if 0x28 \<le> b \<and> b \<le> 0x35 then op_load C (load_ops ! (unat b - 0x28)) code st
      else if 0x36 \<le> b \<and> b \<le> 0x3E then op_store C (store_ops ! (unat b - 0x36)) code st
      else if b = 0x3F then op_current_memory C code st
      else if b = 0x40 then op_grow_memory C code st
      else if 0x41 \<le> b \<and> b \<le> 0x44 then op_const b code st
      else if 0x45 \<le> b \<and> b \<le> 0xBF then keep_code code (op_num (numeric_ops ! (unat b - 0x45)) st)
      else if 0xC0 \<le> b \<and> b \<le> 0xC4 then keep_code code (op_extend C (extend_ops ! (unat b - 0xC0)) st)
      else if b = 0xD0 then op_ref_null code st
      else if b = 0xD1 then keep_code code (op_ref_is_null st)
      else if b = 0xD2 then op_ref_func C code st
      else if b = 0xFC then op_ext C code st
      else Inl not_modelled)"

definition parse_instr :: "parse_ctx \<Rightarrow> nat \<Rightarrow> gptr \<Rightarrow> parse_state \<Rightarrow> (gptr \<times> parse_state) res" where
  "parse_instr C bounds code st =
     assertR (length (pc_stack st) \<le> unat (max_nested_structures (opts C)))
       (parse_err ''nested structures validation failure'')
       (bindR (read_byte code) (\<lambda>(b, code1).
          dispatch C bounds b code1 (st\<lparr>inj := on_opcode b (inj st)\<rparr>)))"

text \<open>Every reader moves the pointer forward.\<close>

named_theorems forward \<open>readers do not move the pointer back\<close>

lemma gp_plus_forward: "gp_plus g n = Inr g' \<Longrightarrow> raw_ptr g \<le> raw_ptr g'"
  by (auto simp: gp_plus_def res_simps)

lemma gp_incr_forward [forward]: "gp_incr g = Inr g' \<Longrightarrow> raw_ptr g \<le> raw_ptr g'"
  by (auto simp: gp_incr_def res_simps)

lemma read_byte_forward [forward]: "read_byte g = Inr (b, g') \<Longrightarrow> raw_ptr g \<le> raw_ptr g'"
  by (auto dest: read_byte_ptr)

lemma leb_forward [forward]:
  "parse_varuint32 g = Inr (x, g') \<Longrightarrow> raw_ptr g \<le> raw_ptr g'"
  "parse_varuint64 g = Inr (y, g') \<Longrightarrow> raw_ptr g \<le> raw_ptr g'"
  "parse_varint32 g = Inr (x, g') \<Longrightarrow> raw_ptr g \<le> raw_ptr g'"
  "parse_varint64 g = Inr (y, g') \<Longrightarrow> raw_ptr g \<le> raw_ptr g'"
  by (auto simp: parse_varuint32_def parse_varuint64_def parse_varint32_def parse_varint64_def varuint_from_code_def
      varint_from_code_def res_simps dest: gp_plus_forward)

lemma parse_raw_forward [forward]: "parse_raw n g = Inr (x, g') \<Longrightarrow> raw_ptr g \<le> raw_ptr g'"
  by (auto simp: parse_raw_def gp_shrink_def gp_unshrink_def gp_plus_def res_simps split: if_splits)

lemma skip_leb_forward [forward]: "skip_leb g = Inr g' \<Longrightarrow> raw_ptr g \<le> raw_ptr g'"
proof (induction g arbitrary: g' rule: skip_leb.induct)
  case (1 g)
  from "1.prems" obtain b c where rb: "read_byte g = Inr (b, c)"
    and rest: "(if b AND 0x80 \<noteq> 0 then skip_leb c else Inr c) = Inr g'"
    by (subst (asm) skip_leb.simps) (auto simp: res_simps)
  have "raw_ptr g \<le> raw_ptr c" using rb by (auto dest: read_byte_ptr)
  moreover have "raw_ptr c \<le> raw_ptr g'"
    using rest "1.IH" [OF rb] by (auto split: if_splits)
  ultimately show ?case by simp
qed

lemma parse_labels_forward [forward]: "parse_labels n g = Inr (ls, g') \<Longrightarrow> raw_ptr g \<le> raw_ptr g'"
proof (induction n arbitrary: g ls)
  case (Suc n)
  then show ?case by (fastforce simp: res_simps dest: forward)
qed simp

lemma parse_block_type_forward [forward]: "parse_block_type C m g = Inr (x, g') \<Longrightarrow> raw_ptr g \<le> raw_ptr g'"
  by (fastforce simp: parse_block_type_def res_simps Let_def split: if_splits dest: forward)

lemma parse_memarg_forward [forward]: "parse_memarg C g = Inr (x, g') \<Longrightarrow> raw_ptr g \<le> raw_ptr g'"
  by (fastforce simp: parse_memarg_def res_simps split: if_splits dest: forward)

lemma op_block_forward [forward]: "op_block C code st = Inr (code', st') \<Longrightarrow> raw_ptr code \<le> raw_ptr code'"
  by (fastforce simp: op_block_def check_in_bounds_def res_simps Let_def split: if_splits dest: forward)

lemma op_loop_forward [forward]: "op_loop C code st = Inr (code', st') \<Longrightarrow> raw_ptr code \<le> raw_ptr code'"
  by (fastforce simp: op_loop_def check_in_bounds_def res_simps Let_def split: if_splits dest: forward)

lemma op_if_forward [forward]: "op_if C code st = Inr (code', st') \<Longrightarrow> raw_ptr code \<le> raw_ptr code'"
  by (fastforce simp: op_if_def check_in_bounds_def res_simps Let_def split: if_splits dest: forward)

lemma op_br_forward [forward]: "op_br code st = Inr (code', st') \<Longrightarrow> raw_ptr code \<le> raw_ptr code'"
  by (fastforce simp: op_br_def check_in_bounds_def res_simps Let_def split: if_splits dest: forward)

lemma op_br_if_forward [forward]: "op_br_if code st = Inr (code', st') \<Longrightarrow> raw_ptr code \<le> raw_ptr code'"
  by (fastforce simp: op_br_if_def check_in_bounds_def res_simps Let_def split: if_splits dest: forward)

lemma op_br_table_forward [forward]: "op_br_table C code st = Inr (code', st') \<Longrightarrow> raw_ptr code \<le> raw_ptr code'"
  by (fastforce simp: op_br_table_def check_in_bounds_def res_simps Let_def split: if_splits dest: forward)

lemma op_call_forward [forward]: "op_call C code st = Inr (code', st') \<Longrightarrow> raw_ptr code \<le> raw_ptr code'"
  by (fastforce simp: op_call_def check_in_bounds_def res_simps Let_def split: if_splits dest: forward)

lemma op_call_indirect_forward [forward]: "op_call_indirect C code st = Inr (code', st') \<Longrightarrow> raw_ptr code \<le> raw_ptr code'"
  by (fastforce simp: op_call_indirect_def check_in_bounds_def res_simps Let_def split: if_splits dest: forward)

lemma op_typed_select_forward [forward]: "op_typed_select code st = Inr (code', st') \<Longrightarrow> raw_ptr code \<le> raw_ptr code'"
  by (fastforce simp: op_typed_select_def check_in_bounds_def res_simps Let_def split: if_splits dest: forward)

lemma op_get_local_forward [forward]: "op_get_local C code st = Inr (code', st') \<Longrightarrow> raw_ptr code \<le> raw_ptr code'"
  by (fastforce simp: op_get_local_def check_in_bounds_def res_simps Let_def split: if_splits dest: forward)

lemma op_set_local_forward [forward]: "op_set_local C code st = Inr (code', st') \<Longrightarrow> raw_ptr code \<le> raw_ptr code'"
  by (fastforce simp: op_set_local_def check_in_bounds_def res_simps Let_def split: if_splits dest: forward)

lemma op_tee_local_forward [forward]: "op_tee_local C code st = Inr (code', st') \<Longrightarrow> raw_ptr code \<le> raw_ptr code'"
  by (fastforce simp: op_tee_local_def check_in_bounds_def res_simps Let_def split: if_splits dest: forward)

lemma op_get_global_forward [forward]: "op_get_global C code st = Inr (code', st') \<Longrightarrow> raw_ptr code \<le> raw_ptr code'"
  by (fastforce simp: op_get_global_def check_in_bounds_def res_simps Let_def split: if_splits dest: forward)

lemma op_set_global_forward [forward]: "op_set_global C code st = Inr (code', st') \<Longrightarrow> raw_ptr code \<le> raw_ptr code'"
  by (fastforce simp: op_set_global_def check_in_bounds_def res_simps Let_def split: if_splits dest: forward)

lemma op_table_get_forward [forward]: "op_table_get C code st = Inr (code', st') \<Longrightarrow> raw_ptr code \<le> raw_ptr code'"
  by (fastforce simp: op_table_get_def check_in_bounds_def res_simps Let_def split: if_splits dest: forward)

lemma op_table_set_forward [forward]: "op_table_set C code st = Inr (code', st') \<Longrightarrow> raw_ptr code \<le> raw_ptr code'"
  by (fastforce simp: op_table_set_def check_in_bounds_def res_simps Let_def split: if_splits dest: forward)

lemma op_load_forward [forward]: "op_load C l code st = Inr (code', st') \<Longrightarrow> raw_ptr code \<le> raw_ptr code'"
  by (fastforce simp: op_load_def check_in_bounds_def res_simps Let_def split: if_splits dest: forward)

lemma op_store_forward [forward]: "op_store C s code st = Inr (code', st') \<Longrightarrow> raw_ptr code \<le> raw_ptr code'"
  by (fastforce simp: op_store_def check_in_bounds_def res_simps Let_def split: if_splits dest: forward)

lemma op_current_memory_forward [forward]: "op_current_memory C code st = Inr (code', st') \<Longrightarrow> raw_ptr code \<le> raw_ptr code'"
  by (fastforce simp: op_current_memory_def check_in_bounds_def res_simps Let_def split: if_splits dest: forward)

lemma op_grow_memory_forward [forward]: "op_grow_memory C code st = Inr (code', st') \<Longrightarrow> raw_ptr code \<le> raw_ptr code'"
  by (fastforce simp: op_grow_memory_def check_in_bounds_def res_simps Let_def split: if_splits dest: forward)

lemma op_const_forward [forward]: "op_const b code st = Inr (code', st') \<Longrightarrow> raw_ptr code \<le> raw_ptr code'"
  by (fastforce simp: op_const_def check_in_bounds_def res_simps Let_def split: if_splits dest: forward)

lemma op_ref_null_forward [forward]: "op_ref_null code st = Inr (code', st') \<Longrightarrow> raw_ptr code \<le> raw_ptr code'"
  by (fastforce simp: op_ref_null_def check_in_bounds_def res_simps Let_def split: if_splits dest: forward)

lemma op_ref_func_forward [forward]: "op_ref_func C code st = Inr (code', st') \<Longrightarrow> raw_ptr code \<le> raw_ptr code'"
  by (fastforce simp: op_ref_func_def check_in_bounds_def res_simps Let_def split: if_splits dest: forward)

lemma op_ext_forward [forward]: "op_ext C code st = Inr (code', st') \<Longrightarrow> raw_ptr code \<le> raw_ptr code'"
  by (fastforce simp: op_ext_def check_in_bounds_def res_simps Let_def split: if_splits dest: forward)

lemma keep_code_forward [forward]: "keep_code code r = Inr (code', st') \<Longrightarrow> raw_ptr code \<le> raw_ptr code'"
  by (auto simp: keep_code_def res_simps)

lemma dispatch_forward: "dispatch C bounds b code st = Inr (code', st') \<Longrightarrow> raw_ptr code \<le> raw_ptr code'"
  unfolding dispatch_def by (simp split: if_split_asm; drule forward; assumption)

lemma parse_instr_forward: "parse_instr C bounds code st = Inr (code', st') \<Longrightarrow> raw_ptr code < raw_ptr code'"
  by (auto simp: parse_instr_def res_simps dest!: read_byte_ptr dispatch_forward)

text \<open>\<open>while (code.offset() < bounds)\<close>\<close>

function parse_loop :: "parse_ctx \<Rightarrow> nat \<Rightarrow> gptr \<Rightarrow> parse_state \<Rightarrow> (gptr \<times> parse_state) res" where
  "parse_loop C bounds code st =
     (if gp_offset code < bounds
      then bindR (parse_instr C bounds code st) (\<lambda>(code', st'). parse_loop C bounds code' st')
      else Inr (code, st))"
  by pat_completeness auto
termination
  by (relation "measure (\<lambda>(C, bounds, code, st). bounds - raw_ptr code)")
     (auto simp: gp_offset_def dest: parse_instr_forward)

declare parse_loop.simps [simp del]

definition parse_function_body_code :: "parse_ctx \<Rightarrow> nat \<Rightarrow> gptr \<Rightarrow> writer \<Rightarrow> parse_state res" where
  "parse_function_body_code C bounds code w =
     bindR (parse_loop C bounds code
              \<lparr>op_stack = tracker_init, pc_stack = [func_scope (pft C)], wr = w,
               inj = inj_reset \<lparr>loop_stack = [], prepay_extra = 0\<rparr>\<rparr>)
       (\<lambda>(code', st). assertR (pc_stack st = []) (parse_err ''function body too long'') (Inr st))"

text \<open>
  \<open>write_code_out\<close>: the bodies in order, each with its own pointer. The result is the code segment and
  the module with the bodies' positions, gas and the maximal operand depth filled in.
\<close>

definition write_body :: "options \<Rightarrow> module \<Rightarrow> u8 list \<Rightarrow> nat \<Rightarrow> writer \<Rightarrow> (writer \<times> module \<times> opcode list) res" where
  "write_body opt m bytes i w =
     bindR (body_at m i) (\<lambda>body.
     assertR (i < length (func_list m)) (std_out_of_range ''functions'')
    (bindR (types_at m (func_list m ! i)) (\<lambda>ft.
     bindR (local_types ft (locals body)) (\<lambda>lt.
     bindR (parse_function_body_code \<lparr>pmod = m, opts = opt, pft = ft, plocals = lt\<rparr> (unat (body_bytes body))
              (gp_new bytes (unat (body_bytes body))) (emit_prologue (unat (body_bytes body)) w)) (\<lambda>st.
     bindR (emit_epilogue ft (locals body) (wr st)) (\<lambda>w1.
     (let (w2, body', ops) = finalize w1 (body\<lparr>prologue_gas_extra := prologue_gas_extra body + prepay_extra (inj st)\<rparr>)
      in Inr (w2, m\<lparr>body_list := (body_list m)[i := body'],
                    maximum_stack := max (maximum_stack m)
                      (unat (maximum_operand_depth (op_stack st)) + locals_count lt)\<rparr>, ops))))))))"

fun write_bodies :: "options \<Rightarrow> u8 list list \<Rightarrow> nat \<Rightarrow> writer \<Rightarrow> module \<Rightarrow> opcode list \<Rightarrow> (module \<times> opcode list) res" where
  "write_bodies opt [] i w m seg = Inr (m, seg)"
| "write_bodies opt (bytes # rest) i w m seg =
     bindR (write_body opt m bytes i w) (\<lambda>(w', m', ops). write_bodies opt rest (i + 1) w' m' (seg @ ops))"

definition write_code_out :: "options \<Rightarrow> u8 list list \<Rightarrow> module \<Rightarrow> (module \<times> opcode list) res" where
  "write_code_out opt bodies m = write_bodies opt bodies 0 \<lparr>fb = [], capacity = 0, base_offset = 0\<rparr> m []"

end
