(* ===== verification/Interp.thy ===== *)
theory Interp
  imports Bitcode
begin

unbundle bit_operations_syntax

section \<open>The interpreter\<close>

text \<open>
  The execution context of \<open>psizam/detail/execution_context.hpp\<close> and the visitor of
  \<open>psizam/detail/interpret_visitor.hpp\<close> for the instructions of \<open>Bitcode\<close>: operands and call frames on
  the array stacks of \<open>Operand_Stack\<close>, a program counter into the code segment, linear memory, globals,
  tables and the gas counter. \<open>step\<close> is one iteration of the dispatch loop; what the code leaves
  undefined (reading a value through the wrong alternative, running off the code segment, indexing a
  vector out of range) is an \<open>Undefined\<close> result.
\<close>

subsection \<open>State\<close>

text \<open>A program counter is an index into the code segment, or \<open>None\<close> for \<open>&_halt\<close>.\<close>

record activation_frame =
  frame_pc :: "nat option"
  frame_last_op_index :: u32
  frame_size :: u32

record 'p ectx =
  operands :: "stack_elem stack"
  frames :: "activation_frame stack"
  pc :: "nat option"
  last_op_index :: u32
  remaining_call_depth :: u32
  lin_mem :: memory
  global_values :: "u128 list"
  table_data :: "u32 list list"
  gas :: gas_state
  gas_user :: 'p

text \<open>
  What execution does not change: the module, its code segment, the gas handler, and the host function
  table as the signatures of its entries and the functions behind them. Arguments and results of a host
  function are the 64 bits of a \<open>native_value\<close>.
\<close>

record 'p env =
  emod :: module
  segment :: "opcode list"
  gas_handler_of :: "'p gas_handler option"
  host_sigs :: "func_type list"
  host_call :: "nat \<Rightarrow> u64 list \<Rightarrow> memory \<Rightarrow> (memory \<times> u64) res"

definition wie_exn :: "string \<Rightarrow> exn" where
  "wie_exn msg = wasm_interpreter_exception msg"

definition push_operand :: "stack_elem \<Rightarrow> 'p ectx \<Rightarrow> 'p ectx res" where
  "push_operand el c = bindR (push el (operands c)) (\<lambda>s. Inr (c\<lparr>operands := s\<rparr>))"

definition pop_operand :: "'p ectx \<Rightarrow> ('p ectx \<times> stack_elem) res" where
  "pop_operand c = bindR (pop (operands c)) (\<lambda>(s, v). Inr (c\<lparr>operands := s\<rparr>, v))"

definition peek_operand :: "nat \<Rightarrow> 'p ectx \<Rightarrow> stack_elem res" where
  "peek_operand i c = peek i (operands c)"

definition poke_operand :: "stack_elem \<Rightarrow> 'p ectx \<Rightarrow> 'p ectx res" where
  "poke_operand el c = bindR (poke 0 el (operands c)) (\<lambda>s. Inr (c\<lparr>operands := s\<rparr>))"

text \<open>Indices are \<open>uint32_t\<close>; sizes and differences wrap when they are passed as such.\<close>

definition op_size :: "'p ectx \<Rightarrow> u32" where
  "op_size c = of_nat (index (operands c))"

definition get_operand :: "u32 \<Rightarrow> 'p ectx \<Rightarrow> stack_elem res" where
  "get_operand i c = get_at (operands c) (unat (last_op_index c + i))"

definition set_operand :: "u32 \<Rightarrow> stack_elem \<Rightarrow> 'p ectx \<Rightarrow> 'p ectx res" where
  "set_operand i el c = bindR (set_at (unat (last_op_index c + i)) el (operands c)) (\<lambda>s. Inr (c\<lparr>operands := s\<rparr>))"

definition eat_operands :: "u32 \<Rightarrow> 'p ectx \<Rightarrow> 'p ectx res" where
  "eat_operands i c = bindR (eat (unat i) (operands c)) (\<lambda>s. Inr (c\<lparr>operands := s\<rparr>))"

definition compact_operand :: "u32 \<Rightarrow> 'p ectx \<Rightarrow> 'p ectx res" where
  "compact_operand i c = bindR (compact (unat i) (operands c)) (\<lambda>s. Inr (c\<lparr>operands := s\<rparr>))"

definition compact_operand_n :: "u32 \<Rightarrow> u32 \<Rightarrow> 'p ectx \<Rightarrow> 'p ectx res" where
  "compact_operand_n i n c = bindR (compact_n (unat i) (unat n) (operands c)) (\<lambda>s. Inr (c\<lparr>operands := s\<rparr>))"

definition inc_pc :: "'p ectx \<Rightarrow> 'p ectx" where
  "inc_pc c = c\<lparr>pc := map_option Suc (pc c)\<rparr>"

text \<open>\<open>code[0].code\<close> is the start of the code segment.\<close>

definition set_relative_pc :: "u32 \<Rightarrow> 'p ectx \<Rightarrow> 'p ectx" where
  "set_relative_pc off c = c\<lparr>pc := Some (unat off)\<rparr>"

definition charge :: "'p env \<Rightarrow> int \<Rightarrow> 'p ectx \<Rightarrow> 'p ectx res" where
  "charge E cost c =
     (case gas_charge (gas_handler_of E) (word_of_int cost) (gas c) (gas_user c) of
        (g, u, Inr _) \<Rightarrow> Inr (c\<lparr>gas := g, gas_user := u\<rparr>)
      | (g, u, Inl e) \<Rightarrow> Inl e)"

definition check_watermark :: "'p ectx \<Rightarrow> 'p ectx res" where
  "check_watermark c = bindR (validate_read_watermark (lin_mem c)) (\<lambda>m. Inr (c\<lparr>lin_mem := m\<rparr>))"

subsection \<open>Branches\<close>

fun pop_n :: "nat \<Rightarrow> 'p ectx \<Rightarrow> ('p ectx \<times> stack_elem list) res" where
  "pop_n 0 c = Inr (c, [])"
| "pop_n (Suc n) c = bindR (pop_operand c) (\<lambda>(c1, v). bindR (pop_n n c1) (\<lambda>(c2, vs). Inr (c2, v # vs)))"

fun push_all :: "stack_elem list \<Rightarrow> 'p ectx \<Rightarrow> 'p ectx res" where
  "push_all [] c = Inr c"
| "push_all (v # vs) c = bindR (push_operand v c) (push_all vs)"

definition jump :: "u32 \<Rightarrow> u32 \<Rightarrow> 'p ectx \<Rightarrow> 'p ectx res" where
  "jump pop_info new_pc c =
     (let c0 = set_relative_pc new_pc c;
          depth_change = pop_info AND 0x00FFFFFF;
          result_count = drop_bit 24 pop_info
      in if result_count = 1 then
           bindR (pop_operand c0) (\<lambda>(c1, op).
           bindR (eat_operands (op_size c1 - (depth_change - 1)) c1) (push_operand op))
         else if result_count > 1 then
           bindR (pop_n (unat result_count) c0) (\<lambda>(c1, results).
           bindR (eat_operands (op_size c1 - (depth_change - result_count)) c1) (push_all (rev results)))
         else eat_operands (op_size c0 - depth_change) c0)"

definition is_true :: "stack_elem \<Rightarrow> bool res" where
  "is_true el = (case el of i32_const v \<Rightarrow> Inr (v \<noteq> 0) | _ \<Rightarrow> Inl (wasm_invalid_element ''should be an i32 type''))"

subsection \<open>Calls\<close>

definition zero_of :: "u8 \<Rightarrow> stack_elem res" where
  "zero_of t =
     (if t = ty_i32 then Inr (i32_const 0) else if t = ty_i64 then Inr (i64_const 0)
      else if t = ty_f32 then Inr (f32_const 0) else if t = ty_f64 then Inr (f64_const 0)
      else if t = ty_v128 then Inr (v128_const 0)
      else if t = ty_funcref \<or> t = ty_externref \<or> t = ty_exnref then Inr (i32_const (- 1))
      else Inl (wie_exn ''invalid function param type''))"

fun push_zeros :: "nat \<Rightarrow> u8 \<Rightarrow> 'p ectx \<Rightarrow> 'p ectx res" where
  "push_zeros 0 t c = Inr c"
| "push_zeros (Suc n) t c = bindR (zero_of t) (\<lambda>z. bindR (push_operand z c) (push_zeros n t))"

fun push_locals :: "local_entry list \<Rightarrow> 'p ectx \<Rightarrow> 'p ectx res" where
  "push_locals [] c = Inr c"
| "push_locals (l # ls) c = bindR (push_zeros (unat (local_count l)) (local_type l) c) (push_locals ls)"

text \<open>\<open>_mod->code[...]\<close> is not range checked.\<close>

definition body_of :: "'p env \<Rightarrow> nat \<Rightarrow> function_body res" where
  "body_of E fidx =
     (if get_imported_functions_size (emod E) \<le> fidx \<and>
         fidx - get_imported_functions_size (emod E) < length (body_list (emod E))
      then Inr (body_list (emod E) ! (fidx - get_imported_functions_size (emod E)))
      else Inl (Undefined ''body out of range''))"

definition setup_locals :: "'p env \<Rightarrow> nat \<Rightarrow> 'p ectx \<Rightarrow> 'p ectx res" where
  "setup_locals E fidx c = bindR (body_of E fidx) (\<lambda>fn. push_locals (locals fn) c)"

definition reserve_depth :: "u32 \<Rightarrow> 'p ectx \<Rightarrow> 'p ectx res" where
  "reserve_depth fsize c =
     assertR (fsize \<le> remaining_call_depth c) (wie_exn ''stack overflow'')
       (Inr (c\<lparr>remaining_call_depth := remaining_call_depth c - fsize\<rparr>))"

definition push_frame :: "activation_frame \<Rightarrow> 'p ectx \<Rightarrow> 'p ectx res" where
  "push_frame f c = bindR (push f (frames c)) (\<lambda>s. Inr (c\<lparr>frames := s\<rparr>))"

definition push_call :: "'p env \<Rightarrow> nat option \<Rightarrow> nat \<Rightarrow> 'p ectx \<Rightarrow> 'p ectx res" where
  "push_call E return_pc fidx c =
     bindR (get_function_stack_size (emod E) fidx) (\<lambda>fsize.
     bindR (reserve_depth fsize c) (\<lambda>c1.
     bindR (push_frame \<lparr>frame_pc = return_pc, frame_last_op_index = last_op_index c1, frame_size = fsize\<rparr> c1) (\<lambda>c2.
     bindR (get_function_type (emod E) fidx) (\<lambda>ft.
       Inr (c2\<lparr>last_op_index := op_size c2 - of_nat (length (param_types ft))\<rparr>)))))"

definition apply_pop_call :: "u32 \<Rightarrow> u32 \<Rightarrow> 'p ectx \<Rightarrow> 'p ectx res" where
  "apply_pop_call num_locals ret_count c =
     bindR (pop (frames c)) (\<lambda>(fs, af).
     let c1 = c\<lparr>frames := fs, pc := frame_pc af, last_op_index := frame_last_op_index af\<rparr> in
     bindR (if ret_count = 1 then compact_operand (op_size c1 - num_locals - 1) c1
            else if ret_count > 1 then compact_operand_n (op_size c1 - num_locals - ret_count) ret_count c1
            else eat_operands (op_size c1 - num_locals) c1) (\<lambda>c2.
       Inr (c2\<lparr>remaining_call_depth := remaining_call_depth c2 + frame_size af\<rparr>)))"

text \<open>\<open>type_check\<close> of the operands of a host call: parameter \<open>i\<close> is \<open>n - 1 - i\<close> below the top.\<close>

fun check_params :: "u8 list \<Rightarrow> nat \<Rightarrow> 'p ectx \<Rightarrow> unit res" where
  "check_params ps 0 c = Inr ()"
| "check_params ps (Suc k) c =
     (let i = length ps - Suc k in
      bindR (peek_operand (length ps - 1 - i) c) (\<lambda>op.
        assertR (ps ! i = elem_ty op) (wie_exn ''function param type mismatch'') (check_params ps k c)))"

definition type_check :: "func_type \<Rightarrow> 'p ectx \<Rightarrow> unit res" where
  "type_check ft c = check_params (param_types ft) (length (param_types ft)) c"

definition native_arg :: "u8 \<Rightarrow> stack_elem \<Rightarrow> u64 res" where
  "native_arg t el =
     (if t = ty_i32 then bindR (to_ui32 el) (\<lambda>v. Inr (ucast v))
      else if t = ty_i64 then to_ui64 el
      else if t = ty_f32 then bindR (to_fui32 el) (\<lambda>v. Inr (ucast v))
      else if t = ty_f64 then to_fui64 el
      else Inr 0)"

text \<open>The parameters in reverse order, popped from the top; the arguments come out in order.\<close>

fun pop_args :: "u8 list \<Rightarrow> 'p ectx \<Rightarrow> u64 list \<Rightarrow> ('p ectx \<times> u64 list) res" where
  "pop_args [] c acc = Inr (c, acc)"
| "pop_args (t # ts) c acc =
     bindR (pop_operand c) (\<lambda>(c1, el). bindR (native_arg t el) (\<lambda>a. pop_args ts c1 (a # acc)))"

definition push_result :: "u8 list \<Rightarrow> u64 \<Rightarrow> 'p ectx \<Rightarrow> 'p ectx res" where
  "push_result rets r c =
     (case rets of
        [] \<Rightarrow> Inr c
      | t # _ \<Rightarrow>
          if t = ty_i32 then push_operand (i32_const (ucast r)) c
          else if t = ty_i64 then push_operand (i64_const r) c
          else if t = ty_f32 then push_operand (f32_const (ucast r)) c
          else if t = ty_f64 then push_operand (f64_const r) c
          else Inr c)"

definition get_entry :: "'p env \<Rightarrow> nat \<Rightarrow> func_type res" where
  "get_entry E i =
     assertR (i < length (host_sigs E)) (wasm_link_exception ''unresolved imported function'') (Inr (host_sigs E ! i))"

text \<open>The call of an import: a frame for its duration, the arguments, the watermark, the host function.\<close>

definition call_host :: "'p env \<Rightarrow> nat \<Rightarrow> 'p ectx \<Rightarrow> 'p ectx res" where
  "call_host E fidx c =
     bindR (get_function_type (emod E) fidx) (\<lambda>ft.
     bindR (type_check ft c) (\<lambda>_.
     let c1 = inc_pc c in
     bindR (get_function_stack_size (emod E) fidx) (\<lambda>fsize.
     bindR (reserve_depth fsize c1) (\<lambda>c2.
     bindR (push_frame \<lparr>frame_pc = None, frame_last_op_index = 0, frame_size = fsize\<rparr> c2) (\<lambda>c3.
     if fidx < length (import_functions (emod E)) then
       (let mapped_index = import_functions (emod E) ! fidx in
        bindR (get_entry E mapped_index) (\<lambda>hf.
        bindR (pop_args (rev (param_types hf)) c3 []) (\<lambda>(c4, args).
        bindR (check_watermark c4) (\<lambda>c5.
        bindR (host_call E mapped_index args (lin_mem c5)) (\<lambda>(m, r).
        bindR (push_result (return_types hf) r (c5\<lparr>lin_mem := m\<rparr>)) (\<lambda>c6.
        bindR (pop (frames c6)) (\<lambda>(fs, _).
          Inr (c6\<lparr>frames := fs, remaining_call_depth := remaining_call_depth c\<rparr>))))))))
     else Inl (Undefined ''import_functions out of range''))))))"

definition call :: "'p env \<Rightarrow> nat \<Rightarrow> 'p ectx \<Rightarrow> 'p ectx res" where
  "call E fidx c =
     (if fidx < get_imported_functions_size (emod E) then call_host E fidx c
      else
        bindR (body_of E fidx) (\<lambda>body.
        bindR (charge E (int (unat (wasm_body_bytes body)) + prologue_gas_extra body) c) (\<lambda>c1.
        bindR (push_call E (map_option Suc (pc c1)) fidx c1) (\<lambda>c2.
        bindR (setup_locals E fidx c2) (\<lambda>c3.
        bindR (get_function_pc (emod E) fidx) (\<lambda>p. Inr (c3\<lparr>pc := Some p\<rparr>)))))))"

text \<open>The size of the table is read with \<open>_table_sizes[...]\<close>, unchecked; entries are function indices.\<close>

definition table_elem :: "nat \<Rightarrow> nat \<Rightarrow> 'p ectx \<Rightarrow> u32 res" where
  "table_elem i table_idx c =
     (if table_idx < length (table_data c) then
        assertR (i < length (table_data c ! table_idx)) (wie_exn ''table index out of range'')
          (Inr (table_data c ! table_idx ! i))
      else Inl (Undefined ''table sizes out of range''))"

definition call_indirect :: "'p env \<Rightarrow> u32 \<Rightarrow> 'p ectx \<Rightarrow> 'p ectx res" where
  "call_indirect E imm c =
     (let type_idx = imm AND 0xFFFF; table_idx = drop_bit 16 imm in
      bindR (pop_operand c) (\<lambda>(c1, v).
      bindR (to_ui32 v) (\<lambda>i.
      bindR (table_elem (unat i) (unat table_idx) c1) (\<lambda>fn.
      assertR (unat fn < get_functions_total (emod E)) (wie_exn ''call_indirect to uninitialized table entry'')
     (bindR (types_at (emod E) (unat type_idx)) (\<lambda>expected_type.
      bindR (get_function_type (emod E) (unat fn)) (\<lambda>actual_type.
      assertR (actual_type = expected_type) (wie_exn ''bad call_indirect type'')
        (call E (unat fn) c1))))))))"

subsection \<open>Globals\<close>

text \<open>The value of a global is a union; its 128 bits are kept, and a shorter value is written into the low ones.\<close>

definition get_global :: "'p env \<Rightarrow> nat \<Rightarrow> 'p ectx \<Rightarrow> stack_elem res" where
  "get_global E i c =
     assertR (i < length (globals (emod E))) (wie_exn ''global index out of range'')
      (if i < length (global_values c) then
        (let t = content_type (globals (emod E) ! i); v = global_values c ! i in
         if t = ty_i32 then Inr (i32_const (ucast v))
         else if t = ty_i64 then Inr (i64_const (ucast v))
         else if t = ty_f32 then Inr (f32_const (ucast v))
         else if t = ty_f64 then Inr (f64_const (ucast v))
         else if t = ty_v128 then Inr (v128_const v)
         else if t = ty_funcref \<or> t = ty_externref \<or> t = ty_exnref then Inr (i32_const (ucast v))
         else Inl (wie_exn ''invalid global type''))
       else Inl (Undefined ''globals out of range''))"

definition store_global :: "nat \<Rightarrow> u128 \<Rightarrow> 'p ectx \<Rightarrow> 'p ectx res" where
  "store_global i v c =
     (if i < length (global_values c) then Inr (c\<lparr>global_values := (global_values c)[i := v]\<rparr>)
      else Inl (Undefined ''globals out of range''))"

definition low_bits :: "nat \<Rightarrow> u128 \<Rightarrow> u128 \<Rightarrow> u128" where
  "low_bits n v old = push_bit n (drop_bit n old) OR v"

definition set_global :: "'p env \<Rightarrow> nat \<Rightarrow> stack_elem \<Rightarrow> 'p ectx \<Rightarrow> 'p ectx res" where
  "set_global E i el c =
     assertR (i < length (globals (emod E))) (wie_exn ''global index out of range'')
     (let gl = globals (emod E) ! i; t = content_type gl; old = global_values c ! i in
      assertR (mutability gl) (wie_exn ''global is not mutable'')
      (case el of
         i32_const v \<Rightarrow>
           assertR (t \<in> {ty_i32, ty_funcref, ty_externref, ty_exnref}) (wie_exn ''expected i32 global type'')
             (store_global i (low_bits 32 (ucast v) old) c)
       | i64_const v \<Rightarrow>
           assertR (t = ty_i64) (wie_exn ''expected i64 global type'') (store_global i (low_bits 64 (ucast v) old) c)
       | f32_const v \<Rightarrow>
           assertR (t = ty_f32) (wie_exn ''expected f32 global type'') (store_global i (low_bits 32 (ucast v) old) c)
       | f64_const v \<Rightarrow>
           assertR (t = ty_f64) (wie_exn ''expected f64 global type'') (store_global i (low_bits 64 (ucast v) old) c)
       | v128_const v \<Rightarrow>
           assertR (t = ty_v128) (wie_exn ''expected v128 global type'') (store_global i v c)))"

subsection \<open>The visitor\<close>

definition exec_num :: "numop \<Rightarrow> 'p ectx \<Rightarrow> 'p ectx res" where
  "exec_num n c =
     (if num_binary n then
        bindR (pop_operand c) (\<lambda>(c1, rhs).
        bindR (peek_operand 0 c1) (\<lambda>lhs.
        bindR (num_bin n lhs rhs) (\<lambda>v. poke_operand v c1)))
      else
        bindR (peek_operand 0 c) (\<lambda>oper. bindR (num_un n oper) (\<lambda>v. poke_operand v c)))"

definition exec_load :: "loadop \<Rightarrow> u32 \<Rightarrow> 'p ectx \<Rightarrow> 'p ectx res" where
  "exec_load l off c =
     bindR (pop_operand c) (\<lambda>(c1, ptr).
     bindR (mem_load off (load_size l) ptr (lin_mem c1)) (\<lambda>(m, bs).
       push_operand (load_value l bs) (c1\<lparr>lin_mem := m\<rparr>)))"

definition exec_store :: "storeop \<Rightarrow> u32 \<Rightarrow> 'p ectx \<Rightarrow> 'p ectx res" where
  "exec_store s off c =
     bindR (pop_operand c) (\<lambda>(c1, val).
     bindR (pop_operand c1) (\<lambda>(c2, ptr).
     bindR (store_value s val) (\<lambda>bs.
     bindR (mem_store off ptr bs (lin_mem c2)) (\<lambda>m. Inr (c2\<lparr>lin_mem := m\<rparr>)))))"

definition exec_current_memory :: "'p ectx \<Rightarrow> 'p ectx res" where
  "exec_current_memory c =
     (let pages = get_current_page (wasm_alloc (lin_mem c)) in
      if is_memory64 (lin_mem c) then push_operand (i64_const (scast pages)) c
      else push_operand (i32_const pages) c)"

definition exec_grow_memory :: "'p ectx \<Rightarrow> 'p ectx res" where
  "exec_grow_memory c =
     bindR (peek_operand 0 c) (\<lambda>oper.
     if is_memory64 (lin_mem c) then
       bindR (to_ui64 oper) (\<lambda>d.
       bindR (grow_linear_memory (ucast d) (lin_mem c)) (\<lambda>(m, r).
         poke_operand (i64_const (if r = - 1 then - 1 else scast r)) (c\<lparr>lin_mem := m\<rparr>)))
     else
       bindR (to_ui32 oper) (\<lambda>d.
       bindR (grow_linear_memory d (lin_mem c)) (\<lambda>(m, r).
         poke_operand (i32_const r) (c\<lparr>lin_mem := m\<rparr>))))"

definition exec_select :: "'p ectx \<Rightarrow> 'p ectx res" where
  "exec_select c =
     bindR (pop_operand c) (\<lambda>(c1, cond).
     bindR (pop_operand c1) (\<lambda>(c2, v2).
     bindR (to_ui32 cond) (\<lambda>b. if b = 0 then poke_operand v2 c2 else Inr c2)))"

definition table_size_of :: "nat \<Rightarrow> 'p ectx \<Rightarrow> nat res" where
  "table_size_of i c =
     assertR (i < length (table_data c)) (wie_exn ''table index out of range'') (Inr (length (table_data c ! i)))"

definition exec_table_get :: "nat \<Rightarrow> 'p ectx \<Rightarrow> 'p ectx res" where
  "exec_table_get t c =
     bindR (peek_operand 0 c) (\<lambda>idx.
     bindR (to_ui32 idx) (\<lambda>i.
     bindR (table_size_of t c) (\<lambda>n.
     assertR (unat i < n) (wie_exn ''table index out of range'')
       (poke_operand (i32_const (table_data c ! t ! unat i)) c))))"

definition exec_table_set :: "nat \<Rightarrow> 'p ectx \<Rightarrow> 'p ectx res" where
  "exec_table_set t c =
     bindR (pop_operand c) (\<lambda>(c1, v).
     bindR (to_ui32 v) (\<lambda>val.
     bindR (pop_operand c1) (\<lambda>(c2, i).
     bindR (to_ui32 i) (\<lambda>idx.
     bindR (table_size_of t c2) (\<lambda>n.
     assertR (unat idx < n) (wie_exn ''table index out of range'')
       (Inr (c2\<lparr>table_data := (table_data c2)[t := (table_data c2 ! t)[unat idx := val]]\<rparr>)))))))"

definition exec_br_table :: "u32 \<Rightarrow> elem_t list \<Rightarrow> 'p ectx \<Rightarrow> 'p ectx res" where
  "exec_br_table tsize table c =
     bindR (pop_operand c) (\<lambda>(c1, v).
     bindR (to_ui32 v) (\<lambda>i.
     let k = unat (min i tsize) in
     if k < length table then jump (stack_pop (table ! k)) (elem_pc (table ! k)) c1
     else Inl (Undefined ''past the branch table'')))"

fun exec :: "'p env \<Rightarrow> opcode \<Rightarrow> 'p ectx \<Rightarrow> 'p ectx res" where
  "exec E unreachable_t c = Inl (wie_exn ''unreachable'')"
| "exec E nop_t c = Inr (inc_pc c)"
| "exec E (return_t data ret_count _) c = apply_pop_call data ret_count c"
| "exec E (gas_charge_t cost) c =
     bindR (check_watermark c) (\<lambda>c1. bindR (charge E cost c1) (\<lambda>c2. Inr (inc_pc c2)))"
| "exec E (if_t p) c =
     bindR (pop_operand (inc_pc c)) (\<lambda>(c1, v).
     bindR (to_ui32 v) (\<lambda>b. Inr (if b = 0 then set_relative_pc p c1 else c1)))"
| "exec E (else_t p) c = Inr (set_relative_pc p c)"
| "exec E (br_t data p) c = jump data p c"
| "exec E (br_if_t data p _) c =
     bindR (pop_operand c) (\<lambda>(c1, v). bindR (is_true v) (\<lambda>b. if b then jump data p c1 else Inr (inc_pc c1)))"
| "exec E (br_table_t tsize table) c = exec_br_table tsize table c"
| "exec E table_slot c = Inl (Undefined ''branch table executed'')"
| "exec E (call_t f) c = call E (unat f) c"
| "exec E (call_indirect_t imm) c = call_indirect E imm c"
| "exec E drop_t c = bindR (pop_operand c) (\<lambda>(c1, _). Inr (inc_pc c1))"
| "exec E select_t c = bindR (exec_select c) (\<lambda>c1. Inr (inc_pc c1))"
| "exec E (get_local_t i) c = bindR (get_operand i (inc_pc c)) (\<lambda>v. push_operand v (inc_pc c))"
| "exec E (set_local_t i) c = bindR (pop_operand (inc_pc c)) (\<lambda>(c1, v). set_operand i v c1)"
| "exec E (tee_local_t i) c =
     bindR (pop_operand (inc_pc c)) (\<lambda>(c1, v). bindR (set_operand i v c1) (push_operand v))"
| "exec E (get_global_t i) c = bindR (get_global E (unat i) (inc_pc c)) (\<lambda>v. push_operand v (inc_pc c))"
| "exec E (set_global_t i) c = bindR (pop_operand (inc_pc c)) (\<lambda>(c1, v). set_global E (unat i) v c1)"
| "exec E (table_get_t t) c = bindR (exec_table_get (unat t) c) (\<lambda>c1. Inr (inc_pc c1))"
| "exec E (table_set_t t) c = bindR (exec_table_set (unat t) c) (\<lambda>c1. Inr (inc_pc c1))"
| "exec E (ref_null_t _) c = bindR (push_operand (i32_const (- 1)) c) (\<lambda>c1. Inr (inc_pc c1))"
| "exec E ref_is_null_t c =
     bindR (pop_operand c) (\<lambda>(c1, v). bindR (to_ui32 v) (\<lambda>r.
     bindR (push_operand (i32_const (if r = - 1 then 1 else 0)) c1) (\<lambda>c2. Inr (inc_pc c2))))"
| "exec E (ref_func_t i) c = bindR (push_operand (i32_const i) c) (\<lambda>c1. Inr (inc_pc c1))"
| "exec E (load_t l _ off) c = exec_load l off (inc_pc c)"
| "exec E (store_t s _ off) c = exec_store s off (inc_pc c)"
| "exec E current_memory_t c = exec_current_memory (inc_pc c)"
| "exec E grow_memory_t c = exec_grow_memory (inc_pc c)"
| "exec E (const_t v) c = push_operand v (inc_pc c)"
| "exec E (num_t n) c = exec_num n (inc_pc c)"

subsection \<open>The dispatch loop\<close>

definition step :: "'p env \<Rightarrow> 'p ectx \<Rightarrow> 'p ectx res" where
  "step E c =
     (case pc c of
        None \<Rightarrow> Inr c
      | Some p \<Rightarrow> if p < length (segment E) then exec E (segment E ! p) c
                  else Inl (Undefined ''running off the code segment''))"

text \<open>At most \<open>n\<close> iterations of the loop; it has returned when the program counter is at \<open>_halt\<close>.\<close>

fun run :: "'p env \<Rightarrow> nat \<Rightarrow> 'p ectx \<Rightarrow> 'p ectx res" where
  "run E 0 c = Inr c"
| "run E (Suc n) c = (if pc c = None then Inr c else bindR (step E c) (run E n))"

subsection \<open>Execution of a function from the outside\<close>

definition type_check_args :: "func_type \<Rightarrow> stack_elem list \<Rightarrow> unit res" where
  "type_check_args ft args =
     assertR (length args = length (param_types ft)) (wie_exn ''wrong number of arguments'')
    (assertR (map elem_ty args = param_types ft) (wie_exn ''unexpected argument type'') (Inr ()))"

text \<open>A defined function up to the loop: the gas of the entry, the entry point and the locals.\<close>

definition enter_body :: "'p env \<Rightarrow> nat \<Rightarrow> 'p ectx \<Rightarrow> 'p ectx res" where
  "enter_body E fidx c =
     bindR (body_of E fidx) (\<lambda>body.
     bindR (charge E (int (unat (wasm_body_bytes body)) + prologue_gas_extra body) c) (\<lambda>c1.
     bindR (get_function_pc (emod E) fidx) (\<lambda>p. setup_locals E fidx (c1\<lparr>pc := Some p\<rparr>))))"

definition execute_import :: "'p env \<Rightarrow> nat \<Rightarrow> 'p ectx \<Rightarrow> 'p ectx res" where
  "execute_import E fidx c =
     (if fidx < length (import_functions (emod E)) then
        (let mapped_index = import_functions (emod E) ! fidx in
         bindR (get_entry E mapped_index) (\<lambda>hf.
         bindR (pop_args (rev (param_types hf)) c []) (\<lambda>(c1, args).
         bindR (host_call E mapped_index args (lin_mem c1)) (\<lambda>(m, r).
           push_result (return_types hf) r (c1\<lparr>lin_mem := m\<rparr>)))))
      else Inl (Undefined ''import_functions out of range''))"

text \<open>The function itself, an import or at most \<open>n\<close> iterations of the loop; None when it has not returned by then.\<close>

definition invoke :: "'p env \<Rightarrow> nat \<Rightarrow> nat \<Rightarrow> 'p ectx \<Rightarrow> 'p ectx option res" where
  "invoke E n fidx c =
     (if fidx < get_imported_functions_size (emod E) then bindR (execute_import E fidx c) (\<lambda>c1. Inr (Some c1))
      else
        bindR (enter_body E fidx c) (\<lambda>c1.
        bindR (run E n c1) (\<lambda>c2. Inr (if pc c2 = None then Some c2 else None))))"

text \<open>Its result: the deepest of the returned values, after they are popped.\<close>

definition take_result :: "'p env \<Rightarrow> nat \<Rightarrow> 'p ectx \<Rightarrow> ('p ectx \<times> stack_elem option) res" where
  "take_result E fidx c =
     bindR (get_function_type (emod E) fidx) (\<lambda>ft.
     if return_count ft \<noteq> 0 then
       bindR (peek_operand (return_count ft - 1) c) (\<lambda>first.
       bindR (pop_n (return_count ft) c) (\<lambda>(c1, _). Inr (c1, Some first)))
     else Inr (c, None))"

text \<open>The scope guard of \<open>execute\<close>, which puts the state of the calling context \<open>c0\<close> back.\<close>

definition cleanup :: "'p ectx \<Rightarrow> 'p ectx \<Rightarrow> 'p ectx res" where
  "cleanup c0 c =
     bindR (eat (unat (op_size c0)) (operands c)) (\<lambda>ops.
     bindR (eat (index (frames c0)) (frames c)) (\<lambda>fs.
       Inr (c\<lparr>operands := ops, frames := fs, pc := pc c0, last_op_index := last_op_index c0,
              remaining_call_depth := remaining_call_depth c0\<rparr>)))"

definition execute :: "'p env \<Rightarrow> nat \<Rightarrow> nat \<Rightarrow> stack_elem list \<Rightarrow> 'p ectx \<Rightarrow> ('p ectx \<times> stack_elem option) option res" where
  "execute E n fidx args c =
     assertR (fidx < 2 ^ 32 - 1) (wie_exn ''cannot execute function, function not found'')
    (bindR (get_function_type (emod E) fidx) (\<lambda>ft.
     bindR (type_check_args ft args) (\<lambda>_.
     bindR (push_all args c) (\<lambda>c1.
     bindR (push_call E None fidx c1) (\<lambda>c2.
     bindR (invoke E n fidx c2) (\<lambda>ret.
     case ret of
       None \<Rightarrow> Inr None
     | Some c3 \<Rightarrow>
         bindR (take_result E fidx c3) (\<lambda>(c4, r). bindR (cleanup c c4) (\<lambda>c5. Inr (Some (c5, r))))))))))"

end
