(* ===== verification/Code_Typing.thy ===== *)
theory Code_Typing
  imports Interp
begin

unbundle bit_operations_syntax

section \<open>Typed bitcode and the safety of its execution\<close>

text \<open>
  A stack map assigns to positions of the code segment the function they belong to and the types of the
  operands there, top first. \<open>code_ok\<close> is the condition on such a map under which every instruction
  finds operands of its types and passes on operands of the types of its successors. The main result is
  that a machine state that fits the map steps to one that fits it again, or to a trap of the guest; it
  reaches neither undefined behaviour nor an internal error of the interpreter. What the machine needs
  of its memory is the locale \<open>guest_vm\<close>.
\<close>

declare length_vals [simp del]

subsection \<open>Typing of instructions\<close>

type_synonym code_map = "nat \<Rightarrow> (nat \<times> u8 list) option"

definition expand_locals :: "local_entry list \<Rightarrow> u8 list" where
  "expand_locals ls = concat (map (\<lambda>l. replicate (unat (local_count l)) (local_type l)) ls)"

definition ftype :: "module \<Rightarrow> nat \<Rightarrow> func_type" where
  "ftype m k = types m ! (func_list m ! k)"

definition ltypes :: "module \<Rightarrow> nat \<Rightarrow> u8 list" where
  "ltypes m k = param_types (ftype m k) @ expand_locals (locals (body_list m ! k))"

text \<open>A branch that keeps \<open>rc\<close> of the \<open>dc\<close> topmost operands.\<close>

definition br_fits :: "(u8 list \<Rightarrow> bool) \<Rightarrow> u32 \<Rightarrow> u8 list \<Rightarrow> bool" where
  "br_fits tgt d \<tau> \<longleftrightarrow>
     (let dc = unat (d AND 0xFFFFFF); rc = unat (drop_bit 24 d)
      in rc \<le> dc \<and> dc \<le> length \<tau> \<and> tgt (take rc \<tau> @ drop dc \<tau>))"

text \<open>
  \<open>nxt\<close> and \<open>tgt p\<close> say whether a list of operand types fits the following instruction and the one at \<open>p\<close>.
\<close>

fun instr_fits :: "module \<Rightarrow> nat \<Rightarrow> (u8 list \<Rightarrow> bool) \<Rightarrow> (u32 \<Rightarrow> u8 list \<Rightarrow> bool) \<Rightarrow> u8 list \<Rightarrow> opcode \<Rightarrow> bool" where
  "instr_fits m k nxt tgt \<tau> unreachable_t = True"
| "instr_fits m k nxt tgt \<tau> nop_t = nxt \<tau>"
| "instr_fits m k nxt tgt \<tau> (return_t n rc _) =
     (\<tau> = rev (return_types (ftype m k)) \<and> unat n = length (ltypes m k) \<and> unat rc = length (return_types (ftype m k)))"
| "instr_fits m k nxt tgt \<tau> (gas_charge_t _) = nxt \<tau>"
| "instr_fits m k nxt tgt \<tau> (if_t p) = (\<exists>\<rho>. \<tau> = ty_i32 # \<rho> \<and> nxt \<rho> \<and> tgt p \<rho>)"
| "instr_fits m k nxt tgt \<tau> (else_t p) = tgt p \<tau>"
| "instr_fits m k nxt tgt \<tau> (br_t d p) = br_fits (tgt p) d \<tau>"
| "instr_fits m k nxt tgt \<tau> (br_if_t d p _) = (\<exists>\<rho>. \<tau> = ty_i32 # \<rho> \<and> nxt \<rho> \<and> br_fits (tgt p) d \<rho>)"
| "instr_fits m k nxt tgt \<tau> (br_table_t n es) =
     (\<exists>\<rho>. \<tau> = ty_i32 # \<rho> \<and> length es = unat n + 1 \<and> (\<forall>e \<in> set es. br_fits (tgt (elem_pc e)) (stack_pop e) \<rho>))"
| "instr_fits m k nxt tgt \<tau> table_slot = False"
| "instr_fits m k nxt tgt \<tau> (call_t f) =
     (\<exists>ft \<rho>. unat f < get_functions_total m \<and> get_function_type m (unat f) = Inr ft \<and>
        \<tau> = rev (param_types ft) @ \<rho> \<and> nxt (rev (return_types ft) @ \<rho>))"
| "instr_fits m k nxt tgt \<tau> (call_indirect_t imm) =
     (\<exists>\<rho>. unat (imm AND 0xFFFF) < length (types m) \<and> unat (drop_bit 16 imm) < length (tables m) \<and>
        (let ft = types m ! unat (imm AND 0xFFFF)
         in \<tau> = ty_i32 # rev (param_types ft) @ \<rho> \<and> nxt (rev (return_types ft) @ \<rho>)))"
| "instr_fits m k nxt tgt \<tau> drop_t = (\<exists>t \<rho>. \<tau> = t # \<rho> \<and> nxt \<rho>)"
| "instr_fits m k nxt tgt \<tau> select_t = (\<exists>t \<rho>. \<tau> = ty_i32 # t # t # \<rho> \<and> nxt (t # \<rho>))"
| "instr_fits m k nxt tgt \<tau> (get_local_t i) = (unat i < length (ltypes m k) \<and> nxt (ltypes m k ! unat i # \<tau>))"
| "instr_fits m k nxt tgt \<tau> (set_local_t i) =
     (unat i < length (ltypes m k) \<and> (\<exists>\<rho>. \<tau> = ltypes m k ! unat i # \<rho> \<and> nxt \<rho>))"
| "instr_fits m k nxt tgt \<tau> (tee_local_t i) =
     (unat i < length (ltypes m k) \<and> (\<exists>\<rho>. \<tau> = ltypes m k ! unat i # \<rho> \<and> nxt \<tau>))"
| "instr_fits m k nxt tgt \<tau> (get_global_t i) =
     (unat i < length (globals m) \<and> nxt (content_type (globals m ! unat i) # \<tau>))"
| "instr_fits m k nxt tgt \<tau> (set_global_t i) =
     (unat i < length (globals m) \<and> mutability (globals m ! unat i) \<and>
        (\<exists>\<rho>. \<tau> = content_type (globals m ! unat i) # \<rho> \<and> nxt \<rho>))"
| "instr_fits m k nxt tgt \<tau> (table_get_t t) =
     (unat t < length (tables m) \<and> (\<exists>\<rho>. \<tau> = ty_i32 # \<rho> \<and> nxt (tables m ! unat t # \<rho>)))"
| "instr_fits m k nxt tgt \<tau> (table_set_t t) =
     (unat t < length (tables m) \<and> (\<exists>\<rho>. \<tau> = tables m ! unat t # ty_i32 # \<rho> \<and> nxt \<rho>))"
| "instr_fits m k nxt tgt \<tau> (ref_null_t t) = (t \<in> {ty_funcref, ty_externref} \<and> nxt (t # \<tau>))"
| "instr_fits m k nxt tgt \<tau> ref_is_null_t =
     (\<exists>t \<rho>. t \<in> {ty_funcref, ty_externref} \<and> \<tau> = t # \<rho> \<and> nxt (ty_i32 # \<rho>))"
| "instr_fits m k nxt tgt \<tau> (ref_func_t _) = nxt (ty_funcref # \<tau>)"
| "instr_fits m k nxt tgt \<tau> (load_t l _ _) =
     (memories m \<noteq> [] \<and> (\<exists>\<rho>. \<tau> = ty_i32 # \<rho> \<and> nxt (load_type l # \<rho>)))"
| "instr_fits m k nxt tgt \<tau> (store_t s _ _) =
     (memories m \<noteq> [] \<and> (\<exists>\<rho>. \<tau> = store_type s # ty_i32 # \<rho> \<and> nxt \<rho>))"
| "instr_fits m k nxt tgt \<tau> current_memory_t = (memories m \<noteq> [] \<and> nxt (ty_i32 # \<tau>))"
| "instr_fits m k nxt tgt \<tau> grow_memory_t = (memories m \<noteq> [] \<and> (\<exists>\<rho>. \<tau> = ty_i32 # \<rho> \<and> nxt \<tau>))"
| "instr_fits m k nxt tgt \<tau> (const_t v) = nxt (elem_ty v # \<tau>)"
| "instr_fits m k nxt tgt \<tau> (num_t n) =
     (\<exists>\<rho>. \<tau> = (if num_binary n then [num_arg n, num_arg n] else [num_arg n]) @ \<rho> \<and> nxt (num_result n # \<rho>))"

subsection \<open>Typing of modules and code\<close>

definition value_type :: "u8 \<Rightarrow> bool" where
  "value_type t \<longleftrightarrow> t \<in> {ty_i32, ty_i64, ty_f32, ty_f64, ty_v128, ty_funcref, ty_externref, ty_exnref}"

definition func_type_ok :: "func_type \<Rightarrow> bool" where
  "func_type_ok ft \<longleftrightarrow>
     list_all value_type (param_types ft) \<and> list_all value_type (return_types ft) \<and> length (return_types ft) \<le> 16"

text \<open>What parsing the other sections establishes.\<close>

definition module_ok :: "module \<Rightarrow> bool" where
  "module_ok m \<longleftrightarrow>
     list_all func_type_ok (types m) \<and> list_all (\<lambda>t. t < length (types m)) (func_list m) \<and>
     list_all (\<lambda>t. t < length (types m)) (import_types m) \<and> length (body_list m) = length (func_list m) \<and>
     list_all (\<lambda>b. list_all (\<lambda>l. value_type (local_type l)) (locals b)) (body_list m) \<and>
     list_all (\<lambda>t. t \<in> {ty_funcref, ty_externref}) (tables m) \<and>
     list_all (\<lambda>g. value_type (content_type g)) (globals m) \<and>
     list_all (\<lambda>b. \<not> b) (memories m) \<and> \<not> stack_limit_is_bytes m"

text \<open>
  A resolved import: its host function has the import's type, at most one result, and that a number.
\<close>

definition linked :: "'p env \<Rightarrow> bool" where
  "linked E \<longleftrightarrow>
     length (import_functions (emod E)) = get_imported_functions_size (emod E) \<and>
     (\<forall>j < get_imported_functions_size (emod E).
        import_functions (emod E) ! j < length (host_sigs E) \<and>
        host_sigs E ! (import_functions (emod E) ! j) = types (emod E) ! (import_types (emod E) ! j) \<and>
        length (return_types (types (emod E) ! (import_types (emod E) ! j))) \<le> 1 \<and>
        set (return_types (types (emod E) ! (import_types (emod E) ! j))) \<subseteq> {ty_i32, ty_i64, ty_f32, ty_f64})"

definition frame_bound :: "'p env \<Rightarrow> code_map \<Rightarrow> nat \<Rightarrow> bool" where
  "frame_bound E \<Phi> F \<longleftrightarrow> (\<forall>p k \<tau>. \<Phi> p = Some (k, \<tau>) \<longrightarrow> length (ltypes (emod E) k) + length \<tau> \<le> F)"

definition code_ok :: "'p env \<Rightarrow> code_map \<Rightarrow> bool" where
  "code_ok E \<Phi> \<longleftrightarrow>
     (\<forall>p k \<tau>. \<Phi> p = Some (k, \<tau>) \<longrightarrow>
        p < length (segment E) \<and> k < length (func_list (emod E)) \<and>
        instr_fits (emod E) k (\<lambda>\<rho>. \<Phi> (p + 1) = Some (k, \<rho>)) (\<lambda>q \<rho>. \<Phi> (unat q) = Some (k, \<rho>)) \<tau> (segment E ! p)) \<and>
     (\<forall>k < length (func_list (emod E)). \<Phi> (body_code (body_list (emod E) ! k)) = Some (k, []))"

text \<open>What the embedder provides: a gas handler and host functions that fail only with errors of their own.\<close>

definition embedder_ok :: "(memory \<Rightarrow> bool) \<Rightarrow> 'p env \<Rightarrow> bool" where
  "embedder_ok ok E \<longleftrightarrow>
     (\<forall>h g u g' u' e. gas_handler_of E = Some h \<longrightarrow> h g u = (g', u', Inl e) \<longrightarrow> \<not> internal e) \<and>
     (\<forall>i args m. traps_only (host_call E i args m)) \<and>
     (\<forall>i args m m' r. ok m \<longrightarrow> host_call E i args m = Inr (m', r) \<longrightarrow> ok m')"

subsection \<open>Typing of machine states\<close>

text \<open>
  \<open>t_frames0\<close> (top first), \<open>t_vals0\<close> are the frames and operands below the entry of the execution,
  \<open>t_rets0\<close> the result types of the function entered; \<open>t_frame\<close> bounds the operands and locals of a frame,
  \<open>t_depth\<close> the number of frames.
\<close>

record 'p typing =
  t_env :: "'p env"
  t_map :: code_map
  t_frame :: nat
  t_depth :: nat
  t_frames0 :: "activation_frame list"
  t_vals0 :: "stack_elem list"
  t_rets0 :: "u8 list"

definition typing_ok :: "(memory \<Rightarrow> bool) \<Rightarrow> 'p typing \<Rightarrow> bool" where
  "typing_ok ok T \<longleftrightarrow>
     code_ok (t_env T) (t_map T) \<and> module_ok (emod (t_env T)) \<and> linked (t_env T) \<and> embedder_ok ok (t_env T) \<and>
     frame_bound (t_env T) (t_map T) (t_frame T) \<and>
     length (t_vals0 T) + t_frame T * t_depth T < 2 ^ 32 \<and> t_depth T < 2 ^ 32"

fun frames_fit :: "'p typing \<Rightarrow> activation_frame list \<Rightarrow> stack_elem list \<Rightarrow> u8 list \<Rightarrow> bool" where
  "frames_fit T [] W rets = False"
| "frames_fit T (af # fs) W rets =
     (frame_size af = 1 \<and>
      (case frame_pc af of
         None \<Rightarrow> fs = t_frames0 T \<and> W = t_vals0 T \<and> rets = t_rets0 T
       | Some r \<Rightarrow>
           (\<exists>k \<tau> W' L S. t_map T r = Some (k, rev rets @ \<tau>) \<and> W = W' @ L @ rev S \<and>
              length W' = unat (frame_last_op_index af) \<and>
              list_all2 elem_ok (ltypes (emod (t_env T)) k) L \<and> list_all2 elem_ok \<tau> S \<and>
              frames_fit T fs W' (return_types (ftype (emod (t_env T)) k)))))"

definition store_fits :: "(memory \<Rightarrow> bool) \<Rightarrow> 'p typing \<Rightarrow> 'p ectx \<Rightarrow> bool" where
  "store_fits ok T c \<longleftrightarrow>
     (memories (emod (t_env T)) \<noteq> [] \<longrightarrow> ok (lin_mem c)) \<and>
     length (global_values c) = length (globals (emod (t_env T))) \<and>
     length (table_data c) = length (tables (emod (t_env T)))"

definition calls_fit :: "'p typing \<Rightarrow> 'p ectx \<Rightarrow> nat \<Rightarrow> stack_elem list \<Rightarrow> bool" where
  "calls_fit T c k W \<longleftrightarrow>
     stack_inv (frames c) \<and> frames_fit T (rev (vals (frames c))) W (return_types (ftype (emod (t_env T)) k)) \<and>
     unat (remaining_call_depth c) + (length (vals (frames c)) - length (t_frames0 T)) = t_depth T"

definition conf :: "(memory \<Rightarrow> bool) \<Rightarrow> 'p typing \<Rightarrow> 'p ectx \<Rightarrow> nat \<Rightarrow> u8 list \<Rightarrow> stack_elem list \<Rightarrow> stack_elem list \<Rightarrow> stack_elem list \<Rightarrow> bool" where
  "conf ok T c k \<tau> W L S \<longleftrightarrow>
     stack_inv (operands c) \<and> vals (operands c) = W @ L @ rev S \<and> length W = unat (last_op_index c) \<and>
     list_all2 elem_ok (ltypes (emod (t_env T)) k) L \<and> list_all2 elem_ok \<tau> S \<and> calls_fit T c k W \<and> store_fits ok T c"

definition halted :: "(memory \<Rightarrow> bool) \<Rightarrow> 'p typing \<Rightarrow> 'p ectx \<Rightarrow> bool" where
  "halted ok T c \<longleftrightarrow>
     stack_inv (operands c) \<and> stack_inv (frames c) \<and> vals (frames c) = rev (t_frames0 T) \<and>
     (\<exists>R. vals (operands c) = t_vals0 T @ R \<and> list_all2 elem_ok (t_rets0 T) R) \<and>
     unat (remaining_call_depth c) = t_depth T \<and> store_fits ok T c"

definition fits :: "(memory \<Rightarrow> bool) \<Rightarrow> 'p typing \<Rightarrow> 'p ectx \<Rightarrow> bool" where
  "fits ok T c \<longleftrightarrow>
     (case pc c of
        None \<Rightarrow> halted ok T c
      | Some p \<Rightarrow> (\<exists>k \<tau> W L S. t_map T p = Some (k, \<tau>) \<and> conf ok T c k \<tau> W L S))"

subsection \<open>Sequencing\<close>

definition safe :: "('a \<Rightarrow> bool) \<Rightarrow> 'a res \<Rightarrow> bool" where
  "safe P r \<longleftrightarrow> (case r of Inr x \<Rightarrow> P x | Inl e \<Rightarrow> \<not> internal e)"

lemma safe_simps [simp]: "safe P (Inr x) \<longleftrightarrow> P x" "safe P (Inl e) \<longleftrightarrow> \<not> internal e"
  by (simp_all add: safe_def)

lemma safe_bind: "safe (\<lambda>x. safe P (f x)) m \<Longrightarrow> safe P (bindR m f)"
  by (cases m) simp_all

lemma safe_assert: "(b \<Longrightarrow> safe P k) \<Longrightarrow> (\<not> b \<Longrightarrow> \<not> internal e) \<Longrightarrow> safe P (assertR b e k)"
  by (simp add: assertR_def)

lemma safe_mono: "safe P r \<Longrightarrow> (\<And>x. P x \<Longrightarrow> Q x) \<Longrightarrow> safe Q r"
  by (cases r) simp_all

lemma safe_traps: "traps_only r \<Longrightarrow> (\<And>x. r = Inr x \<Longrightarrow> P x) \<Longrightarrow> safe P r"
  by (cases r) simp_all

subsection \<open>Operands\<close>

lemma safe_push:
  "stack_inv (operands c) \<Longrightarrow>
   (\<And>s. stack_inv s \<Longrightarrow> vals s = vals (operands c) @ [v] \<Longrightarrow> P (c\<lparr>operands := s\<rparr>)) \<Longrightarrow> safe P (push_operand v c)"
  using os.push_law [of "operands c" v] by (auto simp: push_operand_def)

lemma safe_pop:
  "stack_inv (operands c) \<Longrightarrow> vals (operands c) = V @ [v] \<Longrightarrow>
   (\<And>s. stack_inv s \<Longrightarrow> vals s = V \<Longrightarrow> P (c\<lparr>operands := s\<rparr>, v)) \<Longrightarrow> safe P (pop_operand c)"
  using os.pop_snoc [of "operands c" V v] by (auto simp: pop_operand_def)

lemma safe_peek:
  "stack_inv (operands c) \<Longrightarrow> i < length (vals (operands c)) \<Longrightarrow> P (rev (vals (operands c)) ! i) \<Longrightarrow>
   safe P (peek_operand i c)"
  using os.peek_law [of "operands c" i] by (simp add: peek_operand_def)

lemma safe_poke:
  "stack_inv (operands c) \<Longrightarrow> vals (operands c) = V @ [u] \<Longrightarrow>
   (\<And>s. stack_inv s \<Longrightarrow> vals s = V @ [v] \<Longrightarrow> P (c\<lparr>operands := s\<rparr>)) \<Longrightarrow> safe P (poke_operand v c)"
  using os.poke_law [of "operands c" 0 v] by (auto simp: poke_operand_def)

lemma safe_get:
  "stack_inv (operands c) \<Longrightarrow> unat (last_op_index c + i) < length (vals (operands c)) \<Longrightarrow>
   P (vals (operands c) ! unat (last_op_index c + i)) \<Longrightarrow> safe P (get_operand i c)"
  using os.get_law [of "operands c"] by (simp add: get_operand_def)

lemma safe_set:
  "stack_inv (operands c) \<Longrightarrow> unat (last_op_index c + i) < length (vals (operands c)) \<Longrightarrow>
   (\<And>s. stack_inv s \<Longrightarrow> vals s = (vals (operands c))[unat (last_op_index c + i) := v] \<Longrightarrow> P (c\<lparr>operands := s\<rparr>)) \<Longrightarrow>
   safe P (set_operand i v c)"
  using os.set_law [of "operands c" "unat (last_op_index c + i)" v] by (auto simp: set_operand_def)

lemma safe_eat:
  "stack_inv (operands c) \<Longrightarrow> unat i \<le> length (vals (operands c)) \<Longrightarrow>
   (\<And>s. stack_inv s \<Longrightarrow> vals s = take (unat i) (vals (operands c)) \<Longrightarrow> P (c\<lparr>operands := s\<rparr>)) \<Longrightarrow>
   safe P (eat_operands i c)"
  using os.eat_law [of "operands c" "unat i"] by (auto simp: eat_operands_def)

subsection \<open>Sizes\<close>

lemma frames_bound:
  assumes "frames_fit T fs W rets" and "frame_bound (t_env T) (t_map T) (t_frame T)"
  shows "length (t_frames0 T) < length fs \<and>
    length W \<le> length (t_vals0 T) + t_frame T * (length fs - length (t_frames0 T) - 1)"
  using assms(1)
proof (induction fs arbitrary: W rets)
  case Nil
  then show ?case by simp
next
  case (Cons af fs)
  show ?case
  proof (cases "frame_pc af")
    case None
    then show ?thesis using Cons.prems by simp
  next
    case (Some r)
    then obtain k \<tau> W' L S where w: "t_map T r = Some (k, rev rets @ \<tau>)" "W = W' @ L @ rev S"
      "list_all2 elem_ok (ltypes (emod (t_env T)) k) L" "list_all2 elem_ok \<tau> S"
      "frames_fit T fs W' (return_types (ftype (emod (t_env T)) k))"
      using Cons.prems by auto
    have "length (ltypes (emod (t_env T)) k) + length (rev rets @ \<tau>) \<le> t_frame T"
      using assms(2) w(1) unfolding frame_bound_def by blast
    then have "length L + length S \<le> t_frame T" using w(3,4) by (auto dest!: list_all2_lengthD)
    moreover have "length (t_frames0 T) < length fs" and
      W': "length W' \<le> length (t_vals0 T) + t_frame T * (length fs - length (t_frames0 T) - 1)"
      using Cons.IH [OF w(5)] by simp_all
    moreover from this have "length (af # fs) - length (t_frames0 T) - 1 = Suc (length fs - length (t_frames0 T) - 1)"
      by simp
    ultimately show ?thesis using w(2) by simp
  qed
qed

lemma conf_size:
  assumes "typing_ok ok T" and "conf ok T c k \<tau> W L S" and "t_map T p = Some (k, \<tau>)"
  shows "length (vals (operands c)) < 2 ^ 32"
proof -
  let ?n = "length (vals (frames c)) - length (t_frames0 T)"
  have fb: "frame_bound (t_env T) (t_map T) (t_frame T)" using assms(1) by (simp add: typing_ok_def)
  have f: "frames_fit T (rev (vals (frames c))) W (return_types (ftype (emod (t_env T)) k))"
    and d: "?n \<le> t_depth T" using assms(2) by (simp_all add: conf_def calls_fit_def)
  have W: "length W \<le> length (t_vals0 T) + t_frame T * (?n - 1)" and n: "0 < ?n"
    using frames_bound [OF f fb] by simp_all
  have "length (ltypes (emod (t_env T)) k) + length \<tau> \<le> t_frame T"
    using fb assms(3) unfolding frame_bound_def by blast
  then have "length L + length S \<le> t_frame T"
    using assms(2) by (auto simp: conf_def dest!: list_all2_lengthD)
  then have "length W + (length L + length S) \<le> length (t_vals0 T) + (t_frame T * (?n - 1) + t_frame T)"
    using W by linarith
  also have "t_frame T * (?n - 1) + t_frame T = t_frame T * ?n"
    using n by (cases ?n) simp_all
  also have "t_frame T * ?n \<le> t_frame T * t_depth T" using d by simp
  finally have "length W + (length L + length S) < 2 ^ 32"
    using assms(1) by (simp add: typing_ok_def)
  then show ?thesis using assms(2) by (simp add: conf_def)
qed

subsection \<open>Moving between configurations\<close>

lemma conf_pc [simp]: "conf ok T (c\<lparr>pc := x\<rparr>) k \<tau> W L S = conf ok T c k \<tau> W L S"
  by (simp add: conf_def calls_fit_def store_fits_def)

lemma confD:
  assumes "conf ok T c k \<tau> W L S"
  shows "stack_inv (operands c)" and "vals (operands c) = W @ L @ rev S" and "list_all2 elem_ok \<tau> S"
    and "list_all2 elem_ok (ltypes (emod (t_env T)) k) L" and "length W = unat (last_op_index c)"
    and "calls_fit T c k W" and "store_fits ok T c"
  using assms by (simp_all add: conf_def)

lemma conf_operands:
  "conf ok T c k \<tau> W L S \<Longrightarrow> stack_inv s \<Longrightarrow> vals s = W @ L @ rev S' \<Longrightarrow> list_all2 elem_ok \<tau>' S' \<Longrightarrow>
   conf ok T (c\<lparr>operands := s\<rparr>) k \<tau>' W L S'"
  by (simp add: conf_def calls_fit_def store_fits_def)

lemma conf_memory:
  "conf ok T c k \<tau> W L S \<Longrightarrow> ok m \<Longrightarrow> conf ok T (c\<lparr>lin_mem := m\<rparr>) k \<tau> W L S"
  by (simp add: conf_def calls_fit_def store_fits_def)

lemma fits_at:
  "t_map T q = Some (k, \<tau>) \<Longrightarrow> conf ok T c k \<tau> W L S \<Longrightarrow> pc c = Some q \<Longrightarrow> fits ok T c"
  by (auto simp: fits_def)

lemma conf_pop:
  assumes "conf ok T c k (t # \<tau>) W L S"
    and "\<And>c' v S'. elem_ok t v \<Longrightarrow> S = v # S' \<Longrightarrow> conf ok T c' k \<tau> W L S' \<Longrightarrow> pc c' = pc c \<Longrightarrow>
      lin_mem c' = lin_mem c \<Longrightarrow> last_op_index c' = last_op_index c \<Longrightarrow> global_values c' = global_values c \<Longrightarrow>
      table_data c' = table_data c \<Longrightarrow> P (c', v)"
  shows "safe P (pop_operand c)"
proof -
  obtain v S' where S: "S = v # S'" "elem_ok t v" "list_all2 elem_ok \<tau> S'"
    using confD(3) [OF assms(1)] by (auto simp: list_all2_Cons1)
  show ?thesis
  proof (rule safe_pop)
    show "stack_inv (operands c)" and "vals (operands c) = (W @ L @ rev S') @ [v]"
      using confD [OF assms(1)] S by simp_all
    show "P (c\<lparr>operands := s\<rparr>, v)" if "stack_inv s" "vals s = W @ L @ rev S'" for s
      by (rule assms(2) [OF S(2,1) conf_operands [OF assms(1) that S(3)]]) simp_all
  qed
qed

lemma conf_push:
  assumes "conf ok T c k \<tau> W L S" and "elem_ok t v"
    and "\<And>c'. conf ok T c' k (t # \<tau>) W L (v # S) \<Longrightarrow> pc c' = pc c \<Longrightarrow> P c'"
  shows "safe P (push_operand v c)"
proof (rule safe_push)
  show "stack_inv (operands c)" using confD [OF assms(1)] by simp
  show "P (c\<lparr>operands := s\<rparr>)" if "stack_inv s" "vals s = vals (operands c) @ [v]" for s
  proof (rule assms(3))
    show "conf ok T (c\<lparr>operands := s\<rparr>) k (t # \<tau>) W L (v # S)"
      using confD(2,3) [OF assms(1)] that assms(2) by (intro conf_operands [OF assms(1)]) simp_all
  qed simp
qed

lemma conf_peek:
  assumes "conf ok T c k (t # \<tau>) W L S" and "\<And>v S'. elem_ok t v \<Longrightarrow> S = v # S' \<Longrightarrow> P v"
  shows "safe P (peek_operand 0 c)"
proof -
  obtain v S' where S: "S = v # S'" "elem_ok t v" using confD(3) [OF assms(1)] by (auto simp: list_all2_Cons1)
  then show ?thesis using confD(1,2) [OF assms(1)] assms(2) by (intro safe_peek) simp_all
qed

lemma conf_poke:
  assumes "conf ok T c k (t # \<tau>) W L S" and "elem_ok t' v"
    and "\<And>c' S'. conf ok T c' k (t' # \<tau>) W L S' \<Longrightarrow> pc c' = pc c \<Longrightarrow> P c'"
  shows "safe P (poke_operand v c)"
proof -
  obtain u S' where S: "S = u # S'" "list_all2 elem_ok \<tau> S'"
    using confD(3) [OF assms(1)] by (auto simp: list_all2_Cons1)
  show ?thesis
  proof (rule safe_poke)
    show "stack_inv (operands c)" and "vals (operands c) = (W @ L @ rev S') @ [u]"
      using confD(1,2) [OF assms(1)] S by simp_all
    show "P (c\<lparr>operands := s\<rparr>)" if "stack_inv s" "vals s = (W @ L @ rev S') @ [v]" for s
      using that S(2) assms(2)
      by (intro assms(3) [of _ "v # S'"] conf_operands [OF assms(1)]) simp_all
  qed
qed

subsection \<open>Branches\<close>

lemma conf_pop_n:
  assumes "conf ok T c k \<tau> W L S" and "n \<le> length \<tau>"
    and "\<And>c'. conf ok T c' k (drop n \<tau>) W L (drop n S) \<Longrightarrow> pc c' = pc c \<Longrightarrow> P (c', take n S)"
  shows "safe P (pop_n n c)"
  using assms
proof (induction n arbitrary: c \<tau> S P)
  case 0
  then show ?case by simp
next
  case (Suc n)
  then obtain t \<tau>' where t: "\<tau> = t # \<tau>'" by (cases \<tau>) auto
  show ?case
    unfolding pop_n.simps
  proof (rule safe_bind, rule conf_pop [OF Suc.prems(1) [unfolded t]])
    fix c1 v S'
    assume c1: "S = v # S'" "conf ok T c1 k \<tau>' W L S'" "pc c1 = pc c"
    have "safe (\<lambda>x. safe P (case x of (c2, vs) \<Rightarrow> Inr (c2, v # vs))) (pop_n n c1)"
    proof (rule Suc.IH [OF c1(2)])
      show "n \<le> length \<tau>'" using Suc.prems(2) t by simp
      fix c2
      assume "conf ok T c2 k (drop n \<tau>') W L (drop n S')" "pc c2 = pc c1"
      then show "safe P (case (c2, take n S') of (c2, vs) \<Rightarrow> Inr (c2, v # vs))"
        using Suc.prems(3) [of c2] t c1 by simp
    qed
    then show "safe P (case (c1, v) of (c1, v) \<Rightarrow> bindR (pop_n n c1) (\<lambda>(c2, vs). Inr (c2, v # vs)))"
      by (simp add: safe_bind)
  qed
qed

lemma conf_push_all:
  assumes "conf ok T c k \<tau> W L S" and "list_all2 elem_ok ts vs"
    and "\<And>c'. conf ok T c' k (rev ts @ \<tau>) W L (rev vs @ S) \<Longrightarrow> pc c' = pc c \<Longrightarrow> P c'"
  shows "safe P (push_all vs c)"
  using assms
proof (induction vs arbitrary: c \<tau> S ts)
  case Nil
  then show ?case by simp
next
  case (Cons v vs)
  then obtain t ts' where t: "ts = t # ts'" "elem_ok t v" "list_all2 elem_ok ts' vs"
    by (auto simp: list_all2_Cons2)
  show ?case
    unfolding push_all.simps
  proof (rule safe_bind, rule conf_push [OF Cons.prems(1) t(2)])
    fix c1
    assume c1: "conf ok T c1 k (t # \<tau>) W L (v # S)" "pc c1 = pc c"
    show "safe P (push_all vs c1)"
      by (rule Cons.IH [OF c1(1) t(3)]) (use Cons.prems(3) t c1 in simp)
  qed
qed

lemma conf_eat:
  assumes "conf ok T c k \<tau> W L S" and "n \<le> length \<tau>"
    and "unat i = length (vals (operands c)) - n"
    and "\<And>c'. conf ok T c' k (drop n \<tau>) W L (drop n S) \<Longrightarrow> pc c' = pc c \<Longrightarrow> P c'"
  shows "safe P (eat_operands i c)"
proof (rule safe_eat)
  note c = confD [OF assms(1)]
  have len: "length S = length \<tau>" using c(3) by (auto dest: list_all2_lengthD)
  show "stack_inv (operands c)" by (rule c(1))
  show "unat i \<le> length (vals (operands c))" using assms(3) by simp
  fix s
  assume s: "stack_inv s" "vals s = take (unat i) (vals (operands c))"
  have "vals s = W @ L @ rev (drop n S)"
    using s(2) assms(2,3) c(2) len by (simp add: take_rev [symmetric] take_append rev_drop)
  then show "P (c\<lparr>operands := s\<rparr>)"
    using c(3) by (intro assms(4) conf_operands [OF assms(1) s(1)] list_all2_dropI) simp_all
qed

lemma op_size_nat: "stack_inv (operands c) \<Longrightarrow> length (vals (operands c)) < 2 ^ 32 \<Longrightarrow> unat (op_size c) = length (vals (operands c))"
  by (simp add: op_size_def length_vals unat_of_nat)

lemma unat_sub_le: "unat b \<le> unat a \<Longrightarrow> unat (a - b :: 'a :: len word) = unat a - unat b"
  by (simp add: unat_sub word_le_nat_alt)

lemma jump_fits:
  assumes ok: "typing_ok ok T" and c: "conf ok T c k \<tau> W L S" and n: "length (vals (operands c)) < 2 ^ 32"
    and fit: "br_fits (\<lambda>\<rho>. t_map T (unat q) = Some (k, \<rho>)) d \<tau>"
  shows "safe (fits ok T) (jump d q c)"
proof -
  define dc where "dc = d AND 0x00FFFFFF"
  define rc where "rc = drop_bit 24 d"
  have le: "unat rc \<le> unat dc" "unat dc \<le> length \<tau>"
    and tgt: "t_map T (unat q) = Some (k, take (unat rc) \<tau> @ drop (unat dc) \<tau>)"
    using fit by (simp_all add: br_fits_def Let_def dc_def rc_def)
  let ?c = "set_relative_pc q c"
  have c0: "conf ok T ?c k \<tau> W L S" and pc0: "pc ?c = Some (unat q)"
    and n0: "length (vals (operands ?c)) < 2 ^ 32" using c n by (simp_all add: set_relative_pc_def)
  have len: "length S = length \<tau>" using confD(3) [OF c] by (auto dest: list_all2_lengthD)
  have types: "list_all2 elem_ok (take m \<tau>) (take m S)" for m using confD(3) [OF c] by (rule list_all2_takeI)
  have eaten: "safe (\<lambda>c2. conf ok T c2 k (drop (unat dc) \<tau>) W L (drop (unat dc) S) \<and> pc c2 = Some (unat q))
      (eat_operands (op_size c1 - (dc - rc)) c1)"
    if "conf ok T c1 k (drop (unat rc) \<tau>) W L (drop (unat rc) S)" "pc c1 = Some (unat q)" for c1
  proof -
    note c1 = confD(1,2) [OF that(1)]
    have d: "unat (dc - rc) = unat dc - unat rc" using le(1) by (rule unat_sub_le)
    have l1: "length (vals (operands c1)) = length (vals (operands c)) - unat rc"
      using c1(2) confD(2) [OF c] le len by simp
    have sz: "unat (op_size c1) = length (vals (operands c)) - unat rc"
      using op_size_nat [OF c1(1)] n l1 by simp
    have "length \<tau> \<le> length (vals (operands c))" using confD(2) [OF c] len by simp
    then have "unat (op_size c1 - (dc - rc)) = length (vals (operands c1)) - (unat dc - unat rc)"
      using le d sz l1 by (subst unat_sub_le) simp_all
    then show ?thesis
      using le that(2) by (intro conf_eat [OF that(1), where n = "unat dc - unat rc"]) simp_all
  qed
  have push: "safe (fits ok T) (push_all (rev (take (unat rc) S)) c2)"
    if "conf ok T c2 k (drop (unat dc) \<tau>) W L (drop (unat dc) S)" "pc c2 = Some (unat q)" for c2
  proof (rule conf_push_all [OF that(1), where ts = "rev (take (unat rc) \<tau>)"])
    show "list_all2 elem_ok (rev (take (unat rc) \<tau>)) (rev (take (unat rc) S))" using types by simp
  qed (use that(2) tgt in \<open>auto intro: fits_at\<close>)
  have j: "jump d q c =
    (if rc = 1 then bindR (pop_operand ?c) (\<lambda>(c1, v). bindR (eat_operands (op_size c1 - (dc - 1)) c1) (push_operand v))
     else if rc > 1 then bindR (pop_n (unat rc) ?c) (\<lambda>(c1, rs).
       bindR (eat_operands (op_size c1 - (dc - rc)) c1) (push_all (rev rs)))
     else eat_operands (op_size ?c - dc) ?c)"
    by (simp add: jump_def Let_def dc_def rc_def)
  have "unat rc = 1 \<or> 1 < unat rc \<or> unat rc = 0" by linarith
  then consider "rc = 1" | "rc > 1" | "rc = 0" by (auto simp: word_less_nat_alt word_unat_eq_iff)
  then show ?thesis
  proof cases
    case 1
    then obtain t \<tau>' where t: "\<tau> = t # \<tau>'" using le by (cases \<tau>) auto
    have b: "safe (fits ok T) (bindR (eat_operands (op_size c1 - (dc - 1)) c1) (push_operand v))"
      if "S = v # S'" "conf ok T c1 k \<tau>' W L S'" "pc c1 = pc ?c" for c1 v S'
    proof (rule safe_bind, rule safe_mono [OF eaten [of c1, unfolded 1]])
      fix x
      assume x: "conf ok T x k (drop (unat dc) \<tau>) W L (drop (unat dc) S) \<and> pc x = Some (unat q)"
      then have "safe (fits ok T) (push_all [v] x)" using push [of x] 1 that(1) by simp
      then show "safe (fits ok T) (push_operand v x)"
        by (cases "push_operand v x") simp_all
    qed (use that t pc0 in simp_all)
    have "safe (fits ok T) (bindR (pop_operand ?c) (\<lambda>(c1, v). bindR (eat_operands (op_size c1 - (dc - 1)) c1) (push_operand v)))"
      by (rule safe_bind, rule conf_pop [OF c0 [unfolded t]]) (simp add: b)
    then show ?thesis unfolding j using 1 by simp
  next
    case 2
    have b: "safe (fits ok T) (bindR (eat_operands (op_size c1 - (dc - rc)) c1) (push_all (rev (take (unat rc) S))))"
      if "conf ok T c1 k (drop (unat rc) \<tau>) W L (drop (unat rc) S)" "pc c1 = pc ?c" for c1
      using push by (intro safe_bind safe_mono [OF eaten]) (use that pc0 in auto)
    have "safe (fits ok T) (bindR (pop_n (unat rc) ?c) (\<lambda>(c1, rs).
       bindR (eat_operands (op_size c1 - (dc - rc)) c1) (push_all (rev rs))))"
      using le by (intro safe_bind conf_pop_n [OF c0]) (simp_all add: b)
    then show ?thesis unfolding j using 2 by auto
  next
    case 3
    then have "safe (fits ok T) (eat_operands (op_size ?c - dc) ?c)"
      using eaten [of ?c] c0 pc0 tgt by (auto elim!: safe_mono intro: fits_at)
    then show ?thesis unfolding j using 3 by simp
  qed
qed

subsection \<open>Instructions on operands and locals\<close>

lemma inc_pc_simps [simp]:
  "conf ok T (inc_pc c) k \<tau> W L S = conf ok T c k \<tau> W L S" "pc (inc_pc c) = map_option Suc (pc c)"
  "lin_mem (inc_pc c) = lin_mem c" "operands (inc_pc c) = operands c" "last_op_index (inc_pc c) = last_op_index c"
  "global_values (inc_pc c) = global_values c" "table_data (inc_pc c) = table_data c" "frames (inc_pc c) = frames c"
  by (simp_all add: inc_pc_def)

lemma local_index:
  assumes "conf ok T c k \<tau> W L S" and "length (vals (operands c)) < 2 ^ 32" and "unat i < length (ltypes (emod (t_env T)) k)"
  shows "unat (last_op_index c + i) = length W + unat i" and "unat i < length L"
    and "elem_ok (ltypes (emod (t_env T)) k ! unat i) (L ! unat i)"
proof -
  show l: "unat i < length L" using confD(4) [OF assms(1)] assms(3) by (simp add: list_all2_lengthD)
  show "elem_ok (ltypes (emod (t_env T)) k ! unat i) (L ! unat i)"
    using confD(4) [OF assms(1)] assms(3) by (simp add: list_all2_conv_all_nth)
  show "unat (last_op_index c + i) = length W + unat i"
    using confD(2,5) [OF assms(1)] assms(2) l by (simp add: unat_word_ariths)
qed

lemma conf_get_local:
  assumes "conf ok T c k \<tau> W L S" and "length (vals (operands c)) < 2 ^ 32" and "unat i < length (ltypes (emod (t_env T)) k)"
    and "\<And>v. elem_ok (ltypes (emod (t_env T)) k ! unat i) v \<Longrightarrow> P v"
  shows "safe P (get_operand i c)"
  using confD(1,2) [OF assms(1)] local_index [OF assms(1-3)] assms(4)
  by (intro safe_get) (simp_all add: nth_append)

lemma conf_set_local:
  assumes "conf ok T c k \<tau> W L S" and "length (vals (operands c)) < 2 ^ 32" and "unat i < length (ltypes (emod (t_env T)) k)"
    and "elem_ok (ltypes (emod (t_env T)) k ! unat i) v"
    and "\<And>c' L'. conf ok T c' k \<tau> W L' S \<Longrightarrow> pc c' = pc c \<Longrightarrow> P c'"
  shows "safe P (set_operand i v c)"
proof (rule safe_set)
  note l = local_index [OF assms(1-3)] and c = confD [OF assms(1)]
  show "stack_inv (operands c)" by (rule c(1))
  show "unat (last_op_index c + i) < length (vals (operands c))" using l c(2) by simp
  fix s
  assume s: "stack_inv s" "vals s = (vals (operands c))[unat (last_op_index c + i) := v]"
  have "vals s = W @ L[unat i := v] @ rev S" using s(2) l c(2) by (simp add: list_update_append)
  moreover have "list_all2 elem_ok (ltypes (emod (t_env T)) k) (L[unat i := v])"
    using c(4) assms(4) l(2) by (auto simp: list_all2_conv_all_nth nth_list_update)
  ultimately show "P (c\<lparr>operands := s\<rparr>)"
    using assms(1) s(1) by (intro assms(5) [of _ "L[unat i := v]"]) (simp_all add: conf_def calls_fit_def store_fits_def)
qed

lemma elem_ok_self [simp]: "elem_ok (elem_ty v) v"
  by (cases v) (simp_all add: elem_ok_def ty_defs)

lemma exec_num_fits:
  assumes c: "conf ok T c k ((if num_binary n then [num_arg n, num_arg n] else [num_arg n]) @ \<rho>) W L S"
    and P: "\<And>c' S'. conf ok T c' k (num_result n # \<rho>) W L S' \<Longrightarrow> pc c' = pc c \<Longrightarrow> P c'"
  shows "safe P (exec_num n c)"
proof (cases "num_binary n")
  case True
  have b: "safe P (bindR (peek_operand 0 c1) (\<lambda>lhs. bindR (num_bin n lhs rhs) (\<lambda>v. poke_operand v c1)))"
    if "conf ok T c1 k (num_arg n # \<rho>) W L S1" "pc c1 = pc c" "elem_ok (num_arg n) rhs" for c1 rhs S1
  proof (rule safe_bind, rule conf_peek [OF that(1)])
    fix lhs
    assume "elem_ok (num_arg n) lhs"
    from num_bin_ok [OF True this that(3)] show "safe P (bindR (num_bin n lhs rhs) (\<lambda>v. poke_operand v c1))"
      using P that by (cases "num_bin n lhs rhs") (auto intro!: conf_poke [OF that(1)])
  qed
  have "safe P (bindR (pop_operand c) (\<lambda>(c1, rhs). bindR (peek_operand 0 c1) (\<lambda>lhs.
      bindR (num_bin n lhs rhs) (\<lambda>v. poke_operand v c1))))"
    by (rule safe_bind, rule conf_pop [where t = "num_arg n" and \<tau> = "num_arg n # \<rho>"]) (use c True b in simp_all)
  then show ?thesis using True by (simp add: exec_num_def)
next
  case False
  have "safe P (bindR (peek_operand 0 c) (\<lambda>oper. bindR (num_un n oper) (\<lambda>v. poke_operand v c)))"
  proof (rule safe_bind, rule conf_peek)
    show c1: "conf ok T c k (num_arg n # \<rho>) W L S" using c False by simp
    fix v
    assume "elem_ok (num_arg n) v"
    from num_un_ok [OF False this] show "safe P (bindR (num_un n v) (\<lambda>v. poke_operand v c))"
      using P by (cases "num_un n v") (auto intro!: conf_poke [OF c1])
  qed
  then show ?thesis using False by (simp add: exec_num_def)
qed

lemma exec_select_fits:
  assumes c: "conf ok T c k (ty_i32 # t # t # \<rho>) W L S"
    and P: "\<And>c' S'. conf ok T c' k (t # \<rho>) W L S' \<Longrightarrow> pc c' = pc c \<Longrightarrow> P c'"
  shows "safe P (exec_select c)"
proof -
  have b: "safe P (if b = 0 then poke_operand v c2 else Inr c2)"
    if "conf ok T c2 k (t # \<rho>) W L S2" "pc c2 = pc c" "elem_ok t v" for b :: u32 and v c2 S2
    using P that by (auto intro!: conf_poke [OF that(1,3)])
  show ?thesis
    unfolding exec_select_def
    by (rule safe_bind, rule conf_pop [OF c], clarsimp, rule safe_bind, rule conf_pop, assumption) (simp add: b)
qed

subsection \<open>Globals and tables\<close>

lemma module_okD:
  assumes "module_ok m"
  shows "i < length (types m) \<Longrightarrow> func_type_ok (types m ! i)" and "i < length (func_list m) \<Longrightarrow> func_list m ! i < length (types m)"
    and "i < length (import_types m) \<Longrightarrow> import_types m ! i < length (types m)"
    and "length (body_list m) = length (func_list m)"
    and "i < length (body_list m) \<Longrightarrow> l \<in> set (locals (body_list m ! i)) \<Longrightarrow> value_type (local_type l)"
    and "i < length (tables m) \<Longrightarrow> tables m ! i \<in> {ty_funcref, ty_externref}"
    and "i < length (globals m) \<Longrightarrow> value_type (content_type (globals m ! i))"
    and "\<not> stack_limit_is_bytes m"
  using assms by (auto simp: module_ok_def list_all_length in_set_conv_nth)

lemma conf_globals:
  "conf ok T c k \<tau> W L S \<Longrightarrow> length gv = length (global_values c) \<Longrightarrow> conf ok T (c\<lparr>global_values := gv\<rparr>) k \<tau> W L S"
  by (simp add: conf_def calls_fit_def store_fits_def)

lemma conf_tables:
  "conf ok T c k \<tau> W L S \<Longrightarrow> length td = length (table_data c) \<Longrightarrow> conf ok T (c\<lparr>table_data := td\<rparr>) k \<tau> W L S"
  by (simp add: conf_def calls_fit_def store_fits_def)

lemma get_global_ok:
  assumes "module_ok (emod (t_env T))" and "store_fits ok T c" and "i < length (globals (emod (t_env T)))"
  shows "safe (elem_ok (content_type (globals (emod (t_env T)) ! i))) (get_global (t_env T) i c)"
  using module_okD(7) [OF assms(1,3)] assms(2,3)
  by (auto simp: get_global_def store_fits_def value_type_def ty_defs elem_ok_def Let_def)

lemma set_global_fits:
  assumes "conf ok T c k \<tau> W L S" and "i < length (globals (emod (t_env T)))" and "mutability (globals (emod (t_env T)) ! i)"
    and "elem_ok (content_type (globals (emod (t_env T)) ! i)) v" and "value_type (content_type (globals (emod (t_env T)) ! i))"
    and P: "\<And>c'. conf ok T c' k \<tau> W L S \<Longrightarrow> pc c' = pc c \<Longrightarrow> P c'"
  shows "safe P (set_global (t_env T) i v c)"
proof -
  have len: "i < length (global_values c)" using confD(7) [OF assms(1)] assms(2) by (simp add: store_fits_def)
  have st: "safe P (store_global i x c)" for x
    unfolding store_global_def using len by (simp add: P conf_globals [OF assms(1)])
  have "safe P (set_global (t_env T) i v c)" if "content_type (globals (emod (t_env T)) ! i) = t" "elem_ok t v" "value_type t" for t
    using that assms(2,3) st by (cases v) (auto simp: set_global_def value_type_def elem_ok_def ty_defs)
  then show ?thesis using assms(4,5) by simp
qed

lemma table_get_fits:
  assumes "conf ok T c k (ty_i32 # \<rho>) W L S" and "module_ok (emod (t_env T))" and "i < length (tables (emod (t_env T)))"
    and P: "\<And>c' S'. conf ok T c' k (tables (emod (t_env T)) ! i # \<rho>) W L S' \<Longrightarrow> pc c' = pc c \<Longrightarrow> P c'"
  shows "safe P (exec_table_get i c)"
proof -
  have t: "elem_ok (tables (emod (t_env T)) ! i) (i32_const v)" for v using module_okD(6) [OF assms(2,3)] by auto
  have len: "i < length (table_data c)" using confD(7) [OF assms(1)] assms(3) by (simp add: store_fits_def)
  show ?thesis
    unfolding exec_table_get_def table_size_of_def
    by (rule safe_bind, rule conf_peek [OF assms(1)])
       (use len in \<open>auto simp: wie_exn_def internal_msgs_def intro!: safe_bind safe_assert conf_poke [OF assms(1) t] P\<close>)
qed

lemma table_set_fits:
  assumes "conf ok T c k (tables (emod (t_env T)) ! i # ty_i32 # \<rho>) W L S" and "module_ok (emod (t_env T))"
    and "i < length (tables (emod (t_env T)))"
    and P: "\<And>c' S'. conf ok T c' k \<rho> W L S' \<Longrightarrow> pc c' = pc c \<Longrightarrow> P c'"
  shows "safe P (exec_table_set i c)"
proof -
  have t: "elem_ok (tables (emod (t_env T)) ! i) v \<Longrightarrow> \<exists>w. v = i32_const w" for v using module_okD(6) [OF assms(2,3)] by auto
  have len: "i < length (table_data c)" using confD(7) [OF assms(1)] assms(3) by (simp add: store_fits_def)
  have u: "P (c2\<lparr>table_data := (table_data c2)[i := y]\<rparr>)"
    if "conf ok T c2 k \<rho> W L S2" "pc c2 = pc c" for c2 S2 y
    using P [OF conf_tables [OF that(1)]] that(2) by simp
  show ?thesis
    unfolding exec_table_set_def table_size_of_def
  proof (rule safe_bind, rule conf_pop [OF assms(1)], drule t, clarsimp, rule safe_bind, rule conf_pop, assumption)
    fix c1 w S1 c2 v S2
    assume "elem_ok ty_i32 v" and c2: "conf ok T c2 k \<rho> W L S2" "pc c2 = pc c1" "table_data c2 = table_data c1"
      and c1: "pc c1 = pc c" "table_data c1 = table_data c"
    then obtain j where "v = i32_const j" by auto
    then show "safe P (case (c2, v) of (c2, i') \<Rightarrow> bindR (to_ui32 i') (\<lambda>idx.
        bindR (assertR (i < length (table_data c2)) (wie_exn ''table index out of range'') (Inr (length (table_data c2 ! i))))
         (\<lambda>n. assertR (unat idx < n) (wie_exn ''table index out of range'')
           (Inr (c2\<lparr>table_data := (table_data c2)[i := (table_data c2 ! i)[unat idx := w]]\<rparr>)))))"
      using len c1 c2 u [OF c2(1)] by (auto simp: wie_exn_def internal_msgs_def intro!: safe_assert)
  qed
qed

subsection \<open>Memory\<close>

text \<open>What the machine needs of its memory beyond containment of single accesses.\<close>

locale guest_vm = guest_memory +
  assumes ok_grow: "ok m \<Longrightarrow> grow_linear_memory d m = Inr (m', r) \<Longrightarrow> ok m'"
    and grow_traps: "ok m \<Longrightarrow> traps_only (grow_linear_memory d m)"
    and ok_watermark: "ok m \<Longrightarrow> validate_read_watermark m = Inr m' \<Longrightarrow> ok m'"
    and ok_32: "ok m \<Longrightarrow> \<not> is_memory64 m"

lemma alloc_page: "0 \<le> page al \<Longrightarrow> alloc n al = Inr al' \<Longrightarrow>
    0 \<le> page al' \<and> external al' = external al \<and> os_page al' = os_page al"
  by (cases "n = 0")
     (auto simp: alloc_def zero_range_def protect_def update_stored_mem_size_def res_simps Let_def split: if_splits)

lemma alloc_traps: "traps_only (alloc n al)"
  by (simp add: alloc_def mprotect_failed_def Let_def)

lemma grow_traps_only: "traps_only (grow_linear_memory d m)"
  using alloc_traps [of "unat d" "wasm_alloc m"]
  by (cases "alloc (unat d) (wasm_alloc m)") (auto simp: grow_linear_memory_def Let_def)

lemma grow_result:
  "grow_linear_memory d m = Inr (m', r) \<Longrightarrow> m' = m \<or> (\<exists>al. alloc (unat d) (wasm_alloc m) = Inr al \<and> m' = m\<lparr>wasm_alloc := al\<rparr>)"
  by (auto simp: grow_linear_memory_def Let_def bindR_eq_Inr split: if_splits)

lemma watermark_result:
  "validate_read_watermark m = Inr m' \<Longrightarrow> m' = m \<or> m' = m\<lparr>read_watermark := 0\<rparr>"
  by (auto simp: validate_read_watermark_def split: if_splits)

lemma watermark_traps: "traps_only (validate_read_watermark m)"
  by (simp add: validate_read_watermark_def)

interpretation guarded_vm: guest_vm guarded_ok
proof
  fix m m' d r
  assume ok: "guarded_ok m"
  {
    assume "grow_linear_memory d m = Inr (m', r)"
    from grow_result [OF this] show "guarded_ok m'"
      using ok alloc_page alloc_keeps_inv by (fastforce simp: guarded_ok_def is_memory64_def)
  }
  show "traps_only (grow_linear_memory d m)" by (rule grow_traps_only)
  {
    assume "validate_read_watermark m = Inr m'"
    from watermark_result [OF this] show "guarded_ok m'" using ok by (auto simp: guarded_ok_def is_memory64_def)
  }
  show "\<not> is_memory64 m" using ok by (simp add: guarded_ok_def)
qed

interpretation checked_vm: guest_vm checked_ok
proof
  fix m m' d r
  assume ok: "checked_ok m"
  {
    assume "grow_linear_memory d m = Inr (m', r)"
    from grow_result [OF this] show "checked_ok m'"
      using ok alloc_page alloc_keeps_inv by (fastforce simp: checked_ok_def is_memory64_def)
  }
  show "traps_only (grow_linear_memory d m)" by (rule grow_traps_only)
  {
    assume "validate_read_watermark m = Inr m'"
    from watermark_result [OF this] show "checked_ok m'" using ok by (auto simp: checked_ok_def is_memory64_def)
  }
  show "\<not> is_memory64 m" using ok by (simp add: checked_ok_def)
qed

lemma load_size_bounds: "0 < load_size l \<and> load_size l \<le> 16"
  by (cases l) simp_all

lemma load_value_ok: "elem_ok (load_type l) (load_value l bs)"
  by (cases l) (simp_all add: load_type_def)

lemma store_value_ok:
  "elem_ok (store_type s) v \<Longrightarrow> \<exists>bs. store_value s v = Inr bs \<and> 0 < length bs \<and> length bs \<le> 16"
  by (cases s) (auto simp: store_type_def simp del: length_greater_0_conv)

lemma memory_ok: "conf ok T c k \<tau> W L S \<Longrightarrow> memories (emod (t_env T)) \<noteq> [] \<Longrightarrow> ok (lin_mem c)"
  by (simp add: conf_def store_fits_def)

context guest_vm
begin

lemma load_safe:
  assumes "ok m" and "0 < n" and "n \<le> 16"
  shows "safe (\<lambda>(m', bs). m' = m) (mem_load off n (i32_const a) m)"
  using load_inside [OF assms, of off a] load_outside [OF assms, of off a]
  by (cases "ea off a + n \<le> mem_bytes (wasm_alloc m)") (auto simp: not_le)

lemma store_safe:
  assumes "ok m" and "0 < length bs" and "length bs \<le> 16"
  shows "safe ok (mem_store off (i32_const a) bs m)"
  using store_inside [OF assms, of off a] store_outside [OF assms, of off a] ok_store [OF assms(1)]
  by (cases "ea off a + length bs \<le> mem_bytes (wasm_alloc m)") (auto simp: not_le)

lemma exec_load_fits:
  assumes "conf ok T c k (ty_i32 # \<rho>) W L S" and "memories (emod (t_env T)) \<noteq> []"
    and P: "\<And>c' S'. conf ok T c' k (load_type l # \<rho>) W L S' \<Longrightarrow> pc c' = pc c \<Longrightarrow> P c'"
  shows "safe P (exec_load l off c)"
proof -
  have b: "safe P (bindR (mem_load off (load_size l) (i32_const v) mm)
        (\<lambda>(m, bs). push_operand (load_value l bs) (c1\<lparr>lin_mem := m\<rparr>)))"
    if c1: "conf ok T c1 k \<rho> W L S1" and "pc c1 = pc c" and mm: "lin_mem c1 = mm" for c1 v S1 mm
  proof (rule safe_bind, rule safe_mono [OF load_safe])
    show "ok mm" using memory_ok [OF c1 assms(2)] mm by simp
    fix x :: "memory \<times> u8 list"
    assume "case x of (m', bs) \<Rightarrow> m' = mm"
    then show "safe P (case x of (m, bs) \<Rightarrow> push_operand (load_value l bs) (c1\<lparr>lin_mem := m\<rparr>))"
      using that by (cases x) (auto intro!: conf_push [OF c1 load_value_ok] P)
  qed (use load_size_bounds in simp_all)
  show ?thesis
    unfolding exec_load_def by (rule safe_bind, rule conf_pop [OF assms(1)]) (auto intro: b)
qed

lemma exec_store_fits:
  assumes "conf ok T c k (store_type s # ty_i32 # \<rho>) W L S" and "memories (emod (t_env T)) \<noteq> []"
    and P: "\<And>c' S'. conf ok T c' k \<rho> W L S' \<Longrightarrow> pc c' = pc c \<Longrightarrow> P c'"
  shows "safe P (exec_store s off c)"
proof -
  have b: "safe P (bindR (store_value s v) (\<lambda>bs. bindR (mem_store off (i32_const a) bs mm) (\<lambda>m. Inr (c2\<lparr>lin_mem := m\<rparr>))))"
    if c2: "conf ok T c2 k \<rho> W L S2" and "pc c2 = pc c" and v: "elem_ok (store_type s) v" and mm: "lin_mem c2 = mm"
    for c2 v a S2 mm
  proof -
    obtain bs where bs: "store_value s v = Inr bs" "0 < length bs" "length bs \<le> 16"
      using store_value_ok [OF v] by auto
    have "safe P (bindR (mem_store off (i32_const a) bs mm) (\<lambda>m. Inr (c2\<lparr>lin_mem := m\<rparr>)))"
      using P [OF conf_memory [OF c2]] that(2)
      by (intro safe_bind safe_mono [OF store_safe [OF memory_ok [OF c2 assms(2), unfolded mm] bs(2,3)]]) simp
    then show ?thesis using bs(1) by simp
  qed
  show ?thesis
    unfolding exec_store_def
    by (rule safe_bind, rule conf_pop [OF assms(1)], clarsimp, rule safe_bind, rule conf_pop, assumption) (auto intro: b)
qed

lemma exec_grow_fits:
  assumes "conf ok T c k (ty_i32 # \<rho>) W L S" and "memories (emod (t_env T)) \<noteq> []"
    and P: "\<And>c' S'. conf ok T c' k (ty_i32 # \<rho>) W L S' \<Longrightarrow> pc c' = pc c \<Longrightarrow> P c'"
  shows "safe P (exec_grow_memory c)"
proof -
  have m: "ok (lin_mem c)" by (rule memory_ok [OF assms(1,2)])
  have "safe P (bindR (grow_linear_memory d (lin_mem c)) (\<lambda>(m, r). poke_operand (i32_const r) (c\<lparr>lin_mem := m\<rparr>)))" for d
  proof (rule safe_bind, rule safe_traps [OF grow_traps [OF m]])
    fix x
    assume "grow_linear_memory d (lin_mem c) = Inr x"
    then show "safe P (case x of (m, r) \<Rightarrow> poke_operand (i32_const r) (c\<lparr>lin_mem := m\<rparr>))"
      using P by (cases x) (auto intro!: conf_poke [OF conf_memory [OF assms(1) ok_grow [OF m]], where t' = ty_i32])
  qed
  then show ?thesis
    unfolding exec_grow_memory_def using ok_32 [OF m]
    by (intro safe_bind conf_peek [OF assms(1)]) auto
qed

lemma exec_current_fits:
  assumes "conf ok T c k \<rho> W L S" and "memories (emod (t_env T)) \<noteq> []"
    and P: "\<And>c' S'. conf ok T c' k (ty_i32 # \<rho>) W L S' \<Longrightarrow> pc c' = pc c \<Longrightarrow> P c'"
  shows "safe P (exec_current_memory c)"
  using ok_32 [OF memory_ok [OF assms(1,2)]] P
  by (auto simp: exec_current_memory_def Let_def intro!: conf_push [OF assms(1)])

lemma check_watermark_fits:
  assumes "conf ok T c k \<tau> W L S" and P: "\<And>c'. conf ok T c' k \<tau> W L S \<Longrightarrow> pc c' = pc c \<Longrightarrow> P c'"
  shows "safe P (check_watermark c)"
proof -
  have "conf ok T (c\<lparr>lin_mem := m\<rparr>) k \<tau> W L S" if "validate_read_watermark (lin_mem c) = Inr m" for m
    using assms(1) ok_watermark [OF _ that] by (simp add: conf_def calls_fit_def store_fits_def)
  then show ?thesis
    unfolding check_watermark_def using P
    by (intro safe_bind safe_traps [OF watermark_traps]) simp
qed

end

subsection \<open>Returning\<close>

lemma safe_compact_n:
  "stack_inv (operands c) \<Longrightarrow> unat i + unat n \<le> length (vals (operands c)) \<Longrightarrow>
   (\<And>s. stack_inv s \<Longrightarrow> vals s = take (unat i) (vals (operands c)) @ drop (length (vals (operands c)) - unat n) (vals (operands c)) \<Longrightarrow>
     P (c\<lparr>operands := s\<rparr>)) \<Longrightarrow> safe P (compact_operand_n i n c)"
  using os.compact_law [of "operands c" "unat i" "unat n"] by (auto simp: compact_operand_n_def)

lemma compact_operand_one:
  "stack_inv (operands c) \<Longrightarrow> unat i + 1 \<le> length (vals (operands c)) \<Longrightarrow> compact_operand i c = compact_operand_n i 1 c"
  by (simp add: compact_operand_def compact_operand_n_def compact_eq length_vals)

text \<open>The three ways of \<open>apply_pop_call\<close> to drop the callee's locals from under its results agree.\<close>

lemma return_operands:
  assumes c: "conf ok T c k (rev rets) W L S" and n: "length (vals (operands c)) < 2 ^ 32"
    and nl: "unat nl = length L" and rc: "unat rc = length rets"
    and "operands c1 = operands c"
    and P: "\<And>s R. stack_inv s \<Longrightarrow> vals s = W @ R \<Longrightarrow> list_all2 elem_ok rets R \<Longrightarrow> P (c1\<lparr>operands := s\<rparr>)"
  shows "safe P (if rc = 1 then compact_operand (op_size c1 - nl - 1) c1
            else if rc > 1 then compact_operand_n (op_size c1 - nl - rc) rc c1
            else eat_operands (op_size c1 - nl) c1)"
proof -
  note cd = confD [OF c]
  have R: "list_all2 elem_ok rets (rev S)" and len: "length S = length rets"
    using cd(3) by (simp_all add: list_all2_rev1 list_all2_lengthD)
  have inv: "stack_inv (operands c1)" and v: "vals (operands c1) = W @ L @ rev S"
    using cd(1,2) assms(5) by simp_all
  have sz: "unat (op_size c1) = length W + length L + length rets"
    using op_size_nat [OF inv] n v cd(2) len by simp
  have d1: "unat (op_size c1 - nl) = length W + length rets"
    using sz nl by (subst unat_sub_le) simp_all
  have d2: "unat (op_size c1 - nl - rc) = length W"
    using d1 rc by (subst unat_sub_le) simp_all
  have cn: "safe P (compact_operand_n (op_size c1 - nl - rc) rc c1)"
  proof (rule safe_compact_n [OF inv])
    show "unat (op_size c1 - nl - rc) + unat rc \<le> length (vals (operands c1))" using d2 rc v len by simp
    fix s
    assume s: "stack_inv s" "vals s = take (unat (op_size c1 - nl - rc)) (vals (operands c1)) @
      drop (length (vals (operands c1)) - unat rc) (vals (operands c1))"
    have "vals s = W @ rev S" using s(2) d2 rc v len by simp
    then show "P (c1\<lparr>operands := s\<rparr>)" by (rule P [OF s(1) _ R])
  qed
  have "unat rc = 1 \<or> 1 < unat rc \<or> unat rc = 0" by linarith
  then consider "rc = 1" | "rc > 1" | "rc = 0" by (auto simp: word_less_nat_alt word_unat_eq_iff)
  then show ?thesis
  proof cases
    case 1
    then have "compact_operand (op_size c1 - nl - rc) c1 = compact_operand_n (op_size c1 - nl - rc) rc c1"
      using compact_operand_one [OF inv, of "op_size c1 - nl - rc"] d2 rc v len by simp
    then show ?thesis using cn 1 by simp
  next
    case 2
    then show ?thesis using cn by auto
  next
    case 3
    then have r0: "rets = []" "S = []" using rc len by auto
    have "safe P (eat_operands (op_size c1 - nl) c1)"
    proof (rule safe_eat [OF inv])
      show "unat (op_size c1 - nl) \<le> length (vals (operands c1))" using d1 v len by simp
      fix s
      assume "stack_inv s" "vals s = take (unat (op_size c1 - nl)) (vals (operands c1))"
      then show "P (c1\<lparr>operands := s\<rparr>)" using P [of s "[]"] d1 v r0 by simp
    qed
    then show ?thesis using 3 by simp
  qed
qed

lemma return_fits:
  assumes ok: "typing_ok ok T" and c: "conf ok T c k (rev (return_types (ftype (emod (t_env T)) k))) W L S"
    and n: "length (vals (operands c)) < 2 ^ 32" and nl: "unat nl = length (ltypes (emod (t_env T)) k)"
    and rc: "unat rc = length (return_types (ftype (emod (t_env T)) k))"
  shows "safe (fits ok T) (apply_pop_call nl rc c)"
proof -
  let ?rets = "return_types (ftype (emod (t_env T)) k)"
  note cf = confD(6) [OF c, unfolded calls_fit_def]
  obtain af fs where fs: "rev (vals (frames c)) = af # fs" and ff: "frames_fit T (af # fs) W ?rets"
    using cf by (cases "rev (vals (frames c))") auto
  then have vf: "vals (frames c) = rev fs @ [af]" by (simp add: rev_eq_Cons_iff)
  obtain s' where s': "pop (frames c) = Inr (s', af)" "stack_inv s'" "vals s' = rev fs"
    using os.pop_snoc [of "frames c" "rev fs" af] vf cf by auto
  have fb: "frame_bound (t_env T) (t_map T) (t_frame T)" and D: "t_depth T < 2 ^ 32"
    using ok by (simp_all add: typing_ok_def)
  have lt: "length (t_frames0 T) < length (af # fs)" using frames_bound [OF ff fb] by simp
  have size1: "frame_size af = 1" using ff by simp
  have rem: "unat (remaining_call_depth c) + (length (af # fs) - length (t_frames0 T)) = t_depth T"
    using cf vf by simp
  then have rem1: "unat (remaining_call_depth c + 1) = unat (remaining_call_depth c) + 1"
    using lt D by (simp add: unat_word_ariths)
  define c1 where "c1 = c\<lparr>frames := s', pc := frame_pc af, last_op_index := frame_last_op_index af\<rparr>"
  have done_fits: "fits ok T (c1\<lparr>operands := s, remaining_call_depth := remaining_call_depth c1 + 1\<rparr>)"
    if "stack_inv s" "vals s = W @ R" "list_all2 elem_ok ?rets R" for s R
  proof (cases "frame_pc af")
    case None
    then have "fs = t_frames0 T" "W = t_vals0 T" "?rets = t_rets0 T" using ff by simp_all
    then show ?thesis
      using None that s' rem rem1 confD(7) [OF c]
      by (simp add: fits_def halted_def c1_def store_fits_def)
  next
    case (Some r)
    then obtain k' \<tau> W' L' S' where w: "t_map T r = Some (k', rev ?rets @ \<tau>)" "W = W' @ L' @ rev S'"
      "length W' = unat (frame_last_op_index af)" "list_all2 elem_ok (ltypes (emod (t_env T)) k') L'"
      "list_all2 elem_ok \<tau> S'" "frames_fit T fs W' (return_types (ftype (emod (t_env T)) k'))"
      using ff by auto
    have "length (t_frames0 T) < length fs" using frames_bound [OF w(6) fb] by simp
    then have "unat (remaining_call_depth c) + 1 + (length fs - length (t_frames0 T)) = t_depth T" using rem by simp
    then have "conf ok T (c1\<lparr>operands := s, remaining_call_depth := remaining_call_depth c1 + 1\<rparr>) k'
        (rev ?rets @ \<tau>) W' L' (rev R @ S')"
      using that w s' rem1 confD(7) [OF c]
      by (simp add: conf_def calls_fit_def c1_def store_fits_def list_all2_appendI)
    then show ?thesis using Some w(1) by (intro fits_at [of T r]) (simp_all add: c1_def)
  qed
  have L: "unat nl = length L" using nl confD(4) [OF c] by (auto dest: list_all2_lengthD)
  show ?thesis
    unfolding apply_pop_call_def s'(1) bindR_Inr prod.case Let_def c1_def [symmetric]
  proof (rule safe_bind, rule return_operands [OF c n L rc])
    fix s R
    assume "stack_inv s" "vals s = W @ R" "list_all2 elem_ok ?rets R"
    from done_fits [OF this] show "safe (fits ok T) (Inr (c1\<lparr>operands := s, remaining_call_depth :=
        remaining_call_depth (c1\<lparr>operands := s\<rparr>) + frame_size af\<rparr>))"
      using size1 by simp
  qed (simp add: c1_def)
qed

end
