(* ===== verification/Code_Safety.thy ===== *)
theory Code_Safety
  imports Code_Typing
begin

text \<open>
  Type safety of the interpreter, on the typing of \<^emph>\<open>Code_Typing\<close>: entering a function, the three kinds of
  call, one step of the dispatch loop, and a whole \<^const>\<open>execute\<close>.
\<close>

subsection \<open>Entering a function\<close>

lemma zero_of_ok: "value_type t \<Longrightarrow> \<exists>z. zero_of t = Inr z \<and> elem_ok t z"
  by (auto simp: value_type_def zero_of_def elem_ok_def ty_defs)

lemma push_zeros_ok:
  assumes "value_type t" and "stack_inv (operands c)"
  shows "\<exists>s zs. push_zeros n t c = Inr (c\<lparr>operands := s\<rparr>) \<and> stack_inv s \<and> vals s = vals (operands c) @ zs \<and>
    list_all2 elem_ok (replicate n t) zs"
  using assms(2)
proof (induction n arbitrary: c)
  case 0
  then show ?case by (intro exI [of _ "operands c"]) simp
next
  case (Suc n)
  obtain z where z: "zero_of t = Inr z" "elem_ok t z" using zero_of_ok [OF assms(1)] by blast
  obtain s1 where s1: "push_operand z c = Inr (c\<lparr>operands := s1\<rparr>)" "stack_inv s1" "vals s1 = vals (operands c) @ [z]"
    using os.push_law [OF Suc.prems, of z] by (auto simp: push_operand_def)
  then obtain s zs where "push_zeros n t (c\<lparr>operands := s1\<rparr>) = Inr (c\<lparr>operands := s\<rparr>)" "stack_inv s" "vals s = vals s1 @ zs"
    "list_all2 elem_ok (replicate n t) zs"
    using Suc.IH [of "c\<lparr>operands := s1\<rparr>"] by auto
  then show ?case using z s1 by (intro exI [of _ s] exI [of _ "z # zs"]) simp
qed

lemma push_locals_ok:
  assumes "\<forall>l \<in> set ls. value_type (local_type l)" and "stack_inv (operands c)"
  shows "\<exists>s zs. push_locals ls c = Inr (c\<lparr>operands := s\<rparr>) \<and> stack_inv s \<and> vals s = vals (operands c) @ zs \<and>
    list_all2 elem_ok (expand_locals ls) zs"
  using assms
proof (induction ls arbitrary: c)
  case Nil
  then show ?case by (intro exI [of _ "operands c"]) (simp add: expand_locals_def)
next
  case (Cons l ls)
  have vt: "value_type (local_type l)" using Cons.prems(1) by simp
  obtain s1 zs1 where s1: "push_zeros (unat (local_count l)) (local_type l) c = Inr (c\<lparr>operands := s1\<rparr>)" "stack_inv s1"
    "vals s1 = vals (operands c) @ zs1" "list_all2 elem_ok (replicate (unat (local_count l)) (local_type l)) zs1"
    using push_zeros_ok [OF vt Cons.prems(2)] by blast
  obtain s zs where "push_locals ls (c\<lparr>operands := s1\<rparr>) = Inr (c\<lparr>operands := s\<rparr>)" "stack_inv s" "vals s = vals s1 @ zs"
    "list_all2 elem_ok (expand_locals ls) zs"
    using Cons.IH [of "c\<lparr>operands := s1\<rparr>"] Cons.prems(1) s1(2) by auto
  then show ?case
    using s1 by (intro exI [of _ s] exI [of _ "zs1 @ zs"]) (simp add: expand_locals_def list_all2_appendI)
qed

text \<open>A defined function: its body, type and entry.\<close>

lemma defined_function:
  assumes m: "module_ok m" and "get_imported_functions_size m \<le> f" and "f < get_functions_total m"
  shows "f - get_imported_functions_size m < length (func_list m)"
    and "get_function_type m f = Inr (ftype m (f - get_imported_functions_size m))"
    and "get_function_stack_size m f = Inr 1"
    and "get_function_pc m f = Inr (body_code (body_list m ! (f - get_imported_functions_size m)))"
  using assms module_okD [OF m]
  by (auto simp: get_functions_total_def get_function_type_def types_at_def ftype_def get_function_stack_size_def
      get_function_pc_def body_at_def assertR_def)

lemma body_of_defined:
  assumes "module_ok (emod E)" and "get_imported_functions_size (emod E) \<le> f" and "f < get_functions_total (emod E)"
  shows "body_of E f = Inr (body_list (emod E) ! (f - get_imported_functions_size (emod E)))"
  using assms defined_function(1) [OF assms] module_okD(4) [OF assms(1)] by (simp add: body_of_def)

lemma setup_locals_ok:
  assumes "module_ok (emod E)" and "get_imported_functions_size (emod E) \<le> f" and "f < get_functions_total (emod E)"
    and "stack_inv (operands c)"
  shows "\<exists>s zs. setup_locals E f c = Inr (c\<lparr>operands := s\<rparr>) \<and> stack_inv s \<and> vals s = vals (operands c) @ zs \<and>
    list_all2 elem_ok (expand_locals (locals (body_list (emod E) ! (f - get_imported_functions_size (emod E))))) zs"
  using push_locals_ok [OF _ assms(4)] body_of_defined [OF assms(1-3)] module_okD(4,5) [OF assms(1)]
    defined_function(1) [OF assms(1-3)]
  by (simp add: setup_locals_def)

lemma charge_fits:
  assumes "embedder_ok ok E" and "\<And>g u. P (c\<lparr>gas := g, gas_user := u\<rparr>)"
  shows "safe P (charge E cost c)"
proof -
  obtain g u r where r: "gas_charge (gas_handler_of E) (word_of_int cost) (gas c) (gas_user c) = (g, u, r)"
    by (cases "gas_charge (gas_handler_of E) (word_of_int cost) (gas c) (gas_user c)")
  have "\<not> internal e" if "r = Inl e" for e
  proof (cases "gas_handler_of E")
    case None
    then show ?thesis using r that by (auto simp: gas_charge_def Let_def split: if_splits)
  next
    case (Some h)
    then have "h g0 u0 = (g, u, Inl e) \<Longrightarrow> \<not> internal e" for g0 u0 using assms(1) unfolding embedder_ok_def by blast
    then show ?thesis using Some r that by (simp add: gas_charge_def Let_def split: if_splits)
  qed
  moreover have "charge E cost c = (case r of Inr _ \<Rightarrow> Inr (c\<lparr>gas := g, gas_user := u\<rparr>) | Inl e \<Rightarrow> Inl e)"
    unfolding charge_def r by (cases r) simp_all
  ultimately show ?thesis using assms(2) [of u g] by (simp split: sum.split)
qed

lemma conf_gas [simp]: "conf ok T (c\<lparr>gas := g, gas_user := u\<rparr>) k \<tau> W L S = conf ok T c k \<tau> W L S"
  by (simp add: conf_def calls_fit_def store_fits_def)

text \<open>A state in which the arguments of function \<open>f\<close> are on top of the operands \<open>V\<close>, and the frame it
  will return to has been checked, enters the function.\<close>

lemma enter_function:
  assumes ok: "typing_ok ok T" and f: "get_imported_functions_size (emod (t_env T)) \<le> f" "f < get_functions_total (emod (t_env T))"
    and inv: "stack_inv (operands c)" "stack_inv (frames c)" and v: "vals (operands c) = V @ A"
    and A: "list_all2 elem_ok (param_types (ftype (emod (t_env T)) (f - get_imported_functions_size (emod (t_env T))))) A"
    and n: "1 \<le> remaining_call_depth c \<Longrightarrow> length (vals (operands c)) < 2 ^ 32"
    and ff: "frames_fit T (\<lparr>frame_pc = ret, frame_last_op_index = last_op_index c, frame_size = 1\<rparr> # rev (vals (frames c))) V
      (return_types (ftype (emod (t_env T)) (f - get_imported_functions_size (emod (t_env T)))))"
    and rem: "unat (remaining_call_depth c) + (length (vals (frames c)) - length (t_frames0 T)) = t_depth T"
    and le: "length (t_frames0 T) \<le> length (vals (frames c))" and st: "store_fits ok T c"
  shows "safe (\<lambda>c1. \<forall>g u x. \<exists>s. setup_locals (t_env T) f (c1\<lparr>gas := g, gas_user := u, pc := x\<rparr>) =
      Inr (c1\<lparr>gas := g, gas_user := u, pc := x, operands := s\<rparr>) \<and>
      fits ok T (c1\<lparr>gas := g, gas_user := u, operands := s,
        pc := Some (body_code (body_list (emod (t_env T)) ! (f - get_imported_functions_size (emod (t_env T)))))\<rparr>))
    (push_call (t_env T) ret f c)"
proof -
  let ?m = "emod (t_env T)"
  let ?k = "f - get_imported_functions_size ?m"
  let ?af = "\<lparr>frame_pc = ret, frame_last_op_index = last_op_index c, frame_size = 1\<rparr>"
  have m: "module_ok ?m" and code: "code_ok (t_env T) (t_map T)" using ok by (simp_all add: typing_ok_def)
  note d = defined_function [OF m f]
  obtain fs where fs: "push ?af (frames c) = Inr fs" "stack_inv fs" "vals fs = vals (frames c) @ [?af]"
    using os.push_law [OF inv(2), of ?af] by auto
  have lenA: "length A = length (param_types (ftype ?m ?k))" using A by (auto dest: list_all2_lengthD)
  have loi: "unat (op_size c - of_nat (length (param_types (ftype ?m ?k)))) = length V"
    if "1 \<le> remaining_call_depth c"
    using op_size_nat [OF inv(1) n [OF that]] v lenA n [OF that] by (subst unat_sub_le) (simp_all add: unat_of_nat)
  define c1 where "c1 = c\<lparr>remaining_call_depth := remaining_call_depth c - 1, frames := fs,
      last_op_index := op_size c - of_nat (length (param_types (ftype ?m ?k)))\<rparr>"
  have push: "push_call (t_env T) ret f c =
    (if 1 \<le> remaining_call_depth c then Inr c1 else Inl (wie_exn ''stack overflow''))"
    using fs(1) d by (simp add: push_call_def reserve_depth_def assertR_def push_frame_def op_size_def c1_def)
  have fin: "\<exists>s. setup_locals (t_env T) f (c1\<lparr>gas := g, gas_user := u, pc := x\<rparr>) = Inr (c1\<lparr>gas := g, gas_user := u, pc := x, operands := s\<rparr>) \<and>
      fits ok T (c1\<lparr>gas := g, gas_user := u, operands := s, pc := Some (body_code (body_list ?m ! ?k))\<rparr>)"
    if r1: "1 \<le> remaining_call_depth c" for g u x
  proof -
    have "stack_inv (operands (c1\<lparr>gas := g, gas_user := u, pc := x\<rparr>))" using inv(1) by (simp add: c1_def)
    from setup_locals_ok [OF m f this] obtain s zs where s:
      "setup_locals (t_env T) f (c1\<lparr>gas := g, gas_user := u, pc := x\<rparr>) = Inr (c1\<lparr>gas := g, gas_user := u, pc := x, operands := s\<rparr>)"
      "stack_inv s" "vals s = vals (operands c) @ zs" "list_all2 elem_ok (expand_locals (locals (body_list ?m ! ?k))) zs"
      by (auto simp: c1_def)
    have "unat (remaining_call_depth c - 1) = unat (remaining_call_depth c) - 1" "0 < unat (remaining_call_depth c)"
      using r1 by (simp_all add: unat_sub word_le_nat_alt)
    then have "unat (remaining_call_depth c - 1) + (Suc (length (vals (frames c))) - length (t_frames0 T)) = t_depth T"
      using rem le by simp
    then have "conf ok T (c1\<lparr>gas := g, gas_user := u, operands := s, pc := Some (body_code (body_list ?m ! ?k))\<rparr>) ?k [] V (A @ zs) []"
      using s fs ff loi [OF r1] v A st
      by (simp add: conf_def calls_fit_def c1_def ltypes_def list_all2_appendI store_fits_def)
    moreover have "t_map T (body_code (body_list ?m ! ?k)) = Some (?k, [])"
      using code d(1) by (simp add: code_ok_def)
    ultimately have "fits ok T (c1\<lparr>gas := g, gas_user := u, operands := s, pc := Some (body_code (body_list ?m ! ?k))\<rparr>)"
      by (auto intro: fits_at)
    then show ?thesis using s(1) by blast
  qed
  show ?thesis
  proof (cases "1 \<le> remaining_call_depth c")
    case True
    then show ?thesis unfolding push using fin by (simp only: if_True safe_simps) blast
  next
    case False
    then show ?thesis unfolding push by (simp only: if_False) (simp add: wie_exn_def internal_msgs_def)
  qed
qed

subsection \<open>Host calls\<close>

lemma check_params_safe:
  assumes "stack_inv (operands c)" and "length ps \<le> length (vals (operands c))"
  shows "n \<le> length ps \<Longrightarrow> safe (\<lambda>_. True) (check_params ps n c)"
proof (induction n)
  case 0
  then show ?case by simp
next
  case (Suc n)
  then show ?case
    unfolding check_params.simps Let_def
    using assms by (intro safe_bind safe_peek safe_assert) (auto simp: wie_exn_def internal_msgs_def)
qed

lemma native_arg_ok: "elem_ok t v \<Longrightarrow> \<exists>a. native_arg t v = Inr a"
  by (cases v) (auto simp: native_arg_def elem_ok_def ty_defs)

lemma pop_args_ok:
  assumes "list_all2 elem_ok ts B" and "stack_inv (operands c)" and "vals (operands c) = V @ rev B"
  shows "\<exists>s args. pop_args ts c acc = Inr (c\<lparr>operands := s\<rparr>, args) \<and> stack_inv s \<and> vals s = V"
  using assms
proof (induction ts B arbitrary: c acc rule: list_all2_induct)
  case Nil
  then show ?case by (intro exI [of _ "operands c"]) simp
next
  case (Cons t ts v vs)
  obtain s1 where s1: "pop_operand c = Inr (c\<lparr>operands := s1\<rparr>, v)" "stack_inv s1" "vals s1 = V @ rev vs"
    using os.pop_snoc [of "operands c" "V @ rev vs" v] Cons.prems by (auto simp: pop_operand_def)
  obtain a where a: "native_arg t v = Inr a" using native_arg_ok Cons.hyps(1) by blast
  show ?case using Cons.IH [of "c\<lparr>operands := s1\<rparr>" "a # acc"] s1 a by simp
qed

lemma push_result_ok:
  assumes "length rets \<le> 1" and "set rets \<subseteq> {ty_i32, ty_i64, ty_f32, ty_f64}" and "stack_inv (operands c)"
  shows "\<exists>s R. push_result rets r c = Inr (c\<lparr>operands := s\<rparr>) \<and> stack_inv s \<and> vals s = vals (operands c) @ R \<and>
    list_all2 elem_ok rets R"
proof (cases rets)
  case Nil
  then show ?thesis using assms(3) by (intro exI [of _ "operands c"] exI [of _ "[]"]) (simp add: push_result_def)
next
  case (Cons t ts)
  then have t: "t \<in> {ty_i32, ty_i64, ty_f32, ty_f64}" "ts = []" using assms by auto
  have p: "\<exists>s. push_operand v c = Inr (c\<lparr>operands := s\<rparr>) \<and> stack_inv s \<and> vals s = vals (operands c) @ [v]" for v
    using os.push_law [OF assms(3), of v] by (auto simp: push_operand_def)
  obtain v where v: "push_result rets r c = push_operand v c" "elem_ok t v"
    using t Cons by (auto simp: push_result_def elem_ok_def ty_defs)
  from p [of v] obtain s where "push_operand v c = Inr (c\<lparr>operands := s\<rparr>)" "stack_inv s" "vals s = vals (operands c) @ [v]"
    by blast
  then show ?thesis using v t Cons by (intro exI [of _ s] exI [of _ "[v]"]) simp
qed

lemma imported_function:
  assumes m: "module_ok m" and "f < get_imported_functions_size m"
  shows "get_function_type m f = Inr (types m ! (import_types m ! f))" and "get_function_stack_size m f = Inr 1"
  using assms module_okD [OF m]
  by (auto simp: get_function_type_def types_at_def get_function_stack_size_def get_imported_functions_size_def
      import_types_def assertR_def)

context guest_vm
begin

lemma call_host_fits:
  assumes ok: "typing_ok ok T" and f: "f < get_imported_functions_size (emod (t_env T))"
    and ft: "get_function_type (emod (t_env T)) f = Inr ft" and c: "conf ok T c k (rev (param_types ft) @ \<rho>) W L S"
    and P: "\<And>c' S'. conf ok T c' k (rev (return_types ft) @ \<rho>) W L S' \<Longrightarrow> pc c' = map_option Suc (pc c) \<Longrightarrow> P c'"
  shows "safe P (call_host (t_env T) f c)"
proof -
  let ?m = "emod (t_env T)"
  let ?i = "import_functions ?m ! f"
  have m: "module_ok ?m" and l: "linked (t_env T)" and e: "embedder_ok ok (t_env T)"
    using ok by (simp_all add: typing_ok_def)
  note im = imported_function [OF m f]
  have ft': "ft = types ?m ! (import_types ?m ! f)" using ft im(1) by simp
  have h: "f < length (import_functions ?m)" "get_entry (t_env T) ?i = Inr ft"
    "length (return_types ft) \<le> 1" "set (return_types ft) \<subseteq> {ty_i32, ty_i64, ty_f32, ty_f64}"
    using l f unfolding linked_def by (auto simp: get_entry_def assertR_def ft')
  note cd = confD [OF c]
  obtain A R where S: "S = A @ R" "list_all2 elem_ok (rev (param_types ft)) A" "list_all2 elem_ok \<rho> R"
    using cd(3) by (auto simp: list_all2_append1)
  have lenA: "length A = length (param_types ft)" using S(2) by (auto dest: list_all2_lengthD)
  have tc: "safe (\<lambda>_. True) (type_check ft c)"
    unfolding type_check_def by (rule check_params_safe [OF cd(1)]) (use cd(2) S(1) lenA in simp_all)
  let ?af = "\<lparr>frame_pc = None, frame_last_op_index = 0, frame_size = 1\<rparr>"
  have invf: "stack_inv (frames c)" using cd(6) by (simp add: calls_fit_def)
  obtain fs where fs: "push ?af (frames c) = Inr fs" "stack_inv fs" "vals fs = vals (frames c) @ [?af]"
    using os.push_law [OF invf, of ?af] by auto
  obtain fs' where fs': "pop fs = Inr (fs', ?af)" "stack_inv fs'" "vals fs' = vals (frames c)"
    using os.pop_snoc [OF fs(2,3)] by auto
  define c3 where "c3 = (inc_pc c)\<lparr>remaining_call_depth := remaining_call_depth c - 1, frames := fs\<rparr>"
  have c3: "operands c3 = operands c" "frames c3 = fs" "lin_mem c3 = lin_mem c" by (simp_all add: c3_def inc_pc_def)
  obtain s args where s: "pop_args (rev (param_types ft)) c3 [] = Inr (c3\<lparr>operands := s\<rparr>, args)" "stack_inv s"
    "vals s = W @ L @ rev R"
    using pop_args_ok [OF S(2), of c3 "W @ L @ rev R" "[]"] cd(1,2) S(1) c3 by auto
  have rest: "safe P (bindR (push_result (return_types ft) r (c3\<lparr>operands := s, lin_mem := m', lin_mem := m2\<rparr>)) (\<lambda>c6.
        bindR (pop (frames c6)) (\<lambda>(fs, _). Inr (c6\<lparr>frames := fs, remaining_call_depth := remaining_call_depth c\<rparr>))))"
    if "memories ?m \<noteq> [] \<Longrightarrow> ok m2" for r m' m2
  proof -
    let ?c = "c3\<lparr>operands := s, lin_mem := m', lin_mem := m2\<rparr>"
    obtain s2 V where s2: "push_result (return_types ft) r ?c = Inr (?c\<lparr>operands := s2\<rparr>)" "stack_inv s2"
      "vals s2 = vals s @ V" "list_all2 elem_ok (return_types ft) V"
      using push_result_ok [OF h(3,4), of ?c r] s(2) by auto
    have "conf ok T (c\<lparr>pc := map_option Suc (pc c), operands := s2, lin_mem := m2, frames := fs'\<rparr>) k (rev (return_types ft) @ \<rho>) W L (rev V @ R)"
      using c s2 s(3) S(3) fs'(2,3) that
      by (simp add: conf_def calls_fit_def store_fits_def list_all2_appendI)
    then have "P (?c\<lparr>operands := s2, frames := fs', remaining_call_depth := remaining_call_depth c\<rparr>)"
      by (intro P [of _ "rev V @ R"]) (simp_all add: c3_def inc_pc_def conf_def calls_fit_def store_fits_def)
    then show ?thesis using s2(1) fs'(1) c3 by simp
  qed
  have "safe P (bindR (check_watermark (c3\<lparr>operands := s\<rparr>)) (\<lambda>c5.
        bindR (host_call (t_env T) ?i args (lin_mem c5)) (\<lambda>(m, r).
        bindR (push_result (return_types ft) r (c5\<lparr>lin_mem := m\<rparr>)) (\<lambda>c6.
        bindR (pop (frames c6)) (\<lambda>(fs, _). Inr (c6\<lparr>frames := fs, remaining_call_depth := remaining_call_depth c\<rparr>))))))"
  proof (cases "validate_read_watermark (lin_mem c)")
    case (Inl x)
    then show ?thesis using watermark_traps [of "lin_mem c"] c3 by (simp add: check_watermark_def)
  next
    case (Inr m1)
    have okm: "ok m1" if "memories ?m \<noteq> []" using ok_watermark [OF memory_ok [OF c that] Inr] .
    have "safe P (bindR (host_call (t_env T) ?i args m1) (\<lambda>(m, r).
        bindR (push_result (return_types ft) r (c3\<lparr>operands := s, lin_mem := m1, lin_mem := m\<rparr>)) (\<lambda>c6.
        bindR (pop (frames c6)) (\<lambda>(fs, _). Inr (c6\<lparr>frames := fs, remaining_call_depth := remaining_call_depth c\<rparr>)))))"
    proof (rule safe_bind, rule safe_traps)
      show "traps_only (host_call (t_env T) ?i args m1)" using e by (simp add: embedder_ok_def)
      fix x
      assume x: "host_call (t_env T) ?i args m1 = Inr x"
      then have "ok (fst x)" if "memories ?m \<noteq> []"
        using e okm [OF that] unfolding embedder_ok_def by (cases x) (simp, blast)
      from rest [of "fst x" "snd x" m1, OF this] show "safe P (case x of (m, r) \<Rightarrow>
        bindR (push_result (return_types ft) r (c3\<lparr>operands := s, lin_mem := m1, lin_mem := m\<rparr>)) (\<lambda>c6.
        bindR (pop (frames c6)) (\<lambda>(fs, _). Inr (c6\<lparr>frames := fs, remaining_call_depth := remaining_call_depth c\<rparr>))))"
        by (simp add: case_prod_beta)
    qed
    then show ?thesis using Inr c3 by (simp add: check_watermark_def)
  qed
  then have "safe P (bindR (reserve_depth 1 (inc_pc c)) (\<lambda>c2. bindR (push_frame ?af c2) (\<lambda>c3.
     bindR (pop_args (rev (param_types ft)) c3 []) (\<lambda>(c4, args). bindR (check_watermark c4) (\<lambda>c5.
        bindR (host_call (t_env T) ?i args (lin_mem c5)) (\<lambda>(m, r).
        bindR (push_result (return_types ft) r (c5\<lparr>lin_mem := m\<rparr>)) (\<lambda>c6.
        bindR (pop (frames c6)) (\<lambda>(fs, _). Inr (c6\<lparr>frames := fs, remaining_call_depth := remaining_call_depth c\<rparr>)))))))))"
    using s(1) fs(1) by (simp add: reserve_depth_def assertR_def push_frame_def inc_pc_def c3_def wie_exn_def internal_msgs_def)
  then show ?thesis
    unfolding call_host_def using ft im(2) h(1,2)
    by (intro safe_bind) (auto intro!: safe_bind safe_mono [OF tc])
qed

lemma call_fits:
  assumes ok: "typing_ok ok T" and f: "f < get_functions_total (emod (t_env T))"
    and ft: "get_function_type (emod (t_env T)) f = Inr ft" and c: "conf ok T c k (rev (param_types ft) @ \<rho>) W L S"
    and n: "length (vals (operands c)) < 2 ^ 32" and p: "pc c = Some p" "t_map T (p + 1) = Some (k, rev (return_types ft) @ \<rho>)"
  shows "safe (fits ok T) (call (t_env T) f c)"
proof (cases "f < get_imported_functions_size (emod (t_env T))")
  case True
  have "safe (fits ok T) (call_host (t_env T) f c)"
    by (rule call_host_fits [OF ok True ft c]) (use p in \<open>auto intro: fits_at\<close>)
  then show ?thesis using True by (simp add: call_def)
next
  case False
  let ?m = "emod (t_env T)"
  have m: "module_ok ?m" and e: "embedder_ok ok (t_env T)" and fb: "frame_bound (t_env T) (t_map T) (t_frame T)"
    using ok by (simp_all add: typing_ok_def)
  have f': "get_imported_functions_size ?m \<le> f" using False by simp
  have ft': "ftype ?m (f - get_imported_functions_size ?m) = ft" using defined_function(2) [OF m f' f] ft by simp
  note cd = confD [OF c] and cf = confD(6) [OF c, unfolded calls_fit_def]
  obtain A R where S: "S = A @ R" "list_all2 elem_ok (rev (param_types ft)) A" "list_all2 elem_ok \<rho> R"
    using cd(3) by (auto simp: list_all2_append1)
  have body: "safe (fits ok T) (bindR (push_call (t_env T) (map_option Suc (pc (c\<lparr>gas := g, gas_user := u\<rparr>))) f (c\<lparr>gas := g, gas_user := u\<rparr>))
      (\<lambda>c2. bindR (setup_locals (t_env T) f c2) (\<lambda>c3. bindR (get_function_pc ?m f) (\<lambda>p. Inr (c3\<lparr>pc := Some p\<rparr>)))))" for g u
  proof (rule safe_bind, rule safe_mono [OF enter_function [OF ok f' f]])
    let ?c = "c\<lparr>gas := g, gas_user := u\<rparr>"
    show "stack_inv (operands ?c)" "stack_inv (frames ?c)" "length (vals (operands ?c)) < 2 ^ 32" "store_fits ok T ?c"
      using cd(1,7) cf n by (simp_all add: store_fits_def)
    show "vals (operands ?c) = (W @ L @ rev R) @ rev A" using cd(2) S(1) by simp
    show "list_all2 elem_ok (param_types (ftype ?m (f - get_imported_functions_size ?m))) (rev A)"
      using S(2) by (simp add: ft' list_all2_rev1)
    show "frames_fit T (\<lparr>frame_pc = map_option Suc (pc ?c), frame_last_op_index = last_op_index ?c, frame_size = 1\<rparr> # rev (vals (frames ?c)))
        (W @ L @ rev R) (return_types (ftype ?m (f - get_imported_functions_size ?m)))"
      using p cd(4,5) S(3) cf by (simp add: ft') (blast intro: exI [of _ W])
    show "unat (remaining_call_depth ?c) + (length (vals (frames ?c)) - length (t_frames0 T)) = t_depth T"
      using cf by simp
    show "length (t_frames0 T) \<le> length (vals (frames ?c))"
      using frames_bound [OF conjunct1 [OF conjunct2 [OF cf]] fb] by simp
    fix c1
    assume "\<forall>g u x. \<exists>s. setup_locals (t_env T) f (c1\<lparr>gas := g, gas_user := u, pc := x\<rparr>) =
        Inr (c1\<lparr>gas := g, gas_user := u, pc := x, operands := s\<rparr>) \<and>
      fits ok T (c1\<lparr>gas := g, gas_user := u, operands := s, pc := Some (body_code (body_list ?m ! (f - get_imported_functions_size ?m)))\<rparr>)"
    from spec [OF spec [OF spec [OF this, of "gas c1"], of "gas_user c1"], of "pc c1"]
    show "safe (fits ok T) (bindR (setup_locals (t_env T) f c1) (\<lambda>c3. bindR (get_function_pc ?m f) (\<lambda>p. Inr (c3\<lparr>pc := Some p\<rparr>))))"
      using defined_function(4) [OF m f' f] by auto
  qed
  then show ?thesis
    using False body_of_defined [OF m f' f]
    by (simp add: call_def safe_bind charge_fits [OF e])
qed

lemma call_indirect_fits:
  assumes ok: "typing_ok ok T" and t: "unat (imm AND 0xFFFF) < length (types (emod (t_env T)))"
    "unat (drop_bit 16 imm) < length (tables (emod (t_env T)))" "ft = types (emod (t_env T)) ! unat (imm AND 0xFFFF)"
    and c: "conf ok T c k (ty_i32 # rev (param_types ft) @ \<rho>) W L S"
    and n: "length (vals (operands c)) < 2 ^ 32" and p: "pc c = Some p" "t_map T (p + 1) = Some (k, rev (return_types ft) @ \<rho>)"
  shows "safe (fits ok T) (call_indirect (t_env T) imm c)"
proof -
  have m: "module_ok (emod (t_env T))" using ok by (simp add: typing_ok_def)
  have b: "safe (fits ok T) (bindR (table_elem (unat i) (unat (drop_bit 16 imm)) c1) (\<lambda>fn.
      assertR (unat fn < get_functions_total (emod (t_env T))) (wie_exn ''call_indirect to uninitialized table entry'')
     (bindR (types_at (emod (t_env T)) (unat (imm AND 0xFFFF))) (\<lambda>expected_type.
      bindR (get_function_type (emod (t_env T)) (unat fn)) (\<lambda>actual_type.
      assertR (actual_type = expected_type) (wie_exn ''bad call_indirect type'')
        (call (t_env T) (unat fn) c1))))))"
    if c1: "conf ok T c1 k (rev (param_types ft) @ \<rho>) W L S'" "pc c1 = pc c" "S = v # S'" for c1 v S' and i :: u32
  proof -
    have n1: "length (vals (operands c1)) < 2 ^ 32" using confD(2) [OF c1(1)] confD(2) [OF c] n that(3) by simp
    have "safe (fits ok T) (bindR (get_function_type (emod (t_env T)) f) (\<lambda>actual_type.
      assertR (actual_type = ft) (wie_exn ''bad call_indirect type'') (call (t_env T) f c1)))"
      if "f < get_functions_total (emod (t_env T))" for f
    proof (cases "f < get_imported_functions_size (emod (t_env T))")
      case True
      then show ?thesis
        using imported_function(1) [OF m True] call_fits [OF ok that _ c1(1) n1] p c1(2)
        by (auto intro!: safe_assert simp: wie_exn_def internal_msgs_def)
    next
      case False
      then show ?thesis
        using defined_function(2) [OF m _ that] call_fits [OF ok that _ c1(1) n1] p c1(2)
        by (auto intro!: safe_assert simp: wie_exn_def internal_msgs_def)
    qed
    moreover have "types_at (emod (t_env T)) (unat (imm AND 0xFFFF)) = Inr ft" using t by (simp add: types_at_def assertR_def)
    moreover have "unat (drop_bit 16 imm) < length (table_data c1)"
      using t(2) confD(7) [OF c1(1)] by (simp add: store_fits_def)
    ultimately show ?thesis
      by (auto intro!: safe_bind safe_assert simp: table_elem_def assertR_def wie_exn_def internal_msgs_def)
  qed
  show ?thesis
    unfolding call_indirect_def Let_def by (rule safe_bind, rule conf_pop [OF c]) (auto intro: b)
qed

subsection \<open>One step\<close>

lemma set_pc_simps [simp]:
  "conf ok T (set_relative_pc q c) k \<tau> W L S = conf ok T c k \<tau> W L S" "pc (set_relative_pc q c) = Some (unat q)"
  by (simp_all add: set_relative_pc_def)

lemma fits_next: "pc c = Some q \<Longrightarrow> t_map T q = Some (k, \<tau>) \<Longrightarrow> conf ok T c k \<tau> W L S \<Longrightarrow> fits ok T c"
  by (rule fits_at)

lemma is_true_ok: "elem_ok ty_i32 v \<Longrightarrow> \<exists>b. is_true v = Inr b"
  by (cases v) (auto simp: is_true_def elem_ok_def ty_defs)

lemma exec_control_fits:
  assumes ok: "typing_ok ok T" and c: "conf ok T c k \<tau> W L S" and p: "pc c = Some p" "t_map T p = Some (k, \<tau>)"
    and fit: "instr_fits (emod (t_env T)) k (\<lambda>\<rho>. t_map T (p + 1) = Some (k, \<rho>)) (\<lambda>q \<rho>. t_map T (unat q) = Some (k, \<rho>)) \<tau> op"
  shows "op = if_t q \<Longrightarrow> safe (fits ok T) (exec (t_env T) op c)"
    and "op = br_if_t d q x \<Longrightarrow> safe (fits ok T) (exec (t_env T) op c)"
    and "op = br_table_t sz es \<Longrightarrow> safe (fits ok T) (exec (t_env T) op c)"
    and "op = gas_charge_t cost \<Longrightarrow> safe (fits ok T) (exec (t_env T) op c)"
proof -
  have n: "length (vals (operands c)) < 2 ^ 32" by (rule conf_size [OF ok c p(2)])
  have n1: "length (vals (operands c1)) < 2 ^ 32" if "conf ok T c1 k \<rho> W L S'" "S = v # S'" for c1 \<rho> v S'
    using confD(2) [OF that(1)] confD(2) [OF c] n that(2) by simp
  have c': "conf ok T (inc_pc c) k \<tau> W L S" using c by simp
  show "safe (fits ok T) (exec (t_env T) op c)" if op: "op = if_t q"
  proof -
    obtain \<rho> where \<rho>: "\<tau> = ty_i32 # \<rho>" "t_map T (Suc p) = Some (k, \<rho>)" "t_map T (unat q) = Some (k, \<rho>)"
      using fit op by auto
    show ?thesis unfolding op exec.simps
      by (rule safe_bind, rule conf_pop [OF c' [unfolded \<rho>(1)]]) (use p \<rho> in \<open>auto intro!: fits_next\<close>)
  qed
  show "safe (fits ok T) (exec (t_env T) op c)" if op: "op = br_if_t d q x"
  proof -
    obtain \<rho> where \<rho>: "\<tau> = ty_i32 # \<rho>" "t_map T (Suc p) = Some (k, \<rho>)" "br_fits (\<lambda>\<rho>. t_map T (unat q) = Some (k, \<rho>)) d \<rho>"
      using fit op by auto
    have b: "safe (fits ok T) (bindR (is_true v) (\<lambda>b. if b then jump d q c1 else Inr (inc_pc c1)))"
      if "elem_ok ty_i32 v" "S = v # S'" "conf ok T c1 k \<rho> W L S'" "pc c1 = pc c" for c1 v S'
      using is_true_ok [OF that(1)] jump_fits [OF ok that(3) n1 [OF that(3,2)] \<rho>(3)] that(3,4) p \<rho>(2)
      by (auto intro!: fits_next)
    show ?thesis unfolding op exec.simps
      by (rule safe_bind, rule conf_pop [OF c [unfolded \<rho>(1)]]) (auto intro: b)
  qed
  show "safe (fits ok T) (exec (t_env T) op c)" if op: "op = br_table_t sz es"
  proof -
    obtain \<rho> where \<rho>: "\<tau> = ty_i32 # \<rho>" "length es = unat sz + 1"
      "\<And>x. x \<in> set es \<Longrightarrow> br_fits (\<lambda>\<rho>. t_map T (unat (elem_pc x)) = Some (k, \<rho>)) (stack_pop x) \<rho>"
      using fit op by auto
    have le: "unat (min i sz) < length es" for i :: u32 using \<rho>(2) by (simp add: min_def word_le_nat_alt)
    have b: "safe (fits ok T) (jump (stack_pop (es ! unat (min i sz))) (elem_pc (es ! unat (min i sz))) c1)"
      if "S = v # S'" "conf ok T c1 k \<rho> W L S'" for c1 v S' i
      by (rule jump_fits [OF ok that(2) n1 [OF that(2,1)] \<rho>(3) [OF nth_mem [OF le]]])
    show ?thesis unfolding op exec.simps exec_br_table_def Let_def
      by (rule safe_bind, rule conf_pop [OF c [unfolded \<rho>(1)]]) (auto simp: le intro: b)
  qed
  show "safe (fits ok T) (exec (t_env T) op c)" if op: "op = gas_charge_t cost"
  proof -
    have e: "embedder_ok ok (t_env T)" using ok by (simp add: typing_ok_def)
    have b: "safe (fits ok T) (bindR (charge (t_env T) cost c1) (\<lambda>c2. Inr (inc_pc c2)))"
      if "conf ok T c1 k \<tau> W L S" "pc c1 = pc c" for c1
      using that p fit op by (intro safe_bind charge_fits [OF e]) (auto intro!: fits_next)
    show ?thesis unfolding op exec.simps by (rule safe_bind, rule check_watermark_fits [OF c]) (rule b)
  qed
qed

lemma exec_local_fits:
  assumes c: "conf ok T c k \<tau> W L S" and n: "length (vals (operands c)) < 2 ^ 32" and p: "pc c = Some p"
    and i: "unat i < length (ltypes (emod (t_env T)) k)"
  shows "t_map T (Suc p) = Some (k, ltypes (emod (t_env T)) k ! unat i # \<tau>) \<Longrightarrow> safe (fits ok T) (exec (t_env T) (get_local_t i) c)"
    and "\<tau> = ltypes (emod (t_env T)) k ! unat i # \<rho> \<Longrightarrow> t_map T (Suc p) = Some (k, \<rho>) \<Longrightarrow> safe (fits ok T) (exec (t_env T) (set_local_t i) c)"
    and "\<tau> = ltypes (emod (t_env T)) k ! unat i # \<rho> \<Longrightarrow> t_map T (Suc p) = Some (k, \<tau>) \<Longrightarrow> safe (fits ok T) (exec (t_env T) (tee_local_t i) c)"
proof -
  let ?t = "ltypes (emod (t_env T)) k ! unat i"
  have c': "conf ok T (inc_pc c) k \<tau> W L S" and n': "length (vals (operands (inc_pc c))) < 2 ^ 32" using c n by simp_all
  have n1: "length (vals (operands c1)) < 2 ^ 32" if "conf ok T c1 k \<rho> W L S'" "S = v # S'" for c1 \<rho> v S'
    using confD(2) [OF that(1)] confD(2) [OF c] n that(2) by simp
  show "safe (fits ok T) (exec (t_env T) (get_local_t i) c)" if "t_map T (Suc p) = Some (k, ?t # \<tau>)"
    unfolding exec.simps
    by (rule safe_bind, rule conf_get_local [OF c' n' i], erule conf_push [OF c'])
       (use that p in \<open>auto intro!: fits_next\<close>)
  have set: "safe (\<lambda>c2. \<exists>L'. conf ok T c2 k \<rho> W L' S' \<and> pc c2 = pc c1) (set_operand i v c1)"
    if "elem_ok ?t v" "S = v # S'" "conf ok T c1 k \<rho> W L S'" for c1 v S' \<rho>
    by (rule conf_set_local [OF that(3) n1 [OF that(3,2)] i that(1)]) auto
  show "safe (fits ok T) (exec (t_env T) (set_local_t i) c)" if t: "\<tau> = ?t # \<rho>" "t_map T (Suc p) = Some (k, \<rho>)"
    unfolding exec.simps
    by (rule safe_bind, rule conf_pop [OF c' [unfolded t(1)]])
       (use t p in \<open>auto intro!: fits_next safe_mono [OF set]\<close>)
  show "safe (fits ok T) (exec (t_env T) (tee_local_t i) c)" if t: "\<tau> = ?t # \<rho>" "t_map T (Suc p) = Some (k, \<tau>)"
    unfolding exec.simps
    by (rule safe_bind, rule conf_pop [OF c' [unfolded t(1)]], simp, rule safe_bind, rule safe_mono [OF set], assumption+)
       (use t p in \<open>auto intro!: fits_next elim!: conf_push\<close>)
qed

lemma exec_ref_fits:
  assumes c: "conf ok T c k \<tau> W L S" and p: "pc c = Some p"
  shows "t \<in> {ty_funcref, ty_externref} \<Longrightarrow> t_map T (Suc p) = Some (k, t # \<tau>) \<Longrightarrow> safe (fits ok T) (exec (t_env T) (ref_null_t t) c)"
    and "t_map T (Suc p) = Some (k, ty_funcref # \<tau>) \<Longrightarrow> safe (fits ok T) (exec (t_env T) (ref_func_t i) c)"
    and "t \<in> {ty_funcref, ty_externref} \<Longrightarrow> \<tau> = t # \<rho> \<Longrightarrow> t_map T (Suc p) = Some (k, ty_i32 # \<rho>) \<Longrightarrow>
      safe (fits ok T) (exec (t_env T) ref_is_null_t c)"
proof -
  have r: "elem_ok t (i32_const v)" if "t \<in> {ty_funcref, ty_externref}" for t v
    using that by (auto simp: elem_ok_def ty_defs)
  show "safe (fits ok T) (exec (t_env T) (ref_null_t t) c)" if "t \<in> {ty_funcref, ty_externref}" "t_map T (Suc p) = Some (k, t # \<tau>)"
    unfolding exec.simps by (rule safe_bind, rule conf_push [OF c r [OF that(1)]]) (use that p in \<open>auto intro!: fits_next\<close>)
  show "safe (fits ok T) (exec (t_env T) (ref_func_t i) c)" if "t_map T (Suc p) = Some (k, ty_funcref # \<tau>)"
    unfolding exec.simps by (rule safe_bind, rule conf_push [OF c r]) (use that p in \<open>auto intro!: fits_next\<close>)
  have v: "\<exists>w. v = i32_const w" if "elem_ok t v" "t \<in> {ty_funcref, ty_externref}" for t v
    using that by (cases v) (auto simp: elem_ok_def ty_defs)
  have b: "safe (fits ok T) (bindR (to_ui32 v) (\<lambda>r.
      bindR (push_operand (i32_const (if r = - 1 then 1 else 0)) c1) (\<lambda>c2. Inr (inc_pc c2))))"
    if "elem_ok t v" "t \<in> {ty_funcref, ty_externref}" "conf ok T c1 k \<rho> W L S'" "pc c1 = pc c"
      "t_map T (Suc p) = Some (k, ty_i32 # \<rho>)" for c1 v S' t
  proof -
    from v [OF that(1,2)] obtain w where w: "v = i32_const w" ..
    have "safe (fits ok T) (bindR (push_operand (i32_const x) c1) (\<lambda>c2. Inr (inc_pc c2)))" for x
      by (rule safe_bind, rule conf_push [OF that(3), where t = ty_i32]) (use that p in \<open>auto intro!: fits_next\<close>)
    then show ?thesis using w by simp
  qed
  show "safe (fits ok T) (exec (t_env T) ref_is_null_t c)"
    if "t \<in> {ty_funcref, ty_externref}" "\<tau> = t # \<rho>" "t_map T (Suc p) = Some (k, ty_i32 # \<rho>)"
    unfolding exec.simps by (rule safe_bind, rule conf_pop [OF c [unfolded that(2)]]) (use that in \<open>auto intro: b\<close>)
qed

lemma exec_fits:
  assumes ok: "typing_ok ok T" and c: "conf ok T c k \<tau> W L S" and p: "pc c = Some p" "t_map T p = Some (k, \<tau>)"
    and fit: "instr_fits (emod (t_env T)) k (\<lambda>\<rho>. t_map T (p + 1) = Some (k, \<rho>)) (\<lambda>q \<rho>. t_map T (unat q) = Some (k, \<rho>)) \<tau> op"
  shows "safe (fits ok T) (exec (t_env T) op c)"
proof -
  have n: "length (vals (operands c)) < 2 ^ 32" by (rule conf_size [OF ok c p(2)])
  have m: "module_ok (emod (t_env T))" using ok by (simp add: typing_ok_def)
  have c': "conf ok T (inc_pc c) k \<tau> W L S" using c by simp
  note control = exec_control_fits [OF ok c p fit]
  show ?thesis
  proof (cases op)
    case (return_t nl rc x)
    then show ?thesis using return_fits [OF ok _ n, of k W L S nl rc] c fit by simp
  next
    case (br_t d q)
    then show ?thesis using jump_fits [OF ok c n] fit by simp
  next
    case (call_t f)
    then show ?thesis using fit c call_fits [OF ok _ _ _ n p(1)] by auto
  next
    case (call_indirect_t imm)
    then show ?thesis using fit c call_indirect_fits [OF ok _ _ refl _ n p(1)] by (auto simp: Let_def)
  next
    case drop_t
    then show ?thesis
      using fit c p by (auto intro!: safe_bind elim!: conf_pop intro!: fits_next)
  next
    case select_t
    then show ?thesis
      using fit c p by (auto intro!: safe_bind elim!: exec_select_fits intro!: fits_next)
  next
    case (get_global_t i)
    then have g: "unat i < length (globals (emod (t_env T)))"
      "t_map T (Suc p) = Some (k, content_type (globals (emod (t_env T)) ! unat i) # \<tau>)" using fit by auto
    show ?thesis unfolding get_global_t exec.simps
      by (rule safe_bind, rule safe_mono [OF get_global_ok [OF m confD(7) [OF c'] g(1)]], rule conf_push [OF c'], assumption)
         (use g p in \<open>auto intro!: fits_next\<close>)
  next
    case (set_global_t i)
    then obtain \<rho> where g: "unat i < length (globals (emod (t_env T)))" "mutability (globals (emod (t_env T)) ! unat i)"
      "\<tau> = content_type (globals (emod (t_env T)) ! unat i) # \<rho>" "t_map T (Suc p) = Some (k, \<rho>)"
      using fit by auto
    show ?thesis unfolding set_global_t exec.simps
      by (rule safe_bind, rule conf_pop [OF c' [unfolded g(3)]], simp, rule set_global_fits, assumption)
         (use g p module_okD(7) [OF m] in \<open>auto intro!: fits_next\<close>)
  next
    case (table_get_t t)
    then show ?thesis
      using fit c p m by (auto intro!: safe_bind elim!: table_get_fits intro!: fits_next)
  next
    case (table_set_t t)
    then show ?thesis
      using fit c p m by (auto intro!: safe_bind elim!: table_set_fits intro!: fits_next)
  next
    case (load_t l x off)
    then obtain \<rho> where \<rho>: "\<tau> = ty_i32 # \<rho>" "t_map T (Suc p) = Some (k, load_type l # \<rho>)" "memories (emod (t_env T)) \<noteq> []" using fit by auto
    show ?thesis unfolding load_t exec.simps
      by (rule exec_load_fits [OF c' [unfolded \<rho>(1)] \<rho>(3)]) (use \<rho> p in \<open>auto intro!: fits_next\<close>)
  next
    case (store_t s x off)
    then obtain \<rho> where \<rho>: "\<tau> = store_type s # ty_i32 # \<rho>" "t_map T (Suc p) = Some (k, \<rho>)" "memories (emod (t_env T)) \<noteq> []" using fit by auto
    show ?thesis unfolding store_t exec.simps
      by (rule exec_store_fits [OF c' [unfolded \<rho>(1)] \<rho>(3)]) (use \<rho> p in \<open>auto intro!: fits_next\<close>)
  next
    case current_memory_t
    then have \<rho>: "t_map T (Suc p) = Some (k, ty_i32 # \<tau>)" "memories (emod (t_env T)) \<noteq> []" using fit by auto
    show ?thesis unfolding current_memory_t exec.simps
      by (rule exec_current_fits [OF c' \<rho>(2)]) (use \<rho> p in \<open>auto intro!: fits_next\<close>)
  next
    case grow_memory_t
    then obtain \<rho> where \<rho>: "\<tau> = ty_i32 # \<rho>" "t_map T (Suc p) = Some (k, ty_i32 # \<rho>)" "memories (emod (t_env T)) \<noteq> []" using fit by auto
    show ?thesis unfolding grow_memory_t exec.simps
      by (rule exec_grow_fits [OF c' [unfolded \<rho>(1)] \<rho>(3)]) (use \<rho> p in \<open>auto intro!: fits_next\<close>)
  next
    case (const_t v)
    then show ?thesis
      using fit p by (auto intro!: conf_push [OF c' elem_ok_self] fits_next)
  next
    case (num_t x)
    then obtain \<rho> where \<rho>: "\<tau> = (if num_binary x then [num_arg x, num_arg x] else [num_arg x]) @ \<rho>"
      "t_map T (Suc p) = Some (k, num_result x # \<rho>)" using fit by auto
    show ?thesis unfolding num_t exec.simps
      by (rule exec_num_fits [OF c' [unfolded \<rho>(1)]]) (use \<rho> p in \<open>auto intro!: fits_next\<close>)
  qed (use fit c p control exec_local_fits [OF c n p(1)] exec_ref_fits [OF c p(1)] in
      \<open>auto simp: wie_exn_def internal_msgs_def intro!: fits_next\<close>)
qed

lemma step_fits:
  assumes ok: "typing_ok ok T" and c: "fits ok T c"
  shows "safe (fits ok T) (step (t_env T) c)"
proof (cases "pc c")
  case None
  then show ?thesis using c by (simp add: step_def)
next
  case (Some p)
  then obtain k \<tau> W L S where k: "t_map T p = Some (k, \<tau>)" "conf ok T c k \<tau> W L S" using c by (auto simp: fits_def)
  have "code_ok (t_env T) (t_map T)" using ok by (simp add: typing_ok_def)
  then have "p < length (segment (t_env T))" "instr_fits (emod (t_env T)) k (\<lambda>\<rho>. t_map T (p + 1) = Some (k, \<rho>))
      (\<lambda>q \<rho>. t_map T (unat q) = Some (k, \<rho>)) \<tau> (segment (t_env T) ! p)"
    using k(1) unfolding code_ok_def by blast+
  then show ?thesis using exec_fits [OF ok k(2) Some k(1)] Some by (simp add: step_def)
qed

lemma run_fits: "typing_ok ok T \<Longrightarrow> fits ok T c \<Longrightarrow> safe (fits ok T) (run (t_env T) n c)"
proof (induction n arbitrary: c)
  case (Suc n)
  then show ?case by (auto intro!: safe_bind intro: safe_mono [OF step_fits])
qed simp

end

subsection \<open>A whole execution\<close>

definition typed_env :: "(memory \<Rightarrow> bool) \<Rightarrow> 'p env \<Rightarrow> code_map \<Rightarrow> nat \<Rightarrow> bool" where
  "typed_env ok E \<Phi> F \<longleftrightarrow> code_ok E \<Phi> \<and> module_ok (emod E) \<and> linked E \<and> embedder_ok ok E \<and> frame_bound E \<Phi> F"

text \<open>A context between two executions.\<close>

definition context_ok :: "(memory \<Rightarrow> bool) \<Rightarrow> 'p env \<Rightarrow> nat \<Rightarrow> 'p ectx \<Rightarrow> bool" where
  "context_ok ok E F c \<longleftrightarrow>
     stack_inv (operands c) \<and> stack_inv (frames c) \<and>
     length (vals (operands c)) + F * unat (remaining_call_depth c) < 2 ^ 32 \<and>
     (memories (emod E) \<noteq> [] \<longrightarrow> ok (lin_mem c)) \<and>
     length (global_values c) = length (globals (emod E)) \<and> length (table_data c) = length (tables (emod E))"

definition result_ok :: "func_type \<Rightarrow> stack_elem option \<Rightarrow> bool" where
  "result_ok ft r \<longleftrightarrow> (case (return_types ft, r) of ([], None) \<Rightarrow> True | (t # _, Some v) \<Rightarrow> elem_ok t v | _ \<Rightarrow> False)"

definition same_stacks :: "'p ectx \<Rightarrow> 'p ectx \<Rightarrow> bool" where
  "same_stacks c c' \<longleftrightarrow>
     vals (operands c') = vals (operands c) \<and> vals (frames c') = vals (frames c) \<and> pc c' = pc c \<and>
     last_op_index c' = last_op_index c \<and> remaining_call_depth c' = remaining_call_depth c"

definition returns_ok :: "(memory \<Rightarrow> bool) \<Rightarrow> 'p env \<Rightarrow> nat \<Rightarrow> nat \<Rightarrow> 'p ectx \<Rightarrow> ('p ectx \<times> stack_elem option) option \<Rightarrow> bool" where
  "returns_ok ok E F f c o1 \<longleftrightarrow>
     (case o1 of
        None \<Rightarrow> True
      | Some (c', r) \<Rightarrow>
          context_ok ok E F c' \<and> same_stacks c c' \<and> (\<exists>ft. get_function_type (emod E) f = Inr ft \<and> result_ok ft r))"

definition entry_typing :: "'p env \<Rightarrow> code_map \<Rightarrow> nat \<Rightarrow> func_type \<Rightarrow> 'p ectx \<Rightarrow> 'p typing" where
  "entry_typing E \<Phi> F ft c =
     \<lparr>t_env = E, t_map = \<Phi>, t_frame = F, t_depth = unat (remaining_call_depth c), t_frames0 = rev (vals (frames c)),
      t_vals0 = vals (operands c), t_rets0 = return_types ft\<rparr>"

lemma push_all_ok:
  "stack_inv (operands c) \<Longrightarrow>
   \<exists>s. push_all vs c = Inr (c\<lparr>operands := s\<rparr>) \<and> stack_inv s \<and> vals s = vals (operands c) @ vs"
proof (induction vs arbitrary: c)
  case (Cons v vs)
  obtain s1 where "push_operand v c = Inr (c\<lparr>operands := s1\<rparr>)" "stack_inv s1" "vals s1 = vals (operands c) @ [v]"
    using os.push_law [OF Cons.prems, of v] by (auto simp: push_operand_def)
  then show ?case using Cons.IH [of "c\<lparr>operands := s1\<rparr>"] by simp
next
  case Nil
  then show ?case by (intro exI [of _ "operands c"]) simp
qed

lemma pop_n_ok:
  "stack_inv (operands c) \<Longrightarrow> vals (operands c) = V @ rev R \<Longrightarrow>
   \<exists>s. pop_n (length R) c = Inr (c\<lparr>operands := s\<rparr>, R) \<and> stack_inv s \<and> vals s = V"
proof (induction R arbitrary: c)
  case (Cons v R)
  obtain s1 where "pop_operand c = Inr (c\<lparr>operands := s1\<rparr>, v)" "stack_inv s1" "vals s1 = V @ rev R"
    using os.pop_snoc [of "operands c" "V @ rev R" v] Cons.prems by (auto simp: pop_operand_def)
  then show ?case using Cons.IH [of "c\<lparr>operands := s1\<rparr>"] by auto
next
  case Nil
  then show ?case by (intro exI [of _ "operands c"]) simp
qed

lemma take_result_ok:
  assumes "get_function_type (emod E) f = Inr ft" and "stack_inv (operands c)" and "vals (operands c) = V @ R"
    and "list_all2 elem_ok (return_types ft) R"
  shows "\<exists>s r. take_result E f c = Inr (c\<lparr>operands := s\<rparr>, r) \<and> stack_inv s \<and> vals s = V \<and> result_ok ft r"
proof (cases "return_types ft")
  case Nil
  then show ?thesis
    using assms by (intro exI [of _ "operands c"]) (simp add: take_result_def return_count_def result_ok_def)
next
  case (Cons t ts)
  then obtain v R' where R: "R = v # R'" "elem_ok t v" "length R' = length ts"
    using assms(4) by (auto simp: list_all2_Cons1 dest: list_all2_lengthD)
  have "peek_operand (length ts) c = Inr v"
    using os.peek_law [OF assms(2), of "length ts"] assms(3) R by (simp add: peek_operand_def nth_append)
  moreover obtain s where "pop_n (length (rev R)) c = Inr (c\<lparr>operands := s\<rparr>, rev R)" "stack_inv s" "vals s = V"
    using pop_n_ok [OF assms(2), of V "rev R"] assms(3) by auto
  ultimately show ?thesis
    using assms(1) Cons R by (intro exI [of _ s] exI [of _ "Some v"]) (simp add: take_result_def return_count_def result_ok_def)
qed

lemma cleanup_ok:
  assumes "stack_inv (operands c0)" and "stack_inv (frames c0)" and "length (vals (operands c0)) < 2 ^ 32"
    and "stack_inv (operands c)" and "vals (operands c) = vals (operands c0)"
    and "stack_inv (frames c)" and "vals (frames c) = vals (frames c0) @ fs"
  shows "\<exists>s t. cleanup c0 c = Inr (c\<lparr>operands := s, frames := t, pc := pc c0, last_op_index := last_op_index c0,
      remaining_call_depth := remaining_call_depth c0\<rparr>) \<and> stack_inv s \<and> stack_inv t \<and>
      vals s = vals (operands c0) \<and> vals t = vals (frames c0)"
proof -
  have "unat (op_size c0) = length (vals (operands c0))" by (rule op_size_nat [OF assms(1,3)])
  then obtain s where "eat (unat (op_size c0)) (operands c) = Inr s" "stack_inv s" "vals s = vals (operands c0)"
    using os.eat_law [OF assms(4), of "unat (op_size c0)"] assms(5) by auto
  moreover obtain t where "eat (index (frames c0)) (frames c) = Inr t" "stack_inv t" "vals t = vals (frames c0)"
    using os.eat_law [OF assms(6), of "index (frames c0)"] assms(2,7) by (auto simp: length_vals [symmetric])
  ultimately show ?thesis by (intro exI [of _ s] exI [of _ t]) (simp add: cleanup_def)
qed

lemma finish_ok:
  assumes c0: "context_ok ok E F c0" and ft: "get_function_type (emod E) f = Inr ft"
    and inv: "stack_inv (operands c)" "stack_inv (frames c)" and v: "vals (operands c) = vals (operands c0) @ R"
    and fs: "vals (frames c) = vals (frames c0) @ fs" and R: "list_all2 elem_ok (return_types ft) R"
    and st: "memories (emod E) \<noteq> [] \<Longrightarrow> ok (lin_mem c)" "length (global_values c) = length (globals (emod E))"
      "length (table_data c) = length (tables (emod E))"
  shows "safe (returns_ok ok E F f c0)
    (bindR (take_result E f c) (\<lambda>(c4, r). bindR (cleanup c0 c4) (\<lambda>c5. Inr (Some (c5, r)))))"
proof -
  note c = c0 [unfolded context_ok_def]
  obtain s r where s: "take_result E f c = Inr (c\<lparr>operands := s\<rparr>, r)" "stack_inv s" "vals s = vals (operands c0)" "result_ok ft r"
    using take_result_ok [OF ft inv(1) v R] by blast
  obtain s' t where "cleanup c0 (c\<lparr>operands := s\<rparr>) = Inr (c\<lparr>operands := s', frames := t, pc := pc c0, last_op_index := last_op_index c0,
      remaining_call_depth := remaining_call_depth c0\<rparr>)" "stack_inv s'" "stack_inv t"
      "vals s' = vals (operands c0)" "vals t = vals (frames c0)"
    using cleanup_ok [of c0 "c\<lparr>operands := s\<rparr>" fs] c s inv fs by auto
  then show ?thesis
    using s ft c st by (simp add: returns_ok_def context_ok_def same_stacks_def)
qed

context guest_vm
begin

lemma execute_import_ok:
  assumes t: "typed_env ok E \<Phi> F" and f: "f < get_imported_functions_size (emod E)"
    and ft: "get_function_type (emod E) f = Inr ft"
    and inv: "stack_inv (operands c)" and v: "vals (operands c) = V @ A" and A: "list_all2 elem_ok (param_types ft) A"
    and m: "memories (emod E) \<noteq> [] \<Longrightarrow> ok (lin_mem c)"
  shows "safe (\<lambda>c'. \<exists>s m R. c' = c\<lparr>operands := s, lin_mem := m\<rparr> \<and> stack_inv s \<and> vals s = V @ R \<and>
      list_all2 elem_ok (return_types ft) R \<and> (memories (emod E) \<noteq> [] \<longrightarrow> ok m)) (execute_import E f c)"
proof -
  let ?i = "import_functions (emod E) ! f"
  have mo: "module_ok (emod E)" and l: "linked E" and e: "embedder_ok ok E" using t by (simp_all add: typed_env_def)
  have ft': "ft = types (emod E) ! (import_types (emod E) ! f)" using ft imported_function(1) [OF mo f] by simp
  have h: "f < length (import_functions (emod E))" "get_entry E ?i = Inr ft"
    "length (return_types ft) \<le> 1" "set (return_types ft) \<subseteq> {ty_i32, ty_i64, ty_f32, ty_f64}"
    using l f unfolding linked_def by (auto simp: get_entry_def assertR_def ft')
  have A': "list_all2 elem_ok (rev (param_types ft)) (rev A)" using A by simp
  obtain s args where s: "pop_args (rev (param_types ft)) c [] = Inr (c\<lparr>operands := s\<rparr>, args)" "stack_inv s" "vals s = V"
    using pop_args_ok [OF A' inv, of V "[]"] v by auto
  have r: "safe (\<lambda>c'. \<exists>s m R. c' = c\<lparr>operands := s, lin_mem := m\<rparr> \<and> stack_inv s \<and> vals s = V @ R \<and>
      list_all2 elem_ok (return_types ft) R \<and> (memories (emod E) \<noteq> [] \<longrightarrow> ok m))
    (push_result (return_types ft) (snd x) (c\<lparr>operands := s, lin_mem := fst x\<rparr>))"
    if x: "host_call E ?i args (lin_mem c) = Inr x" for x
  proof -
    have okm: "ok (fst x)" if "memories (emod E) \<noteq> []"
      using e m [OF that] x unfolding embedder_ok_def by (cases x) (simp, blast)
    obtain s2 R where s2: "push_result (return_types ft) (snd x) (c\<lparr>operands := s, lin_mem := fst x\<rparr>) =
        Inr (c\<lparr>operands := s, lin_mem := fst x, operands := s2\<rparr>)" "stack_inv s2" "vals s2 = vals s @ R" "list_all2 elem_ok (return_types ft) R"
      using push_result_ok [OF h(3,4), of "c\<lparr>operands := s, lin_mem := fst x\<rparr>" "snd x"] s(2) by auto
    show ?thesis unfolding s2(1) safe_simps
      using s2(2-4) s(3) okm by (intro exI [of _ s2] exI [of _ "fst x"] exI [of _ R]) simp
  qed
  have tr: "traps_only (host_call E ?i args (lin_mem c))" using e by (simp add: embedder_ok_def)
  have "safe (\<lambda>c'. \<exists>s m R. c' = c\<lparr>operands := s, lin_mem := m\<rparr> \<and> stack_inv s \<and> vals s = V @ R \<and>
      list_all2 elem_ok (return_types ft) R \<and> (memories (emod E) \<noteq> [] \<longrightarrow> ok m))
    (bindR (host_call E ?i args (lin_mem c)) (\<lambda>(m, r). push_result (return_types ft) r (c\<lparr>operands := s, lin_mem := m\<rparr>)))"
    by (rule safe_bind, rule safe_traps [OF tr]) (unfold case_prod_beta, rule r)
  then show ?thesis using h(1,2) s(1) by (simp add: execute_import_def)
qed

lemma entry_typing_ok:
  "typed_env ok E \<Phi> F \<Longrightarrow> context_ok ok E F c \<Longrightarrow> typing_ok ok (entry_typing E \<Phi> F ft c)"
  using unat_bound [of "remaining_call_depth c"]
  by (simp add: typed_env_def context_ok_def typing_ok_def entry_typing_def)

lemma execute_defined_ok:
  assumes t: "typed_env ok E \<Phi> F" and c: "context_ok ok E F c"
    and f: "get_imported_functions_size (emod E) \<le> f" "f < get_functions_total (emod E)"
    and ft: "get_function_type (emod E) f = Inr ft"
    and A: "list_all2 elem_ok (param_types ft) args" and c1: "c1 = c\<lparr>operands := s\<rparr>" "stack_inv s" "vals s = vals (operands c) @ args"
  shows "safe (\<lambda>c2. safe (\<lambda>ret. \<forall>c3. ret = Some c3 \<longrightarrow> halted ok (entry_typing E \<Phi> F ft c) c3) (invoke E n f c2))
    (push_call E None f c1)"
proof -
  let ?T = "entry_typing E \<Phi> F ft c" and ?k = "f - get_imported_functions_size (emod E)"
  have ok: "typing_ok ok ?T" by (rule entry_typing_ok [OF t c])
  have T: "t_env ?T = E" "t_map ?T = \<Phi>" "t_vals0 ?T = vals (operands c)" "t_frames0 ?T = rev (vals (frames c))"
    "t_depth ?T = unat (remaining_call_depth c)" "t_rets0 ?T = return_types ft" by (simp_all add: entry_typing_def)
  have m: "module_ok (emod E)" and e: "embedder_ok ok E" using t by (simp_all add: typed_env_def)
  have ft': "ftype (emod E) ?k = ft" using defined_function(2) [OF m f] ft by simp
  have "\<Phi> (body_code (body_list (emod E) ! ?k)) = Some (?k, [])"
    using t defined_function(1) [OF m f] by (simp add: typed_env_def code_ok_def)
  then have "length (ltypes (emod E) ?k) \<le> F"
    using t unfolding typed_env_def frame_bound_def by fastforce
  then have lenA: "length args \<le> F" using A by (auto simp: ltypes_def ft' dest: list_all2_lengthD)
  show ?thesis
  proof (rule safe_mono, rule enter_function [OF ok, unfolded T, OF f])
    show "stack_inv (operands c1)" "stack_inv (frames c1)" "vals (operands c1) = vals (operands c) @ args"
      using c c1 by (simp_all add: context_ok_def)
    show "list_all2 elem_ok (param_types (ftype (emod E) ?k)) args" using A by (simp add: ft')
    show "length (vals (operands c1)) < 2 ^ 32" if "1 \<le> remaining_call_depth c1"
    proof -
      have "F * 1 \<le> F * unat (remaining_call_depth c)" using that c1(1) by (intro mult_le_mono2) (simp add: word_le_nat_alt)
      then have "length args \<le> F * unat (remaining_call_depth c)" using lenA by linarith
      then show ?thesis using c c1 by (simp add: context_ok_def)
    qed
    show "frames_fit ?T (\<lparr>frame_pc = None, frame_last_op_index = last_op_index c1, frame_size = 1\<rparr> # rev (vals (frames c1)))
        (vals (operands c)) (return_types (ftype (emod E) ?k))"
      using c1(1) by (simp add: T ft')
    show "unat (remaining_call_depth c1) + (length (vals (frames c1)) - length (rev (vals (frames c)))) = unat (remaining_call_depth c)"
      "length (rev (vals (frames c))) \<le> length (vals (frames c1))"
      using c1(1) by simp_all
    show "store_fits ok ?T c1" using c c1(1) by (simp add: context_ok_def store_fits_def T)
    fix c2
    assume c2: "\<forall>g u x. \<exists>s. setup_locals E f (c2\<lparr>gas := g, gas_user := u, pc := x\<rparr>) =
        Inr (c2\<lparr>gas := g, gas_user := u, pc := x, operands := s\<rparr>) \<and>
      fits ok ?T (c2\<lparr>gas := g, gas_user := u, operands := s, pc := Some (body_code (body_list (emod E) ! ?k))\<rparr>)"
    have "safe (fits ok ?T) (bindR (get_function_pc (emod E) f) (\<lambda>p. setup_locals E f (c2\<lparr>gas := g, gas_user := u, pc := Some p\<rparr>)))" for g u
      using spec [OF spec [OF spec [OF c2, of g], of u], of "Some (body_code (body_list (emod E) ! ?k))"] defined_function(4) [OF m f]
      by (cases c2) auto
    then have "safe (fits ok ?T) (enter_body E f c2)"
      unfolding enter_body_def body_of_defined [OF m f] bindR_Inr by (rule safe_bind [OF charge_fits [OF e]])
    then have "safe (fits ok ?T) (bindR (enter_body E f c2) (run E n))"
      using run_fits [OF ok, of _ n] by (auto intro!: safe_bind elim!: safe_mono simp: T)
    then show "safe (\<lambda>ret. \<forall>c3. ret = Some c3 \<longrightarrow> halted ok ?T c3) (invoke E n f c2)"
      using f(1)
      by (cases "enter_body E f c2"; cases "bindR (enter_body E f c2) (run E n)") (auto simp: invoke_def fits_def)
  qed
qed

lemma import_call_ok:
  assumes t: "typed_env ok E \<Phi> F" and c: "context_ok ok E F c" and f: "f < get_imported_functions_size (emod E)"
    and ft: "get_function_type (emod E) f = Inr ft"
    and A: "list_all2 elem_ok (param_types ft) args" and c1: "c1 = c\<lparr>operands := s\<rparr>" "stack_inv s" "vals s = vals (operands c) @ args"
  shows "safe (\<lambda>c2. safe (\<lambda>ret. \<forall>c3. ret = Some c3 \<longrightarrow> safe (returns_ok ok E F f c)
      (bindR (take_result E f c3) (\<lambda>(c4, r). bindR (cleanup c c4) (\<lambda>c5. Inr (Some (c5, r)))))) (invoke E n f c2))
    (push_call E None f c1)"
proof -
  have m: "module_ok (emod E)" using t by (simp add: typed_env_def)
  note cd = c [unfolded context_ok_def]
  let ?af = "\<lparr>frame_pc = None, frame_last_op_index = last_op_index c, frame_size = 1\<rparr>"
  obtain fs where fs: "push ?af (frames c) = Inr fs" "stack_inv fs" "vals fs = vals (frames c) @ [?af]"
    using os.push_law [of "frames c" ?af] cd by auto
  define c2 where "c2 = c1\<lparr>remaining_call_depth := remaining_call_depth c - 1, frames := fs,
      last_op_index := op_size c1 - of_nat (length (param_types ft))\<rparr>"
  have push: "push_call E None f c1 = assertR (1 \<le> remaining_call_depth c) (wie_exn ''stack overflow'') (Inr c2)"
    using fs(1) ft imported_function(2) [OF m f]
    by (simp add: push_call_def reserve_depth_def assertR_def push_frame_def op_size_def c2_def c1(1))
  have c2: "operands c2 = s" "frames c2 = fs" "lin_mem c2 = lin_mem c" "global_values c2 = global_values c" "table_data c2 = table_data c"
    by (simp_all add: c2_def c1(1))
  have fin: "safe (returns_ok ok E F f c) (bindR (take_result E f c3) (\<lambda>(c4, r). bindR (cleanup c c4) (\<lambda>c5. Inr (Some (c5, r)))))"
    if "\<exists>s m R. c3 = c2\<lparr>operands := s, lin_mem := m\<rparr> \<and> stack_inv s \<and> vals s = vals (operands c) @ R \<and>
      list_all2 elem_ok (return_types ft) R \<and> (memories (emod E) \<noteq> [] \<longrightarrow> ok m)" for c3
    using that cd c2 fs(2,3) by (auto intro!: finish_ok [OF c ft])
  have "safe (\<lambda>ret. \<forall>c3. ret = Some c3 \<longrightarrow> safe (returns_ok ok E F f c)
      (bindR (take_result E f c3) (\<lambda>(c4, r). bindR (cleanup c c4) (\<lambda>c5. Inr (Some (c5, r)))))) (invoke E n f c2)"
    unfolding invoke_def if_P [OF f]
    by (rule safe_bind, rule safe_mono [OF execute_import_ok [OF t f ft]]) (use c2 c1 A cd fin in \<open>auto simp del: bindR_Inr\<close>)
  then show ?thesis unfolding push by (intro safe_assert) (auto simp: wie_exn_def internal_msgs_def)
qed

lemma execute_ok:
  assumes t: "typed_env ok E \<Phi> F" and c: "context_ok ok E F c" and f: "f < get_functions_total (emod E)"
  shows "safe (returns_ok ok E F f c) (execute E n f args c)"
proof -
  have m: "module_ok (emod E)" using t by (simp add: typed_env_def)
  obtain ft where ft: "get_function_type (emod E) f = Inr ft"
    using imported_function(1) [OF m, of f] defined_function(2) [OF m _ f] by (cases "f < get_imported_functions_size (emod E)") auto
  obtain s where s: "push_all args c = Inr (c\<lparr>operands := s\<rparr>)" "stack_inv s" "vals s = vals (operands c) @ args"
    using push_all_ok [of c args] c by (auto simp: context_ok_def)
  let ?fin = "\<lambda>c3. bindR (take_result E f c3) (\<lambda>(c4, r). bindR (cleanup c c4) (\<lambda>c5. Inr (Some (c5, r))))"
  have main: "safe (\<lambda>c2. safe (\<lambda>ret. \<forall>c3. ret = Some c3 \<longrightarrow> safe (returns_ok ok E F f c) (?fin c3)) (invoke E n f c2))
      (push_call E None f (c\<lparr>operands := s\<rparr>))" if A: "list_all2 elem_ok (param_types ft) args"
  proof (cases "f < get_imported_functions_size (emod E)")
    case True
    then show ?thesis using import_call_ok [OF t c True ft A refl s(2,3)] by simp
  next
    case False
    then have f': "get_imported_functions_size (emod E) \<le> f" by simp
    have "safe (returns_ok ok E F f c) (?fin c3)" if "halted ok (entry_typing E \<Phi> F ft c) c3" for c3
      using that by (auto simp: halted_def entry_typing_def store_fits_def intro!: finish_ok [OF c ft])
    then show ?thesis
      by (intro safe_mono [OF execute_defined_ok [OF t c f' f ft A refl s(2,3)]]) (auto elim!: safe_mono)
  qed
  have args: "safe (\<lambda>_. list_all2 elem_ok (param_types ft) args) (type_check_args ft args)"
    unfolding type_check_args_def
    by (intro safe_assert, drule sym) (auto simp: wie_exn_def internal_msgs_def list_all2_map1 list_all2_same)
  show ?thesis
    unfolding execute_def ft s(1) bindR_Inr
    by (rule safe_assert, rule safe_bind, rule safe_mono [OF args], rule safe_bind, rule safe_mono [OF main], assumption,
        rule safe_bind, erule safe_mono)
       (auto simp: returns_ok_def wie_exn_def internal_msgs_def split: option.split)
qed

end

subsection \<open>Properties\<close>

text \<open>
  An example: the sum of the numbers from the argument down to 1, passed through memory.
\<close>

definition sum_module :: module where
  "sum_module = \<lparr>types = [\<lparr>param_types = [ty_i32], return_types = [ty_i32]\<rparr>], imports_of = [], import_functions = [],
     func_list = [0], tables = [], memories = [False], globals = [],
     body_list = [\<lparr>body_bytes = 16, wasm_body_bytes = 32, locals = [\<lparr>local_count = 1, local_type = ty_i32\<rparr>], body_code = 0,
       body_stack_size = 1, prologue_gas_extra = 0, body_start = 38, branch_hints = []\<rparr>], stack_limit_is_bytes = False, maximum_stack = 3\<rparr>"

definition sum_code :: "opcode list" where
  "sum_code = [gas_charge_t 1, get_local_t 0, get_local_t 1, num_t (I32_bin i32_add_t), set_local_t 1,
     get_local_t 0, const_t (i32_const 1), num_t (I32_bin i32_sub_t), tee_local_t 0, br_if_t 0 0 0,
     const_t (i32_const 8), get_local_t 1, store_t i32_store_t 2 0, const_t (i32_const 8), load_t i32_load_t 2 0, return_t 2 1 1]"

definition sum_types :: "u8 list list" where
  "sum_types = [[], [], [ty_i32], [ty_i32, ty_i32], [ty_i32], [], [ty_i32], [ty_i32, ty_i32], [ty_i32], [ty_i32], [], [ty_i32],
     [ty_i32, ty_i32], [], [ty_i32], [ty_i32]]"

definition sum_map :: code_map where
  "sum_map p = (if p < 16 then Some (0, sum_types ! p) else None)"

definition sum_env :: "unit env" where
  "sum_env = \<lparr>emod = sum_module, segment = sum_code, gas_handler_of = None, host_sigs = [], host_call = (\<lambda>_ _ m. Inr (m, 0))\<rparr>"

definition sum_context :: "memory \<Rightarrow> unit ectx" where
  "sum_context m = \<lparr>operands = stack_new (i32_const 0) 16, frames = stack_new \<lparr>frame_pc = None, frame_last_op_index = 0, frame_size = 0\<rparr> 16,
     pc = None, last_op_index = 0, remaining_call_depth = 250, lin_mem = m, global_values = [], table_data = [],
     gas = \<lparr>consumed = 0, deadline = 1000\<rparr>, gas_user = ()\<rparr>"

lemma sum_code_ok: "code_ok sum_env sum_map"
proof -
  have "list_all (\<lambda>p. instr_fits sum_module 0 (\<lambda>\<rho>. sum_map (p + 1) = Some (0, \<rho>)) (\<lambda>q \<rho>. sum_map (unat q) = Some (0, \<rho>))
      (sum_types ! p) (sum_code ! p)) [0, 1, 2, 3, 4, 5, 6, 7, 8, 9, 10, 11, 12, 13, 14, 15]"
    unfolding list.pred_inject
    by (simp add: sum_map_def sum_types_def sum_code_def sum_module_def ltypes_def ftype_def expand_locals_def br_fits_def
        load_type_def store_type_def)
  also have "[0, 1, 2, 3, 4, 5, 6, 7, 8, 9, 10, 11, 12, 13, 14, 15 :: nat] = [0..<16]" by (simp add: upt_rec)
  finally show ?thesis
    by (auto simp: code_ok_def sum_env_def sum_map_def sum_module_def sum_code_def sum_types_def list_all_iff split: if_splits)
qed

lemma sum_typed: "typed_env ok sum_env sum_map 4"
proof -
  have "list_all (\<lambda>ts. length ts \<le> 2) sum_types" "length sum_types = 16" by (simp_all add: sum_types_def)
  then have "length (sum_types ! p) \<le> 2" if "p < 16" for p using that by (simp add: list_all_length)
  then have "frame_bound sum_env sum_map 4"
    by (auto simp: frame_bound_def sum_map_def sum_env_def sum_module_def ltypes_def ftype_def expand_locals_def split: if_splits)
  then show ?thesis
    using sum_code_ok
    by (simp add: typed_env_def module_ok_def linked_def embedder_ok_def sum_env_def sum_module_def func_type_ok_def
        value_type_def get_imported_functions_size_def import_types_def)
qed

lemma sum_context_ok: "ok m \<Longrightarrow> context_ok ok sum_env 4 (sum_context m)"
  by (simp add: context_ok_def sum_context_def sum_env_def sum_module_def)

lemma run_numeral: "run E (numeral k) c = (if pc c = None then Inr c else bindR (step E c) (run E (pred_numeral k)))"
  by (simp add: numeral_eq_Suc)

lemmas call_evals =
  execute_def type_check_args_def push_call_def get_function_type_def get_function_stack_size_def get_function_pc_def
  get_imported_functions_size_def import_types_def types_at_def body_at_def body_of_def reserve_depth_def push_frame_def
  invoke_def enter_body_def setup_locals_def zero_of_def apply_pop_call_def take_result_def return_count_def cleanup_def
  charge_def gas_charge_def check_watermark_def validate_read_watermark_def call_def

lemmas stack_evals =
  stack_new_def op_size_def push_operand_def push_def pop_operand_def pop_def peek_operand_def peek_def poke_operand_def poke_def
  get_operand_def get_at_def set_operand_def set_at_def eat_operands_def eat_def compact_operand_def compact_def

lemmas instr_evals = run_numeral step_def inc_pc_def set_relative_pc_def exec_num_def i32_bin_def is_true_def jump_def
  exec_load_def exec_store_def assertR_def Let_def

lemma six_bytes: "le_bytes 4 (6 :: u32) = [6, 0, 0, 0]" "le_word [6 :: u8, 0, 0, 0] = (6 :: u32)"
  by code_simp+

lemma sum_memory:
  "mem_store 0 (i32_const 8) [6, 0, 0, 0] one_page_memory = Inr (stored 8 [6, 0, 0, 0] one_page_memory)"
  "mem_load 0 4 (i32_const 8) (stored 8 [6, 0, 0, 0] one_page_memory) = Inr (stored 8 [6, 0, 0, 0] one_page_memory, [6, 0, 0, 0])"
  "mem_mode one_page_memory = guarded"
proof -
  have ea: "ea 0 8 = 8" by (simp add: ea_def)
  show s: "mem_store 0 (i32_const 8) [6, 0, 0, 0] one_page_memory = Inr (stored 8 [6, 0, 0, 0] one_page_memory)"
    using guarded.store_inside [OF one_page_guarded, of "[6, 0, 0, 0]" 0 8, unfolded ea] one_page_bytes by (simp add: stored_def)
  show "mem_load 0 4 (i32_const 8) (stored 8 [6, 0, 0, 0] one_page_memory) = Inr (stored 8 [6, 0, 0, 0] one_page_memory, [6, 0, 0, 0])"
    using guarded.load_store_same [OF one_page_guarded _ _ s] by (simp add: eval_nat_numeral)
  show "mem_mode one_page_memory = guarded" by (simp add: one_page_memory_def)
qed

lemma sum_runs:
  "map_sum id (map_option snd) (execute sum_env 40 0 [i32_const 3] (sum_context one_page_memory)) = Inr (Some (Some (i32_const 6)))"
  by (simp add: call_evals stack_evals instr_evals six_bytes sum_memory sum_env_def sum_module_def sum_code_def sum_context_def)

text \<open>
  \<^bold>\<open>C3\<close> Type safety of the interpreter, with guarded and with checked memory. For code typed by a stack map and host
  functions that fail only with errors of their own, executing any function with any arguments for any number of
  steps reaches no undefined behaviour and no error by which the interpreter reports an inconsistency of its own
  (operand stack underflow, wrong alternative of a value, index of a local, global, table or function out of range).
  A return leaves operand stack, call frames, program counter and call depth as they were and yields a value of the
  function's first result type.
\<close>

theorem execute_type_safe:
  assumes "ok = guarded_ok \<or> ok = checked_ok"
    and "typed_env ok E \<Phi> F" and "context_ok ok E F c" and "f < get_functions_total (emod E)"
  shows "safe (returns_ok ok E F f c) (execute E n f args c)"
  using assms guarded_vm.execute_ok checked_vm.execute_ok by blast

theorem execute_type_safe_witness:
  "safe (returns_ok guarded_ok sum_env 4 0 (sum_context one_page_memory)) (execute sum_env 40 0 [i32_const 3] (sum_context one_page_memory)) \<and>
   map_sum id (map_option snd) (execute sum_env 40 0 [i32_const 3] (sum_context one_page_memory)) = Inr (Some (Some (i32_const 6))) \<and>
   safe (returns_ok checked_ok sum_env 4 0 (sum_context external_memory)) (execute sum_env 40 0 [i32_const 3] (sum_context external_memory))"
proof (intro conjI)
  have f: "0 < get_functions_total (emod sum_env)" by (simp add: get_functions_total_def sum_env_def sum_module_def)
  show "safe (returns_ok guarded_ok sum_env 4 0 (sum_context one_page_memory)) (execute sum_env 40 0 [i32_const 3] (sum_context one_page_memory))"
    by (rule execute_type_safe [OF _ sum_typed sum_context_ok f]) (simp_all add: one_page_guarded)
  show "safe (returns_ok checked_ok sum_env 4 0 (sum_context external_memory)) (execute sum_env 40 0 [i32_const 3] (sum_context external_memory))"
    by (rule execute_type_safe [OF _ sum_typed sum_context_ok f]) (simp_all add: external_checked)
qed (rule sum_runs)

end
