(* ===== verification/Validate_Types.thy ===== *)
theory Validate_Types
  imports Code_Typing Validate
begin

unbundle bit_operations_syntax

section \<open>What the validator tracks\<close>

text \<open>
  The states of the validator read as typing information. A list of the type tracker is a sequence of
  segments, one per open control structure, each ended by \<open>scope_tag\<close>; code is unreachable when one of
  them holds \<open>unreachable_tag\<close>. \<open>here\<close> is the type of the operands at the current position, if it can be
  reached. The operations of the tracker are described by equations on it.
\<close>

subsection \<open>Segments\<close>

definition here :: "u8 list \<Rightarrow> u8 list option" where
  "here ts = (if unreachable_tag \<in> set ts then None else Some (filter (\<lambda>t. t \<noteq> scope_tag) ts))"

definition below :: "u8 list \<Rightarrow> u8 list" where
  "below ts = tl (dropWhile (\<lambda>t. t \<noteq> scope_tag) ts)"

definition nvals :: "u8 list \<Rightarrow> nat" where
  "nvals ts = length (filter (\<lambda>t. t \<noteq> scope_tag \<and> t \<noteq> unreachable_tag) ts)"

definition operand_type :: "u8 \<Rightarrow> bool" where
  "operand_type t \<longleftrightarrow> value_type t \<or> t = any_type"

definition seg_ok :: "u8 list \<Rightarrow> bool" where
  "seg_ok S \<longleftrightarrow> list_all value_type S \<or> (\<exists>V. S = V @ [unreachable_tag] \<and> list_all operand_type V)"

definition scoped :: "u8 list \<Rightarrow> bool" where
  "scoped ts \<longleftrightarrow> scope_tag \<in> set ts \<and> seg_ok (takeWhile (\<lambda>t. t \<noteq> scope_tag) ts)"

lemma tag_neqs [simp]: "unreachable_tag \<noteq> scope_tag" "scope_tag \<noteq> unreachable_tag" "any_type \<noteq> scope_tag" "scope_tag \<noteq> any_type"
  "any_type \<noteq> unreachable_tag" "unreachable_tag \<noteq> any_type"
  by (simp_all add: unreachable_tag_def scope_tag_def any_type_def)

lemma value_type_tags [simp]: "\<not> value_type unreachable_tag" "\<not> value_type scope_tag" "\<not> value_type any_type" "\<not> value_type ty_pseudo"
  by (simp_all add: value_type_def unreachable_tag_def scope_tag_def any_type_def ty_defs)

lemma value_type_neqs: "value_type t \<Longrightarrow> t \<noteq> unreachable_tag \<and> t \<noteq> scope_tag \<and> t \<noteq> any_type \<and> t \<noteq> ty_pseudo"
  by auto

lemma operand_type_tags [simp]: "\<not> operand_type unreachable_tag" "\<not> operand_type scope_tag" "operand_type any_type"
  by (simp_all add: operand_type_def)

lemma value_types_basic [simp]:
  "value_type ty_i32" "value_type ty_i64" "value_type ty_f32" "value_type ty_f64" "value_type ty_v128"
  "value_type ty_funcref" "value_type ty_externref" "value_type ty_exnref"
  by (simp_all add: value_type_def)

lemma seg_ok_no_scope: "seg_ok S \<Longrightarrow> scope_tag \<notin> set S"
  by (fastforce simp: seg_ok_def list_all_iff)

lemma seg_ok_Nil [simp]: "seg_ok []" "seg_ok [unreachable_tag]"
  by (simp_all add: seg_ok_def)

lemma seg_ok_Cons: "seg_ok S \<Longrightarrow> value_type t \<Longrightarrow> seg_ok (t # S)"
  by (auto simp: seg_ok_def operand_type_def intro: exI [of _ "t # _"])

lemma seg_ok_Cons_any: "seg_ok S \<Longrightarrow> operand_type t \<Longrightarrow> unreachable_tag \<in> set S \<Longrightarrow> seg_ok (t # S)"
  by (auto simp: seg_ok_def list_all_iff intro: exI [of _ "t # _"])

lemma seg_ok_tail: "seg_ok (t # S) \<Longrightarrow> t \<noteq> unreachable_tag \<Longrightarrow> seg_ok S"
  by (auto simp: seg_ok_def Cons_eq_append_conv)

lemma seg_ok_head:
  "seg_ok (t # S) \<Longrightarrow> t = unreachable_tag \<and> S = [] \<or> value_type t \<or> t = any_type \<and> unreachable_tag \<in> set S"
  by (auto simp: seg_ok_def operand_type_def Cons_eq_append_conv)

lemma scoped_append: "seg_ok S \<Longrightarrow> scoped (S @ scope_tag # R)" and below_append: "seg_ok S \<Longrightarrow> below (S @ scope_tag # R) = R"
  using seg_ok_no_scope [of S] by (auto simp: scoped_def below_def takeWhile_append2 dropWhile_append2 takeWhile_append dropWhile_append)

lemma scopedE:
  assumes "scoped ts"
  obtains S R where "ts = S @ scope_tag # R" "seg_ok S" "below ts = R"
proof
  let ?P = "\<lambda>t. t \<noteq> scope_tag"
  have "dropWhile ?P ts \<noteq> []" using assms by (auto simp: scoped_def)
  then have "dropWhile ?P ts = scope_tag # below ts"
    using hd_dropWhile [of ?P ts] by (cases "dropWhile ?P ts") (auto simp: below_def)
  then show "ts = takeWhile ?P ts @ scope_tag # below ts" using takeWhile_dropWhile_id [of ?P ts] by simp
  show "seg_ok (takeWhile ?P ts)" using assms by (simp add: scoped_def)
qed simp

lemma here_simps [simp]:
  "here (unreachable_tag # ts) = None" "here (scope_tag # ts) = here ts" "here [] = Some []"
  "value_type t \<Longrightarrow> here (t # ts) = map_option ((#) t) (here ts)"
  by (auto simp: here_def)

lemma Some_map_option: "Some y = map_option f x \<longleftrightarrow> (\<exists>z. x = Some z \<and> y = f z)"
  by (cases x) auto

lemma here_any: "unreachable_tag \<in> set ts \<Longrightarrow> here (t # ts) = None"
  by (simp add: here_def)

lemma nvals_simps [simp]:
  "nvals (unreachable_tag # ts) = nvals ts" "nvals (scope_tag # ts) = nvals ts" "nvals [] = 0"
  "operand_type t \<Longrightarrow> nvals (t # ts) = Suc (nvals ts)" "nvals (S @ ts) = nvals S + nvals ts"
  by (auto simp: nvals_def)

lemma nvals_here: "here ts = Some \<tau> \<Longrightarrow> nvals ts = length \<tau>"
  by (auto simp: here_def nvals_def split: if_splits intro!: arg_cong [where f = length] filter_cong)

lemma value_operand [simp]: "value_type t \<Longrightarrow> operand_type t"
  by (simp add: operand_type_def)

subsection \<open>Operations of the tracker\<close>

definition depth_ok :: "tracker \<Rightarrow> bool" where
  "depth_ok t \<longleftrightarrow> unat (operand_depth t) = nvals (tstate t) \<and> operand_depth t \<le> maximum_operand_depth t"

definition tracks :: "tracker \<Rightarrow> bool" where
  "tracks t \<longleftrightarrow> scoped (tstate t) \<and> depth_ok t"

definition same_below :: "tracker \<Rightarrow> tracker \<Rightarrow> bool" where
  "same_below t t' \<longleftrightarrow> below (tstate t') = below (tstate t) \<and> maximum_operand_depth t \<le> maximum_operand_depth t'"

abbreviation stk :: "tracker \<Rightarrow> u8 list option" where
  "stk t \<equiv> here (tstate t)"

lemma same_below_refl [simp]: "same_below t t"
  by (simp add: same_below_def)

lemma same_below_trans [trans]: "same_below s t \<Longrightarrow> same_below t u \<Longrightarrow> same_below s u"
  by (auto simp: same_below_def)

lemma stk_length: "tracks t \<Longrightarrow> stk t = Some \<tau> \<Longrightarrow> length \<tau> = unat (operand_depth t)"
  by (simp add: tracks_def depth_ok_def nvals_here)

lemma unat_sub1: "0 < unat (w :: u32) \<Longrightarrow> unat (w - 1) = unat w - 1"
  by (simp add: unat_minus_one unat_gt_0)

lemma unat_add1: "w < - 1 \<Longrightarrow> unat (w + 1 :: u32) = unat w + 1"
proof -
  assume "w < - 1"
  then have "unat w < unat (- 1 :: u32)" by (simp only: word_less_nat_alt)
  also have "unat (- 1 :: u32) = 2 ^ 32 - 1" by (simp add: unsigned_minus_1_eq_mask mask_eq_exp_minus_1)
  finally show ?thesis by (simp add: unat_word_ariths)
qed

lemma tracksE:
  assumes "tracks t"
  obtains S R where "tstate t = S @ scope_tag # R" "seg_ok S" "below (tstate t) = R"
  using assms by (auto simp: tracks_def elim: scopedE)

lemma tr_pop_tracks:
  assumes "tr_pop e t = Inr t'" and "tracks t" and "value_type e"
  shows "tracks t' \<and> same_below t t' \<and> stk t = map_option ((#) e) (stk t')"
proof -
  obtain S R where S: "tstate t = S @ scope_tag # R" "seg_ok S" and R: "below (tstate t) = R"
    using assms(2) by (rule tracksE)
  have e: "e \<noteq> unreachable_tag" "e \<noteq> scope_tag" "e \<noteq> any_type" "e \<noteq> ty_pseudo" using value_type_neqs [OF assms(3)] by auto
  show ?thesis
  proof (cases S)
    case Nil
    then show ?thesis using assms(1) e S by (simp add: tr_pop_def res_simps)
  next
    case (Cons s S')
    show ?thesis
    proof (cases "s = unreachable_tag")
      case True
      then show ?thesis using assms(1,2) e S Cons by (simp add: tr_pop_def)
    next
      case False
      then have s: "value_type s \<or> s = any_type \<and> unreachable_tag \<in> set S'" and S': "seg_ok S'"
        using seg_ok_head [of s S'] seg_ok_tail [of s S'] S Cons by auto
      then have o: "operand_type s" by (auto simp: operand_type_def)
      have t': "t' = t\<lparr>tstate := S' @ scope_tag # R, operand_depth := operand_depth t - 1\<rparr>" "s = e \<or> s = any_type"
        using assms(1) e False S Cons by (auto simp: tr_pop_def res_simps)
      have n: "nvals (tstate t) = Suc (nvals S' + nvals R)" using S Cons o by simp
      have d: "unat (operand_depth t - 1) = nvals S' + nvals R"
        using assms(2) n by (simp add: tracks_def depth_ok_def unat_sub1)
      then have "tracks t'"
        using assms(2) t' S' n by (simp add: tracks_def depth_ok_def scoped_append word_le_nat_alt)
      moreover have "same_below t t'" using t' R by (simp add: same_below_def below_append S')
      moreover have "stk t = map_option ((#) e) (stk t')"
        using t' s assms(3) S Cons by (auto simp: here_def)
      ultimately show ?thesis by simp
    qed
  qed
qed

lemma tr_pop_rev_tracks:
  "tr_pop_rev es t = Inr t' \<Longrightarrow> tracks t \<Longrightarrow> list_all value_type es \<Longrightarrow>
   tracks t' \<and> same_below t t' \<and> stk t = map_option ((@) es) (stk t')"
proof (induction es arbitrary: t)
  case Nil
  then show ?case by (simp add: option.map_ident)
next
  case (Cons e es)
  then obtain t1 where "tr_pop e t = Inr t1" "tr_pop_rev es t1 = Inr t'" by (auto simp: res_simps)
  then show ?case using tr_pop_tracks [of e t t1] Cons by (auto simp: option.map_comp o_def intro: same_below_trans)
qed

lemma tr_pops_tracks:
  "tr_pops es t = Inr t' \<Longrightarrow> tracks t \<Longrightarrow> list_all value_type es \<Longrightarrow>
   tracks t' \<and> same_below t t' \<and> stk t = map_option ((@) (rev es)) (stk t')"
  using tr_pop_rev_tracks [of "rev es" t t'] by (simp add: tr_pops_def list_all_rev)

text \<open>Pushing also happens when the scope of the function is closed and no scope is left.\<close>

definition pushed :: "u8 list \<Rightarrow> tracker \<Rightarrow> tracker \<Rightarrow> bool" where
  "pushed es t t' \<longleftrightarrow> tstate t' = rev es @ tstate t \<and> (depth_ok t \<longrightarrow> depth_ok t') \<and> maximum_operand_depth t \<le> maximum_operand_depth t'"

lemma tr_push_pushed: "tr_push e t = Inr t' \<Longrightarrow> operand_type e \<Longrightarrow> pushed [e] t t'"
  by (auto simp: tr_push_def pushed_def depth_ok_def unat_add1 res_simps)

lemma tr_pushes_pushed: "tr_pushes es t = Inr t' \<Longrightarrow> list_all value_type es \<Longrightarrow> pushed es t t'"
proof (induction es arbitrary: t)
  case Nil
  then show ?case by (simp add: pushed_def)
next
  case (Cons e es)
  then obtain t1 where t1: "tr_push e t = Inr t1" "tr_pushes es t1 = Inr t'" by (auto simp: res_simps)
  then have "pushed [e] t t1" "pushed es t1 t'" using Cons tr_push_pushed [OF t1(1)] by auto
  then show ?case by (auto simp: pushed_def)
qed

lemma seg_ok_append: "list_all value_type es \<Longrightarrow> seg_ok S \<Longrightarrow> seg_ok (es @ S)"
  by (induction es) (auto intro: seg_ok_Cons)

lemma here_append: "list_all value_type es \<Longrightarrow> here (es @ ts) = map_option ((@) es) (here ts)"
  by (cases "here ts"; induction es) auto

lemma pushed_tracks:
  assumes "pushed es t t'" and "tracks t" and "list_all value_type es"
  shows "tracks t' \<and> same_below t t' \<and> stk t' = map_option ((@) (rev es)) (stk t)"
proof -
  obtain S R where S: "tstate t = S @ scope_tag # R" "seg_ok S" and R: "below (tstate t) = R"
    using assms(2) by (rule tracksE)
  have s: "seg_ok (rev es @ S)" using S(2) assms(3) by (intro seg_ok_append) simp_all
  show ?thesis
    using assms S R scoped_append [OF s, of R] below_append [OF s, of R]
    by (simp add: pushed_def tracks_def same_below_def here_append)
qed

lemma tr_push_tracks:
  "tr_push e t = Inr t' \<Longrightarrow> tracks t \<Longrightarrow> value_type e \<Longrightarrow>
   tracks t' \<and> same_below t t' \<and> stk t' = map_option ((#) e) (stk t)"
  using pushed_tracks [OF tr_push_pushed, of e t t'] by (cases "stk t") simp_all

lemma tr_pushes_tracks:
  "tr_pushes es t = Inr t' \<Longrightarrow> tracks t \<Longrightarrow> list_all value_type es \<Longrightarrow>
   tracks t' \<and> same_below t t' \<and> stk t' = map_option ((@) (rev es)) (stk t)"
  using pushed_tracks [OF tr_pushes_pushed] by blast

lemma tr_top_tracks:
  assumes "tr_top e t = Inr t'" and "tracks t" and "value_type e"
  shows "tracks t' \<and> same_below t t' \<and> stk t' = stk t \<and> (\<forall>\<tau>. stk t = Some \<tau> \<longrightarrow> (\<exists>\<rho>. \<tau> = e # \<rho>))"
proof -
  obtain t1 where "tr_pop e t = Inr t1" "tr_push e t1 = Inr t'" using assms(1) by (auto simp: tr_top_def res_simps)
  then show ?thesis using tr_pop_tracks [of e t t1] tr_push_tracks [of e t1 t'] assms by (auto intro: same_below_trans)
qed

text \<open>\<open>any_type\<close> is pushed in unreachable code only.\<close>

definition dead :: "tracker \<Rightarrow> bool" where
  "dead t \<longleftrightarrow> unreachable_tag \<in> set (takeWhile (\<lambda>t. t \<noteq> scope_tag) (tstate t))"

lemma dead_iff:
  assumes "tstate t = S @ scope_tag # R" and "seg_ok S"
  shows "dead t \<longleftrightarrow> unreachable_tag \<in> set S"
proof -
  have "takeWhile (\<lambda>t. t \<noteq> scope_tag) (S @ scope_tag # R) = S @ takeWhile (\<lambda>t. t \<noteq> scope_tag) (scope_tag # R)"
    using seg_ok_no_scope [OF assms(2)] by (intro takeWhile_append2) auto
  then show ?thesis by (simp add: dead_def assms(1))
qed

lemma dead_stk [simp]: "dead t \<Longrightarrow> stk t = None"
  by (auto simp: dead_def here_def dest: set_takeWhileD)

lemma tr_push_any_tracks:
  assumes "tr_push e t = Inr t'" and "tracks t" and "operand_type e" and "\<not> value_type e \<Longrightarrow> dead t"
  shows "tracks t' \<and> same_below t t' \<and> stk t' = map_option ((#) e) (stk t)"
proof (cases "value_type e")
  case True
  then show ?thesis using tr_push_tracks assms by blast
next
  case False
  obtain S R where S: "tstate t = S @ scope_tag # R" "seg_ok S" and R: "below (tstate t) = R"
    using assms(2) by (rule tracksE)
  have u: "unreachable_tag \<in> set S" using assms(4) False S by (simp add: dead_iff)
  then have s: "seg_ok (e # S)" using S(2) assms(3) by (intro seg_ok_Cons_any)
  show ?thesis
    using tr_push_pushed [OF assms(1,3)] assms(2) S R scoped_append [OF s, of R] below_append [OF s, of R] u
    by (simp add: pushed_def tracks_def same_below_def here_def)
qed

lemma tr_pop_any_tracks:
  assumes "tr_pop_any t = Inr (t', e)" and "tracks t"
  shows "tracks t' \<and> same_below t t' \<and> stk t = map_option ((#) e) (stk t') \<and> operand_type e \<and> (\<not> value_type e \<longrightarrow> dead t')"
proof -
  obtain S R where S: "tstate t = S @ scope_tag # R" "seg_ok S" and R: "below (tstate t) = R"
    using assms(2) by (rule tracksE)
  obtain s S' where c: "S = s # S'" "s \<noteq> scope_tag" using assms(1) S by (cases S) (auto simp: tr_pop_any_def res_simps)
  show ?thesis
  proof (cases "s = unreachable_tag")
    case True
    then show ?thesis using assms S c dead_iff [OF S] by (auto simp: tr_pop_any_def)
  next
    case False
    then have s: "value_type s \<or> s = any_type \<and> unreachable_tag \<in> set S'" and S': "seg_ok S'"
      using seg_ok_head [of s S'] seg_ok_tail [of s S'] S c by auto
    have t': "t' = t\<lparr>tstate := S' @ scope_tag # R, operand_depth := operand_depth t - 1\<rparr>" and e: "e = s"
      using assms(1) False S c by (auto simp: tr_pop_any_def)
    have o: "operand_type s" using s by (auto simp: operand_type_def)
    have d: "unat (operand_depth t - 1) = nvals S' + nvals R" and n: "nvals (tstate t) = Suc (nvals S' + nvals R)"
      using assms(2) o S c by (simp_all add: tracks_def depth_ok_def unat_sub1)
    have "tracks t'" using assms(2) t' S' d n by (simp add: tracks_def depth_ok_def scoped_append word_le_nat_alt)
    moreover have "same_below t t'" using t' R by (simp add: same_below_def below_append S')
    moreover have "stk t = map_option ((#) s) (stk t')" using t' s S c by (auto simp: here_def)
    moreover have "\<not> value_type s \<longrightarrow> dead t'" using t' s S' by (auto simp: dead_iff)
    ultimately show ?thesis using e o by simp
  qed
qed

lemma drop_to_scope_eq:
  "scope_tag \<notin> set S \<Longrightarrow> unat d = nvals S + n \<Longrightarrow>
   \<exists>d'. drop_to_scope (S @ scope_tag # R) d = (scope_tag # R, d') \<and> unat d' = n \<and> d' \<le> d"
proof (induction S arbitrary: d)
  case Nil
  then show ?case by simp
next
  case (Cons s S)
  show ?case
  proof (cases "s = unreachable_tag")
    case True
    then show ?thesis using Cons by simp
  next
    case False
    then have n: "nvals (s # S) = Suc (nvals S)" using Cons.prems(1) by (auto simp: nvals_def)
    then have u: "unat (d - 1) = unat d - 1" "d - 1 \<le> d" using Cons.prems(2) by (simp_all add: unat_sub1 word_le_nat_alt)
    then obtain d' where "drop_to_scope (S @ scope_tag # R) (d - 1) = (scope_tag # R, d')" "unat d' = n" "d' \<le> d - 1"
      using Cons.IH [of "d - 1"] Cons.prems n by auto
    then show ?thesis using False Cons.prems(1) u(2) by (auto intro: order_trans)
  qed
qed

lemma start_unreachable_tracks:
  assumes "tracks t"
  shows "tracks (start_unreachable t) \<and> same_below t (start_unreachable t) \<and> stk (start_unreachable t) = None"
proof -
  obtain S R where S: "tstate t = S @ scope_tag # R" "seg_ok S" and R: "below (tstate t) = R"
    using assms by (rule tracksE)
  obtain d where "drop_to_scope (tstate t) (operand_depth t) = (scope_tag # R, d)" "unat d = nvals R" "d \<le> operand_depth t"
    using drop_to_scope_eq [OF seg_ok_no_scope [OF S(2)], of "operand_depth t" "nvals R" R] assms S(1)
    by (auto simp: tracks_def depth_ok_def)
  then show ?thesis
    using assms scoped_append [of "[unreachable_tag]" R] below_append [of "[unreachable_tag]" R] R
    by (auto simp: start_unreachable_def tracks_def depth_ok_def same_below_def)
qed

lemma push_scope_tracks:
  assumes "depth_ok t"
  shows "tracks (push_scope t) \<and> below (tstate (push_scope t)) = tstate t \<and> stk (push_scope t) = stk t \<and>
    maximum_operand_depth (push_scope t) = maximum_operand_depth t"
  using assms scoped_append [of "[]" "tstate t"] below_append [of "[]" "tstate t"]
  by (simp add: push_scope_def tracks_def depth_ok_def)

text \<open>Values do not change the structure below them.\<close>

lemma below_values: "list_all value_type es \<Longrightarrow> below (es @ ts) = below ts"
  by (induction es) (auto simp: below_def)

lemma scoped_values: "list_all value_type es \<Longrightarrow> scoped ts \<Longrightarrow> scoped (es @ ts)"
proof -
  assume es: "list_all value_type es" and "scoped ts"
  then obtain S R where "ts = S @ scope_tag # R" "seg_ok S" by (elim scopedE)
  then show ?thesis using scoped_append [OF seg_ok_append [OF es]] by simp
qed

lemma pop_scope_multi_tracks:
  assumes "pop_scope_multi es t = Inr t'" and "tracks t" and "list_all value_type es"
  shows "tstate t' = rev es @ below (tstate t) \<and> depth_ok t' \<and> maximum_operand_depth t \<le> maximum_operand_depth t' \<and>
    (\<forall>\<tau>. stk t = Some \<tau> \<longrightarrow> stk t' = Some \<tau>)"
proof -
  obtain t1 where t1: "tr_pops es t = Inr t1" and rest: "(case tstate t1 of
       [] \<Rightarrow> Inl (parse_err ''unexpected end'')
     | t # ts \<Rightarrow> (case (if t = unreachable_tag then ts else t # ts) of
            [] \<Rightarrow> Inl (Undefined ''back of an empty vector'')
          | u # us \<Rightarrow> assertR (u = scope_tag) (parse_err ''unexpected end'') (tr_pushes es (t1\<lparr>tstate := us\<rparr>)))) = Inr t'"
    using assms(1) by (auto simp: pop_scope_multi_def bindR_eq_Inr)
  have tr: "tracks t1" "same_below t t1" "stk t = map_option ((@) (rev es)) (stk t1)"
    using tr_pops_tracks [OF t1 assms(2,3)] by auto
  obtain S R where S: "tstate t1 = S @ scope_tag # R" "seg_ok S" and R: "below (tstate t1) = R"
    using tr(1) by (rule tracksE)
  have S': "S = [] \<or> S = [unreachable_tag]" and p: "tr_pushes es (t1\<lparr>tstate := R\<rparr>) = Inr t'"
    using rest S seg_ok_head [of "hd S" "tl S"] seg_ok_no_scope [OF S(2)] by (cases S; auto simp: res_simps split: if_splits)+
  have "depth_ok (t1\<lparr>tstate := R\<rparr>)" using tr(1) S S' by (auto simp: tracks_def depth_ok_def)
  then have "tstate t' = rev es @ R" "depth_ok t'" "maximum_operand_depth t1 \<le> maximum_operand_depth t'"
    using tr_pushes_pushed [OF p assms(3)] by (auto simp: pushed_def)
  moreover have "stk t1 = (if S = [] then here R else None)" using S S' by auto
  ultimately show ?thesis
    using tr R assms(3) by (auto simp: same_below_def here_append list_all_rev split: if_splits)
qed

end
