(* ===== verification/Validate_Code.thy ===== *)
theory Validate_Code
  imports Validate_Types
begin

unbundle bit_operations_syntax

section \<open>What the validator writes\<close>

text \<open>
  The invariant of the bitcode of a function under construction. A list \<open>\<Psi>\<close> gives for every instruction
  written so far the type of the operands before it, if the validator took it to be reachable. An
  instruction fits the type of its successor. The target of a branch is either resolved, and then to a
  position of the type the branch leaves, or pending in an open control structure whose label has
  that type.
\<close>

subsection \<open>Targets of instructions\<close>

definition branch_type :: "u32 \<Rightarrow> u8 list \<Rightarrow> u8 list" where
  "branch_type d \<tau> = take (unat (drop_bit 24 d)) \<tau> @ drop (unat (d AND 0xFFFFFF)) \<tau>"

text \<open>The branches of the instruction at \<open>p\<close>: where the target is stored, the target, and the type there.\<close>

fun targets :: "nat \<Rightarrow> opcode \<Rightarrow> u8 list \<Rightarrow> (branch_t \<times> u32 \<times> u8 list) list" where
  "targets p (if_t q) \<tau> = [(Pc_of p, q, tl \<tau>)]"
| "targets p (else_t q) \<tau> = [(Pc_of p, q, \<tau>)]"
| "targets p (br_t d q) \<tau> = [(Pc_of p, q, branch_type d \<tau>)]"
| "targets p (br_if_t d q _) \<tau> = [(Pc_of p, q, branch_type d (tl \<tau>))]"
| "targets p (br_table_t n es) \<tau> = 
     map (\<lambda>i. (Entry_of p i, elem_pc (es ! i), branch_type (stack_pop (es ! i)) (tl \<tau>))) [0..<length es]"
| "targets p _ \<tau> = []"

abbreviation any_tgt :: "u32 \<Rightarrow> u8 list \<Rightarrow> bool" where
  "any_tgt \<equiv> \<lambda>_ _. True"

lemma br_fits_any: "br_fits tgt d \<tau> \<longleftrightarrow> br_fits (\<lambda>_. True) d \<tau> \<and> tgt (branch_type d \<tau>)"
  by (auto simp: br_fits_def branch_type_def Let_def)

lemma instr_fits_targets:
  "instr_fits m k nxt tgt \<tau> op \<longleftrightarrow>
     instr_fits m k nxt any_tgt \<tau> op \<and> (\<forall>(b, q, \<rho>) \<in> set (targets p op \<tau>). tgt q \<rho>)"
proof (cases op)
  case (br_table_t n es)
  have "(\<forall>(b, q, \<rho>) \<in> set (targets p op (t # \<rho>)). tgt q \<rho>) \<longleftrightarrow>
      (\<forall>e \<in> set es. tgt (elem_pc e) (branch_type (stack_pop e) \<rho>))" for t \<rho>
    by (auto simp: br_table_t all_set_conv_all_nth [of es])
  then have eq: "(\<forall>e \<in> set es. br_fits (tgt (elem_pc e)) (stack_pop e) \<rho>) \<longleftrightarrow>
      (\<forall>e \<in> set es. br_fits (\<lambda>_. True) (stack_pop e) \<rho>) \<and> (\<forall>(b, q, \<rho>) \<in> set (targets p op (t # \<rho>)). tgt q \<rho>)" for t \<rho>
    using br_fits_any [of "tgt _" _ \<rho>] by blast
  show ?thesis
  proof (cases "\<exists>\<rho>. \<tau> = ty_i32 # \<rho>")
    case True
    then obtain \<rho> where "\<tau> = ty_i32 # \<rho>" ..
    then show ?thesis using eq [of \<rho> ty_i32] by (simp add: br_table_t conj_assoc del: targets.simps)
  qed (simp add: br_table_t del: targets.simps)
qed (auto simp: br_fits_any [of "tgt _"])

lemma instr_fits_mono:
  "instr_fits m k nxt tgt \<tau> op \<Longrightarrow> (\<And>\<rho>. nxt \<rho> \<Longrightarrow> nxt' \<rho>) \<Longrightarrow> instr_fits m k nxt' tgt \<tau> op"
  by (cases op) (auto simp: Let_def)

text \<open>Neither a new target nor a new charge changes what an instruction needs otherwise.\<close>

definition store_at :: "branch_t \<Rightarrow> u32 \<Rightarrow> opcode list \<Rightarrow> opcode list" where
  "store_at b q cs = (case b of Pc_of i \<Rightarrow> cs[i := set_pc_field q (cs ! i)] | Entry_of i j \<Rightarrow> cs[i := set_entry_pc j q (cs ! i)])"

lemma store_pc_at: "store_pc b q w = w\<lparr>fb := store_at b q (fb w)\<rparr>"
  by (cases b) (simp_all add: store_at_def)

lemma store_at_length [simp]: "length (store_at b q cs) = length cs"
  by (cases b) (simp_all add: store_at_def)

lemma set_pc_field_fits [simp]: "instr_fits m k nxt any_tgt \<tau> (set_pc_field q op) \<longleftrightarrow> instr_fits m k nxt any_tgt \<tau> op"
  by (cases op) simp_all

lemma set_entry_pc_fits [simp]: "instr_fits m k nxt any_tgt \<tau> (set_entry_pc j q op) \<longleftrightarrow> instr_fits m k nxt any_tgt \<tau> op"
proof (cases op)
  case (br_table_t n es)
  have "(\<forall>e \<in> set (es[j := (es ! j)\<lparr>elem_pc := q\<rparr>]). br_fits (\<lambda>_. True) (stack_pop e) \<rho>) \<longleftrightarrow>
      (\<forall>e \<in> set es. br_fits (\<lambda>_. True) (stack_pop e) \<rho>)" for \<rho>
    by (cases "j < length es") (auto simp: all_set_conv_all_nth nth_list_update list_update_beyond)
  then show ?thesis by (simp add: br_table_t)
qed simp_all

lemma store_at_nth:
  "p < length cs \<Longrightarrow> store_at b q cs ! p =
     (case b of Pc_of i \<Rightarrow> if i = p then set_pc_field q (cs ! p) else cs ! p
      | Entry_of i j \<Rightarrow> if i = p then set_entry_pc j q (cs ! p) else cs ! p)"
  by (cases b) (auto simp: store_at_def)

lemma store_at_fits:
  "p < length cs \<Longrightarrow> instr_fits m k nxt any_tgt \<tau> (store_at b q cs ! p) \<longleftrightarrow> instr_fits m k nxt any_tgt \<tau> (cs ! p)"
  by (simp add: store_at_nth split: branch_t.split)

lemma store_at_targets:
  "p < length cs \<Longrightarrow> targets p (store_at b q cs ! p) \<tau> =
     map (\<lambda>(b', q', \<rho>). (b', if b' = b then q else q', \<rho>)) (targets p (cs ! p) \<tau>)"
  by (cases "cs ! p") (auto simp: store_at_nth nth_list_update split: branch_t.split)

lemma store_at_entries [simp]:
  "p < length cs \<Longrightarrow> length (table_entries (store_at b q cs ! p)) = length (table_entries (cs ! p))"
  by (cases "cs ! p") (auto simp: store_at_nth split: branch_t.split)

lemma add_cost_fits [simp]:
  "instr_fits m k nxt tgt \<tau> (add_cost x op) \<longleftrightarrow> instr_fits m k nxt tgt \<tau> op" "targets p (add_cost x op) \<tau> = targets p op \<tau>"
  by (cases op; simp)+

subsection \<open>The invariant of the code\<close>

text \<open>\<open>c\<close> is the type at the position behind the code.\<close>

definition type_at :: "u8 list option list \<Rightarrow> u8 list option \<Rightarrow> nat \<Rightarrow> u8 list option" where
  "type_at \<Psi> c t = (\<Psi> @ [c]) ! t"

type_synonym pending_list = "(branch_t \<times> u8 list option) list"

definition slot_ok :: "nat \<Rightarrow> u8 list option list \<Rightarrow> u8 list option \<Rightarrow> pending_list \<Rightarrow> branch_t \<Rightarrow> u32 \<Rightarrow> u8 list \<Rightarrow> bool" where
  "slot_ok base \<Psi> c P b q \<rho> \<longleftrightarrow>
     (\<forall>o'. (b, o') \<in> set P \<longrightarrow> o' = Some \<rho>) \<and>
     (b \<notin> fst ` set P \<longrightarrow> (\<exists>t \<le> length \<Psi>. q = of_nat (base + t) \<and> type_at \<Psi> c t = Some \<rho>))"

fun addr_ok :: "opcode list \<Rightarrow> branch_t \<Rightarrow> bool" where
  "addr_ok cs (Pc_of i) = (i < length cs)"
| "addr_ok cs (Entry_of i j) = (i < length cs \<and> j < length (table_entries (cs ! i)))"

text \<open>
  \<open>X\<close> are positions of instructions and \<open>L\<close> the addresses of branches that are still being written.
\<close>

definition code_inv :: "module \<Rightarrow> nat \<Rightarrow> nat \<Rightarrow> nat set \<Rightarrow> branch_t set \<Rightarrow> u8 list option list \<Rightarrow> u8 list option \<Rightarrow> pending_list \<Rightarrow> opcode list \<Rightarrow> bool" where
  "code_inv m k base X L \<Psi> c P cs \<longleftrightarrow>
     length \<Psi> = length cs \<and> type_at \<Psi> c 0 = Some [] \<and> (\<forall>(b, o') \<in> set P. addr_ok cs b) \<and>
     (\<forall>p \<tau>. p < length cs \<longrightarrow> \<Psi> ! p = Some \<tau> \<longrightarrow>
        (p \<notin> X \<longrightarrow> instr_fits m k (\<lambda>\<rho>. type_at \<Psi> c (Suc p) = Some \<rho>) any_tgt \<tau> (cs ! p)) \<and>
        (\<forall>(b, q, \<rho>) \<in> set (targets p (cs ! p) \<tau>). b \<in> L \<or> slot_ok base \<Psi> c P b q \<rho>))"

lemma code_invI:
  assumes "length \<Psi> = length cs" and "type_at \<Psi> c 0 = Some []" and "\<And>b o'. (b, o') \<in> set P \<Longrightarrow> addr_ok cs b"
    and "\<And>p \<tau>. p < length cs \<Longrightarrow> \<Psi> ! p = Some \<tau> \<Longrightarrow> p \<notin> X \<Longrightarrow> instr_fits m k (\<lambda>\<rho>. type_at \<Psi> c (Suc p) = Some \<rho>) any_tgt \<tau> (cs ! p)"
    and "\<And>p \<tau> b q \<rho>. p < length cs \<Longrightarrow> \<Psi> ! p = Some \<tau> \<Longrightarrow> (b, q, \<rho>) \<in> set (targets p (cs ! p) \<tau>) \<Longrightarrow> b \<notin> L \<Longrightarrow> slot_ok base \<Psi> c P b q \<rho>"
  shows "code_inv m k base X L \<Psi> c P cs"
  unfolding code_inv_def using assms by blast

lemma code_invD:
  assumes "code_inv m k base X L \<Psi> c P cs"
  shows "length \<Psi> = length cs" and "(b, o') \<in> set P \<Longrightarrow> addr_ok cs b"
    and "p < length cs \<Longrightarrow> \<Psi> ! p = Some \<tau> \<Longrightarrow> p \<notin> X \<Longrightarrow> instr_fits m k (\<lambda>\<rho>. type_at \<Psi> c (Suc p) = Some \<rho>) any_tgt \<tau> (cs ! p)"
    and "p < length cs \<Longrightarrow> \<Psi> ! p = Some \<tau> \<Longrightarrow> (b, q, \<rho>) \<in> set (targets p (cs ! p) \<tau>) \<Longrightarrow> b \<notin> L \<Longrightarrow> slot_ok base \<Psi> c P b q \<rho>"
    and "type_at \<Psi> c 0 = Some []"
  using assms unfolding code_inv_def by blast+

lemma code_inv_weaken:
  "code_inv m k base X L \<Psi> c P cs \<Longrightarrow> X \<subseteq> X' \<Longrightarrow> L \<subseteq> L' \<Longrightarrow> set P' = set P \<Longrightarrow> code_inv m k base X' L' \<Psi> c P' cs"
  unfolding code_inv_def slot_ok_def by fast

text \<open>The type behind the code becomes known.\<close>

lemma type_at_simps: "t < length \<Psi> \<Longrightarrow> type_at \<Psi> c t = \<Psi> ! t" "type_at \<Psi> c (length \<Psi>) = c"
  "t \<le> length \<Psi> \<Longrightarrow> type_at (\<Psi> @ [c]) c' t = type_at \<Psi> c t"
  by (simp_all add: type_at_def nth_append)

lemma code_inv_current:
  assumes "code_inv m k base X L \<Psi> c P cs" and "\<And>\<rho>. c = Some \<rho> \<Longrightarrow> c' = Some \<rho>"
  shows "code_inv m k base X L \<Psi> c' P cs"
proof -
  have t: "type_at \<Psi> c t = Some \<rho> \<Longrightarrow> t \<le> length \<Psi> \<Longrightarrow> type_at \<Psi> c' t = Some \<rho>" for t \<rho>
    using assms(2) by (cases "t = length \<Psi>") (auto simp: type_at_simps)
  note d = code_invD [OF assms(1)]
  show ?thesis
  proof (rule code_invI)
    show "instr_fits m k (\<lambda>\<rho>. type_at \<Psi> c' (Suc p) = Some \<rho>) any_tgt \<tau> (cs ! p)"
      if "p < length cs" "\<Psi> ! p = Some \<tau>" "p \<notin> X" for p \<tau>
      by (rule instr_fits_mono [OF d(3) [OF that]]) (use t that d(1) in auto)
    show "slot_ok base \<Psi> c' P b q \<rho>"
      if "p < length cs" "\<Psi> ! p = Some \<tau>" "(b, q, \<rho>) \<in> set (targets p (cs ! p) \<tau>)" "b \<notin> L" for p \<tau> b q \<rho>
      using d(4) [OF that] t unfolding slot_ok_def by blast
  qed (use d(1,2,5) t in auto)
qed

text \<open>An instruction is appended; its branches are not yet entered anywhere.\<close>

fun branch_pos :: "branch_t \<Rightarrow> nat" where
  "branch_pos (Pc_of i) = i"
| "branch_pos (Entry_of i _) = i"

lemma targets_pos: "(b, q, \<rho>) \<in> set (targets p op \<tau>) \<Longrightarrow> branch_pos b = p"
  by (cases op) auto

lemma addr_ok_append: "addr_ok cs b \<Longrightarrow> addr_ok (cs @ ds) b"
  by (cases b) (auto simp: nth_append)

lemma code_inv_append:
  assumes "code_inv m k base X L \<Psi> c P cs"
    and "\<And>\<tau>. c = Some \<tau> \<Longrightarrow> length cs \<notin> X \<Longrightarrow> instr_fits m k (\<lambda>\<rho>. c' = Some \<rho>) any_tgt \<tau> op"
  shows "code_inv m k base X (L \<union> {b. branch_pos b = length cs}) (\<Psi> @ [c]) c' P (cs @ [op])"
proof -
  note d = code_invD [OF assms(1)]
  show ?thesis
  proof (rule code_invI)
    show "instr_fits m k (\<lambda>\<rho>. type_at (\<Psi> @ [c]) c' (Suc p) = Some \<rho>) any_tgt \<tau> ((cs @ [op]) ! p)"
      if "p < length (cs @ [op])" "(\<Psi> @ [c]) ! p = Some \<tau>" "p \<notin> X" for p \<tau>
    proof (cases "p = length cs")
      case True
      then show ?thesis using that assms(2) d(1) by (simp add: type_at_def nth_append)
    next
      case False
      then show ?thesis using that d(1) d(3) [of p \<tau>] type_at_simps(3) [of "Suc p" \<Psi> c c'] by (simp add: nth_append)
    qed
    show "slot_ok base (\<Psi> @ [c]) c' P b q \<rho>"
      if "p < length (cs @ [op])" "(\<Psi> @ [c]) ! p = Some \<tau>" "(b, q, \<rho>) \<in> set (targets p ((cs @ [op]) ! p) \<tau>)"
        "b \<notin> L \<union> {b. branch_pos b = length cs}" for p \<tau> b q \<rho>
    proof -
      have "p \<noteq> length cs" using targets_pos [OF that(3)] that(4) by auto
      then have "slot_ok base \<Psi> c P b q \<rho>" using d(4) [of p \<tau> b q \<rho>] d(1) that by (simp add: nth_append)
      moreover have "t \<le> length (\<Psi> @ [c]) \<and> type_at (\<Psi> @ [c]) c' t = type_at \<Psi> c t" if "t \<le> length \<Psi>" for t
        using that type_at_simps(3) [of t \<Psi> c c'] by simp
      ultimately show ?thesis unfolding slot_ok_def by metis
    qed
  qed (use d(1,2,5) type_at_simps(3) [of 0 \<Psi> c c'] in \<open>auto intro: addr_ok_append\<close>)
qed

lemma code_inv_fresh: "code_inv m k base X L \<Psi> c P cs \<Longrightarrow> \<not> addr_ok cs b \<Longrightarrow> b \<notin> fst ` set P"
  using code_invD(2) by fastforce

text \<open>A branch whose target is being written becomes pending.\<close>

definition slot_type :: "opcode list \<Rightarrow> u8 list option list \<Rightarrow> branch_t \<Rightarrow> u8 list \<Rightarrow> bool" where
  "slot_type cs \<Psi> b \<rho> \<longleftrightarrow> (\<exists>p \<tau> q. p < length cs \<and> \<Psi> ! p = Some \<tau> \<and> (b, q, \<rho>) \<in> set (targets p (cs ! p) \<tau>))"

lemma code_inv_enlist:
  assumes "code_inv m k base X L \<Psi> c P cs" and "L \<subseteq> {b}" and "b \<notin> fst ` set P" and "addr_ok cs b"
    and "\<And>\<rho>. slot_type cs \<Psi> b \<rho> \<Longrightarrow> o' = Some \<rho>"
  shows "code_inv m k base X {} \<Psi> c ((b, o') # P) cs"
proof -
  note d = code_invD [OF assms(1)]
  show ?thesis
  proof (rule code_invI)
    show "slot_ok base \<Psi> c ((b, o') # P) b' q \<rho>"
      if "p < length cs" "\<Psi> ! p = Some \<tau>" "(b', q, \<rho>) \<in> set (targets p (cs ! p) \<tau>)" "b' \<notin> {}" for p \<tau> b' q \<rho>
    proof (cases "b' = b")
      case True
      then have "slot_type cs \<Psi> b \<rho>" using that unfolding slot_type_def by blast
      then show ?thesis using True assms(3,5) by (force simp: slot_ok_def)
    next
      case False
      then have "slot_ok base \<Psi> c P b' q \<rho>" using d(4) [OF that(1-3)] assms(2) by auto
      then show ?thesis using False by (simp add: slot_ok_def)
    qed
  qed (use d(1-3,5) assms(4) in auto)
qed

text \<open>A pending branch is resolved to a position of its type.\<close>

lemma addr_ok_store: "addr_ok (store_at b q cs) b' \<longleftrightarrow> addr_ok cs b'"
  by (cases b') auto

lemma code_inv_resolve:
  assumes "code_inv m k base X {} \<Psi> c ((b, o') # P) cs" and "t \<le> length cs" and "type_at \<Psi> c t = o'"
  shows "code_inv m k base X {} \<Psi> c P (store_at b (of_nat (base + t)) cs)"
proof -
  note d = code_invD [OF assms(1)]
  show ?thesis
  proof (rule code_invI)
    show "instr_fits m k (\<lambda>\<rho>. type_at \<Psi> c (Suc p) = Some \<rho>) any_tgt \<tau> (store_at b (of_nat (base + t)) cs ! p)"
      if "p < length (store_at b (of_nat (base + t)) cs)" "\<Psi> ! p = Some \<tau>" "p \<notin> X" for p \<tau>
      using that d(3) by (simp add: store_at_fits)
    show "slot_ok base \<Psi> c P b' q \<rho>"
      if p: "p < length (store_at b (of_nat (base + t)) cs)" "\<Psi> ! p = Some \<tau>"
        "(b', q, \<rho>) \<in> set (targets p (store_at b (of_nat (base + t)) cs ! p) \<tau>)" "b' \<notin> {}" for p \<tau> b' q \<rho>
    proof -
      obtain q' where q': "(b', q', \<rho>) \<in> set (targets p (cs ! p) \<tau>)" "q = (if b' = b then of_nat (base + t) else q')"
        using p(1,3) by (auto simp: store_at_targets)
      have s: "slot_ok base \<Psi> c ((b, o') # P) b' q' \<rho>" using d(4) [OF _ p(2) q'(1)] p(1) by simp
      show ?thesis
      proof (cases "b' = b")
        case True
        then have "type_at \<Psi> c t = Some \<rho>" using s assms(3) by (auto simp: slot_ok_def)
        moreover have "\<forall>x. (b', x) \<in> set P \<longrightarrow> x = Some \<rho>" using s by (simp add: slot_ok_def)
        moreover have "q = of_nat (base + t)" "t \<le> length \<Psi>" using True q'(2) assms(2) d(1) by simp_all
        ultimately show ?thesis unfolding slot_ok_def by blast
      next
        case False
        then show ?thesis using s q'(2) by (simp add: slot_ok_def)
      qed
    qed
  qed (use d(1,2,5) in \<open>auto simp: addr_ok_store\<close>)
qed

lemma fix_branches_base [simp]: "base_offset (fix_branches bs t w) = base_offset w"
  by (induction bs arbitrary: w) (simp_all add: fix_branch_def store_pc_at)

lemma code_inv_fix_branches:
  "code_inv m k (base_offset w) X {} \<Psi> c (map (\<lambda>b. (b, c)) bs @ P) (fb w) \<Longrightarrow>
   code_inv m k (base_offset w) X {} \<Psi> c P (fb (fix_branches bs (length (fb w)) w))"
proof (induction bs arbitrary: w)
  case (Cons b bs)
  let ?w = "fix_branch b (length (fb w)) w"
  have "length \<Psi> = length (fb w)" using code_invD(1) [OF Cons.prems] .
  then have "code_inv m k (base_offset w) X {} \<Psi> c (map (\<lambda>b. (b, c)) bs @ P) (store_at b (of_nat (base_offset w + length (fb w))) (fb w))"
    using Cons.prems type_at_simps(2) [of \<Psi> c] by (intro code_inv_resolve [where o' = c]) simp_all
  then show ?case using Cons.IH [of ?w] by (simp add: fix_branch_def store_pc_at)
qed simp

text \<open>The cost of a loop is filled in.\<close>

lemma code_inv_replace:
  assumes "code_inv m k base X L \<Psi> c P cs" and "length cs' = length cs"
    and "\<And>p \<tau> nxt. p < length cs \<Longrightarrow> instr_fits m k nxt any_tgt \<tau> (cs ! p) \<Longrightarrow> instr_fits m k nxt any_tgt \<tau> (cs' ! p)"
    and "\<And>p \<tau>. p < length cs \<Longrightarrow> targets p (cs' ! p) \<tau> = targets p (cs ! p) \<tau>"
    and "\<And>p. p < length cs \<Longrightarrow> table_entries (cs' ! p) = table_entries (cs ! p)"
  shows "code_inv m k base X L \<Psi> c P cs'"
proof -
  note d = code_invD [OF assms(1)]
  have "addr_ok cs' b" if "addr_ok cs b" for b using that assms(2,5) by (cases b) auto
  then show ?thesis
    using assms d by (intro code_invI) (auto simp: assms(2-4))
qed

lemma code_inv_patch:
  assumes "code_inv m k base X L \<Psi> c P (fb w)"
  shows "code_inv m k base X L \<Psi> c P (fb (patch_gas_imm_add_extra h x w))"
proof -
  have u: "(fb w)[h := add_cost x (fb w ! h)] ! p = (if p = h then add_cost x (fb w ! p) else fb w ! p)" if "p < length (fb w)" for p
    using that by simp
  have "table_entries (add_cost x op) = table_entries op" for op by (cases op) simp_all
  then show ?thesis
    by (intro code_inv_replace [OF assms]) (auto simp: patch_gas_imm_add_extra_def u)
qed

text \<open>An entry is added to a branch table.\<close>

lemma add_entry_targets:
  assumes "op = br_table_t n es"
  shows "set (targets p (add_entry e op) \<tau>) =
    insert (Entry_of p (length es), elem_pc e, branch_type (stack_pop e) (tl \<tau>)) (set (targets p op \<tau>))"
  by (auto simp: assms nth_append)

lemma code_inv_add_entry:
  assumes "code_inv m k base X {} \<Psi> c P cs" and "tab \<in> X" and "tab < length cs" and "cs ! tab = br_table_t n es"
  shows "code_inv m k base X {Entry_of tab (length es)} \<Psi> c P (cs[tab := add_entry e (cs ! tab)])"
proof -
  note d = code_invD [OF assms(1)]
  show ?thesis
  proof (rule code_invI)
    show "instr_fits m k (\<lambda>\<rho>. type_at \<Psi> c (Suc p) = Some \<rho>) any_tgt \<tau> (cs[tab := add_entry e (cs ! tab)] ! p)"
      if "p < length (cs[tab := add_entry e (cs ! tab)])" "\<Psi> ! p = Some \<tau>" "p \<notin> X" for p \<tau>
      using that d(3) [of p \<tau>] assms(2) by (cases "p = tab") simp_all
    show "slot_ok base \<Psi> c P b q \<rho>"
      if p: "p < length (cs[tab := add_entry e (cs ! tab)])" "\<Psi> ! p = Some \<tau>"
        "(b, q, \<rho>) \<in> set (targets p (cs[tab := add_entry e (cs ! tab)] ! p) \<tau>)" "b \<notin> {Entry_of tab (length es)}" for p \<tau> b q \<rho>
    proof -
      have "(b, q, \<rho>) \<in> set (targets p (cs ! p) \<tau>)"
        using p add_entry_targets [OF assms(4), of p e \<tau>] by (cases "p = tab") auto
      then show ?thesis using d(4) [OF _ p(2)] p(1) by simp
    qed
    show "addr_ok (cs[tab := add_entry e (cs ! tab)]) b" if "(b, o') \<in> set P" for b o'
      using d(2) [OF that] assms(3,4) by (cases b) (auto simp: nth_list_update)
  qed (use d(1,5) in simp_all)
qed

subsection \<open>Control structures\<close>

definition results :: "pc_element_t \<Rightarrow> u8 list" where
  "results e = (if expected_results e \<noteq> [] then expected_results e
     else if expected_result e = ty_pseudo then [] else [expected_result e])"

definition labels :: "pc_element_t \<Rightarrow> u8 list" where
  "labels e = (if label_results e \<noteq> [] then label_results e
     else if label_result e = ty_pseudo then [] else [label_result e])"

lemma label_arity_labels: "label_arity e = length (labels e)"
  by (simp add: label_arity_def labels_def)

text \<open>The types at the label and at the start of a structure above \<open>R\<close>.\<close>

definition label_at :: "pc_element_t \<Rightarrow> u8 list \<Rightarrow> u8 list option" where
  "label_at e R = map_option ((@) (rev (labels e))) (here R)"

definition params_at :: "pc_element_t \<Rightarrow> u8 list \<Rightarrow> u8 list option" where
  "params_at e R = map_option ((@) (rev (block_params e))) (here R)"

text \<open>The first branch of an \<open>if\<close> is the one to its \<open>else\<close>.\<close>

definition relocs :: "pc_element_t \<Rightarrow> u8 list \<Rightarrow> pending_list" where
  "relocs e R =
     (case reloc_branches (relocations e) of
        [] \<Rightarrow> []
      | b # bs \<Rightarrow> (b, if is_if e then params_at e R else label_at e R) # map (\<lambda>b. (b, label_at e R)) bs)"

fun pending :: "pc_element_t list \<Rightarrow> u8 list \<Rightarrow> pending_list" where
  "pending [] ts = []"
| "pending (e # es) ts = relocs e (below ts) @ pending es (below ts)"

definition elem_inv :: "u8 list option list \<Rightarrow> pc_element_t \<Rightarrow> u8 list \<Rightarrow> bool" where
  "elem_inv \<Psi> e R \<longleftrightarrow>
     unat (pe_depth e) = nvals R \<and> list_all value_type (results e) \<and> list_all value_type (labels e) \<and>
     list_all value_type (block_params e) \<and>
     (case relocations e of
        Label pos \<Rightarrow> \<not> is_if e \<and> pos < length \<Psi> \<and> \<Psi> ! pos = label_at e R
      | Branches bs \<Rightarrow> labels e = results e \<and> (is_if e \<longrightarrow> bs \<noteq> []))"

text \<open>\<open>rs\<close> are the results of the function; its scope is the outermost one.\<close>

fun scopes :: "u8 list \<Rightarrow> u8 list option list \<Rightarrow> pc_element_t list \<Rightarrow> u8 list \<Rightarrow> bool" where
  "scopes rs \<Psi> [] ts \<longleftrightarrow> False"
| "scopes rs \<Psi> (e # es) ts \<longleftrightarrow>
     scoped ts \<and> elem_inv \<Psi> e (below ts) \<and>
     (if es = [] then below ts = [] \<and> results e = rs \<and> \<not> is_if e else scopes rs \<Psi> es (below ts))"

fun rest_at :: "nat \<Rightarrow> u8 list \<Rightarrow> u8 list" where
  "rest_at 0 ts = below ts"
| "rest_at (Suc l) ts = rest_at l (below ts)"

lemma elem_inv_append: "elem_inv \<Psi> e R \<Longrightarrow> elem_inv (\<Psi> @ \<Psi>') e R"
  by (auto simp: elem_inv_def nth_append split: relocations_t.splits)

lemma scopes_append: "scopes rs \<Psi> pcs ts \<Longrightarrow> scopes rs (\<Psi> @ \<Psi>') pcs ts"
  by (induction pcs arbitrary: ts) (auto simp: elem_inv_append)

lemma scopes_below:
  "scopes rs \<Psi> pcs ts \<Longrightarrow> scoped ts' \<Longrightarrow> below ts' = below ts \<Longrightarrow> scopes rs \<Psi> pcs ts'"
  by (cases pcs) auto

lemma pending_below: "below ts' = below ts \<Longrightarrow> pending pcs ts' = pending pcs ts"
  by (cases pcs) auto

lemma scopes_elem: "scopes rs \<Psi> pcs ts \<Longrightarrow> l < length pcs \<Longrightarrow> elem_inv \<Psi> (pcs ! l) (rest_at l ts)"
proof (induction pcs arbitrary: l ts)
  case (Cons e es)
  then show ?case by (cases l) (auto split: if_splits)
qed simp

lemma here_below:
  "scoped ts \<Longrightarrow> here ts = Some \<tau> \<Longrightarrow> here (below ts) = Some (drop (length \<tau> - nvals (below ts)) \<tau>) \<and> nvals (below ts) \<le> length \<tau>"
proof -
  assume s: "scoped ts" and h: "here ts = Some \<tau>"
  from s obtain S R where S: "ts = S @ scope_tag # R" "below ts = R" by (rule scopedE)
  then have r: "here R = Some (filter (\<lambda>t. t \<noteq> scope_tag) R)" and t: "\<tau> = filter (\<lambda>t. t \<noteq> scope_tag) S @ filter (\<lambda>t. t \<noteq> scope_tag) R"
    using h by (auto simp: here_def split: if_splits)
  show ?thesis using nvals_here [OF r] r t S by simp
qed

lemma scopes_rest:
  "scopes rs \<Psi> pcs ts \<Longrightarrow> l < length pcs \<Longrightarrow> here ts = Some \<tau> \<Longrightarrow>
   here (rest_at l ts) = Some (drop (length \<tau> - nvals (rest_at l ts)) \<tau>) \<and> nvals (rest_at l ts) \<le> length \<tau>"
proof (induction pcs arbitrary: l ts \<tau>)
  case (Cons e es)
  have s: "scoped ts" using Cons.prems by simp
  have b: "here (below ts) = Some (drop (length \<tau> - nvals (below ts)) \<tau>)" "nvals (below ts) \<le> length \<tau>"
    using here_below [OF s Cons.prems(3)] by auto
  show ?case
  proof (cases l)
    case (Suc l')
    let ?r = "rest_at l' (below ts)"
    have "scopes rs \<Psi> es (below ts)" "l' < length es" using Cons.prems Suc by (auto split: if_splits)
    from Cons.IH [OF this b(1)] b show ?thesis by (auto simp: Suc)
  qed (use b in simp)
qed simp

end
