(* ===== verification/Validate_Inv.thy ===== *)
theory Validate_Inv
  imports Validate_Code
begin

unbundle bit_operations_syntax

section \<open>The invariant of the validator\<close>

text \<open>
  The invariant of the state of the validator between two instructions, and how it is kept when an
  instruction is written and when a branch is taken up.
\<close>

subsection \<open>Definition\<close>

definition body_inv :: "module \<Rightarrow> nat \<Rightarrow> u8 list \<Rightarrow> nat \<Rightarrow> nat set \<Rightarrow> branch_t set \<Rightarrow> u8 list option list \<Rightarrow>
    tracker \<Rightarrow> pc_element_t list \<Rightarrow> writer \<Rightarrow> bool" where
  "body_inv m k rs base X L \<Psi> t pcs w \<longleftrightarrow>
     base_offset w = base \<and> depth_ok t \<and>
     (if pcs = [] then tstate t = rev rs else scopes rs \<Psi> pcs (tstate t)) \<and>
     (\<forall>\<tau>. Some \<tau> \<in> set \<Psi> \<longrightarrow> length \<tau> \<le> unat (maximum_operand_depth t)) \<and>
     code_inv m k base X L \<Psi> (stk t) (pending pcs (tstate t)) (fb w)"

definition body_ok :: "module \<Rightarrow> nat \<Rightarrow> u8 list \<Rightarrow> nat \<Rightarrow> tracker \<Rightarrow> pc_element_t list \<Rightarrow> writer \<Rightarrow> bool" where
  "body_ok m k rs base t pcs w \<longleftrightarrow> (\<exists>\<Psi>. body_inv m k rs base {} {} \<Psi> t pcs w)"

lemma body_inv_tracks: "body_inv m k rs base X L \<Psi> t pcs w \<Longrightarrow> pcs \<noteq> [] \<Longrightarrow> tracks t"
  by (cases pcs) (auto simp: body_inv_def tracks_def)

lemma body_ok_tracks: "body_ok m k rs base t pcs w \<Longrightarrow> pcs \<noteq> [] \<Longrightarrow> tracks t"
  by (auto simp: body_ok_def dest: body_inv_tracks)

lemma body_invD:
  assumes "body_inv m k rs base X L \<Psi> t pcs w"
  shows "base_offset w = base" and "depth_ok t" and "pcs \<noteq> [] \<Longrightarrow> scopes rs \<Psi> pcs (tstate t)"
    and "Some \<tau> \<in> set \<Psi> \<Longrightarrow> length \<tau> \<le> unat (maximum_operand_depth t)"
    and "code_inv m k base X L \<Psi> (stk t) (pending pcs (tstate t)) (fb w)" and "length \<Psi> = length (fb w)"
  using assms code_invD(1) unfolding body_inv_def by auto

lemma body_inv_emit:
  assumes i: "body_inv m k rs base X L \<Psi> t pcs w" and pcs: "pcs \<noteq> []" and t': "tracks t'" "same_below t t'"
    and fits: "\<And>\<tau>. stk t = Some \<tau> \<Longrightarrow> length (fb w) \<notin> X \<Longrightarrow> instr_fits m k (\<lambda>\<rho>. stk t' = Some \<rho>) any_tgt \<tau> op"
  shows "body_inv m k rs base X (L \<union> {b. branch_pos b = length (fb w)}) (\<Psi> @ [stk t]) t' pcs (w\<lparr>fb := fb w @ [op]\<rparr>)"
proof -
  have tr: "tracks t" by (rule body_inv_tracks [OF i pcs])
  have "length \<tau> \<le> unat (maximum_operand_depth t')" if "stk t = Some \<tau>" for \<tau>
    using stk_length [OF tr that] tr t'(2) by (simp add: tracks_def depth_ok_def same_below_def word_le_nat_alt)
  moreover have "length \<tau> \<le> unat (maximum_operand_depth t')" if "Some \<tau> \<in> set \<Psi>" for \<tau>
    using body_invD(4) [OF i that] t'(2) by (simp add: same_below_def word_le_nat_alt)
  moreover have "scopes rs (\<Psi> @ [stk t]) pcs (tstate t')"
    by (rule scopes_append, rule scopes_below [OF body_invD(3) [OF i pcs]]) (use t' in \<open>simp_all add: tracks_def same_below_def\<close>)
  moreover have "pending pcs (tstate t') = pending pcs (tstate t)" using t'(2) by (intro pending_below) (simp add: same_below_def)
  ultimately show ?thesis
    using body_invD(1) [OF i] pcs t' code_inv_append [OF body_invD(5) [OF i] fits] unfolding body_inv_def
    by (auto simp: tracks_def)
qed

lemma code_inv_limit:
  assumes "code_inv m k base X L \<Psi> c P cs" and "\<And>b \<rho>. b \<in> L \<Longrightarrow> slot_type cs \<Psi> b \<rho> \<Longrightarrow> b \<in> L'"
  shows "code_inv m k base X L' \<Psi> c P cs"
  using assms unfolding code_inv_def slot_type_def by blast

lemma body_inv_limit:
  "body_inv m k rs base X L \<Psi> t pcs w \<Longrightarrow> (\<And>b \<rho>. b \<in> L \<Longrightarrow> slot_type (fb w) \<Psi> b \<rho> \<Longrightarrow> b \<in> L') \<Longrightarrow>
   body_inv m k rs base X L' \<Psi> t pcs w"
  unfolding body_inv_def using code_inv_limit by blast

lemma slot_type_last:
  assumes "slot_type (cs @ [op]) (\<Psi> @ [c]) b \<rho>" and "branch_pos b = length cs" and "length \<Psi> = length cs"
  shows "\<exists>\<tau> q. c = Some \<tau> \<and> (b, q, \<rho>) \<in> set (targets (length cs) op \<tau>)"
proof -
  obtain p \<tau> q where p: "(\<Psi> @ [c]) ! p = Some \<tau>" "(b, q, \<rho>) \<in> set (targets p ((cs @ [op]) ! p) \<tau>)"
    using assms(1) by (auto simp: slot_type_def)
  then have "p = length cs" using targets_pos assms(2) by metis
  then show ?thesis using p assms(3) by (auto simp: nth_append)
qed

text \<open>An instruction without branches.\<close>

lemma append_instr_eq: "append_instr op w = Inr w' \<Longrightarrow> w' = w\<lparr>fb := fb w @ [op]\<rparr>"
  by (auto simp: append_instr_def res_simps)

lemma body_ok_emit:
  assumes "body_ok m k rs base t pcs w" and "pcs \<noteq> []" and "tracks t'" and "same_below t t'" and "append_instr op w = Inr w'"
    and "\<And>\<tau>. stk t = Some \<tau> \<Longrightarrow> instr_fits m k (\<lambda>\<rho>. stk t' = Some \<rho>) any_tgt \<tau> op" and "\<And>p \<tau>. targets p op \<tau> = []"
  shows "body_ok m k rs base t' pcs w'"
proof -
  obtain \<Psi> where i: "body_inv m k rs base {} {} \<Psi> t pcs w" using assms(1) by (auto simp: body_ok_def)
  have "\<not> slot_type (fb w') (\<Psi> @ [stk t]) b \<rho>" if "branch_pos b = length (fb w)" for b \<rho>
    using slot_type_last [of "fb w" op \<Psi> "stk t", OF _ that body_invD(6) [OF i]] assms(7) append_instr_eq [OF assms(5)] by auto
  then have "body_inv m k rs base {} {} (\<Psi> @ [stk t]) t' pcs w'"
    using body_inv_emit [OF i assms(2-4,6)] append_instr_eq [OF assms(5)] body_inv_limit by blast
  then show ?thesis by (auto simp: body_ok_def)
qed

subsection \<open>Branches\<close>

lemma elem_update_simps [simp]:
  "labels (e\<lparr>relocations := r\<rparr>) = labels e" "results (e\<lparr>relocations := r\<rparr>) = results e"
  "label_at (e\<lparr>relocations := r\<rparr>) R = label_at e R" "params_at (e\<lparr>relocations := r\<rparr>) R = params_at e R"
  by (simp_all add: labels_def results_def label_at_def params_at_def)

lemma scopes_add_branch:
  "scopes rs \<Psi> pcs ts \<Longrightarrow> l < length pcs \<Longrightarrow> relocations (pcs ! l) = Branches bs \<Longrightarrow>
   scopes rs \<Psi> (pcs[l := (pcs ! l)\<lparr>relocations := Branches (bs @ [b])\<rparr>]) ts \<and>
   set (pending (pcs[l := (pcs ! l)\<lparr>relocations := Branches (bs @ [b])\<rparr>]) ts) =
     insert (b, label_at (pcs ! l) (rest_at l ts)) (set (pending pcs ts))"
proof (induction pcs arbitrary: l ts)
  case (Cons e es)
  show ?case
  proof (cases l)
    case 0
    have "is_if e \<Longrightarrow> bs \<noteq> []" using Cons.prems 0 by (auto simp: elem_inv_def)
    then show ?thesis
      using Cons.prems 0 by (cases bs) (auto simp: elem_inv_def relocs_def)
  next
    case (Suc l')
    then show ?thesis using Cons.IH [of "below ts" l'] Cons.prems by (auto split: if_splits)
  qed
qed simp

text \<open>The elements without their pending branches.\<close>

definition skeleton :: "pc_element_t list \<Rightarrow> pc_element_t list" where
  "skeleton = map (\<lambda>e. e\<lparr>relocations := Label 0\<rparr>)"

lemma skeleton_length: "skeleton pcs' = skeleton pcs \<Longrightarrow> length pcs' = length pcs"
  unfolding skeleton_def by (metis length_map)

lemma skeleton_nth:
  assumes "skeleton pcs' = skeleton pcs" and "l < length pcs"
  shows "labels (pcs' ! l) = labels (pcs ! l)" and "pe_depth (pcs' ! l) = pe_depth (pcs ! l)"
    and "label_at (pcs' ! l) R = label_at (pcs ! l) R"
proof -
  have eq: "(pcs' ! l)\<lparr>relocations := Label 0\<rparr> = (pcs ! l)\<lparr>relocations := Label 0\<rparr>"
    using assms skeleton_length [OF assms(1)] unfolding skeleton_def by (metis nth_map)
  show "labels (pcs' ! l) = labels (pcs ! l)" "pe_depth (pcs' ! l) = pe_depth (pcs ! l)"
    "label_at (pcs' ! l) R = label_at (pcs ! l) R"
    using arg_cong [OF eq, of labels] arg_cong [OF eq, of pe_depth] arg_cong [OF eq, of "\<lambda>e. label_at e R"] by simp_all
qed

lemma handle_branch_ok:
  assumes i: "body_inv m k rs base X L \<Psi> t pcs w" and L: "L \<subseteq> {b}" and fresh: "b \<notin> fst ` set (pending pcs (tstate t))"
    and a: "addr_ok (fb w) b"
    and ty: "\<And>\<rho>. unat l < length pcs \<Longrightarrow> slot_type (fb w) \<Psi> b \<rho> \<Longrightarrow> label_at (pcs ! unat l) (rest_at (unat l) (tstate t)) = Some \<rho>"
    and h: "handle_branch_target l b st = Inr st'" and st: "pc_stack st = pcs" "wr st = w"
  shows "\<exists>pcs' w'. st' = st\<lparr>pc_stack := pcs', wr := w'\<rparr> \<and> body_inv m k rs base X {} \<Psi> t pcs' w' \<and> skeleton pcs' = skeleton pcs \<and>
    (w' = w \<or> (\<exists>q. w' = w\<lparr>fb := store_at b q (fb w)\<rparr>))"
proof -
  let ?e = "pcs ! unat l" and ?R = "rest_at (unat l) (tstate t)"
  have l: "unat l < length pcs" using h st by (simp add: handle_branch_target_def res_simps)
  have sc: "scopes rs \<Psi> pcs (tstate t)" and ci: "code_inv m k base X L \<Psi> (stk t) (pending pcs (tstate t)) (fb w)"
    using i l by (auto simp: body_inv_def split: if_splits)
  have c: "code_inv m k base X {} \<Psi> (stk t) ((b, label_at ?e ?R) # pending pcs (tstate t)) (fb w)"
    by (rule code_inv_enlist [OF ci L fresh a ty [OF l]])
  show ?thesis
  proof (cases "relocations ?e")
    case (Label pos)
    then have "pos < length \<Psi>" "\<Psi> ! pos = label_at ?e ?R" using scopes_elem [OF sc l] by (auto simp: elem_inv_def)
    then have "code_inv m k base X {} \<Psi> (stk t) (pending pcs (tstate t)) (store_at b (of_nat (base + pos)) (fb w))"
      using code_invD(1) [OF c] by (intro code_inv_resolve [OF c]) (simp_all add: type_at_simps)
    moreover have "st' = st\<lparr>wr := w\<lparr>fb := store_at b (of_nat (base + pos)) (fb w)\<rparr>\<rparr>"
      using h st l Label i by (simp add: handle_branch_target_def fix_branch_def store_pc_at body_inv_def)
    ultimately show ?thesis
      using i st by (intro exI [of _ pcs] exI [of _ "w\<lparr>fb := store_at b (of_nat (base + pos)) (fb w)\<rparr>"]) (auto simp: body_inv_def)
  next
    case (Branches bs)
    let ?pcs = "pcs[unat l := ?e\<lparr>relocations := Branches (bs @ [b])\<rparr>]"
    have s: "scopes rs \<Psi> ?pcs (tstate t)"
      and P: "set (pending ?pcs (tstate t)) = insert (b, label_at ?e ?R) (set (pending pcs (tstate t)))"
      using scopes_add_branch [OF sc l Branches] by auto
    have "code_inv m k base X {} \<Psi> (stk t) (pending ?pcs (tstate t)) (fb w)"
      by (rule code_inv_weaken [OF c]) (simp_all add: P)
    moreover have "st' = st\<lparr>pc_stack := ?pcs\<rparr>"
      using h st l Branches by (simp add: handle_branch_target_def)
    moreover have "skeleton ?pcs = skeleton pcs"
      using l by (simp add: skeleton_def map_update list_update_same_conv)
    ultimately show ?thesis
      using i st s l by (intro exI [of _ ?pcs] exI [of _ w]) (auto simp: body_inv_def)
  qed
qed

text \<open>The operands of a branch.\<close>

lemma compute_depth_change_eq:
  "compute_depth_change l st =
     assertR (unat l < length (pc_stack st)) (parse_err ''invalid label'')
       (let e = pc_stack st ! unat l in
        bindR (tr_pops (labels e) (op_stack st)) (\<lambda>t1. bindR (tr_pushes (labels e) t1) (\<lambda>t2.
          Inr (st\<lparr>op_stack := t2\<rparr>, operand_depth (op_stack st) - pe_depth e, of_nat (length (labels e))))))"
  by (auto simp: compute_depth_change_def labels_def Let_def on_tracker_def bindR_assoc tr_top_def tr_pops_def)

lemma rest_at_below: "below ts' = below ts \<Longrightarrow> rest_at l ts' = rest_at l ts"
  by (cases l) simp_all

text \<open>Operands \<open>\<tau>\<close> from which a branch to \<open>e\<close> can be taken.\<close>

definition branches :: "pc_element_t \<Rightarrow> u8 list \<Rightarrow> u8 list \<Rightarrow> bool" where
  "branches e R \<tau> \<longleftrightarrow> take (length (labels e)) \<tau> = rev (labels e) \<and> length (labels e) + nvals R \<le> length \<tau> \<and>
     here R = Some (drop (length \<tau> - nvals R) \<tau>)"

lemma branchesI:
  assumes "scopes rs \<Psi> pcs ts" and "l < length pcs" and "here ts = Some \<sigma>"
  shows "branches (pcs ! l) (rest_at l ts) (rev (labels (pcs ! l)) @ \<sigma>)"
  using scopes_rest [OF assms] by (auto simp: branches_def)

lemma pops_branches:
  assumes "tr_pops (labels e) t = Inr t1" and "tracks t" and "list_all value_type (labels e)" and "scopes rs \<Psi> pcs (tstate t)"
    and "stk t = Some \<tau>" and "l < length pcs" and "labels (pcs ! l) = labels e"
  shows "branches (pcs ! l) (rest_at l (tstate t)) \<tau>"
proof -
  have p: "tracks t1" "same_below t t1" "stk t = map_option ((@) (rev (labels e))) (stk t1)"
    using tr_pops_tracks [OF assms(1-3)] by auto
  then obtain \<sigma> where s: "stk t1 = Some \<sigma>" "\<tau> = rev (labels e) @ \<sigma>" using assms(5) by (auto simp: Some_map_option)
  have "scopes rs \<Psi> pcs (tstate t1)" and b: "rest_at l (tstate t1) = rest_at l (tstate t)"
    using p(1,2) scopes_below [OF assms(4), of "tstate t1"] rest_at_below [of "tstate t1" "tstate t"]
    by (simp_all add: tracks_def same_below_def)
  from branchesI [OF this(1) assms(6) s(1)] show ?thesis using b s(2) assms(7) by simp
qed

lemma compute_depth_ok:
  assumes "compute_depth_change l st = Inr (st', dc, rc)" and "tracks (op_stack st)" and "scopes rs \<Psi> (pc_stack st) (tstate (op_stack st))"
  shows "\<exists>t'. st' = st\<lparr>op_stack := t'\<rparr> \<and> tracks t' \<and> same_below (op_stack st) t' \<and> stk t' = stk (op_stack st) \<and>
    unat l < length (pc_stack st) \<and> dc = operand_depth (op_stack st) - pe_depth (pc_stack st ! unat l) \<and>
    rc = of_nat (length (labels (pc_stack st ! unat l))) \<and>
    (\<forall>\<tau>. stk (op_stack st) = Some \<tau> \<longrightarrow> branches (pc_stack st ! unat l) (rest_at (unat l) (tstate (op_stack st))) \<tau>)"
proof -
  let ?e = "pc_stack st ! unat l" and ?t = "op_stack st"
  obtain t1 t2 where t1: "tr_pops (labels ?e) ?t = Inr t1" and t2: "tr_pushes (labels ?e) t1 = Inr t2"
    and r: "unat l < length (pc_stack st)" "st' = st\<lparr>op_stack := t2\<rparr>" "dc = operand_depth ?t - pe_depth ?e" "rc = of_nat (length (labels ?e))"
    using assms(1) by (auto simp: compute_depth_change_eq res_simps Let_def)
  have v: "list_all value_type (labels ?e)" using scopes_elem [OF assms(3) r(1)] by (simp add: elem_inv_def)
  have p: "tracks t1" "same_below ?t t1" "stk ?t = map_option ((@) (rev (labels ?e))) (stk t1)"
    using tr_pops_tracks [OF t1 assms(2) v] by auto
  have q: "tracks t2" "same_below t1 t2" "stk t2 = map_option ((@) (rev (labels ?e))) (stk t1)"
    using tr_pushes_tracks [OF t2 p(1) v] by auto
  show ?thesis
    using r p(3) q same_below_trans [OF p(2) q(2)] pops_branches [OF t1 assms(2) v assms(3) _ r(1)] by auto
qed

lemma encode_depth_change_fields:
  assumes "encode_depth_change dc rc = Inr d"
  shows "unat (d AND 0xFFFFFF) = unat dc" and "unat (drop_bit 24 d) = unat rc"
proof -
  have dc: "unat dc < 2 ^ 24" and rc: "unat rc < 2 ^ 8" and d: "d = dc OR push_bit 24 rc"
    using assms by (auto simp: encode_depth_change_def res_simps word_le_nat_alt)
  have m: "0xFFFFFF = (mask 24 :: u32)" by (simp add: mask_eq_exp_minus_1)
  have t: "dc = take_bit 24 dc" using dc by (intro word_unat_eq_iff [THEN iffD2]) (simp add: unat_take_bit)
  have "dc AND push_bit 24 rc = 0"
    by (subst t, rule bit_eqI) (auto simp: bit_simps)
  then have u: "unat d = unat dc + unat rc * 2 ^ 24"
    using rc by (simp add: d unat_or_disjoint unat_push_bit)
  show "unat (d AND 0xFFFFFF) = unat dc"
    using dc u by (simp add: m take_bit_eq_mask [symmetric] unat_take_bit)
  show "unat (drop_bit 24 d) = unat rc" using dc u by (simp add: unat_drop_bit)
qed

lemma branch_fits:
  assumes "tracks t" and "stk t = Some \<tau>" and "branches e R \<tau>" and "unat (pe_depth e) = nvals R"
    and "encode_depth_change (operand_depth t - pe_depth e) (of_nat (length (labels e))) = Inr d"
  shows "br_fits (\<lambda>_. True) d \<tau>" and "label_at e R = Some (branch_type d \<tau>)"
proof -
  note b = assms(3) [unfolded branches_def]
  have n: "unat (operand_depth t) = length \<tau>" using stk_length [OF assms(1,2)] by simp
  then have len: "length \<tau> < 2 ^ 32" using unat_bound [of "operand_depth t"] by simp
  have dc: "unat (operand_depth t - pe_depth e) = length \<tau> - nvals R"
    using b n assms(4) by (subst unat_sub) (simp_all add: word_le_nat_alt)
  have rc: "unat (of_nat (length (labels e)) :: u32) = length (labels e)"
    using b len by (simp add: unat_of_nat)
  note f = encode_depth_change_fields [OF assms(5), unfolded dc rc]
  show "br_fits (\<lambda>_. True) d \<tau>" using f b by (auto simp: br_fits_def)
  show "label_at e R = Some (branch_type d \<tau>)" using f b by (simp add: label_at_def branch_type_def)
qed

lemma emit_branch_ok:
  assumes ok: "body_ok m k rs base t pcs w" and pcs: "pcs \<noteq> []" and t': "tracks t'" "same_below t t'"
    and fits: "\<And>\<tau>. stk t = Some \<tau> \<Longrightarrow> instr_fits m k (\<lambda>\<rho>. stk t' = Some \<rho>) any_tgt \<tau> op"
    and tg: "\<And>\<tau> b q \<rho>. stk t = Some \<tau> \<Longrightarrow> (b, q, \<rho>) \<in> set (targets (length (fb w)) op \<tau>) \<Longrightarrow>
      b = Pc_of (length (fb w)) \<and> label_at (pcs ! unat l) (rest_at (unat l) (tstate t)) = Some \<rho>"
    and h: "handle_branch_target l (Pc_of (length (fb w))) st = Inr st'" and st: "pc_stack st = pcs" "wr st = w\<lparr>fb := fb w @ [op]\<rparr>"
  shows "body_ok m k rs base t' (pc_stack st') (wr st') \<and> pc_stack st' \<noteq> [] \<and> op_stack st' = op_stack st"
proof -
  obtain \<Psi> where i: "body_inv m k rs base {} {} \<Psi> t pcs w" using ok by (auto simp: body_ok_def)
  let ?w = "w\<lparr>fb := fb w @ [op]\<rparr>" and ?b = "Pc_of (length (fb w))" and ?\<Psi> = "\<Psi> @ [stk t]"
  have e: "body_inv m k rs base {} {b. branch_pos b = length (fb w)} ?\<Psi> t' pcs ?w"
    using body_inv_emit [OF i pcs t' fits] by simp
  have sl: "b = ?b \<and> label_at (pcs ! unat l) (rest_at (unat l) (tstate t)) = Some \<rho>"
    if "slot_type (fb ?w) ?\<Psi> b \<rho>" "branch_pos b = length (fb w)" for b \<rho>
    using slot_type_last [of "fb w" op \<Psi> "stk t" b \<rho>] that body_invD(6) [OF i] tg by auto
  have e': "body_inv m k rs base {} {?b} ?\<Psi> t' pcs ?w" by (rule body_inv_limit [OF e]) (use sl in auto)
  have pd: "pending pcs (tstate t') = pending pcs (tstate t)" and rb: "rest_at (unat l) (tstate t') = rest_at (unat l) (tstate t)"
    using t'(2) by (auto simp: same_below_def intro: pending_below rest_at_below)
  have fresh: "?b \<notin> fst ` set (pending pcs (tstate t'))"
    using code_inv_fresh [OF body_invD(5) [OF i], of ?b] by (simp add: pd)
  have "\<exists>pcs' w'. st' = st\<lparr>pc_stack := pcs', wr := w'\<rparr> \<and> body_inv m k rs base {} {} ?\<Psi> t' pcs' w' \<and> skeleton pcs' = skeleton pcs \<and>
    (w' = ?w \<or> (\<exists>q. w' = ?w\<lparr>fb := store_at ?b q (fb ?w)\<rparr>))"
  proof (rule handle_branch_ok [OF e' subset_refl fresh _ _ h st])
    show "label_at (pcs ! unat l) (rest_at (unat l) (tstate t')) = Some \<rho>" if "slot_type (fb ?w) ?\<Psi> ?b \<rho>" for \<rho>
      using sl [OF that] rb by simp
  qed simp
  then show ?thesis using pcs by (auto simp: body_ok_def dest: skeleton_length)
qed

subsection \<open>Opening and closing control structures\<close>

lemma enter_scope:
  assumes "tr_pops bp t = Inr t1" and "tr_pushes bp (push_scope t1) = Inr t2" and "tracks t" and "list_all value_type bp"
  shows "tracks t1" and "same_below t t1" and "stk t = map_option ((@) (rev bp)) (stk t1)" and "tracks t2" and "stk t2 = stk t"
    and "below (tstate t2) = tstate t1" and "maximum_operand_depth t \<le> maximum_operand_depth t2"
proof -
  show p: "tracks t1" "same_below t t1" "stk t = map_option ((@) (rev bp)) (stk t1)"
    using tr_pops_tracks [OF assms(1,3,4)] by auto
  have s: "tracks (push_scope t1)" "below (tstate (push_scope t1)) = tstate t1" "stk (push_scope t1) = stk t1"
    "maximum_operand_depth (push_scope t1) = maximum_operand_depth t1"
    using push_scope_tracks [of t1] p(1) by (simp_all add: tracks_def)
  then show "tracks t2" "stk t2 = stk t" "below (tstate t2) = tstate t1" "maximum_operand_depth t \<le> maximum_operand_depth t2"
    using tr_pushes_tracks [OF assms(2) s(1) assms(4)] p by (auto simp: same_below_def)
qed

lemma body_inv_open:
  assumes i: "body_inv m k rs base X L \<Psi> t pcs w" and pcs: "pcs \<noteq> []"
    and t: "tr_pops bp t = Inr t1" "tr_pushes bp (push_scope t1) = Inr t2" and bp: "list_all value_type bp"
    and e: "elem_inv \<Psi> e (tstate t1)"
    and c: "code_inv m k base X L' \<Psi> (stk t) (relocs e (tstate t1) @ pending pcs (tstate t)) (fb w)"
  shows "body_inv m k rs base X L' \<Psi> t2 (e # pcs) w"
proof -
  note n = enter_scope [OF t body_inv_tracks [OF i pcs] bp]
  have "scopes rs \<Psi> pcs (tstate t1)" "pending pcs (tstate t1) = pending pcs (tstate t)"
    using n(1,2) scopes_below [OF body_invD(3) [OF i pcs], of "tstate t1"] pending_below [of "tstate t1" "tstate t" pcs]
    by (simp_all add: tracks_def same_below_def)
  moreover have "length \<tau> \<le> unat (maximum_operand_depth t2)" if "Some \<tau> \<in> set \<Psi>" for \<tau>
    using body_invD(4) [OF i that] n(7) by (simp add: word_le_nat_alt)
  ultimately show ?thesis
    using n(4-6) e c pcs body_invD(1) [OF i] by (simp add: body_inv_def tracks_def)
qed

lemma relocs_labels:
  assumes "is_if e \<Longrightarrow> block_params e = labels e"
  shows "relocs e R = map (\<lambda>b. (b, label_at e R)) (reloc_branches (relocations e))"
  using assms by (auto simp: relocs_def params_at_def label_at_def split: list.split)

lemma body_inv_close:
  assumes i: "body_inv m k rs base X {} \<Psi> t (e # es) w" and p: "pop_scope_multi (results e) t = Inr t'"
    and "is_if e \<Longrightarrow> block_params e = labels e"
  shows "body_inv m k rs base X {} \<Psi> t' es (fix_branches (reloc_branches (relocations e)) (length (fb w)) w)"
proof -
  let ?R = "below (tstate t)"
  have tr: "tracks t" using body_inv_tracks [OF i] by simp
  have sc: "elem_inv \<Psi> e ?R" "if es = [] then ?R = [] \<and> results e = rs else scopes rs \<Psi> es ?R"
    using body_invD(3) [OF i] by (auto split: if_splits)
  have v: "list_all value_type (rev (results e))" using sc(1) by (simp add: elem_inv_def list_all_rev)
  have t': "tstate t' = rev (results e) @ ?R" "depth_ok t'" "maximum_operand_depth t \<le> maximum_operand_depth t'"
    "\<And>\<tau>. stk t = Some \<tau> \<Longrightarrow> stk t' = Some \<tau>"
    using pop_scope_multi_tracks [OF p tr] sc(1) by (auto simp: elem_inv_def)
  have bl: "below (tstate t') = below ?R" using t'(1) below_values [OF v] by simp
  have ctl: "if es = [] then tstate t' = rev rs else scopes rs \<Psi> es (tstate t')"
    using sc(2) t'(1) scopes_below [of rs \<Psi> es ?R "tstate t'"] bl scoped_values [OF v, of ?R] by (cases es) auto
  have pd: "pending es (tstate t') = pending es ?R" using pending_below [OF bl] .
  have c: "code_inv m k base X {} \<Psi> (stk t') (map (\<lambda>b. (b, label_at e ?R)) (reloc_branches (relocations e)) @ pending es (tstate t')) (fb w)"
    using code_inv_current [OF body_invD(5) [OF i] t'(4)] relocs_labels [OF assms(3)] by (simp add: pd)
  have eq: "map (\<lambda>b. (b, label_at e ?R)) (reloc_branches (relocations e)) = map (\<lambda>b. (b, stk t')) (reloc_branches (relocations e))"
    using sc(1) t'(1) here_append [OF v, of ?R] by (cases "relocations e") (simp_all add: elem_inv_def label_at_def)
  have "code_inv m k base X {} \<Psi> (stk t') (pending es (tstate t')) (fb (fix_branches (reloc_branches (relocations e)) (length (fb w)) w))"
    using code_inv_fix_branches [of m k w] c [unfolded eq] body_invD(1) [OF i] by blast
  moreover have "length \<tau> \<le> unat (maximum_operand_depth t')" if "Some \<tau> \<in> set \<Psi>" for \<tau>
    using body_invD(4) [OF i that] t'(3) by (simp add: word_le_nat_alt)
  ultimately show ?thesis using ctl t'(2) body_invD(1) [OF i] by (simp add: body_inv_def)
qed

lemma body_inv_else:
  assumes i: "body_inv m k rs base {} {} \<Psi> t (e # es) w" and e: "is_if e" "relocations e = Branches (if_loc # bs)"
    and t: "tr_pops (results e) t = Inr t1" "pop_scope_multi [] t1 = Inr t2" "tr_pushes (block_params e) (push_scope t2) = Inr t3"
    and w: "emit_else if_loc w = Inr (w', b)"
  shows "body_inv m k rs base {} {} (\<Psi> @ [stk t]) t3 (e\<lparr>relocations := Branches (b # bs), is_if := False\<rparr> # es) w'"
proof -
  let ?R = "below (tstate t)" and ?e = "e\<lparr>relocations := Branches (b # bs), is_if := False\<rparr>" and ?n = "length (fb w)"
  let ?v = "w\<lparr>fb := fb w @ [else_t 0]\<rparr>" and ?\<Psi> = "\<Psi> @ [stk t]"
  have tr: "tracks t" using body_inv_tracks [OF i] by simp
  have sc: "scopes rs \<Psi> (e # es) (tstate t)" using body_invD(3) [OF i] by simp
  have el: "elem_inv \<Psi> e ?R" using sc by simp
  have v: "list_all value_type (results e)" "list_all value_type (block_params e)" and lr: "labels e = results e"
    using el e(2) by (simp_all add: elem_inv_def)
  have p1: "tracks t1" "same_below t t1" "stk t = map_option ((@) (rev (results e))) (stk t1)"
    using tr_pops_tracks [OF t(1) tr v(1)] by auto
  have p2: "tstate t2 = ?R" "depth_ok t2" "maximum_operand_depth t1 \<le> maximum_operand_depth t2" "\<And>\<tau>. stk t1 = Some \<tau> \<Longrightarrow> stk t2 = Some \<tau>"
    using pop_scope_multi_tracks [OF t(2) p1(1)] p1(2) by (auto simp: same_below_def)
  have p3: "tracks (push_scope t2)" "below (tstate (push_scope t2)) = ?R" "stk (push_scope t2) = here ?R"
    "maximum_operand_depth (push_scope t2) = maximum_operand_depth t2"
    using push_scope_tracks [OF p2(2)] p2(1) by auto
  have p4: "tracks t3" "same_below (push_scope t2) t3" "stk t3 = params_at e ?R"
    using tr_pushes_tracks [OF t(3) p3(1) v(2)] p3(3) by (auto simp: params_at_def)
  have sb: "same_below t t3" using p1(2) p2(3) p3(2,4) p4(2) by (auto simp: same_below_def)
  have lt: "label_at e ?R = Some \<tau>" if "stk t = Some \<tau>" for \<tau>
    using that p1(3) p2(1,4) by (auto simp: label_at_def lr)
  have w': "b = Pc_of ?n" "w' = ?v\<lparr>fb := store_at if_loc (of_nat (base + Suc ?n)) (fb ?v)\<rparr>"
    using w body_invD(1) [OF i] by (auto simp: emit_else_def append_instr_def op_index_def res_simps store_pc_at add_ac)
  have j: "body_inv m k rs base {} {b. branch_pos b = ?n} ?\<Psi> t3 (e # es) ?v"
    using body_inv_emit [OF i _ p4(1) sb, of "else_t 0"] by simp
  have slot: "b' = b \<and> label_at e ?R = Some \<rho>" if "slot_type (fb ?v) ?\<Psi> b' \<rho>" "branch_pos b' = ?n" for b' \<rho>
    using slot_type_last [of "fb w" "else_t 0" \<Psi> "stk t" b' \<rho>] that body_invD(6) [OF i] lt w'(1) by auto
  have b3: "below (tstate t3) = ?R" using sb by (simp add: same_below_def)
  let ?P = "map (\<lambda>b. (b, label_at e ?R)) bs @ pending es ?R"
  have c1: "code_inv m k base {} {b} ?\<Psi> (stk t3) ((if_loc, params_at e ?R) # ?P) (fb ?v)"
    using code_inv_limit [OF body_invD(5) [OF j], of "{b}"] slot e b3 by (simp add: relocs_def)
  have fresh: "b \<notin> fst ` set ((if_loc, params_at e ?R) # ?P)"
    using code_inv_fresh [OF body_invD(5) [OF i], of b] w'(1) e by (simp add: relocs_def)
  have "code_inv m k base {} {} ?\<Psi> (stk t3) ((b, label_at e ?R) # (if_loc, params_at e ?R) # ?P) (fb ?v)"
  proof (rule code_inv_enlist [OF c1 subset_refl fresh])
    show "label_at e ?R = Some \<rho>" if "slot_type (fb ?v) ?\<Psi> b \<rho>" for \<rho> using slot [OF that] w'(1) by simp
  qed (simp add: w'(1))
  then have "code_inv m k base {} {} ?\<Psi> (stk t3) ((if_loc, params_at e ?R) # (b, label_at e ?R) # ?P) (fb ?v)"
    by (rule code_inv_weaken) auto
  from code_inv_resolve [OF this, of "Suc ?n"]
  have c: "code_inv m k base {} {} ?\<Psi> (stk t3) ((b, label_at e ?R) # ?P) (fb w')"
    using body_invD(6) [OF i] p4(3) type_at_simps(2) [of ?\<Psi> "stk t3"] by (simp add: w'(2))
  have [simp]: "label_at ?e R = label_at e R" "labels ?e = labels e" "results ?e = results e" for R
    by (simp_all add: label_at_def labels_def results_def)
  have "elem_inv ?\<Psi> ?e ?R" using elem_inv_append [OF el, of "[stk t]"] e(2) lr by (simp add: elem_inv_def)
  then have "scopes rs ?\<Psi> (?e # es) (tstate t3)"
    using sc scopes_append [OF sc, of "[stk t]"] p4(1) b3 e by (auto simp: tracks_def split: if_splits)
  moreover have "pending (?e # es) (tstate t3) = (b, label_at e ?R) # ?P" by (simp add: relocs_def b3)
  ultimately show ?thesis
    using c p4(1) body_invD(1) [OF j] body_invD(4) [OF j] w'(2) by (auto simp: body_inv_def tracks_def)
qed

end
