(* ===== verification/Validate_Sound.thy ===== *)
theory Validate_Sound
  imports Validate_Inv
begin

unbundle bit_operations_syntax

section \<open>Accepted code is typed\<close>

text \<open>
  Every instruction the validator accepts keeps its invariant. Two checks of the parser are too weak for
  this: the type of a typed \<open>select\<close> is not checked to be a value type, and the labels of a \<open>br_table\<close>
  are compared by arity and first result only. \<open>strict_instr\<close> says that an instruction does not rely on them.
\<close>

subsection \<open>The context of a body\<close>

definition st_ok :: "module \<Rightarrow> nat \<Rightarrow> u8 list \<Rightarrow> nat \<Rightarrow> parse_state \<Rightarrow> bool" where
  "st_ok m k rs base st \<longleftrightarrow> pc_stack st \<noteq> [] \<and> body_ok m k rs base (op_stack st) (pc_stack st) (wr st)"

text \<open>Type and table indices of \<open>call_indirect\<close> share a 32-bit word.\<close>

definition ctx_ok :: "module \<Rightarrow> nat \<Rightarrow> parse_ctx \<Rightarrow> bool" where
  "ctx_ok m k C \<longleftrightarrow>
     pmod C = m \<and> module_ok m \<and> k < length (func_list m) \<and> length (types m) \<le> 65536 \<and> length (tables m) \<le> 65536 \<and>
     (\<forall>i t. type_of_local (plocals C) i = Inr t \<longrightarrow> unat i < length (ltypes m k) \<and> t = ltypes m k ! unat i)"

lemma ltypes_value:
  assumes "module_ok m" and "k < length (func_list m)"
  shows "list_all value_type (ltypes m k)"
proof -
  have "func_type_ok (ftype m k)" and "list_all (\<lambda>l. value_type (local_type l)) (locals (body_list m ! k))"
    using assms by (simp_all add: module_ok_def ftype_def list_all_length)
  then show ?thesis by (auto simp: ltypes_def expand_locals_def func_type_ok_def list_all_iff)
qed

lemma ctx_okD:
  assumes "ctx_ok m k C"
  shows "pmod C = m" and "module_ok m" and "mem_addr_type m = ty_i32"
    and "unat g < length (globals m) \<Longrightarrow> value_type (content_type (globals m ! unat g))"
    and "unat g < length (tables m) \<Longrightarrow> tables m ! unat g \<in> {ty_funcref, ty_externref}"
    and "type_of_local (plocals C) i = Inr t \<Longrightarrow> unat i < length (ltypes m k) \<and> t = ltypes m k ! unat i \<and> value_type t"
    and "i' < length (types m) \<Longrightarrow> func_type_ok (types m ! i')"
proof -
  have l: "list_all value_type (ltypes m k)" using assms ltypes_value [of m k] by (simp add: ctx_ok_def)
  show "type_of_local (plocals C) i = Inr t \<Longrightarrow> unat i < length (ltypes m k) \<and> t = ltypes m k ! unat i \<and> value_type t"
    using assms l unfolding ctx_ok_def list_all_length by blast
qed (use assms in \<open>auto simp: ctx_ok_def module_ok_def mem_addr_type_def list_all_length hd_conv_nth\<close>)

subsection \<open>Instructions that pop, push and emit\<close>

lemma simple_ok:
  assumes ok: "st_ok m k rs base st" and t: "tr_pops As (op_stack st) = Inr t1" "tr_pushes Bs t1 = Inr t2"
    and w: "append_instr op (wr st) = Inr w'"
    and v: "list_all value_type As" "list_all value_type Bs"
    and fits: "\<And>\<rho>. instr_fits m k (\<lambda>\<rho>'. \<rho>' = rev Bs @ \<rho>) any_tgt (rev As @ \<rho>) op" and tg: "\<And>p \<tau>. targets p op \<tau> = []"
  shows "st_ok m k rs base (st\<lparr>op_stack := t2, wr := w'\<rparr>)"
proof -
  have i: "body_ok m k rs base (op_stack st) (pc_stack st) (wr st)" and n: "pc_stack st \<noteq> []" using ok by (simp_all add: st_ok_def)
  have tr: "tracks (op_stack st)" by (rule body_ok_tracks [OF i n])
  have p: "tracks t1" "same_below (op_stack st) t1" "stk (op_stack st) = map_option ((@) (rev As)) (stk t1)"
    using tr_pops_tracks [OF t(1) tr v(1)] by auto
  have q: "tracks t2" "same_below t1 t2" "stk t2 = map_option ((@) (rev Bs)) (stk t1)"
    using tr_pushes_tracks [OF t(2) p(1) v(2)] by auto
  have "body_ok m k rs base t2 (pc_stack st) (w')"
  proof (rule body_ok_emit [OF i n q(1) same_below_trans [OF p(2) q(2)] w _ tg])
    fix \<tau>
    assume "stk (op_stack st) = Some \<tau>"
    then obtain \<rho> where "stk t1 = Some \<rho>" "\<tau> = rev As @ \<rho>" using p(3) by auto
    then show "instr_fits m k (\<lambda>\<rho>. stk t2 = Some \<rho>) any_tgt \<tau> op"
      using instr_fits_mono [OF fits [of \<rho>]] q(3) by auto
  qed
  then show ?thesis using n by (simp add: st_ok_def)
qed

lemma on_push_ok:
  assumes "st_ok m k rs base st" and "tr_push b (op_stack st) = Inr t" and "append_instr op (wr st) = Inr w" and "value_type b"
    and "\<And>\<rho>. instr_fits m k (\<lambda>\<rho>'. \<rho>' = b # \<rho>) any_tgt \<rho> op" and "\<And>p \<tau>. targets p op \<tau> = []"
  shows "st_ok m k rs base (st\<lparr>op_stack := t, wr := w\<rparr>)"
  by (rule simple_ok [where ?t1.0 = "op_stack st" and As = "[]" and Bs = "[b]", OF assms(1) _ _ assms(3) _ _ _ assms(6)]) (simp_all add: tr_pops_def assms res_simps)

lemma on_pop_ok:
  assumes "st_ok m k rs base st" and "tr_pop a (op_stack st) = Inr t" and "append_instr op (wr st) = Inr w" and "value_type a"
    and "\<And>\<rho>. instr_fits m k (\<lambda>\<rho>'. \<rho>' = \<rho>) any_tgt (a # \<rho>) op" and "\<And>p \<tau>. targets p op \<tau> = []"
  shows "st_ok m k rs base (st\<lparr>op_stack := t, wr := w\<rparr>)"
  by (rule simple_ok [where ?t1.0 = "t" and As = "[a]" and Bs = "[]", OF assms(1) _ _ assms(3) _ _ _ assms(6)]) (simp_all add: tr_pops_def assms res_simps)

lemma pop_push_ok:
  assumes "st_ok m k rs base st" and "tr_pop a (op_stack st) = Inr t1" and "tr_push b t1 = Inr t"
    and "append_instr op (wr st) = Inr w" and "value_type a" and "value_type b"
    and "\<And>\<rho>. instr_fits m k (\<lambda>\<rho>'. \<rho>' = b # \<rho>) any_tgt (a # \<rho>) op" and "\<And>p \<tau>. targets p op \<tau> = []"
  shows "st_ok m k rs base (st\<lparr>op_stack := t, wr := w\<rparr>)"
  by (rule simple_ok [where ?t1.0 = "t1" and As = "[a]" and Bs = "[b]", OF assms(1) _ _ assms(4) _ _ _ assms(8)]) (simp_all add: tr_pops_def assms res_simps)

lemma pop2_ok:
  assumes "st_ok m k rs base st" and "tr_pop a (op_stack st) = Inr t1" and "tr_pop a' t1 = Inr t"
    and "append_instr op (wr st) = Inr w" and "value_type a" and "value_type a'"
    and "\<And>\<rho>. instr_fits m k (\<lambda>\<rho>'. \<rho>' = \<rho>) any_tgt (a # a' # \<rho>) op" and "\<And>p \<tau>. targets p op \<tau> = []"
  shows "st_ok m k rs base (st\<lparr>op_stack := t, wr := w\<rparr>)"
  by (rule simple_ok [where ?t1.0 = "t" and As = "[a', a]" and Bs = "[]", OF assms(1) _ _ assms(4) _ _ _ assms(8)]) (simp_all add: tr_pops_def assms res_simps)

lemma pop2_push_ok:
  assumes "st_ok m k rs base st" and "tr_pop a (op_stack st) = Inr t1" and "tr_pop a' t1 = Inr t2" and "tr_push b t2 = Inr t"
    and "append_instr op (wr st) = Inr w" and "value_type a" and "value_type a'" and "value_type b"
    and "\<And>\<rho>. instr_fits m k (\<lambda>\<rho>'. \<rho>' = b # \<rho>) any_tgt (a # a' # \<rho>) op" and "\<And>p \<tau>. targets p op \<tau> = []"
  shows "st_ok m k rs base (st\<lparr>op_stack := t, wr := w\<rparr>)"
  by (rule simple_ok [where ?t1.0 = "t2" and As = "[a', a]" and Bs = "[b]", OF assms(1) _ _ assms(5) _ _ _ assms(10)]) (simp_all add: tr_pops_def assms res_simps)

named_theorems op_defs \<open>definitions of what instructions are written with\<close>

lemmas plain_defs [op_defs] = check_in_bounds_def on_tracker_def on_writer_def emit_const_def keep_code_def

lemma update_order [op_defs]: "st\<lparr>wr := w, op_stack := t\<rparr> = st\<lparr>op_stack := t, wr := w\<rparr>" for st :: parse_state
  by simp

lemma st_ok_inj [simp]: "st_ok m k rs base (st\<lparr>inj := g\<rparr>) \<longleftrightarrow> st_ok m k rs base st"
  by (simp add: st_ok_def)

lemma op_nop_ok: "op_nop st = Inr st' \<Longrightarrow> st_ok m k rs base st \<Longrightarrow> st_ok m k rs base st'"
  using simple_ok [of m k rs base st "[]" "op_stack st" "[]" "op_stack st" nop_t "wr st'"]
  by (auto simp: op_nop_def op_defs res_simps tr_pops_def)

lemma op_get_local_ok:
  "op_get_local C code st = Inr (code', st') \<Longrightarrow> ctx_ok m k C \<Longrightarrow> st_ok m k rs base st \<Longrightarrow> st_ok m k rs base st'"
  by (auto simp: op_get_local_def op_defs res_simps dest: ctx_okD(6) intro!: on_push_ok)

lemma op_set_local_ok:
  "op_set_local C code st = Inr (code', st') \<Longrightarrow> ctx_ok m k C \<Longrightarrow> st_ok m k rs base st \<Longrightarrow> st_ok m k rs base st'"
  by (auto simp: op_set_local_def op_defs res_simps dest: ctx_okD(6) intro!: on_pop_ok)

lemma op_tee_local_ok:
  "op_tee_local C code st = Inr (code', st') \<Longrightarrow> ctx_ok m k C \<Longrightarrow> st_ok m k rs base st \<Longrightarrow> st_ok m k rs base st'"
  by (clarsimp simp: op_tee_local_def tr_top_def op_defs res_simps) (rule pop_push_ok, assumption+, auto dest: ctx_okD(6))

lemma op_get_global_ok:
  "op_get_global C code st = Inr (code', st') \<Longrightarrow> ctx_ok m k C \<Longrightarrow> st_ok m k rs base st \<Longrightarrow> st_ok m k rs base st'"
  by (auto simp: op_get_global_def op_defs res_simps ctx_okD(1,4) intro!: on_push_ok)

lemma op_set_global_ok:
  "op_set_global C code st = Inr (code', st') \<Longrightarrow> ctx_ok m k C \<Longrightarrow> st_ok m k rs base st \<Longrightarrow> st_ok m k rs base st'"
  by (auto simp: op_set_global_def op_defs res_simps ctx_okD(1,4) intro!: on_pop_ok)

lemma table_value: "ctx_ok m k C \<Longrightarrow> unat g < length (tables m) \<Longrightarrow> value_type (tables m ! unat g)"
  using ctx_okD(5) [of m k C g] by auto

lemma op_table_get_ok:
  "op_table_get C code st = Inr (code', st') \<Longrightarrow> ctx_ok m k C \<Longrightarrow> st_ok m k rs base st \<Longrightarrow> st_ok m k rs base st'"
  by (clarsimp simp: op_table_get_def op_defs res_simps ctx_okD(1) table_value) (rule pop_push_ok, assumption+, simp_all add: ctx_okD table_value)

lemma op_table_set_ok:
  "op_table_set C code st = Inr (code', st') \<Longrightarrow> ctx_ok m k C \<Longrightarrow> st_ok m k rs base st \<Longrightarrow> st_ok m k rs base st'"
  by (clarsimp simp: op_table_set_def op_defs res_simps ctx_okD(1) table_value) (rule pop2_ok, assumption+, simp_all add: ctx_okD table_value)

lemma op_ref_null_ok:
  "op_ref_null code st = Inr (code', st') \<Longrightarrow> st_ok m k rs base st \<Longrightarrow> st_ok m k rs base st'"
  by (auto simp: op_ref_null_def op_defs res_simps intro!: on_push_ok split: if_splits)

lemma op_ref_func_ok:
  "op_ref_func C code st = Inr (code', st') \<Longrightarrow> st_ok m k rs base st \<Longrightarrow> st_ok m k rs base st'"
  by (auto simp: op_ref_func_def op_defs res_simps intro!: on_push_ok)

lemma load_store_value [simp]: "value_type (load_type l)" "value_type (store_type s)"
  by (simp_all add: load_type_def store_type_def)

lemma op_load_ok:
  "op_load C l code st = Inr (code', st') \<Longrightarrow> ctx_ok m k C \<Longrightarrow> st_ok m k rs base st \<Longrightarrow> st_ok m k rs base st'"
  by (clarsimp simp: op_load_def op_defs res_simps ctx_okD(1,3)) (rule pop_push_ok, assumption+, simp_all add: ctx_okD table_value)

lemma op_store_ok:
  "op_store C s code st = Inr (code', st') \<Longrightarrow> ctx_ok m k C \<Longrightarrow> st_ok m k rs base st \<Longrightarrow> st_ok m k rs base st'"
  by (clarsimp simp: op_store_def op_defs res_simps ctx_okD(1,3)) (rule pop2_ok, assumption+, simp_all add: ctx_okD table_value)

lemma op_current_memory_ok:
  "op_current_memory C code st = Inr (code', st') \<Longrightarrow> ctx_ok m k C \<Longrightarrow> st_ok m k rs base st \<Longrightarrow> st_ok m k rs base st'"
  by (auto simp: op_current_memory_def op_defs res_simps ctx_okD(1,3) intro!: on_push_ok)

lemma op_grow_memory_ok:
  "op_grow_memory C code st = Inr (code', st') \<Longrightarrow> ctx_ok m k C \<Longrightarrow> st_ok m k rs base st \<Longrightarrow> st_ok m k rs base st'"
  by (clarsimp simp: op_grow_memory_def op_defs res_simps ctx_okD(1,3)) (rule pop_push_ok, assumption+, simp_all add: ctx_okD table_value)

lemma op_const_ok:
  "op_const b code st = Inr (code', st') \<Longrightarrow> st_ok m k rs base st \<Longrightarrow> st_ok m k rs base st'"
  by (auto simp: op_const_def op_defs res_simps intro!: on_push_ok split: if_splits)

lemma cvt_value [simp]: "value_type (cvt_src c)" "value_type (cvt_dst c)"
  by (cases c; simp)+

lemma num_value [simp]: "value_type (num_arg n)" "value_type (num_result n)"
  by (cases n; simp)+

lemma op_num_ok: "op_num n st = Inr st' \<Longrightarrow> st_ok m k rs base st \<Longrightarrow> st_ok m k rs base st'"
  by (cases "num_binary n"; clarsimp simp: op_num_def op_defs res_simps)
     (rule pop2_push_ok pop_push_ok, assumption+, simp_all)+

lemma op_extend_ok: "op_extend C n st = Inr st' \<Longrightarrow> st_ok m k rs base st \<Longrightarrow> st_ok m k rs base st'"
  by (auto simp: op_extend_def check_in_bounds_def res_simps intro: op_num_ok)

lemma op_trunc_sat_ok:
  "op_trunc_sat C n st = Inr st' \<Longrightarrow> \<not> num_binary n \<Longrightarrow> st_ok m k rs base st \<Longrightarrow> st_ok m k rs base st'"
  by (clarsimp simp: op_trunc_sat_def op_defs res_simps) (rule pop_push_ok, assumption+, simp_all add: ctx_okD table_value)

subsection \<open>Instructions on operands of any type\<close>

lemma st_okD:
  assumes "st_ok m k rs base st"
  shows "body_ok m k rs base (op_stack st) (pc_stack st) (wr st)" and "pc_stack st \<noteq> []" and "tracks (op_stack st)"
  using assms body_ok_tracks by (auto simp: st_ok_def)

lemma emit_ok:
  assumes "st_ok m k rs base st" and "tracks t" and "same_below (op_stack st) t" and "append_instr op (wr st) = Inr w"
    and "\<And>\<tau>. stk (op_stack st) = Some \<tau> \<Longrightarrow> instr_fits m k (\<lambda>\<rho>. stk t = Some \<rho>) any_tgt \<tau> op" and "\<And>p \<tau>. targets p op \<tau> = []"
  shows "st_ok m k rs base (st\<lparr>op_stack := t, wr := w\<rparr>)"
  using body_ok_emit [OF st_okD(1,2) [OF assms(1)] assms(2-6)] st_okD(2) [OF assms(1)] by (simp add: st_ok_def)

lemma op_unreachable_ok: "op_unreachable st = Inr st' \<Longrightarrow> st_ok m k rs base st \<Longrightarrow> st_ok m k rs base st'"
  using start_unreachable_tracks [OF st_okD(3), of m k rs base st]
  by (clarsimp simp: op_unreachable_def op_defs res_simps) (rule emit_ok, assumption+, simp_all)

lemma op_drop_ok: "op_drop st = Inr st' \<Longrightarrow> st_ok m k rs base st \<Longrightarrow> st_ok m k rs base st'"
  by (clarsimp simp: op_drop_def op_defs res_simps, frule tr_pop_any_tracks [OF _ st_okD(3)], assumption)
     (rule emit_ok, assumption, auto simp: Some_map_option)

lemma op_ref_is_null_ok:
  assumes "op_ref_is_null st = Inr st'" and ok: "st_ok m k rs base st"
  shows "st_ok m k rs base st'"
proof -
  obtain s1 t s2 w where p: "tr_pop_any (op_stack st) = Inr (s1, t)" and t: "t \<in> {ty_funcref, ty_externref, any_type}"
    and q: "tr_push ty_i32 s1 = Inr s2" and w: "append_instr ref_is_null_t (wr st) = Inr w" "st' = st\<lparr>op_stack := s2, wr := w\<rparr>"
    using assms(1) by (auto simp: op_ref_is_null_def op_defs res_simps)
  note a = tr_pop_any_tracks [OF p st_okD(3) [OF ok]]
  have b: "tracks s2 \<and> same_below s1 s2 \<and> stk s2 = map_option ((#) ty_i32) (stk s1)"
    using tr_push_tracks [OF q] a by simp
  have "t \<in> {ty_funcref, ty_externref}" if "stk s1 = Some \<rho>" for \<rho> using a t that by auto
  then show ?thesis
    unfolding w(2) using a b same_below_trans [of "op_stack st" s1 s2] by (intro emit_ok [OF ok _ _ w(1)]) (auto simp: Some_map_option)
qed

lemma op_select_ok:
  assumes "op_select st = Inr st'" and ok: "st_ok m k rs base st"
  shows "st_ok m k rs base st'"
proof -
  obtain s0 s1 t0 s2 t1 s3 w where p: "tr_pop ty_i32 (op_stack st) = Inr s0" "tr_pop_any s0 = Inr (s1, t0)" "tr_pop_any s1 = Inr (s2, t1)"
    and t: "t0 = t1 \<or> t0 = any_type \<or> t1 = any_type" and q: "tr_push (if t0 \<noteq> any_type then t0 else t1) s2 = Inr s3"
    and w: "append_instr select_t (wr st) = Inr w" "st' = st\<lparr>op_stack := s3, wr := w\<rparr>"
    using assms(1) by (auto simp: op_select_def op_defs res_simps Let_def)
  have a0: "tracks s0" "same_below (op_stack st) s0" "stk (op_stack st) = map_option ((#) ty_i32) (stk s0)"
    using tr_pop_tracks [OF p(1) st_okD(3) [OF ok]] by auto
  have a1: "tracks s1" "same_below s0 s1" "stk s0 = map_option ((#) t0) (stk s1)" "operand_type t0" "\<not> value_type t0 \<longrightarrow> dead s1"
    using tr_pop_any_tracks [OF p(2) a0(1)] by auto
  have a2: "tracks s2" "same_below s1 s2" "stk s1 = map_option ((#) t1) (stk s2)" "operand_type t1" "\<not> value_type t1 \<longrightarrow> dead s2"
    using tr_pop_any_tracks [OF p(3) a1(1)] by auto
  let ?t = "if t0 \<noteq> any_type then t0 else t1"
  have a3: "tracks s3 \<and> same_below s2 s3 \<and> stk s3 = map_option ((#) ?t) (stk s2)"
  proof (rule tr_push_any_tracks [OF q a2(1)])
    show "dead s2" if "\<not> value_type ?t" using that a1(4) a2(5) by (auto simp: operand_type_def split: if_splits)
  qed (use a1(4) a2(4) in simp)
  have "t0 = t1 \<and> ?t = t0" if "stk s2 = Some \<rho>" for \<rho> using a1(3,5) a2(3,5) t that by auto
  then show ?thesis
    unfolding w(2) using a0 a1(1-3) a2(1-3) a3
    by (intro emit_ok [OF ok _ _ w(1)]) (auto simp: Some_map_option intro: same_below_trans)
qed

lemma op_typed_select_ok:
  assumes "op_typed_select code st = Inr (code', st')" and "\<And>vec_len code1 t code2. parse_varuint32 code = Inr (vec_len, code1) \<Longrightarrow> read_byte code1 = Inr (t, code2) \<Longrightarrow> value_type t"
    and ok: "st_ok m k rs base st"
  shows "st_ok m k rs base st'"
proof -
  obtain n code1 t code2 s0 s1 s2 s3 w where "parse_varuint32 code = Inr (n, code1)" "read_byte code1 = Inr (t, code2)"
    and p: "tr_pop ty_i32 (op_stack st) = Inr s0" "tr_pop t s0 = Inr s1" "tr_pop t s1 = Inr s2"
    and q: "tr_push t s2 = Inr s3" and w: "append_instr select_t (wr st) = Inr w" "st' = st\<lparr>op_stack := s3, wr := w\<rparr>"
    using assms(1) by (auto simp: op_typed_select_def op_defs res_simps)
  then have "value_type t" using assms(2) by blast
  then show ?thesis
    unfolding w(2) using p q by (intro simple_ok [OF ok _ _ w(1), where As = "[t, t, ty_i32]" and Bs = "[t]"]) (auto simp: tr_pops_def res_simps)
qed

subsection \<open>Calls\<close>

lemma function_type_ok:
  assumes "module_ok m" and "get_function_type m f = Inr ft"
  shows "list_all value_type (param_types ft)" and "list_all value_type (return_types ft)"
  using assms by (auto simp: get_function_type_def types_at_def res_simps module_ok_def list_all_length func_type_ok_def split: if_splits)

lemma op_call_ok:
  assumes "op_call C code st = Inr (code', st')" and C: "ctx_ok m k C" and ok: "st_ok m k rs base st"
  shows "st_ok m k rs base st'"
proof -
  obtain f ft t1 t2 w where f: "unat f < get_functions_total m" "get_function_type m (unat f) = Inr ft"
    and t: "tr_pops (param_types ft) (op_stack st) = Inr t1" "tr_pushes (return_types ft) t1 = Inr t2"
    and w: "append_instr (call_t f) (wr st) = Inr w" "st' = st\<lparr>op_stack := t2, wr := w\<rparr>"
    using assms(1) ctx_okD(1) [OF C] by (auto simp: op_call_def op_defs emit_call_def res_simps)
  show ?thesis
    unfolding w(2) using f function_type_ok [OF ctx_okD(2) [OF C] f(2)] by (intro simple_ok [OF ok t w(1)]) auto
qed

lemma normal_type_ok:
  assumes "i < length (types m)"
  shows "normal_type m i < length (types m)" and "types m ! normal_type m i = types m ! i"
proof -
  let ?js = "filter (\<lambda>j. types m ! j = types m ! i) [0..<length (types m)]"
  have "i \<in> set ?js" using assms by simp
  then have "hd ?js \<in> set ?js" by (metis hd_in_set empty_iff empty_set)
  then show "normal_type m i < length (types m)" "types m ! normal_type m i = types m ! i" by (simp_all add: normal_type_def)
qed

lemma call_indirect_fields:
  assumes "i < 65536" and "unat t < 65536"
  shows "unat ((of_nat i OR push_bit 16 t :: u32) AND 0xFFFF) = i" and "unat (drop_bit 16 (of_nat i OR push_bit 16 t :: u32)) = unat t"
proof -
  let ?i = "of_nat i :: u32"
  have i: "unat ?i = i" using assms(1) by (simp add: unat_of_nat)
  have m: "0xFFFF = (mask 16 :: u32)" by (simp add: mask_eq_exp_minus_1)
  have t: "?i = take_bit 16 ?i" using assms(1) i by (intro word_unat_eq_iff [THEN iffD2]) (simp add: unat_take_bit)
  have "?i AND push_bit 16 t = 0" by (subst t, rule bit_eqI) (auto simp: bit_simps)
  then have u: "unat (?i OR push_bit 16 t) = i + unat t * 65536"
    using assms(2) i by (simp add: unat_or_disjoint unat_push_bit)
  show "unat ((?i OR push_bit 16 t) AND 0xFFFF) = i"
    using assms(1) u by (simp add: m take_bit_eq_mask [symmetric] unat_take_bit del: take_bit_or)
  show "unat (drop_bit 16 (?i OR push_bit 16 t)) = unat t" using assms(1) u by (simp add: unat_drop_bit del: drop_bit_or)
qed

lemma call_indirect_ok:
  assumes C: "ctx_ok m k C" and ok: "st_ok m k rs base st" and i: "unat i < length (types m)" and tab: "unat tab < length (tables m)"
    and t: "tr_pop ty_i32 (op_stack st) = Inr t0" "tr_pops (param_types (types m ! unat i)) t0 = Inr t1"
      "tr_pushes (return_types (types m ! unat i)) t1 = Inr t2"
    and w: "append_instr (call_indirect_t (of_nat (normal_type m (unat i)) OR push_bit 16 tab)) (wr st) = Inr w"
  shows "st_ok m k rs base (st\<lparr>op_stack := t2, wr := w\<rparr>)"
proof -
  let ?ft = "types m ! unat i"
  have v: "list_all value_type (param_types ?ft)" "list_all value_type (return_types ?ft)"
    using ctx_okD(7) [OF C i] by (simp_all add: func_type_ok_def)
  have n: "normal_type m (unat i) < 65536" "unat tab < 65536"
    using normal_type_ok(1) [OF i] tab C by (auto simp: ctx_ok_def)
  show ?thesis
    using call_indirect_fields [OF n] normal_type_ok [OF i] tab v t
    by (intro simple_ok [OF ok _ t(3) w, where As = "param_types ?ft @ [ty_i32]"]) (simp_all add: tr_pops_def)
qed

lemma op_call_indirect_ok:
  "op_call_indirect C code st = Inr (code', st') \<Longrightarrow> ctx_ok m k C \<Longrightarrow> st_ok m k rs base st \<Longrightarrow> st_ok m k rs base st'"
  by (clarsimp simp: op_call_indirect_def op_defs emit_call_indirect_def res_simps Let_def ctx_okD(1)) (rule call_indirect_ok, assumption+)

subsection \<open>Branches\<close>

lemma emit_br_eq:
  "emit_br dc rc w = Inr (w', b) \<Longrightarrow>
   \<exists>d. encode_depth_change dc rc = Inr d \<and> w' = w\<lparr>fb := fb w @ [br_t d 0]\<rparr> \<and> b = Pc_of (length (fb w))"
  by (auto simp: emit_br_def append_instr_def op_index_def res_simps)

lemma emit_br_if_eq:
  "emit_br_if dc rc x w = Inr (w', b) \<Longrightarrow>
   \<exists>d. encode_depth_change dc rc = Inr d \<and> w' = w\<lparr>fb := fb w @ [br_if_t d 0 x]\<rparr> \<and> b = Pc_of (length (fb w))"
  by (auto simp: emit_br_if_def append_instr_def op_index_def res_simps)

lemma body_ok_scopes: "st_ok m k rs base st \<Longrightarrow> \<exists>\<Psi>. scopes rs \<Psi> (pc_stack st) (tstate (op_stack st))"
  by (auto simp: st_ok_def body_ok_def dest: body_invD(3))

lemma branch_ok:
  assumes ok: "st_ok m k rs base st" and c: "compute_depth_change l st = Inr (st1, dc, rc)" and e: "emit_br dc rc (wr st1) = Inr (w, b)"
    and h: "handle_branch_target l b (st1\<lparr>wr := w\<rparr>) = Inr st2"
  shows "st_ok m k rs base (st2\<lparr>op_stack := start_unreachable (op_stack st2)\<rparr>)"
proof -
  let ?t = "op_stack st" and ?e = "pc_stack st ! unat l" and ?R = "rest_at (unat l) (tstate (op_stack st))"
  obtain \<Psi> where sc: "scopes rs \<Psi> (pc_stack st) (tstate ?t)" using body_ok_scopes [OF ok] ..
  obtain t' where t': "st1 = st\<lparr>op_stack := t'\<rparr>" "tracks t'" "same_below ?t t'" "stk t' = stk ?t" and l: "unat l < length (pc_stack st)"
    and d: "dc = operand_depth ?t - pe_depth ?e" "rc = of_nat (length (labels ?e))" and br: "\<And>\<tau>. stk ?t = Some \<tau> \<Longrightarrow> branches ?e ?R \<tau>"
    using compute_depth_ok [OF c st_okD(3) [OF ok] sc] by auto
  obtain x where x: "encode_depth_change dc rc = Inr x" "w = (wr st)\<lparr>fb := fb (wr st) @ [br_t x 0]\<rparr>" "b = Pc_of (length (fb (wr st)))"
    using emit_br_eq [OF e] t'(1) by auto
  have pe: "unat (pe_depth ?e) = nvals ?R" using scopes_elem [OF sc l] by (simp add: elem_inv_def)
  have fit: "br_fits (\<lambda>_. True) x \<tau>" "label_at ?e ?R = Some (branch_type x \<tau>)" if "stk ?t = Some \<tau>" for \<tau>
    using branch_fits [OF st_okD(3) [OF ok] that br [OF that] pe] x(1) d by auto
  note u = start_unreachable_tracks [OF t'(2)]
  have "body_ok m k rs base (start_unreachable t') (pc_stack st2) (wr st2) \<and> pc_stack st2 \<noteq> [] \<and> op_stack st2 = op_stack (st1\<lparr>wr := w\<rparr>)"
    by (rule emit_branch_ok [OF st_okD(1,2) [OF ok], where op = "br_t x 0" and l = l])
       (use u t' x fit h same_below_trans [OF t'(3)] in auto)
  then show ?thesis using t'(1) by (simp add: st_ok_def)
qed

lemma op_br_ok: "op_br code st = Inr (code', st') \<Longrightarrow> st_ok m k rs base st \<Longrightarrow> st_ok m k rs base st'"
  by (clarsimp simp: op_br_def op_defs res_simps) (rule branch_ok, assumption+)

lemma op_return_ok: "op_return st = Inr st' \<Longrightarrow> st_ok m k rs base st \<Longrightarrow> st_ok m k rs base st'"
  by (clarsimp simp: op_return_def emit_return_def Let_def op_defs res_simps) (rule branch_ok, assumption+)

lemma branch_if_ok:
  assumes ok: "st_ok m k rs base st" and p: "tr_pop ty_i32 (op_stack st) = Inr t0"
    and c: "compute_depth_change l (st\<lparr>op_stack := t0\<rparr>) = Inr (st1, dc, rc)" and e: "emit_br_if dc rc y (wr st1) = Inr (w, b)"
    and h: "handle_branch_target l b (st1\<lparr>wr := w\<rparr>) = Inr st2"
  shows "st_ok m k rs base st2"
proof -
  let ?t = "op_stack st" and ?e = "pc_stack st ! unat l" and ?R = "rest_at (unat l) (tstate (op_stack st))"
  have t0: "tracks t0" "same_below ?t t0" "stk ?t = map_option ((#) ty_i32) (stk t0)"
    using tr_pop_tracks [OF p st_okD(3) [OF ok]] by auto
  have R: "rest_at (unat l) (tstate t0) = ?R" using t0(2) by (intro rest_at_below) (simp add: same_below_def)
  obtain \<Psi> where sc: "scopes rs \<Psi> (pc_stack st) (tstate ?t)" using body_ok_scopes [OF ok] ..
  have sc0: "scopes rs \<Psi> (pc_stack st) (tstate t0)"
    using scopes_below [OF sc, of "tstate t0"] t0 by (simp add: tracks_def same_below_def)
  obtain t' where t': "st1 = st\<lparr>op_stack := t'\<rparr>" "tracks t'" "same_below t0 t'" "stk t' = stk t0" and l: "unat l < length (pc_stack st)"
    and d: "dc = operand_depth t0 - pe_depth ?e" "rc = of_nat (length (labels ?e))" and br: "\<And>\<tau>. stk t0 = Some \<tau> \<Longrightarrow> branches ?e ?R \<tau>"
    using compute_depth_ok [OF c, of rs \<Psi>] t0(1) sc0 R by auto
  obtain x where x: "encode_depth_change dc rc = Inr x" "w = (wr st)\<lparr>fb := fb (wr st) @ [br_if_t x 0 y]\<rparr>" "b = Pc_of (length (fb (wr st)))"
    using emit_br_if_eq [OF e] t'(1) by auto
  have pe: "unat (pe_depth ?e) = nvals ?R" using scopes_elem [OF sc l] by (simp add: elem_inv_def)
  have fit: "br_fits (\<lambda>_. True) x \<tau>" "label_at ?e ?R = Some (branch_type x \<tau>)" if "stk t0 = Some \<tau>" for \<tau>
    using branch_fits [OF t0(1) that br [OF that] pe] x(1) d by auto
  have "body_ok m k rs base t' (pc_stack st2) (wr st2) \<and> pc_stack st2 \<noteq> [] \<and> op_stack st2 = op_stack (st1\<lparr>wr := w\<rparr>)"
    by (rule emit_branch_ok [OF st_okD(1,2) [OF ok], where op = "br_if_t x 0 y" and l = l])
       (use t0 t' x fit h same_below_trans [OF t0(2) t'(3)] in \<open>auto simp: Some_map_option\<close>)
  then show ?thesis using t'(1) by (simp add: st_ok_def)
qed

lemma op_br_if_ok: "op_br_if code st = Inr (code', st') \<Longrightarrow> st_ok m k rs base st \<Longrightarrow> st_ok m k rs base st'"
  by (clarsimp simp: op_br_if_def op_defs res_simps) (rule branch_if_ok, assumption+)

subsection \<open>Blocks\<close>

definition block_types :: "u8 \<Rightarrow> u8 list \<Rightarrow> u8 list \<Rightarrow> bool" where
  "block_types t bp br \<longleftrightarrow> list_all value_type bp \<and> list_all value_type br \<and> (br = [] \<longrightarrow> t = ty_pseudo \<or> value_type t)"

lemma block_byte_type: "is_block_byte b \<Longrightarrow> b = ty_pseudo \<or> value_type b"
  by (auto simp: is_block_byte_def)

lemma parse_block_type_ok:
  assumes "parse_block_type C msg code = Inr ((t, bp, br), code')" and C: "ctx_ok m k C"
  shows "block_types t bp br"
proof -
  have "(t = ty_pseudo \<or> value_type t) \<and> bp = [] \<and> br = [] \<or>
    (\<exists>i < length (types m). bp = param_types (types m ! i) \<and> br = return_types (types m ! i) \<and>
       t = (if return_count (types m ! i) \<noteq> 0 then return_type (types m ! i) else ty_pseudo))"
    using assms(1) unfolding parse_block_type_def ctx_okD(1) [OF C]
    by (auto simp: res_simps Let_def dest: block_byte_type split: if_split_asm)
  then show ?thesis
    using ctx_okD(7) [OF C] by (auto simp: block_types_def func_type_ok_def return_count_def)
qed

lemma block_results:
  assumes "block_types t bp br"
  shows "list_all value_type (results (block_element t bp br d))" and "list_all value_type (labels (block_element t bp br d))"
    and "labels (block_element t bp br d) = results (block_element t bp br d)" and "block_params (block_element t bp br d) = bp"
  using assms by (auto simp: block_types_def results_def labels_def block_element_def)

lemma block_ok:
  assumes ok: "st_ok m k rs base st" and b: "block_types y bp br"
    and t: "tr_pops bp (op_stack st) = Inr t1" "tr_pushes bp (push_scope t1) = Inr t2"
  shows "st_ok m k rs base (st\<lparr>op_stack := t2, pc_stack := block_element y bp br (operand_depth t1) # pc_stack st\<rparr>)"
proof -
  obtain \<Psi> where i: "body_inv m k rs base {} {} \<Psi> (op_stack st) (pc_stack st) (wr st)" using st_okD(1) [OF ok] by (auto simp: body_ok_def)
  have bp: "list_all value_type bp" using b by (simp add: block_types_def)
  let ?e = "block_element y bp br (operand_depth t1)"
  have "tracks t1" using enter_scope(1) [OF t st_okD(3) [OF ok] bp] .
  then have "unat (operand_depth t1) = nvals (tstate t1)" by (simp add: tracks_def depth_ok_def)
  then have e: "elem_inv \<Psi> ?e (tstate t1)" using block_results [OF b, of "operand_depth t1"] bp
    by (simp add: elem_inv_def block_element_def)
  have "relocs ?e (tstate t1) = []" by (simp add: relocs_def block_element_def)
  then have "body_inv m k rs base {} {} \<Psi> t2 (?e # pc_stack st) (wr st)"
    using body_inv_open [OF i st_okD(2) [OF ok] t bp e] body_invD(5) [OF i] by simp
  then show ?thesis by (auto simp: st_ok_def body_ok_def)
qed

lemma op_block_ok:
  "op_block C code st = Inr (code', st') \<Longrightarrow> ctx_ok m k C \<Longrightarrow> st_ok m k rs base st \<Longrightarrow> st_ok m k rs base st'"
  by (clarsimp simp: op_block_def op_defs res_simps) (rule block_ok, assumption, rule parse_block_type_ok, assumption+)

lemma loop_ok:
  assumes ok: "st_ok m k rs base st" and b: "block_types y bp br"
    and t: "tr_pops bp (op_stack st) = Inr t1" "tr_pushes bp (push_scope t1) = Inr t2" and l: "emit_loop (wr st) = Inr (w, pos)"
  shows "st_ok m k rs base (st\<lparr>op_stack := t2, wr := w, inj := g, pc_stack := (block_element y bp br (operand_depth t1))
      \<lparr>label_result := ty_pseudo, is_loop := True, gas_handle := pos, relocations := Label pos, label_results := bp\<rparr> # pc_stack st\<rparr>)"
proof -
  let ?t = "op_stack st"
  obtain \<Psi> where i: "body_inv m k rs base {} {} \<Psi> ?t (pc_stack st) (wr st)" using st_okD(1) [OF ok] by (auto simp: body_ok_def)
  have bp: "list_all value_type bp" using b by (simp add: block_types_def)
  let ?e = "(block_element y bp br (operand_depth t1))
      \<lparr>label_result := ty_pseudo, is_loop := True, gas_handle := pos, relocations := Label pos, label_results := bp\<rparr>"
  note n = enter_scope [OF t st_okD(3) [OF ok] bp]
  have w: "w = (wr st)\<lparr>fb := fb (wr st) @ [gas_charge_t 1]\<rparr>" "pos = length (fb (wr st))"
    using l by (auto simp: emit_loop_def append_instr_def op_index_def res_simps)
  have "body_inv m k rs base {} {b. branch_pos b = length (fb (wr st))} (\<Psi> @ [stk ?t]) ?t (pc_stack st) w"
    using body_inv_emit [OF i st_okD(2,3) [OF ok], of "gas_charge_t 1"] w(1) by simp
  then have j: "body_inv m k rs base {} {} (\<Psi> @ [stk ?t]) ?t (pc_stack st) w"
    using slot_type_last [of "fb (wr st)" "gas_charge_t 1" \<Psi> "stk ?t"] body_invD(6) [OF i] w(1) by (elim body_inv_limit) force
  have lb: "labels ?e = bp" "results ?e = results (block_element y bp br (operand_depth t1))"
    by (simp_all add: labels_def results_def)
  have "unat (operand_depth t1) = nvals (tstate t1)" using n(1) by (simp add: tracks_def depth_ok_def)
  then have e: "elem_inv (\<Psi> @ [stk ?t]) ?e (tstate t1)"
    using block_results [OF b, of "operand_depth t1"] bp lb n(3) body_invD(6) [OF i] w(2)
    by (simp add: elem_inv_def label_at_def nth_append) (simp add: block_element_def)
  have "relocs ?e (tstate t1) = []" by (simp add: relocs_def)
  then have "body_inv m k rs base {} {} (\<Psi> @ [stk ?t]) t2 (?e # pc_stack st) w"
    using body_inv_open [OF j st_okD(2) [OF ok] t bp e] body_invD(5) [OF j] by simp
  then show ?thesis by (auto simp: st_ok_def body_ok_def)
qed

lemma op_loop_ok:
  "op_loop C code st = Inr (code', st') \<Longrightarrow> ctx_ok m k C \<Longrightarrow> st_ok m k rs base st \<Longrightarrow> st_ok m k rs base st'"
  by (clarsimp simp: op_loop_def op_defs res_simps) (rule loop_ok, assumption, rule parse_block_type_ok, assumption+)

lemma if_ok:
  assumes ok: "st_ok m k rs base st" and b: "block_types y bp br" and w: "emit_if (wr st) = Inr (w, b)"
    and t: "tr_pop ty_i32 (op_stack st) = Inr t0" "tr_pops bp t0 = Inr t1" "tr_pushes bp (push_scope t1) = Inr t2"
  shows "st_ok m k rs base (st\<lparr>op_stack := t2, wr := w, pc_stack := (block_element y bp br (operand_depth t1))
      \<lparr>is_if := True, relocations := Branches [b]\<rparr> # pc_stack st\<rparr>)"
proof -
  let ?t = "op_stack st" and ?n = "length (fb (wr st))" and ?op = "if_t 0"
  let ?e = "(block_element y bp br (operand_depth t1))\<lparr>is_if := True, relocations := Branches [b]\<rparr>"
  obtain \<Psi> where i: "body_inv m k rs base {} {} \<Psi> ?t (pc_stack st) (wr st)" using st_okD(1) [OF ok] by (auto simp: body_ok_def)
  let ?\<Psi> = "\<Psi> @ [stk ?t]"
  have bp: "list_all value_type bp" using b by (simp add: block_types_def)
  have p: "tracks t0" "same_below ?t t0" "stk ?t = map_option ((#) ty_i32) (stk t0)"
    using tr_pop_tracks [OF t(1) st_okD(3) [OF ok]] by auto
  note n = enter_scope [OF t(2,3) p(1) bp]
  have w: "w = (wr st)\<lparr>fb := fb (wr st) @ [?op]\<rparr>" "b = Pc_of ?n"
    using w by (auto simp: emit_if_def append_instr_def op_index_def res_simps)
  have j: "body_inv m k rs base {} {b. branch_pos b = ?n} ?\<Psi> t0 (pc_stack st) w"
    using body_inv_emit [OF i st_okD(2) [OF ok] p(1,2), of ?op] w(1) p(3) by (auto simp: Some_map_option)
  have slot: "b' = b \<and> stk t0 = Some \<rho>" if "slot_type (fb w) ?\<Psi> b' \<rho>" "branch_pos b' = ?n" for b' \<rho>
    using slot_type_last [of "fb (wr st)" ?op \<Psi> "stk ?t" b' \<rho>] that body_invD(6) [OF i] w p(3) by auto
  have pa: "params_at ?e (tstate t1) = stk t0" using n(3) by (simp add: params_at_def block_element_def)
  have c: "code_inv m k base {} {b} ?\<Psi> (stk t0) (pending (pc_stack st) (tstate t0)) (fb w)"
    by (rule code_inv_limit [OF body_invD(5) [OF j]]) (use slot in auto)
  have pd: "pending (pc_stack st) (tstate t0) = pending (pc_stack st) (tstate ?t)"
    using p(2) by (intro pending_below) (simp add: same_below_def)
  have fresh: "b \<notin> fst ` set (pending (pc_stack st) (tstate t0))"
    using code_inv_fresh [OF body_invD(5) [OF i], of b] w(2) by (simp add: pd)
  have c': "code_inv m k base {} {} ?\<Psi> (stk t0) ((b, stk t0) # pending (pc_stack st) (tstate t0)) (fb w)"
  proof (rule code_inv_enlist [OF c subset_refl fresh])
    show "stk t0 = Some \<rho>" if "slot_type (fb w) ?\<Psi> b \<rho>" for \<rho> using slot [OF that] w(2) by simp
  qed (simp add: w)
  have lb: "labels ?e = labels (block_element y bp br (operand_depth t1))" "results ?e = results (block_element y bp br (operand_depth t1))"
    by (simp_all add: labels_def results_def)
  have "unat (operand_depth t1) = nvals (tstate t1)" using n(1) by (simp add: tracks_def depth_ok_def)
  then have e: "elem_inv ?\<Psi> ?e (tstate t1)"
    using block_results [OF b, of "operand_depth t1"] bp lb
    by (simp add: elem_inv_def) (simp add: block_element_def)
  have "relocs ?e (tstate t1) = [(b, stk t0)]" using pa by (simp add: relocs_def)
  then have "body_inv m k rs base {} {} ?\<Psi> t2 (?e # pc_stack st) w"
    using body_inv_open [OF j st_okD(2) [OF ok] t(2,3) bp e] c' by simp
  then show ?thesis by (auto simp: st_ok_def body_ok_def)
qed

lemma op_if_ok:
  "op_if C code st = Inr (code', st') \<Longrightarrow> ctx_ok m k C \<Longrightarrow> st_ok m k rs base st \<Longrightarrow> st_ok m k rs base st'"
  by (clarsimp simp: op_if_def op_defs res_simps) (rule if_ok, assumption, rule parse_block_type_ok, assumption+)

lemma pops_results:
  assumes "expected_result e = ty_pseudo \<or> value_type (expected_result e) \<or> expected_results e \<noteq> []"
  shows "(if expected_results e \<noteq> [] then tr_pops (expected_results e) t else tr_pop (expected_result e) t) = tr_pops (results e) t"
    and "(if expected_results e \<noteq> [] then pop_scope_multi (expected_results e) t else pop_scope (expected_result e) t) =
      pop_scope_multi (results e) t"
  by (cases "tr_pop (expected_result e) t"; auto simp: results_def tr_pops_def pop_scope_def tr_pop_def)+

lemma elem_expected: "elem_inv \<Psi> e R \<Longrightarrow> expected_result e = ty_pseudo \<or> value_type (expected_result e) \<or> expected_results e \<noteq> []"
  by (auto simp: elem_inv_def results_def split: if_splits)

lemma start_else_ok:
  assumes s: "start_else e rest st = Inr st'" and ok: "st_ok m k rs base st" and e: "pc_stack st = e # rest" "is_if e"
  shows "st_ok m k rs base st' \<and> (\<exists>e'. pc_stack st' = e' # rest \<and> \<not> is_if e' \<and> results e' = results e)"
proof -
  obtain \<Psi> where i: "body_inv m k rs base {} {} \<Psi> (op_stack st) (e # rest) (wr st)" using st_okD(1) [OF ok] e by (auto simp: body_ok_def)
  have el: "elem_inv \<Psi> e (below (tstate (op_stack st)))" using body_invD(3) [OF i] by simp
  obtain if_loc bs where r: "relocations e = Branches (if_loc # bs)"
    using el e(2) by (auto simp: elem_inv_def neq_Nil_conv split: relocations_t.splits)
  obtain t1 t2 t3 w b where t: "tr_pops (results e) (op_stack st) = Inr t1" "pop_scope_multi [] t1 = Inr t2"
      "tr_pushes (block_params e) (push_scope t2) = Inr t3"
    and w: "emit_else if_loc (wr st) = Inr (w, b)"
    and st': "st' = st\<lparr>op_stack := t3, wr := w, pc_stack := e\<lparr>relocations := Branches (b # bs), is_if := False\<rparr> # rest\<rparr>"
    using s unfolding start_else_def pops_results [OF elem_expected [OF el]]
    by (auto simp: res_simps pop_scope_def r)
  show ?thesis
    using body_inv_else [OF i e(2) r t w] unfolding st' st_ok_def body_ok_def by (auto simp: results_def)
qed

lemma op_else_ok: "op_else st = Inr st' \<Longrightarrow> st_ok m k rs base st \<Longrightarrow> st_ok m k rs base st'"
  using start_else_ok by (auto simp: op_else_def op_defs res_simps split: list.splits)

subsection \<open>The end of a structure\<close>

text \<open>The end of the body leaves no open structure.\<close>

definition done_ok :: "module \<Rightarrow> nat \<Rightarrow> u8 list \<Rightarrow> nat \<Rightarrow> parse_state \<Rightarrow> bool" where
  "done_ok m k rs base st \<longleftrightarrow> pc_stack st = [] \<and> body_ok m k rs base (op_stack st) [] (wr st)"

lemma body_ok_patch: "body_ok m k rs base t pcs w \<Longrightarrow> body_ok m k rs base t pcs (patch_gas_imm_add_extra h x w)"
proof -
  have "base_offset (patch_gas_imm_add_extra h x w) = base_offset w" by (simp add: patch_gas_imm_add_extra_def)
  moreover assume "body_ok m k rs base t pcs w"
  ultimately show ?thesis unfolding body_ok_def body_inv_def using code_inv_patch by metis
qed

lemma close_loop_ok: "st_ok m k rs base st \<Longrightarrow> st_ok m k rs base (close_loop e st)"
  by (auto simp: close_loop_def st_ok_def body_ok_patch split: prod.splits)

lemma close_loop_pcs: "pc_stack (close_loop e st) = pc_stack st"
  by (auto simp: close_loop_def split: prod.splits)

lemma close_scope_ok:
  assumes c: "close_scope st = Inr st'" and ok: "st_ok m k rs base st" and e: "pc_stack st = e # rest"
    and "is_if e \<Longrightarrow> block_params e = labels e"
  shows "st_ok m k rs base st' \<or> done_ok m k rs base st'"
proof -
  obtain \<Psi> where i: "body_inv m k rs base {} {} \<Psi> (op_stack st) (e # rest) (wr st)" using st_okD(1) [OF ok] e by (auto simp: body_ok_def)
  have el: "elem_inv \<Psi> e (below (tstate (op_stack st)))" using body_invD(3) [OF i] by simp
  obtain t where t: "pop_scope_multi (results e) (op_stack st) = Inr t"
    and st': "st' = st\<lparr>op_stack := t, pc_stack := rest, wr := fix_branches (reloc_branches (relocations e)) (length (fb (wr st))) (wr st)\<rparr>"
    using c e unfolding close_scope_def by (simp add: pops_results [OF elem_expected [OF el]]) (auto simp: res_simps emit_end_def op_index_def)
  show ?thesis
    using body_inv_close [OF i t assms(4)] unfolding st' st_ok_def done_ok_def body_ok_def by auto
qed

lemma if_without_else_ok:
  assumes s: "if_without_else e rest st = Inr st'" and ok: "st_ok m k rs base st" and e: "pc_stack st = e # rest" "is_if e"
  shows "st_ok m k rs base st' \<and> (\<exists>e'. pc_stack st' = e' # rest \<and> (is_if e' \<longrightarrow> block_params e' = labels e'))"
proof (cases "block_params e = []")
  case True
  obtain \<Psi> where i: "body_inv m k rs base {} {} \<Psi> (op_stack st) (e # rest) (wr st)" using st_okD(1) [OF ok] e by (auto simp: body_ok_def)
  have "labels e = results e" using body_invD(3) [OF i] e(2) by (auto simp: elem_inv_def split: relocations_t.splits)
  moreover have "results e = []" "st' = st" using s True by (auto simp: if_without_else_def results_def res_simps split: if_splits)
  ultimately show ?thesis using ok e True by auto
next
  case False
  then have "start_else e rest st = Inr st'" using s by (auto simp: if_without_else_def res_simps)
  then show ?thesis using start_else_ok [OF _ ok e] by blast
qed

lemma op_end_ok:
  assumes "op_end bounds code st = Inr st'" and ok: "st_ok m k rs base st"
  shows "st_ok m k rs base st' \<or> done_ok m k rs base st' \<and> gp_offset code = bounds"
proof -
  obtain e rest where e: "pc_stack st = e # rest" using st_okD(2) [OF ok] by (cases "pc_stack st") auto
  let ?st = "close_loop e st"
  have s1: "st_ok m k rs base ?st" "pc_stack ?st = e # rest" using close_loop_ok [OF ok, of e] close_loop_pcs [of e st] e by auto
  obtain st1 where st1: "(if is_if e then if_without_else e rest ?st else Inr ?st) = Inr st1" "close_scope st1 = Inr st'"
    and g: "pc_stack st' \<noteq> [] \<or> gp_offset code = bounds"
    using assms(1) e by (auto simp: op_end_def exit_scope_def Let_def check_in_bounds_def res_simps)
  have "st_ok m k rs base st1 \<and> (\<exists>e'. pc_stack st1 = e' # rest \<and> (is_if e' \<longrightarrow> block_params e' = labels e'))"
    using if_without_else_ok [OF _ s1] st1(1) s1 by (cases "is_if e") auto
  then have "st_ok m k rs base st' \<or> done_ok m k rs base st'" using close_scope_ok [OF st1(2)] by blast
  then show ?thesis using g by (auto simp: done_ok_def)
qed

subsection \<open>Branch tables\<close>

lemma body_inv_weaken: "body_inv m k rs base X L \<Psi> t pcs w \<Longrightarrow> X \<subseteq> X' \<Longrightarrow> body_inv m k rs base X' L \<Psi> t pcs w"
  unfolding body_inv_def using code_inv_weaken by blast

lemma body_inv_slots:
  assumes "body_inv m k rs base X {} \<Psi> t pcs w" and "pcs \<noteq> []" and "stk t = None"
  shows "body_inv m k rs base X {} (\<Psi> @ replicate j None) t pcs (w\<lparr>fb := fb w @ replicate j table_slot\<rparr>)"
proof (induction j)
  case (Suc j)
  let ?w = "w\<lparr>fb := fb w @ replicate j table_slot\<rparr>" and ?\<Psi> = "\<Psi> @ replicate j None"
  have "body_inv m k rs base X {b. branch_pos b = length (fb ?w)} (?\<Psi> @ [stk t]) t pcs (?w\<lparr>fb := fb ?w @ [table_slot]\<rparr>)"
    using body_inv_emit [OF Suc assms(2) body_inv_tracks [OF assms(1,2)] same_below_refl, of table_slot] assms(3) by simp
  then have "body_inv m k rs base X {} (?\<Psi> @ [stk t]) t pcs (?w\<lparr>fb := fb ?w @ [table_slot]\<rparr>)"
    by (rule body_inv_limit) (use slot_type_last [of "fb ?w" table_slot ?\<Psi> "stk t"] body_invD(6) [OF Suc] in force)
  then show ?case by (simp add: assms(3) replicate_append_same [symmetric])
qed (use assms in simp)

lemma table_entry_ok:
  assumes i: "body_inv m k rs base {tab} {} \<Psi> tu pcs w" and tab: "tab < length (fb w)" "fb w ! tab = br_table_t n es"
    and ty: "\<Psi> ! tab = map_option ((#) ty_i32) (stk t0)" and t0: "tracks t0" "same_below t0 tu"
    and br: "\<And>\<tau>. stk t0 = Some \<tau> \<Longrightarrow> unat l < length pcs \<Longrightarrow> branches (pcs ! unat l) (rest_at (unat l) (tstate t0)) \<tau>"
    and em: "emit_case tab (operand_depth t0 - pe_depth (pcs ! unat l)) (of_nat (length (labels (pcs ! unat l)))) 0 w = Inr (w1, b)"
    and h: "handle_branch_target l b st = Inr st'" and st: "pc_stack st = pcs" "wr st = w1"
  shows "\<exists>pcs' w' es' d. st' = st\<lparr>pc_stack := pcs', wr := w'\<rparr> \<and> body_inv m k rs base {tab} {} \<Psi> tu pcs' w' \<and>
    skeleton pcs' = skeleton pcs \<and> length (fb w') = length (fb w) \<and> fb w' ! tab = br_table_t n es' \<and>
    map stack_pop es' = map stack_pop es @ [d] \<and> (\<forall>\<tau>. stk t0 = Some \<tau> \<longrightarrow> br_fits (\<lambda>_. True) d \<tau>)"
proof -
  let ?e = "pcs ! unat l" and ?R = "rest_at (unat l) (tstate t0)"
  obtain d where d: "encode_depth_change (operand_depth t0 - pe_depth ?e) (of_nat (length (labels ?e))) = Inr d"
    and w1: "w1 = w\<lparr>fb := (fb w)[tab := add_entry \<lparr>elem_pc = 0, stack_pop = d, eh_leave_count = 0\<rparr> (fb w ! tab)]\<rparr>"
    and b: "b = Entry_of tab (length es)"
    using em tab(2) by (auto simp: emit_case_def res_simps)
  let ?en = "\<lparr>elem_pc = 0, stack_pop = d, eh_leave_count = 0\<rparr>"
  have l: "unat l < length pcs" using h st by (simp add: handle_branch_target_def res_simps)
  have "pcs \<noteq> []" using l by auto
  then have sc: "scopes rs \<Psi> pcs (tstate tu)" by (rule body_invD(3) [OF i])
  have R: "rest_at (unat l) (tstate tu) = ?R" using t0(2) by (intro rest_at_below) (simp add: same_below_def)
  have pe: "unat (pe_depth ?e) = nvals ?R" using scopes_elem [OF sc l] R by (simp add: elem_inv_def)
  have fit: "br_fits (\<lambda>_. True) d \<tau>" "label_at ?e ?R = Some (branch_type d \<tau>)" if "stk t0 = Some \<tau>" for \<tau>
    using branch_fits [OF t0(1) that br [OF that l] pe d] by auto
  have tab1: "fb w1 ! tab = br_table_t n (es @ [?en])" "length (fb w1) = length (fb w)" using tab by (simp_all add: w1)
  have c: "code_inv m k base {tab} {b} \<Psi> (stk tu) (pending pcs (tstate tu)) (fb w1)"
    using code_inv_add_entry [OF body_invD(5) [OF i] _ tab, of ?en] by (simp add: w1 b)
  then have i1: "body_inv m k rs base {tab} {b} \<Psi> tu pcs w1" using i by (simp add: body_inv_def w1)
  have fresh: "b \<notin> fst ` set (pending pcs (tstate tu))"
    using code_inv_fresh [OF body_invD(5) [OF i], of b] tab(2) by (simp add: b)
  have ad: "addr_ok (fb w1) b" using tab(1) tab1 by (simp add: b)
  have slot: "label_at ?e (rest_at (unat l) (tstate tu)) = Some \<rho>" if "slot_type (fb w1) \<Psi> b \<rho>" for \<rho>
  proof -
    obtain p \<tau> q where p: "\<Psi> ! p = Some \<tau>" "(b, q, \<rho>) \<in> set (targets p (fb w1 ! p) \<tau>)" using \<open>slot_type (fb w1) \<Psi> b \<rho>\<close> by (auto simp: slot_type_def)
    moreover have "p = tab" using targets_pos [OF p(2)] by (simp add: b)
    ultimately obtain \<sigma> where "stk t0 = Some \<sigma>" "\<rho> = branch_type d \<sigma>" using ty tab1 by (auto simp: b nth_append split: if_splits)
    then show ?thesis using fit(2) R by simp
  qed
  obtain pcs' w' where r: "st' = st\<lparr>pc_stack := pcs', wr := w'\<rparr>" "body_inv m k rs base {tab} {} \<Psi> tu pcs' w'" "skeleton pcs' = skeleton pcs"
    "w' = w1 \<or> (\<exists>q. w' = w1\<lparr>fb := store_at b q (fb w1)\<rparr>)"
    using handle_branch_ok [OF i1 subset_refl fresh ad slot h st] by blast
  have "length (fb w') = length (fb w) \<and> (\<exists>es'. fb w' ! tab = br_table_t n es' \<and> map stack_pop es' = map stack_pop es @ [d])"
    using r(4) tab1 tab(1) by (auto simp: b store_at_nth list_update_append map_update)
  then show ?thesis using r(1-3) fit(1) by blast
qed

lemma handle_branch_skeleton:
  "handle_branch_target l b st = Inr st' \<Longrightarrow> skeleton (pc_stack st') = skeleton (pc_stack st) \<and> op_stack st' = op_stack st"
  by (auto simp: handle_branch_target_def res_simps Let_def skeleton_def map_update list_update_same_conv split: relocations_t.splits)

lemma emit_cases_skeleton:
  "emit_cases tab ls st = Inr st' \<Longrightarrow> skeleton (pc_stack st') = skeleton (pc_stack st) \<and> op_stack st' = op_stack st"
proof (induction ls arbitrary: st)
  case (Cons l ls)
  then show ?case by (auto simp: res_simps Let_def dest!: handle_branch_skeleton)
qed simp

lemma branches_skeleton:
  "skeleton pcs' = skeleton pcs \<Longrightarrow> l < length pcs \<Longrightarrow> branches (pcs' ! l) R \<tau> \<longleftrightarrow> branches (pcs ! l) R \<tau>"
  using skeleton_nth(1) [of pcs' pcs l] by (simp add: branches_def)

lemma emit_cases_ok:
  assumes "emit_cases tab ls st = Inr st'" and "body_inv m k rs base {tab} {} \<Psi> tu (pc_stack st) (wr st)"
    and "tab < length (fb (wr st))" and "fb (wr st) ! tab = br_table_t n es"
    and ty: "\<Psi> ! tab = map_option ((#) ty_i32) (stk t0)" and t0: "tracks t0" "same_below t0 tu" and "op_stack st = t0"
    and "skeleton (pc_stack st) = skeleton pcs"
    and br: "\<And>\<tau> l. stk t0 = Some \<tau> \<Longrightarrow> l \<in> set ls \<Longrightarrow> branches (pcs ! unat l) (rest_at (unat l) (tstate t0)) \<tau>"
  shows "\<exists>pcs' w' es' ds. st' = st\<lparr>pc_stack := pcs', wr := w'\<rparr> \<and> body_inv m k rs base {tab} {} \<Psi> tu pcs' w' \<and>
    skeleton pcs' = skeleton pcs \<and> length (fb w') = length (fb (wr st)) \<and> fb w' ! tab = br_table_t n es' \<and>
    map stack_pop es' = map stack_pop es @ ds \<and> length ds = length ls \<and>
    (\<forall>\<tau>. stk t0 = Some \<tau> \<longrightarrow> (\<forall>d \<in> set ds. br_fits (\<lambda>_. True) d \<tau>))"
  using assms(1-4,8,9) br
proof (induction ls arbitrary: st es)
  case Nil
  have "st' = st" using Nil.prems(1) by simp
  then show ?case
    using Nil.prems(2,4,6) by (intro exI [of _ "pc_stack st"] exI [of _ "wr st"] exI [of _ es] exI [of _ "[]"]) simp
next
  case (Cons l ls)
  obtain w1 b st1 where e: "emit_case tab (operand_depth t0 - pe_depth (pc_stack st ! unat l)) (of_nat (length (labels (pc_stack st ! unat l)))) 0 (wr st) = Inr (w1, b)"
    and h: "handle_branch_target l b (st\<lparr>wr := w1\<rparr>) = Inr st1" and r: "emit_cases tab ls st1 = Inr st'"
    using Cons.prems(1,5) by (auto simp: Let_def res_simps label_arity_labels)
  have "branches (pc_stack st ! unat l) (rest_at (unat l) (tstate t0)) \<tau>" if "stk t0 = Some \<tau>" "unat l < length (pc_stack st)" for \<tau>
    using Cons.prems(7) [OF that(1)] that(2) branches_skeleton [OF Cons.prems(6)] skeleton_length [OF Cons.prems(6)] by simp
  from table_entry_ok [OF Cons.prems(2-4) ty t0 this e h] obtain pcs1 w2 es1 d where
    s1: "st1 = st\<lparr>pc_stack := pcs1, wr := w2\<rparr>" "body_inv m k rs base {tab} {} \<Psi> tu pcs1 w2" "skeleton pcs1 = skeleton (pc_stack st)"
      "length (fb w2) = length (fb (wr st))" "fb w2 ! tab = br_table_t n es1" "map stack_pop es1 = map stack_pop es @ [d]"
    and d: "\<And>\<tau>. stk t0 = Some \<tau> \<Longrightarrow> br_fits (\<lambda>_. True) d \<tau>"
    by auto
  have "\<exists>pcs' w' es' ds. st' = st1\<lparr>pc_stack := pcs', wr := w'\<rparr> \<and> body_inv m k rs base {tab} {} \<Psi> tu pcs' w' \<and>
    skeleton pcs' = skeleton pcs \<and> length (fb w') = length (fb (wr st1)) \<and> fb w' ! tab = br_table_t n es' \<and>
    map stack_pop es' = map stack_pop es1 @ ds \<and> length ds = length ls \<and>
    (\<forall>\<tau>. stk t0 = Some \<tau> \<longrightarrow> (\<forall>d \<in> set ds. br_fits (\<lambda>_. True) d \<tau>))"
    by (rule Cons.IH [OF r]) (use s1 Cons.prems(3,5,6,7) in simp_all)
  then obtain pcs2 w3 es2 ds where "st' = st1\<lparr>pc_stack := pcs2, wr := w3\<rparr>" "body_inv m k rs base {tab} {} \<Psi> tu pcs2 w3"
    "skeleton pcs2 = skeleton pcs" "length (fb w3) = length (fb (wr st1))" "fb w3 ! tab = br_table_t n es2"
    "map stack_pop es2 = map stack_pop es1 @ ds" "length ds = length ls"
    "\<And>\<tau> d. stk t0 = Some \<tau> \<Longrightarrow> d \<in> set ds \<Longrightarrow> br_fits (\<lambda>_. True) d \<tau>"
    by blast
  then show ?case
    using s1 d by (intro exI [of _ pcs2] exI [of _ w3] exI [of _ es2] exI [of _ "d # ds"]) auto
qed

lemma body_inv_complete:
  assumes "body_inv m k rs base {x} {} \<Psi> t pcs w" and "\<And>\<tau> nxt. \<Psi> ! x = Some \<tau> \<Longrightarrow> instr_fits m k nxt any_tgt \<tau> (fb w ! x)"
  shows "body_inv m k rs base {} {} \<Psi> t pcs w"
proof -
  note d = code_invD [OF body_invD(5) [OF assms(1)]]
  have "code_inv m k base {} {} \<Psi> (stk t) (pending pcs (tstate t)) (fb w)"
  proof (rule code_invI)
    show "instr_fits m k (\<lambda>\<rho>. type_at \<Psi> (stk t) (Suc p) = Some \<rho>) any_tgt \<tau> (fb w ! p)"
      if "p < length (fb w)" "\<Psi> ! p = Some \<tau>" for p \<tau>
      using d(3) [OF that] assms(2) that(2) by (cases "p = x") auto
  qed (use d(1,2,4,5) in auto)
  then show ?thesis using assms(1) unfolding body_inv_def by blast
qed

lemma body_inv_tracker:
  assumes i: "body_inv m k rs base X L \<Psi> t pcs w" and "pcs \<noteq> []" and t': "tracks t'" "same_below t t'" "stk t' = stk t"
  shows "body_inv m k rs base X L \<Psi> t' pcs w"
proof -
  have "scopes rs \<Psi> pcs (tstate t')"
    by (rule scopes_below [OF body_invD(3) [OF i assms(2)]]) (use t' in \<open>simp_all add: tracks_def same_below_def\<close>)
  moreover have "pending pcs (tstate t') = pending pcs (tstate t)" using t'(2) by (intro pending_below) (simp add: same_below_def)
  moreover have "length \<tau> \<le> unat (maximum_operand_depth t')" if "Some \<tau> \<in> set \<Psi>" for \<tau>
    using body_invD(4) [OF i that] t'(2) by (simp add: same_below_def word_le_nat_alt)
  ultimately show ?thesis using body_invD(1,5) [OF i] assms(2) t' by (simp add: body_inv_def tracks_def)
qed

lemma emit_br_table_ok:
  assumes ok: "st_ok m k rs base st" and p: "tr_pop ty_i32 (op_stack st) = Inr t0" and em: "emit_br_table n (wr st) = Inr (w, tab)"
  shows "\<exists>\<Psi>. body_inv m k rs base {tab} {} \<Psi> (start_unreachable t0) (pc_stack st) w \<and> tab < length (fb w) \<and>
    fb w ! tab = br_table_t n [] \<and> \<Psi> ! tab = map_option ((#) ty_i32) (stk t0)"
proof -
  let ?t = "op_stack st" and ?tu = "start_unreachable t0" and ?n = "length (fb (wr st))" and ?op = "br_table_t n []"
  let ?w1 = "(wr st)\<lparr>fb := fb (wr st) @ [?op]\<rparr>" and ?j = "table_slots (unat n)"
  obtain \<Psi> where i: "body_inv m k rs base {} {} \<Psi> ?t (pc_stack st) (wr st)" using st_okD(1) [OF ok] by (auto simp: body_ok_def)
  have t0: "tracks t0" "same_below ?t t0" "stk ?t = map_option ((#) ty_i32) (stk t0)"
    using tr_pop_tracks [OF p st_okD(3) [OF ok]] by auto
  note u = start_unreachable_tracks [OF t0(1)]
  have w: "tab = ?n" "w = ?w1\<lparr>fb := fb ?w1 @ replicate ?j table_slot\<rparr>"
    using em by (auto simp: emit_br_table_def append_instr_def op_index_def res_simps Let_def)
  have "body_inv m k rs base {?n} {b. branch_pos b = ?n} (\<Psi> @ [stk ?t]) ?tu (pc_stack st) ?w1"
    using body_inv_emit [OF body_inv_weaken [OF i, of "{?n}"] st_okD(2) [OF ok], of ?tu ?op] u same_below_trans [OF t0(2)] by simp
  then have "body_inv m k rs base {?n} {} (\<Psi> @ [stk ?t]) ?tu (pc_stack st) ?w1"
    by (rule body_inv_limit) (use slot_type_last [of "fb (wr st)" ?op \<Psi> "stk ?t"] body_invD(6) [OF i] in force)
  from body_inv_slots [OF this st_okD(2) [OF ok], of ?j]
  have "body_inv m k rs base {tab} {} ((\<Psi> @ [stk ?t]) @ replicate ?j None) ?tu (pc_stack st) w" using u by (simp add: w)
  moreover have "((\<Psi> @ [stk ?t]) @ replicate ?j None) ! tab = stk ?t" using body_invD(6) [OF i] by (simp add: w(1) nth_append)
  ultimately show ?thesis using t0(3) by (intro exI [of _ "(\<Psi> @ [stk ?t]) @ replicate ?j None"]) (simp add: w nth_append)
qed

lemma br_table_ok:
  assumes ok: "st_ok m k rs base st" and p: "tr_pop ty_i32 (op_stack st) = Inr t0" and em: "emit_br_table n (wr st) = Inr (w, tab)"
    and ls: "length ls = unat n" "\<And>l. l \<in> set ls \<Longrightarrow> unat l < length (pc_stack st)"
    and eq: "\<And>\<tau> l. stk t0 = Some \<tau> \<Longrightarrow> l \<in> set ls \<Longrightarrow> labels (pc_stack st ! unat l) = labels (pc_stack st ! unat dl)"
    and ec: "emit_cases tab ls (st\<lparr>op_stack := t0, wr := w\<rparr>) = Inr st1" and cd: "compute_depth_change dl st1 = Inr (st2, dc, rc)"
    and ed: "emit_default tab dc rc 0 (wr st2) = Inr (w3, b)" and h: "handle_branch_target dl b (st2\<lparr>wr := w3\<rparr>) = Inr st3"
  shows "st_ok m k rs base (st3\<lparr>op_stack := start_unreachable (op_stack st3)\<rparr>)"
proof -
  let ?t = "op_stack st" and ?pcs = "pc_stack st" and ?tu = "start_unreachable t0"
  have t0: "tracks t0" "same_below ?t t0" using tr_pop_tracks [OF p st_okD(3) [OF ok]] by auto
  note u = start_unreachable_tracks [OF t0(1)]
  obtain \<Psi> where i: "body_inv m k rs base {tab} {} \<Psi> ?tu ?pcs w" and tab: "tab < length (fb w)" "fb w ! tab = br_table_t n []"
    and ty: "\<Psi> ! tab = map_option ((#) ty_i32) (stk t0)"
    using emit_br_table_ok [OF ok p em] by blast
  have sc: "scopes rs \<Psi> ?pcs (tstate t0)"
    by (rule scopes_below [OF body_invD(3) [OF i st_okD(2) [OF ok]]]) (use t0(1) u in \<open>simp_all add: tracks_def same_below_def\<close>)
  have sk: "skeleton (pc_stack st1) = skeleton ?pcs" "op_stack st1 = t0" using emit_cases_skeleton [OF ec] by simp_all
  obtain t1 where dl: "unat dl < length ?pcs" and t1: "tr_pops (labels (?pcs ! unat dl)) t0 = Inr t1"
    using cd sk skeleton_length [OF sk(1)] skeleton_nth(1) [OF sk(1), of "unat dl"] by (auto simp: compute_depth_change_eq res_simps Let_def)
  have v: "list_all value_type (labels (?pcs ! unat dl))" using scopes_elem [OF sc dl] by (simp add: elem_inv_def)
  have br: "branches (?pcs ! unat l) (rest_at (unat l) (tstate t0)) \<tau>" if "stk t0 = Some \<tau>" "l \<in> set ls" for \<tau> l
    using pops_branches [OF t1 t0(1) v sc that(1) ls(2) [OF that(2)]] eq [OF that] by simp
  let ?st = "st\<lparr>op_stack := t0, wr := w\<rparr>"
  have "\<exists>pcs' w' es' ds. st1 = ?st\<lparr>pc_stack := pcs', wr := w'\<rparr> \<and> body_inv m k rs base {tab} {} \<Psi> ?tu pcs' w' \<and>
    skeleton pcs' = skeleton ?pcs \<and> length (fb w') = length (fb (wr ?st)) \<and> fb w' ! tab = br_table_t n es' \<and>
    map stack_pop es' = map stack_pop ([] :: elem_t list) @ ds \<and> length ds = length ls \<and>
    (\<forall>\<tau>. stk t0 = Some \<tau> \<longrightarrow> (\<forall>d \<in> set ds. br_fits (\<lambda>_. True) d \<tau>))"
    by (rule emit_cases_ok [OF ec]) (use i tab ty t0(1) u br in simp_all)
  then obtain pcs1 w1 es1 ds where s1: "st1 = ?st\<lparr>pc_stack := pcs1, wr := w1\<rparr>" and i1: "body_inv m k rs base {tab} {} \<Psi> ?tu pcs1 w1"
    and w1: "length (fb w1) = length (fb w)" "fb w1 ! tab = br_table_t n es1" and ds: "map stack_pop es1 = ds" "length ds = length ls"
    and f: "\<forall>\<tau>. stk t0 = Some \<tau> \<longrightarrow> (\<forall>d \<in> set ds. br_fits (\<lambda>_. True) d \<tau>)"
    unfolding list.map append_Nil parse_state.select_convs by auto
  have len: "length es1 = length ls" using ds by auto
  have f1: "br_fits (\<lambda>_. True) d \<tau>" if "stk t0 = Some \<tau>" "d \<in> set (map stack_pop es1)" for \<tau> d using f that ds(1) by simp
  have p1: "pcs1 \<noteq> []" using skeleton_length [OF sk(1)] s1 st_okD(2) [OF ok] by auto
  have sc1: "scopes rs \<Psi> pcs1 (tstate t0)"
    by (rule scopes_below [OF body_invD(3) [OF i1 p1]]) (use t0(1) u in \<open>simp_all add: tracks_def same_below_def\<close>)
  obtain t2 where t2: "st2 = st1\<lparr>op_stack := t2\<rparr>" "tracks t2" "same_below t0 t2" "stk t2 = stk t0"
    and d: "dc = operand_depth t0 - pe_depth (pcs1 ! unat dl)" "rc = of_nat (length (labels (pcs1 ! unat dl)))"
    and br1: "\<And>\<tau>. stk t0 = Some \<tau> \<Longrightarrow> branches (pcs1 ! unat dl) (rest_at (unat dl) (tstate t0)) \<tau>"
    using compute_depth_ok [OF cd, of rs \<Psi>] t0(1) sc1 s1 by auto
  have e: "emit_case tab (operand_depth t0 - pe_depth (pcs1 ! unat dl)) (of_nat (length (labels (pcs1 ! unat dl)))) 0 w1 = Inr (w3, b)"
    using ed d t2(1) s1 by (auto simp: emit_default_def res_simps)
  have "\<exists>pcs' w' es' d. st3 = st2\<lparr>wr := w3\<rparr>\<lparr>pc_stack := pcs', wr := w'\<rparr> \<and> body_inv m k rs base {tab} {} \<Psi> ?tu pcs' w' \<and>
    skeleton pcs' = skeleton pcs1 \<and> length (fb w') = length (fb w1) \<and> fb w' ! tab = br_table_t n es' \<and>
    map stack_pop es' = map stack_pop es1 @ [d] \<and> (\<forall>\<tau>. stk t0 = Some \<tau> \<longrightarrow> br_fits (\<lambda>_. True) d \<tau>)"
    by (rule table_entry_ok [OF i1 _ w1(2) ty t0(1) _ br1 e h]) (use tab w1 u t2(1) s1 in simp_all)
  then obtain pcs3 w4 es3 d3 where s3: "st3 = st2\<lparr>pc_stack := pcs3, wr := w4\<rparr>" and i3: "body_inv m k rs base {tab} {} \<Psi> ?tu pcs3 w4"
    and w4: "skeleton pcs3 = skeleton pcs1" "fb w4 ! tab = br_table_t n es3" "map stack_pop es3 = map stack_pop es1 @ [d3]"
    and f3: "\<And>\<tau>. stk t0 = Some \<tau> \<Longrightarrow> br_fits (\<lambda>_. True) d3 \<tau>"
    by auto
  have p3: "pcs3 \<noteq> []" using skeleton_length [OF w4(1)] p1 by auto
  have "length es3 = unat n + 1" using w4(3) len ls(1) by (metis length_append_singleton length_map Suc_eq_plus1)
  moreover have "br_fits (\<lambda>_. True) (stack_pop x) \<tau>" if "stk t0 = Some \<tau>" "x \<in> set es3" for x \<tau>
  proof -
    have "stack_pop x \<in> set (map stack_pop es1 @ [d3])" using that(2) w4(3) by (metis image_eqI set_map)
    then show ?thesis using f1 [OF that(1)] f3 [OF that(1)] by auto
  qed
  ultimately have "instr_fits m k nxt any_tgt \<tau> (fb w4 ! tab)" if "\<Psi> ! tab = Some \<tau>" for \<tau> nxt
    using that ty by (auto simp: w4(2))
  then have i4: "body_inv m k rs base {} {} \<Psi> ?tu pcs3 w4" by (rule body_inv_complete [OF i3])
  note u2 = start_unreachable_tracks [OF t2(2)]
  have sb: "same_below ?tu (start_unreachable t2)"
    using u u2 t2(3) by (simp add: same_below_def start_unreachable_def split: prod.splits)
  have "body_inv m k rs base {} {} \<Psi> (start_unreachable t2) pcs3 w4"
    by (rule body_inv_tracker [OF i4 p3]) (use u u2 sb in simp_all)
  then show ?thesis using s3 t2(1) p3 by (auto simp: st_ok_def body_ok_def)
qed

subsection \<open>Bodies\<close>

text \<open>
  What the parser does not check: the type of a typed \<open>select\<close>, and that all labels of a reachable
  \<open>br_table\<close> have the types of the default label.
\<close>

definition strict_select :: "gptr \<Rightarrow> bool" where
  "strict_select code =
     (case parse_varuint32 code of
        Inl _ \<Rightarrow> True
      | Inr (_, code1) \<Rightarrow> (case read_byte code1 of Inl _ \<Rightarrow> True | Inr (t, _) \<Rightarrow> value_type t))"

definition strict_table :: "gptr \<Rightarrow> parse_state \<Rightarrow> bool" where
  "strict_table code st =
     (case parse_varuint32 code of Inl _ \<Rightarrow> True | Inr (n, code1) \<Rightarrow>
     (case parse_labels (unat n) code1 of Inl _ \<Rightarrow> True | Inr (ls, code2) \<Rightarrow>
     (case parse_varuint32 code2 of Inl _ \<Rightarrow> True | Inr (dl, _) \<Rightarrow>
        here (tstate (op_stack st)) = None \<or>
        list_all (\<lambda>l. labels (pc_stack st ! unat l) = labels (pc_stack st ! unat dl)) ls)))"

definition strict_instr :: "u8 \<Rightarrow> gptr \<Rightarrow> parse_state \<Rightarrow> bool" where
  "strict_instr b code st = (if b = 0x1C then strict_select code else if b = 0x0E then strict_table code st else True)"

function strict_loop :: "parse_ctx \<Rightarrow> nat \<Rightarrow> gptr \<Rightarrow> parse_state \<Rightarrow> bool" where
  "strict_loop C bounds code st =
     (gp_offset code < bounds \<longrightarrow>
        (case read_byte code of Inl _ \<Rightarrow> True | Inr (b, code1) \<Rightarrow> strict_instr b code1 st) \<and>
        (case parse_instr C bounds code st of Inl _ \<Rightarrow> True | Inr (code', st') \<Rightarrow> strict_loop C bounds code' st'))"
  by pat_completeness auto
termination
  by (relation "measure (\<lambda>(C, bounds, code, st). bounds - raw_ptr code)")
     (auto simp: gp_offset_def dest: parse_instr_forward)

declare strict_loop.simps [simp del]

lemma strict_table_inj [simp]: "strict_table code (st\<lparr>inj := g\<rparr>) = strict_table code st"
proof -
  have "pc_stack (st\<lparr>inj := g\<rparr>) = pc_stack st" "op_stack (st\<lparr>inj := g\<rparr>) = op_stack st" by simp_all
  then show ?thesis unfolding strict_table_def by (simp only:)
qed

lemma parse_labels_length: "parse_labels n code = Inr (ls, code') \<Longrightarrow> length ls = n"
  by (induction n arbitrary: code ls) (auto simp: res_simps)

lemma check_labels_range: "check_labels p d ls pcs = Inr () \<Longrightarrow> l \<in> set ls \<Longrightarrow> unat l < length pcs"
  by (induction ls) (auto simp: res_simps)

lemma strict_labels:
  assumes "strict_table code st" and "parse_varuint32 code = Inr (n, code1)" and "parse_labels (unat n) code1 = Inr (ls, code2)"
    and "parse_varuint32 code2 = Inr (dl, code3)" and "tr_pop ty_i32 (op_stack st) = Inr t0" and "st_ok m k rs base st"
    and "stk t0 = Some \<tau>" and "l \<in> set ls"
  shows "labels (pc_stack st ! unat l) = labels (pc_stack st ! unat dl)"
  using assms(1,7,8) tr_pop_tracks [OF assms(5) st_okD(3) [OF assms(6)]] by (auto simp: strict_table_def assms(2-4) list_all_iff)

lemma op_br_table_ok:
  "op_br_table C code st = Inr (code', st') \<Longrightarrow> strict_table code st \<Longrightarrow> st_ok m k rs base st \<Longrightarrow> st_ok m k rs base st'"
  by (clarsimp simp: op_br_table_def op_defs Let_def res_simps)
     (rule br_table_ok, assumption+, erule parse_labels_length, erule (1) check_labels_range, erule (7) strict_labels, assumption+)

lemmas step_ok =
  op_unreachable_ok op_nop_ok op_block_ok op_loop_ok op_if_ok op_else_ok op_br_ok op_br_if_ok op_return_ok op_call_ok
  op_call_indirect_ok op_drop_ok op_select_ok op_get_local_ok op_set_local_ok op_tee_local_ok op_get_global_ok op_set_global_ok
  op_table_get_ok op_table_set_ok op_load_ok op_store_ok op_current_memory_ok op_grow_memory_ok op_const_ok op_num_ok op_extend_ok
  op_ref_null_ok op_ref_is_null_ok op_ref_func_ok

lemma keep_code_eq: "keep_code code r = Inr (code', st') \<longleftrightarrow> r = Inr st' \<and> code' = code"
  by (auto simp: keep_code_def res_simps)

lemma op_ext_ok:
  assumes "op_ext C code st = Inr (code', st')" and "st_ok m k rs base st"
  shows "st_ok m k rs base st'"
proof -
  have "list_all (\<lambda>n. \<not> num_binary n) trunc_sat_ops" by (simp add: trunc_sat_ops_def)
  then have "\<not> num_binary (trunc_sat_ops ! i)" if "i < length trunc_sat_ops" for i using that by (simp add: list_all_length)
  then show ?thesis using assms op_trunc_sat_ok by (auto simp: op_ext_def res_simps split: if_splits)
qed

lemma op_typed_select_strict:
  "op_typed_select code st = Inr (code', st') \<Longrightarrow> strict_select code \<Longrightarrow> st_ok m k rs base st \<Longrightarrow> st_ok m k rs base st'"
  by (rule op_typed_select_ok) (auto simp: strict_select_def)

lemma dispatch_ok:
  assumes "dispatch C bounds b code st = Inr (code', st')" and "ctx_ok m k C" and "st_ok m k rs base st" and "strict_instr b code st"
  shows "st_ok m k rs base st' \<or> done_ok m k rs base st' \<and> gp_offset code' = bounds"
proof (cases "b = 0x0B")
  case True
  then have "op_end bounds code st = Inr st'" "code' = code" using assms(1) by (simp_all add: dispatch_def keep_code_eq)
  then show ?thesis using op_end_ok [OF _ assms(3)] by blast
next
  case False
  have "st_ok m k rs base st'"
  proof (cases "b = 0x0E \<or> b = 0x1C \<or> b = 0xFC")
    case True
    then show ?thesis
      using assms op_br_table_ok op_typed_select_strict op_ext_ok by (auto simp: dispatch_def strict_instr_def)
  next
    case f: False
    show ?thesis
      using assms(1-3) False f unfolding dispatch_def
      by (simp add: keep_code_eq split: if_split_asm) ((erule conjE)?, (erule step_ok; assumption))+
  qed
  then show ?thesis ..
qed

lemma parse_instr_ok:
  assumes "parse_instr C bounds code st = Inr (code', st')" and "ctx_ok m k C" and "st_ok m k rs base st"
    and "\<And>b code1. read_byte code = Inr (b, code1) \<Longrightarrow> strict_instr b code1 st"
  shows "st_ok m k rs base st' \<or> done_ok m k rs base st' \<and> gp_offset code' = bounds"
proof -
  obtain b code1 where b: "read_byte code = Inr (b, code1)" and d: "dispatch C bounds b code1 (st\<lparr>inj := on_opcode b (inj st)\<rparr>) = Inr (code', st')"
    using assms(1) by (auto simp: parse_instr_def res_simps)
  have "strict_instr b code1 (st\<lparr>inj := on_opcode b (inj st)\<rparr>)"
    using assms(4) [OF b] by (simp add: strict_instr_def)
  then show ?thesis using dispatch_ok [OF d assms(2)] assms(3) by simp
qed

lemma parse_loop_ok:
  assumes "parse_loop C bounds code st = Inr (code', st')" and "ctx_ok m k C"
    and "st_ok m k rs base st \<or> done_ok m k rs base st \<and> gp_offset code = bounds" and "strict_loop C bounds code st"
  shows "st_ok m k rs base st' \<or> done_ok m k rs base st'"
  using assms
proof (induction C bounds code st rule: parse_loop.induct)
  case (1 C bounds code st)
  show ?case
  proof (cases "gp_offset code < bounds")
    case True
    note s = "1.prems"(4) [unfolded strict_loop.simps [of C bounds code st]]
    obtain code1 st1 where i: "parse_instr C bounds code st = Inr (code1, st1)" and r: "parse_loop C bounds code1 st1 = Inr (code', st')"
      using "1.prems"(1) True by (subst (asm) parse_loop.simps) (auto simp: res_simps)
    have "strict_instr b c st" if "read_byte code = Inr (b, c)" for b c using s True that by simp
    then have "st_ok m k rs base st1 \<or> done_ok m k rs base st1 \<and> gp_offset code1 = bounds"
      using parse_instr_ok [OF i "1.prems"(2)] "1.prems"(3) True by blast
    moreover have "strict_loop C bounds code1 st1" using s True i by simp
    ultimately show ?thesis using "1.IH" [OF True i refl r "1.prems"(2)] by blast
  next
    case False
    then show ?thesis using "1.prems"(1,3) by (subst (asm) parse_loop.simps) auto
  qed
qed

end
