(* ===== verification/Module_Safety.thy ===== *)
theory Module_Safety
  imports Validate_Sound Code_Safety
begin

unbundle bit_operations_syntax

section \<open>Accepted modules execute safely\<close>

text \<open>
  The validator and the interpreter together: the code that \<open>write_code_out\<close> produces for an accepted
  module has a stack map, so that executing it is type safe.
\<close>

subsection \<open>Locals\<close>

lemma boundaries_ok:
  "boundaries_loop cnt ls = Inr bs \<Longrightarrow>
   length bs = length ls \<and> unat (last (cnt # bs)) = unat cnt + length (expand_locals ls) \<and>
   (\<forall>i. cnt \<le> i \<longrightarrow> i < last (cnt # bs) \<longrightarrow>
      local_type (ls ! length (takeWhile (\<lambda>b. b \<le> i) bs)) = expand_locals ls ! (unat i - unat cnt))"
proof (induction ls arbitrary: cnt bs)
  case Nil
  then show ?case by (auto simp: expand_locals_def)
next
  case (Cons l ls)
  let ?c = "cnt + local_count l"
  obtain bs' where b: "bs = ?c # bs'" "boundaries_loop ?c ls = Inr bs'" and le: "cnt \<le> 0xFFFFFFFF - local_count l"
    using Cons.prems by (auto simp: res_simps)
  have "unat (0xFFFFFFFF - local_count l) = 0xFFFFFFFF - unat (local_count l)"
    using unat_bound [of "local_count l"] by (subst unat_sub) (simp_all add: word_le_nat_alt)
  then have c: "unat ?c = unat cnt + unat (local_count l)"
    using le unat_bound [of "local_count l"] by (simp add: unat_word_ariths word_le_nat_alt)
  note ih = Cons.IH [OF b(2)]
  have e: "expand_locals (l # ls) = replicate (unat (local_count l)) (local_type l) @ expand_locals ls" by (simp add: expand_locals_def)
  have "local_type ((l # ls) ! length (takeWhile (\<lambda>b. b \<le> i) bs)) = expand_locals (l # ls) ! (unat i - unat cnt)"
    if i: "cnt \<le> i" "i < last (cnt # bs)" for i
  proof (cases "?c \<le> i")
    case True
    then have "local_type (ls ! length (takeWhile (\<lambda>b. b \<le> i) bs')) = expand_locals ls ! (unat i - unat ?c)"
      using ih i(2) b(1) by simp
    moreover have "unat ?c \<le> unat i" using True by (simp add: word_le_nat_alt)
    then have "\<not> unat i - unat cnt < unat (local_count l)" using c by simp
    ultimately show ?thesis using True by (simp add: b(1) e c nth_append)
  next
    case False
    then have "unat i < unat ?c" "unat cnt \<le> unat i" using i(1) by (simp_all add: word_le_nat_alt word_less_nat_alt)
    then have "unat i - unat cnt < unat (local_count l)" using c by simp
    then show ?thesis using False by (simp add: b(1) e c nth_append)
  qed
  then show ?case using ih b(1) by (simp add: e c)
qed

lemma local_types_ok:
  assumes "local_types ft ls = Inr lt" and "length (param_types ft) < 2 ^ 32"
  shows "locals_count lt = length (expand_locals ls)"
    and "unat (sum_list (map local_count ls) + of_nat (length (param_types ft))) = length (param_types ft) + length (expand_locals ls)"
    and "type_of_local lt i = Inr t \<Longrightarrow> unat i < length (param_types ft @ expand_locals ls) \<and> t = (param_types ft @ expand_locals ls) ! unat i"
proof -
  let ?n = "of_nat (length (param_types ft)) :: u32"
  have n: "unat ?n = length (param_types ft)" using assms(2) by (simp add: unat_of_nat)
  obtain bs where bs: "boundaries_loop ?n ls = Inr bs" and lt: "lt = \<lparr>lt_ft = ft, lt_locals = ls, boundaries = ?n # bs\<rparr>"
    using assms(1) by (auto simp: local_types_def Let_def res_simps)
  note b = boundaries_ok [OF bs]
  show "locals_count lt = length (expand_locals ls)" using b n by (simp add: locals_count_def lt)
  have "last (cnt # bs) = cnt + sum_list (map local_count ls)" if "boundaries_loop cnt ls = Inr bs" for cnt bs
    using that by (induction ls arbitrary: cnt bs) (auto simp: res_simps add_ac)
  from this [OF bs] show "unat (sum_list (map local_count ls) + ?n) = length (param_types ft) + length (expand_locals ls)"
    using b n by (simp add: add_ac)
  assume t: "type_of_local lt i = Inr t"
  then have i: "i < last (?n # bs)" by (simp add: type_of_local_def lt res_simps split: if_splits)
  then have "unat i < length (param_types ft) + length (expand_locals ls)" using b n by (simp add: word_less_nat_alt)
  moreover have "t = (param_types ft @ expand_locals ls) ! unat i"
  proof (cases "?n \<le> i")
    case True
    then have "length (param_types ft) \<le> unat i" using n by (simp add: word_le_nat_alt)
    moreover have "t = local_type (ls ! length (takeWhile (\<lambda>b. b \<le> i) bs))"
      using t i True by (simp add: type_of_local_def lt assertR_def split: if_splits)
    moreover have "\<dots> = expand_locals ls ! (unat i - unat ?n)" using b True i by blast
    ultimately show ?thesis using n by (simp add: nth_append)
  next
    case False
    then have "unat i < length (param_types ft)" using n by (simp add: word_less_nat_alt not_le)
    then show ?thesis using t i False by (simp add: type_of_local_def lt res_simps nth_append)
  qed
  ultimately show "unat i < length (param_types ft @ expand_locals ls) \<and> t = (param_types ft @ expand_locals ls) ! unat i" by simp
qed

subsection \<open>The code of one body\<close>

definition init_state :: "func_type \<Rightarrow> writer \<Rightarrow> parse_state" where
  "init_state ft w = \<lparr>op_stack = tracker_init, pc_stack = [func_scope ft], wr = w, inj = inj_reset \<lparr>loop_stack = [], prepay_extra = 0\<rparr>\<rparr>"

definition typed_body :: "module \<Rightarrow> nat \<Rightarrow> nat \<Rightarrow> u8 list option list \<Rightarrow> opcode list \<Rightarrow> bool" where
  "typed_body m k base \<Psi> ops \<longleftrightarrow>
     length \<Psi> = length ops \<and> ops \<noteq> [] \<and> \<Psi> ! 0 = Some [] \<and>
     (\<forall>p < length ops. \<forall>\<tau>. \<Psi> ! p = Some \<tau> \<longrightarrow>
        instr_fits m k (\<lambda>\<rho>. p + 1 < length ops \<and> \<Psi> ! (p + 1) = Some \<rho>)
          (\<lambda>q \<rho>. \<exists>t < length ops. q = of_nat (base + t) \<and> \<Psi> ! t = Some \<rho>) \<tau> (ops ! p))"

lemma func_scope_types:
  assumes "func_type_ok ft"
  shows "results (func_scope ft) = return_types ft" and "labels (func_scope ft) = return_types ft"
  using assms by (auto simp: results_def labels_def func_scope_def return_count_def return_type_def func_type_ok_def Let_def
      length_Suc_conv split: list.split)

lemma init_ok:
  assumes "func_type_ok ft" and "fb w = []"
  shows "st_ok m k (return_types ft) (base_offset w) (init_state ft w)"
proof -
  let ?t = "tracker_init"
  have t: "tstate ?t = [] @ scope_tag # []" by (simp add: tracker_init_def)
  have sc: "scoped (tstate ?t)" "below (tstate ?t) = []" "stk ?t = Some []"
    using scoped_append [of "[]" "[]"] below_append [of "[]" "[]"] by (simp_all add: t)
  have "elem_inv [] (func_scope ft) []"
    using func_scope_types [OF assms(1)] assms(1) by (simp add: elem_inv_def func_type_ok_def) (simp add: func_scope_def Let_def)
  moreover have "\<not> is_if (func_scope ft)" "relocs (func_scope ft) [] = []" by (simp_all add: func_scope_def Let_def relocs_def)
  moreover have "code_inv m k (base_offset w) {} {} [] (Some []) [] []" by (simp add: code_inv_def type_at_def)
  ultimately have "body_inv m k (return_types ft) (base_offset w) {} {} [] ?t [func_scope ft] w"
    using sc assms func_scope_types(1) [OF assms(1)] by (simp add: body_inv_def depth_ok_def) (simp add: tracker_init_def)
  then show ?thesis by (auto simp: st_ok_def init_state_def body_ok_def)
qed

lemma code_inv_typed:
  assumes c: "code_inv m k base {} {} \<Psi> c [] cs" and r: "\<And>\<tau> nxt tgt. c = Some \<tau> \<Longrightarrow> instr_fits m k nxt tgt \<tau> op"
  shows "typed_body m k base (\<Psi> @ [c]) (cs @ [op])"
proof -
  note d = code_invD [OF c]
  let ?\<Psi> = "\<Psi> @ [c]" and ?ops = "cs @ [op]"
  have "instr_fits m k (\<lambda>\<rho>. p + 1 < length ?ops \<and> ?\<Psi> ! (p + 1) = Some \<rho>)
      (\<lambda>q \<rho>. \<exists>t < length ?ops. q = of_nat (base + t) \<and> ?\<Psi> ! t = Some \<rho>) \<tau> (?ops ! p)"
    if p: "p < length ?ops" "?\<Psi> ! p = Some \<tau>" for p \<tau>
  proof (cases "p = length cs")
    case True
    then show ?thesis using p(2) r d(1) by (simp add: nth_append)
  next
    case False
    then have p': "p < length cs" "\<Psi> ! p = Some \<tau>" using p d(1) by (auto simp: nth_append split: if_splits)
    show ?thesis
    proof (rule instr_fits_targets [THEN iffD2], intro conjI)
      show "instr_fits m k (\<lambda>\<rho>. p + 1 < length ?ops \<and> ?\<Psi> ! (p + 1) = Some \<rho>) any_tgt \<tau> (?ops ! p)"
        using instr_fits_mono [OF d(3) [OF p']] p'(1) by (simp add: nth_append type_at_def)
      show "\<forall>(b, q, \<rho>) \<in> set (targets p (?ops ! p) \<tau>). \<exists>t < length ?ops. q = of_nat (base + t) \<and> ?\<Psi> ! t = Some \<rho>"
      proof clarify
        fix b q \<rho>
        assume "(b, q, \<rho>) \<in> set (targets p (?ops ! p) \<tau>)"
        then have "slot_ok base \<Psi> c [] b q \<rho>" using d(4) [OF p'] p'(1) by (simp add: nth_append)
        then show "\<exists>t < length ?ops. q = of_nat (base + t) \<and> ?\<Psi> ! t = Some \<rho>"
          using d(1) by (auto simp: slot_ok_def type_at_def less_Suc_eq_le)
      qed
    qed
  qed
  then show ?thesis using d(1,5) by (simp add: typed_body_def type_at_def)
qed

subsection \<open>All bodies\<close>

definition body_ctx :: "options \<Rightarrow> module \<Rightarrow> nat \<Rightarrow> local_types_t \<Rightarrow> parse_ctx" where
  "body_ctx opt m i lt = \<lparr>pmod = m, opts = opt, pft = ftype m i, plocals = lt\<rparr>"

definition strict_body :: "options \<Rightarrow> module \<Rightarrow> u8 list \<Rightarrow> nat \<Rightarrow> writer \<Rightarrow> bool" where
  "strict_body opt m bytes i w =
     (let body = body_list m ! i; n = unat (body_bytes body) in
      case local_types (ftype m i) (locals body) of
        Inl _ \<Rightarrow> True
      | Inr lt \<Rightarrow> strict_loop (body_ctx opt m i lt) n (gp_new bytes n) (init_state (ftype m i) (emit_prologue n w)))"

fun strict_bodies :: "options \<Rightarrow> u8 list list \<Rightarrow> nat \<Rightarrow> writer \<Rightarrow> module \<Rightarrow> bool" where
  "strict_bodies opt [] i w m = True"
| "strict_bodies opt (bytes # rest) i w m =
     (strict_body opt m bytes i w \<and>
      (case write_body opt m bytes i w of Inl _ \<Rightarrow> True | Inr (w', m', _) \<Rightarrow> strict_bodies opt rest (i + 1) w' m'))"

text \<open>The code of a module does not rely on what the parser does not check.\<close>

definition strict_code :: "options \<Rightarrow> u8 list list \<Rightarrow> module \<Rightarrow> bool" where
  "strict_code opt bodies m = strict_bodies opt bodies 0 \<lparr>fb = [], capacity = 0, base_offset = 0\<rparr> m"

text \<open>Sizes the encoding of the bitcode relies on.\<close>

definition sizes_ok :: "module \<Rightarrow> bool" where
  "sizes_ok m \<longleftrightarrow> length (types m) \<le> 65536 \<and> length (tables m) \<le> 65536 \<and> list_all (\<lambda>ft. length (param_types ft) < 2 ^ 32) (types m)"

text \<open>What writing the code leaves of a module.\<close>

definition same_static :: "module \<Rightarrow> module \<Rightarrow> bool" where
  "same_static m m' \<longleftrightarrow>
     types m' = types m \<and> imports_of m' = imports_of m \<and> func_list m' = func_list m \<and> tables m' = tables m \<and>
     memories m' = memories m \<and> globals m' = globals m \<and> stack_limit_is_bytes m' = stack_limit_is_bytes m \<and>
     map locals (body_list m') = map locals (body_list m)"

lemma same_static_refl [simp]: "same_static m m"
  by (simp add: same_static_def)

lemma same_static_trans: "same_static m m' \<Longrightarrow> same_static m' m'' \<Longrightarrow> same_static m m''"
  by (simp add: same_static_def)

lemma same_static_functions:
  assumes "same_static m m'"
  shows "get_functions_total m' = get_functions_total m" and "get_function_type m' f = get_function_type m f"
    and "ftype m' k = ftype m k" and "length (body_list m') = length (body_list m)"
  using assms map_eq_imp_length_eq [of locals "body_list m'" locals "body_list m"]
  by (simp_all add: same_static_def get_functions_total_def get_imported_functions_size_def import_types_def
      get_function_type_def types_at_def ftype_def)

lemma same_static_ltypes: "same_static m m' \<Longrightarrow> k < length (body_list m) \<Longrightarrow> ltypes m' k = ltypes m k"
  using same_static_functions [of m m'] nth_map [of k "body_list m'" locals] nth_map [of k "body_list m" locals]
  by (simp add: ltypes_def same_static_def)

lemma same_static_fits:
  assumes "same_static m m'" and "k < length (body_list m)" and "instr_fits m k nxt tgt \<tau> op"
  shows "instr_fits m' k nxt tgt \<tau> op"
  using assms(3) assms(1) same_static_functions [OF assms(1)] same_static_ltypes [OF assms(1,2)]
  by (cases op) (auto simp: same_static_def Let_def)

lemma same_static_module: "same_static m m' \<Longrightarrow> module_ok m \<Longrightarrow> module_ok m'"
proof -
  assume s: "same_static m m'" and m: "module_ok m"
  have "list_all (\<lambda>b. list_all (\<lambda>l. value_type (local_type l)) (locals b)) bs =
      list_all (list_all (\<lambda>l. value_type (local_type l))) (map locals bs)" for bs :: "function_body list"
    by (simp add: list_all_iff)
  then show ?thesis
    using s m same_static_functions(4) [OF s] by (simp add: module_ok_def same_static_def import_types_def)
qed

lemma write_body_typed:
  assumes w: "write_body opt m bytes i w = Inr (w', m', ops)" and m: "module_ok m" "sizes_ok m" and st: "strict_body opt m bytes i w"
  shows "i < length (func_list m) \<and> same_static m m' \<and> base_offset w' = base_offset w + length ops \<and>
    maximum_stack m \<le> maximum_stack m' \<and> body_code (body_list m' ! i) = base_offset w \<and>
    (\<forall>k. k \<noteq> i \<longrightarrow> body_list m' ! k = body_list m ! k) \<and>
    (\<exists>\<Psi>. typed_body m i (base_offset w) \<Psi> ops \<and>
      (\<forall>\<tau>. Some \<tau> \<in> set \<Psi> \<longrightarrow> length \<tau> + length (expand_locals (locals (body_list m ! i))) \<le> maximum_stack m'))"
proof -
  let ?body = "body_list m ! i" and ?ft = "ftype m i"
  let ?n = "unat (body_bytes ?body)"
  obtain lt st w1 where i: "i < length (body_list m)" "i < length (func_list m)" "func_list m ! i < length (types m)"
    and lt: "local_types ?ft (locals ?body) = Inr lt"
    and p: "parse_function_body_code (body_ctx opt m i lt) ?n (gp_new bytes ?n) (emit_prologue ?n w) = Inr st"
    and e: "emit_epilogue ?ft (locals ?body) (wr st) = Inr w1"
    and r: "w' = w1\<lparr>base_offset := base_offset w1 + length (fb w1), fb := []\<rparr>" "ops = fb w1"
      "m' = m\<lparr>body_list := (body_list m)[i := ?body\<lparr>prologue_gas_extra := prologue_gas_extra ?body + prepay_extra (inj st),
          body_code := base_offset w1, body_bytes := of_nat (length (fb w1)), body_stack_size := 1\<rparr>],
        maximum_stack := max (maximum_stack m) (unat (maximum_operand_depth (op_stack st)) + locals_count lt)\<rparr>"
    using w unfolding write_body_def body_at_def types_at_def finalize_def Let_def
    by (auto simp: res_simps ftype_def body_ctx_def)
  have ft: "func_type_ok ?ft" "length (param_types ?ft) < 2 ^ 32"
    using m i(3) by (simp_all add: module_ok_def sizes_ok_def ftype_def list_all_length)
  note l = local_types_ok [OF lt ft(2)]
  have C: "ctx_ok m i (body_ctx opt m i lt)"
    using m i(2) l(3) by (auto simp: ctx_ok_def body_ctx_def sizes_ok_def ltypes_def)
  let ?w0 = "emit_prologue ?n w"
  have base: "base_offset ?w0 = base_offset w" by (simp add: emit_prologue_def)
  obtain code' where pl: "parse_loop (body_ctx opt m i lt) ?n (gp_new bytes ?n) (init_state ?ft ?w0) = Inr (code', st)" and pc: "pc_stack st = []"
    using p by (auto simp: parse_function_body_code_def init_state_def body_ctx_def res_simps)
  have "strict_loop (body_ctx opt m i lt) ?n (gp_new bytes ?n) (init_state ?ft ?w0)" using st lt by (simp add: strict_body_def Let_def)
  moreover have "st_ok m i (return_types ?ft) (base_offset w) (init_state ?ft ?w0)"
    using init_ok [OF ft(1), of ?w0 m i] by (simp add: base) (simp add: emit_prologue_def)
  ultimately have "done_ok m i (return_types ?ft) (base_offset w) st"
    using parse_loop_ok [OF pl C] pc by (auto simp: st_ok_def)
  then obtain \<Psi> where b: "body_inv m i (return_types ?ft) (base_offset w) {} {} \<Psi> (op_stack st) [] (wr st)"
    by (auto simp: done_ok_def body_ok_def)
  have ts: "tstate (op_stack st) = rev (return_types ?ft)" using b by (simp add: body_inv_def)
  have v: "list_all value_type (rev (return_types ?ft))" using ft(1) by (simp add: func_type_ok_def list_all_rev)
  then have k: "stk (op_stack st) = Some (rev (return_types ?ft))" using here_append [OF v, of "[]"] ts by simp
  let ?ret = "return_t (sum_list (map local_count (locals ?body)) + of_nat (length (param_types ?ft))) (of_nat (return_count ?ft)) 1"
  have w1: "w1 = (wr st)\<lparr>fb := fb (wr st) @ [?ret]\<rparr>" using e by (auto simp: emit_epilogue_def split: if_splits)
  have fits: "instr_fits m i nxt tgt \<tau> ?ret" if "stk (op_stack st) = Some \<tau>" for \<tau> nxt tgt
    using that k l(2) ft(1) by (simp add: ltypes_def return_count_def func_type_ok_def unat_of_nat)
  have t: "typed_body m i (base_offset w) (\<Psi> @ [stk (op_stack st)]) ops"
    using code_inv_typed [OF _ fits] body_invD(5) [OF b] by (simp add: r(2) w1)
  have d: "unat (operand_depth (op_stack st)) = length (return_types ?ft)" "operand_depth (op_stack st) \<le> maximum_operand_depth (op_stack st)"
    using body_invD(2) [OF b] nvals_here [OF k] by (simp_all add: depth_ok_def)
  have "length \<tau> + length (expand_locals (locals ?body)) \<le> maximum_stack m'" if "Some \<tau> \<in> set (\<Psi> @ [stk (op_stack st)])" for \<tau>
  proof -
    have "length \<tau> \<le> unat (maximum_operand_depth (op_stack st))"
      using that body_invD(4) [OF b, of \<tau>] k d by (auto simp: word_le_nat_alt)
    then show ?thesis using l(1) by (simp add: r(3))
  qed
  moreover have "same_static m m'" using i(1) by (simp add: r(3) same_static_def map_update list_update_same_conv)
  ultimately show ?thesis using i t body_invD(1) [OF b] by (auto simp: r w1)
qed

text \<open>
  The stack map of the bodies written so far: the first \<open>i\<close> of them, in the segment \<open>seg\<close>.
\<close>

definition placed :: "module \<Rightarrow> opcode list \<Rightarrow> code_map \<Rightarrow> nat \<Rightarrow> bool" where
  "placed m seg \<Phi> i \<longleftrightarrow>
     (\<forall>p k \<tau>. \<Phi> p = Some (k, \<tau>) \<longrightarrow>
        p < length seg \<and> k < i \<and> length \<tau> + length (expand_locals (locals (body_list m ! k))) \<le> maximum_stack m \<and>
        instr_fits m k (\<lambda>\<rho>. \<Phi> (p + 1) = Some (k, \<rho>)) (\<lambda>q \<rho>. \<Phi> (unat q) = Some (k, \<rho>)) \<tau> (seg ! p)) \<and>
     (\<forall>k < i. \<Phi> (body_code (body_list m ! k)) = Some (k, []))"

definition extend_map :: "code_map \<Rightarrow> nat \<Rightarrow> nat \<Rightarrow> u8 list option list \<Rightarrow> code_map" where
  "extend_map \<Phi> base i \<Psi> p =
     (if p < base then \<Phi> p else if p < base + length \<Psi> then map_option (Pair i) (\<Psi> ! (p - base)) else None)"

lemma placed_static:
  assumes p: "placed m seg \<Phi> i" and s: "same_static m m'" and "i \<le> length (body_list m)"
    and "maximum_stack m \<le> maximum_stack m'" and "\<And>k. k < i \<Longrightarrow> body_list m' ! k = body_list m ! k"
  shows "placed m' seg \<Phi> i"
  unfolding placed_def
proof (intro conjI allI impI)
  fix p k \<tau>
  assume "\<Phi> p = Some (k, \<tau>)"
  then have h: "p < length seg" "k < i" "length \<tau> + length (expand_locals (locals (body_list m ! k))) \<le> maximum_stack m"
    and f: "instr_fits m k (\<lambda>\<rho>. \<Phi> (p + 1) = Some (k, \<rho>)) (\<lambda>q \<rho>. \<Phi> (unat q) = Some (k, \<rho>)) \<tau> (seg ! p)"
    using p unfolding placed_def by blast+
  then show "p < length seg" "k < i" by auto
  show "length \<tau> + length (expand_locals (locals (body_list m' ! k))) \<le> maximum_stack m'" using h assms(4,5) by simp
  show "instr_fits m' k (\<lambda>\<rho>. \<Phi> (p + 1) = Some (k, \<rho>)) (\<lambda>q \<rho>. \<Phi> (unat q) = Some (k, \<rho>)) \<tau> (seg ! p)"
    using same_static_fits [OF s _ f] h(2) assms(3) by simp
qed (use p assms(5) in \<open>simp add: placed_def\<close>)

lemma instr_fits_mono2:
  assumes "instr_fits m k nxt tgt \<tau> op" and "\<And>\<rho>. nxt \<rho> \<Longrightarrow> nxt' \<rho>" and "\<And>q \<rho>. tgt q \<rho> \<Longrightarrow> tgt' q \<rho>"
  shows "instr_fits m k nxt' tgt' \<tau> op"
proof -
  have "instr_fits m k nxt' tgt \<tau> op" by (rule instr_fits_mono [OF assms(1)]) (rule assms(2))
  then have "instr_fits m k nxt' any_tgt \<tau> op" "\<forall>(b, q, \<rho>) \<in> set (targets 0 op \<tau>). tgt q \<rho>"
    using instr_fits_targets [of m k nxt' tgt \<tau> op 0] by blast+
  then show ?thesis using instr_fits_targets [of m k nxt' tgt' \<tau> op 0] assms(3) by blast
qed

lemma placed_extend:
  assumes p: "placed m seg \<Phi> i" and t: "typed_body m i (length seg) \<Psi> ops"
    and d: "\<And>\<tau>. Some \<tau> \<in> set \<Psi> \<Longrightarrow> length \<tau> + length (expand_locals (locals (body_list m ! i))) \<le> maximum_stack m"
    and c: "body_code (body_list m ! i) = length seg" and len: "length seg + length ops < 2 ^ 32"
  shows "placed m (seg @ ops) (extend_map \<Phi> (length seg) i \<Psi>) (Suc i)"
proof -
  let ?\<Phi> = "extend_map \<Phi> (length seg) i \<Psi>"
  have l: "length \<Psi> = length ops" "ops \<noteq> []" "\<Psi> ! 0 = Some []" using t by (simp_all add: typed_body_def)
  have old: "?\<Phi> q = Some (k, \<rho>)" if "\<Phi> q = Some (k, \<rho>)" for q k \<rho>
    using p that unfolding placed_def by (auto simp: extend_map_def)
  have new: "?\<Phi> (length seg + q) = Some (i, \<rho>)" if "q < length ops" "\<Psi> ! q = Some \<rho>" for q \<rho>
    using that l(1) by (simp add: extend_map_def)
  show ?thesis
    unfolding placed_def
  proof (intro conjI allI impI)
    fix q k \<tau>
    assume q: "?\<Phi> q = Some (k, \<tau>)"
    have "q < length (seg @ ops) \<and> k < Suc i \<and> length \<tau> + length (expand_locals (locals (body_list m ! k))) \<le> maximum_stack m \<and>
      instr_fits m k (\<lambda>\<rho>. ?\<Phi> (q + 1) = Some (k, \<rho>)) (\<lambda>r \<rho>. ?\<Phi> (unat r) = Some (k, \<rho>)) \<tau> ((seg @ ops) ! q)"
    proof (cases "q < length seg")
      case True
      then have "\<Phi> q = Some (k, \<tau>)" using q by (simp add: extend_map_def)
      then have h: "k < i" "length \<tau> + length (expand_locals (locals (body_list m ! k))) \<le> maximum_stack m"
        and f: "instr_fits m k (\<lambda>\<rho>. \<Phi> (q + 1) = Some (k, \<rho>)) (\<lambda>r \<rho>. \<Phi> (unat r) = Some (k, \<rho>)) \<tau> (seg ! q)"
        using p unfolding placed_def by blast+
      show ?thesis using True h instr_fits_mono2 [OF f old old] by (simp add: nth_append)
    next
      case False
      then have k: "k = i" and s: "q - length seg < length ops" "\<Psi> ! (q - length seg) = Some \<tau>"
        using q l(1) by (auto simp: extend_map_def split: if_splits)
      have "instr_fits m i (\<lambda>\<rho>. q - length seg + 1 < length ops \<and> \<Psi> ! (q - length seg + 1) = Some \<rho>)
          (\<lambda>r \<rho>. \<exists>t < length ops. r = of_nat (length seg + t) \<and> \<Psi> ! t = Some \<rho>) \<tau> (ops ! (q - length seg))"
        using t s by (simp add: typed_body_def)
      then have "instr_fits m i (\<lambda>\<rho>. ?\<Phi> (q + 1) = Some (i, \<rho>)) (\<lambda>r \<rho>. ?\<Phi> (unat r) = Some (i, \<rho>)) \<tau> (ops ! (q - length seg))"
      proof (rule instr_fits_mono2)
        show "?\<Phi> (q + 1) = Some (i, \<rho>)" if "q - length seg + 1 < length ops \<and> \<Psi> ! (q - length seg + 1) = Some \<rho>" for \<rho>
          using new [of "q - length seg + 1" \<rho>] that False by simp
        show "?\<Phi> (unat r) = Some (i, \<rho>)" if r: "\<exists>t < length ops. r = of_nat (length seg + t) \<and> \<Psi> ! t = Some \<rho>" for r :: u32 and \<rho>
        proof -
          obtain t where t: "t < length ops" "r = of_nat (length seg + t)" "\<Psi> ! t = Some \<rho>" using r by blast
          then have "unat r = length seg + t" using len by (simp only: unat_of_nat) simp
          then show ?thesis using new t by simp
        qed
      qed
      moreover have "Some \<tau> \<in> set \<Psi>" using s l(1) by (metis nth_mem)
      ultimately show ?thesis using False s(1) d k by (simp add: nth_append)
    qed
    then show "q < length (seg @ ops)" "k < Suc i" "length \<tau> + length (expand_locals (locals (body_list m ! k))) \<le> maximum_stack m"
      "instr_fits m k (\<lambda>\<rho>. ?\<Phi> (q + 1) = Some (k, \<rho>)) (\<lambda>r \<rho>. ?\<Phi> (unat r) = Some (k, \<rho>)) \<tau> ((seg @ ops) ! q)"
      by auto
  next
    fix k
    assume "k < Suc i"
    then show "?\<Phi> (body_code (body_list m ! k)) = Some (k, [])"
      using old [of _ k "[]"] p new [of 0 "[]"] l c by (cases "k = i") (auto simp: placed_def)
  qed
qed

lemma sizes_static: "same_static m m' \<Longrightarrow> sizes_ok m \<Longrightarrow> sizes_ok m'"
  by (simp add: sizes_ok_def same_static_def)

lemma write_bodies_prefix: "write_bodies opt bs i w m seg = Inr (m', seg') \<Longrightarrow> length seg \<le> length seg'"
proof (induction bs arbitrary: i w m seg)
  case (Cons b bs)
  then obtain w1 m1 ops where "write_bodies opt bs (i + 1) w1 m1 (seg @ ops) = Inr (m', seg')" by (auto simp: res_simps)
  from Cons.IH [OF this] show ?case by simp
qed simp

lemma write_bodies_placed:
  assumes "write_bodies opt bs i w m seg = Inr (m', seg')" and "placed m seg \<Phi> i" and "module_ok m" and "sizes_ok m"
    and "base_offset w = length seg" and "strict_bodies opt bs i w m" and "length seg' < 2 ^ 32"
  shows "same_static m m' \<and> (\<exists>\<Phi>'. placed m' seg' \<Phi>' (i + length bs))"
  using assms
proof (induction bs arbitrary: i w m seg \<Phi>)
  case Nil
  then show ?case by auto
next
  case (Cons b bs)
  obtain w1 m1 ops where w: "write_body opt m b i w = Inr (w1, m1, ops)" and r: "write_bodies opt bs (i + 1) w1 m1 (seg @ ops) = Inr (m', seg')"
    using Cons.prems(1) by (auto simp: res_simps)
  have st: "strict_body opt m b i w" "strict_bodies opt bs (i + 1) w1 m1" using Cons.prems(6) w by simp_all
  from write_body_typed [OF w Cons.prems(3,4) st(1)] obtain \<Psi> where
    h: "i < length (func_list m)" "same_static m m1" "base_offset w1 = length (seg @ ops)" "maximum_stack m \<le> maximum_stack m1"
      "body_code (body_list m1 ! i) = length seg" "\<And>k. k \<noteq> i \<Longrightarrow> body_list m1 ! k = body_list m ! k"
    and t: "typed_body m i (length seg) \<Psi> ops"
    and d: "\<And>\<tau>. Some \<tau> \<in> set \<Psi> \<Longrightarrow> length \<tau> + length (expand_locals (locals (body_list m ! i))) \<le> maximum_stack m1"
    using Cons.prems(5) by auto
  have bl: "i < length (body_list m)" using h(1) Cons.prems(3) by (simp add: module_ok_def)
  have p: "placed m1 seg \<Phi> i" by (rule placed_static [OF Cons.prems(2) h(2)]) (use bl h in auto)
  have t1: "typed_body m1 i (length seg) \<Psi> ops" using t same_static_fits [OF h(2) bl] unfolding typed_body_def by blast
  have lc: "locals (body_list m1 ! i) = locals (body_list m ! i)"
    using same_static_functions(4) [OF h(2)] bl h(2) by (metis same_static_def nth_map)
  have "length (seg @ ops) < 2 ^ 32" using write_bodies_prefix [OF r] Cons.prems(7) by linarith
  then have "placed m1 (seg @ ops) (extend_map \<Phi> (length seg) i \<Psi>) (i + 1)"
    using placed_extend [OF p t1 _ h(5)] d by (simp add: lc)
  from Cons.IH [OF r this same_static_module [OF h(2) Cons.prems(3)] sizes_static [OF h(2) Cons.prems(4)] h(3) st(2) Cons.prems(7)]
  show ?case using same_static_trans [OF h(2)] by auto
qed

lemma placed_typed_env:
  assumes p: "placed m seg \<Phi> (length (func_list m))" and "module_ok m"
    and b: "\<And>ft. ft \<in> set (types m) \<Longrightarrow> length (param_types ft) + maximum_stack m \<le> F"
    and e: "emod E = m" "segment E = seg" and "linked E" and "embedder_ok ok E"
  shows "typed_env ok E \<Phi> F"
proof -
  have "length (ltypes m k) + length \<tau> \<le> F" if "\<Phi> q = Some (k, \<tau>)" for q k \<tau>
  proof -
    have k: "k < length (func_list m)" and d: "length \<tau> + length (expand_locals (locals (body_list m ! k))) \<le> maximum_stack m"
      using p that unfolding placed_def by blast+
    have "ftype m k \<in> set (types m)" using \<open>module_ok m\<close> k by (simp add: module_ok_def ftype_def list_all_length)
    then show ?thesis using b [of "ftype m k"] d by (simp add: ltypes_def)
  qed
  then have "frame_bound E \<Phi> F" by (simp add: frame_bound_def e)
  moreover have "code_ok E \<Phi>" using p unfolding code_ok_def placed_def e by blast
  ultimately show ?thesis using assms by (simp add: typed_env_def)
qed

lemma write_code_out_typed:
  assumes "write_code_out opt bodies m = Inr (m', seg)" and "length bodies = length (func_list m)" and "module_ok m" and "sizes_ok m"
    and "strict_code opt bodies m" and "length seg < 2 ^ 32"
  shows "module_ok m' \<and> (\<exists>\<Phi>. placed m' seg \<Phi> (length (func_list m')))"
proof -
  have "placed m [] (\<lambda>_. None) 0" by (simp add: placed_def)
  from write_bodies_placed [OF assms(1) [unfolded write_code_out_def] this assms(3,4) _ assms(5) [unfolded strict_code_def] assms(6)]
  have h: "same_static m m'" "\<exists>\<Phi>. placed m' seg \<Phi> (length bodies)" by simp_all
  have "func_list m' = func_list m" using h(1) by (simp add: same_static_def)
  then show ?thesis using h assms(2) same_static_module [OF h(1) assms(3)] by simp
qed
subsection \<open>Properties\<close>

text \<open>
  The source of the example that \<open>sum_code\<close> is the bitcode of:
  \<open>loop (local.get 0) (local.get 1) i32.add (local.set 1) (local.get 0) (i32.const 1) i32.sub (local.tee 0) (br_if 0) end
  (i32.const 8) (local.get 1) i32.store (i32.const 8) i32.load end\<close>.
\<close>

definition sum_bytes :: "u8 list" where
  "sum_bytes = [0x03, 0x40, 0x20, 0, 0x20, 1, 0x6A, 0x21, 1, 0x20, 0, 0x41, 1, 0x6B, 0x22, 0, 0x0D, 0, 0x0B,
     0x41, 8, 0x20, 1, 0x36, 2, 0, 0x41, 8, 0x28, 2, 0, 0x0B]"

definition sum_source :: module where
  "sum_source = sum_module\<lparr>body_list := [(body_list sum_module ! 0)\<lparr>body_bytes := 32, body_stack_size := 0\<rparr>], maximum_stack := 0\<rparr>"

lemma bind_weak: "a = b \<Longrightarrow> bindR a f = bindR b f" by simp

lemma assert_weak: "a = b \<Longrightarrow> assertR a e k = assertR b e k" by simp

lemma below_minus_one: "x < (- 1 :: u32) \<longleftrightarrow> x < 0xFFFFFFFF"
proof -
  have "(- 1 :: u32) = 0xFFFFFFFF" by code_simp
  then show ?thesis by (simp only:)
qed

lemma small_numbers: "Suc (Suc 0) = 2" "\<not> (2 :: u32) \<le> 1"
  by (simp_all add: word_le_nat_alt)

lemmas read_evals = size_diff_def gp_new_def gp_plus_def gp_incr_def gp_load_def gp_deref_def gp_at_def gp_offset_def gp_bounds_def
  bytes_needed_def leb_parse_loop.simps unused_mask_def varuint_from_code_def leb_accumulate_def varuint_to_def
  sign_bits_ok_def varint_from_code_def varint_to_def read_byte_def parse_varuint32_def parse_varint32_def


lemmas module_evals = return_count_def return_type_def types_at_def body_at_def mem_addr_type_def load_type_def store_type_def
  sizeof_opcode_def op_index_def append_instr_def emit_end_def fix_branch_def emit_loop_def encode_depth_change_def emit_br_if_def
  emit_return_def emit_prologue_def emit_epilogue_def finalize_def patch_gas_imm_add_extra_def inj_reset_def on_opcode_def
  on_loop_enter_def on_loop_exit_def gas_heavy_extra_for_def ty_defs

lemmas tracker_evals = unreachable_tag_def scope_tag_def any_type_def tracker_init_def tr_push_def tr_pop_def tr_top_def tr_pops_def
  push_scope_def pop_scope_multi_def pop_scope_def is_polymorphic_def local_types_def type_of_local_def locals_count_def
  default_options_def func_scope_def check_in_bounds_def on_tracker_def on_writer_def handle_branch_target_def label_arity_def
  compute_depth_change_def close_loop_def close_scope_def exit_scope_def

lemmas op_evals = is_block_byte_def parse_block_type_def op_end_def block_element_def op_loop_def op_br_if_def op_get_local_def
  op_set_local_def op_tee_local_def parse_memarg_def op_load_def op_store_def emit_const_def op_const_def op_num_def numeric_ops_def
  load_ops_def store_ops_def keep_code_def dispatch_def parse_instr_def parse_loop.simps parse_function_body_code_def
  write_body_def write_code_out_def Let_def

lemma sum_compiles: "write_code_out default_options [sum_bytes] sum_source = Inr (sum_module, sum_code)"
  by (simp add: sum_source_def sum_module_def sum_bytes_def sum_code_def small_numbers below_minus_one read_evals module_evals
      tracker_evals op_evals cong: bind_weak assert_weak)

lemma sum_strict: "strict_code default_options [sum_bytes] sum_source"
  by (simp add: strict_code_def strict_body_def strict_loop.simps strict_instr_def body_ctx_def init_state_def ftype_def
      sum_source_def sum_module_def sum_bytes_def small_numbers below_minus_one read_evals module_evals tracker_evals op_evals
      cong: bind_weak assert_weak)

lemma sum_source_ok: "module_ok sum_source" "sizes_ok sum_source" "length [sum_bytes] = length (func_list sum_source)"
  by (simp_all add: module_ok_def sizes_ok_def sum_source_def sum_module_def func_type_ok_def value_type_def import_types_def)

text \<open>
  \<^bold>\<open>C2\<close> Modules whose bodies the parser accepts execute safely, under the following conditions. The other sections are
  well-formed with 32-bit memories (\<open>module_ok\<close>), there are at most 65536 types and tables and fewer than 2^32 parameters (\<open>sizes_ok\<close>) and
  instructions. The code uses only modelled instructions, typed selects of a value type and branch tables whose labels have equal
  types, which the parser does not check (\<open>strict_code\<close>). Imports are resolved to host functions of their type
  with at most one, numeric, result (\<open>linked\<close>); host functions and the gas handler throw only traps, and host functions keep the memory condition
  (\<open>embedder_ok\<close>). The memory is either guarded, not caller-provided and with exactly the pages below its size mapped, or checked with
  immediate checks (\<open>guarded_ok\<close>, \<open>checked_ok\<close>). A bound \<open>F\<close> covers the parameters and \<open>maximum_stack\<close> of every call, and the operands
  of the context plus \<open>F\<close> for every remaining call stay below 2^32; its stacks are well-formed and it has a value for every global
  and a table for every table (\<open>context_ok\<close>).
  Then executing the bitcode the pass has written, from any function with any arguments for any number of steps, reaches neither
  undefined behaviour nor an error by which the interpreter reports an inconsistency of its own, and a return leaves stacks and call
  depth as they were.
\<close>

theorem accepted_module_safe:
  assumes "ok = guarded_ok \<or> ok = checked_ok"
    and "module_ok m" and "sizes_ok m" and "length bodies = length (func_list m)" and "strict_code opt bodies m"
    and "write_code_out opt bodies m = Inr (m', seg)" and "length seg < 2 ^ 32"
    and "emod E = m'" and "segment E = seg" and "linked E" and "embedder_ok ok E"
    and "\<forall>ft \<in> set (types m'). length (param_types ft) + maximum_stack m' \<le> F"
    and "context_ok ok E F c" and "f < get_functions_total m'"
  shows "safe (returns_ok ok E F f c) (execute E n f args c)"
proof -
  obtain \<Phi> where "module_ok m'" "placed m' seg \<Phi> (length (func_list m'))"
    using write_code_out_typed [OF assms(6,4,2,3,5,7)] by blast
  then have "typed_env ok E \<Phi> F" using assms by (intro placed_typed_env) auto
  then show ?thesis using assms guarded_vm.execute_ok checked_vm.execute_ok by blast
qed

theorem accepted_module_safe_witness:
  "write_code_out default_options [sum_bytes] sum_source = Inr (sum_module, sum_code) \<and>
   safe (returns_ok guarded_ok sum_env 4 0 (sum_context one_page_memory)) (execute sum_env 40 0 [i32_const 3] (sum_context one_page_memory)) \<and>
   map_sum id (map_option snd) (execute sum_env 40 0 [i32_const 3] (sum_context one_page_memory)) = Inr (Some (Some (i32_const 6)))"
proof (intro conjI)
  have "linked sum_env" "embedder_ok guarded_ok sum_env" using sum_typed [of guarded_ok] by (simp_all add: typed_env_def)
  then show "safe (returns_ok guarded_ok sum_env 4 0 (sum_context one_page_memory)) (execute sum_env 40 0 [i32_const 3] (sum_context one_page_memory))"
    by (intro accepted_module_safe [OF _ sum_source_ok sum_strict sum_compiles] sum_context_ok one_page_guarded)
       (simp_all add: sum_env_def sum_module_def sum_code_def get_functions_total_def)
qed (rule sum_compiles sum_runs)+

end
