(* ===== verification/Module_Parse.thy ===== *)
theory Module_Parse
  imports Validate "HOL-Library.List_Lexorder"
begin

unbundle bit_operations_syntax

section \<open>Parsing a module\<close>

text \<open>
  The sections of a binary, as \<open>psizam/detail/parser.hpp\<close> reads them into the module of \<open>psizam/types.hpp\<close>. The
  parser object and the module it fills are one record that is passed along. The options are those without
  \<open>max_mutable_global_bytes\<close>, \<open>max_func_local_bytes\<close> and \<open>max_stack_bytes\<close>, for which the corresponding checkers are
  empty, and debug information is \<open>null_debug_info\<close>.
\<close>

subsection \<open>Readers\<close>

text \<open>Code that reads from a guarded pointer and advances it.\<close>

type_synonym 'a reader = "gptr \<Rightarrow> ('a \<times> gptr) res"

definition retP :: "'a \<Rightarrow> 'a reader" where
  "retP x code = Inr (x, code)"

definition failP :: "exn \<Rightarrow> 'a reader" where
  "failP e code = Inl e"

definition bindP :: "'a reader \<Rightarrow> ('a \<Rightarrow> 'b reader) \<Rightarrow> 'b reader" where
  "bindP p f code = bindR (p code) (\<lambda>(x, code'). f x code')"

definition assertP :: "bool \<Rightarrow> exn \<Rightarrow> 'a reader \<Rightarrow> 'a reader" where
  "assertP c e k = (if c then k else failP e)"

definition liftP :: "'a res \<Rightarrow> 'a reader" where
  "liftP r code = bindR r (\<lambda>x. Inr (x, code))"

text \<open>\<open>*code\<close>, \<open>++code\<close>, \<open>code += n\<close>, \<open>code.bounds() - code.offset()\<close>\<close>

definition peek_byte :: "u8 reader" where
  "peek_byte code = bindR (gp_deref code) (\<lambda>b. Inr (b, code))"

definition skip_byte :: "unit reader" where
  "skip_byte code = bindR (gp_incr code) (\<lambda>code'. Inr ((), code'))"

definition advance :: "nat \<Rightarrow> unit reader" where
  "advance n code = bindR (gp_plus code n) (\<lambda>code'. Inr ((), code'))"

definition remaining :: "nat reader" where
  "remaining code = Inr (gp_bounds code - gp_offset code, code)"

text \<open>The bytes from the pointer on, as \<open>code.raw()\<close> and a length denote them.\<close>

definition raw_bytes_at :: "nat \<Rightarrow> u8 list reader" where
  "raw_bytes_at n code =
     (if raw_ptr code + n \<le> length (gp_buf code) then Inr (take n (drop (raw_ptr code) (gp_buf code)), code)
      else Inl (Undefined ''read past the buffer''))"

definition scoped_shrink_bounds :: "nat \<Rightarrow> 'a reader \<Rightarrow> 'a reader" where
  "scoped_shrink_bounds n p code =
     bindR (gp_shrink code n) (\<lambda>(code1, old). bindR (p code1) (\<lambda>(x, code2). Inr (x, gp_unshrink code2 old)))"

definition scoped_consume_items :: "nat \<Rightarrow> 'a reader \<Rightarrow> 'a reader" where
  "scoped_consume_items n p code =
     bindR (gp_shrink code n) (\<lambda>(code1, old).
     bindR (p code1) (\<lambda>(x, code2). bindR (gp_consumed False code2 old) (\<lambda>code3. Inr (x, code3))))"

text \<open>Loops over a count: with a state, and collecting elements.\<close>

fun repeatP :: "nat \<Rightarrow> ('s \<Rightarrow> 's reader) \<Rightarrow> 's \<Rightarrow> 's reader" where
  "repeatP 0 f s = retP s"
| "repeatP (Suc n) f s = bindP (f s) (repeatP n f)"

fun manyP :: "nat \<Rightarrow> 'a reader \<Rightarrow> 'a list reader" where
  "manyP 0 p = retP []"
| "manyP (Suc n) p = bindP p (\<lambda>x. bindP (manyP n p) (\<lambda>xs. retP (x # xs)))"

definition parse_varuint1 :: "bool reader" where
  "parse_varuint1 code = bindR (varuint_from_code 1 code) (\<lambda>(l, code'). Inr (hd (storage l) \<noteq> 0, code'))"

subsection \<open>Names\<close>

definition bad_utf8 :: exn where
  "bad_utf8 = parse_err ''invalid utf8 encoding''"

definition continuation :: "u8 reader" where
  "continuation = bindP read_byte (\<lambda>b. assertP (b AND 0xC0 = 0x80) bad_utf8 (retP b))"

definition validate_utf8_code_point :: "u32 reader" where
  "validate_utf8_code_point =
     bindP read_byte (\<lambda>ch.
     if ch < 0x80 then retP 1
     else if ch < 0xE0 then
       assertP (ch AND 0xC0 = 0xC0) bad_utf8
        (bindP continuation (\<lambda>b2.
         let code_point = push_bit 6 (ucast ch - 0xC0) + (ucast b2 - 0x80) :: u32 in
         assertP (0x80 \<le> code_point \<and> code_point < 0x800) bad_utf8 (retP 2)))
     else if ch < 0xF0 then
       bindP continuation (\<lambda>b2. bindP continuation (\<lambda>b3.
       let code_point = push_bit 12 (ucast ch - 0xE0) + push_bit 6 (ucast b2 - 0x80) + (ucast b3 - 0x80) :: u32 in
       assertP ((0x800 \<le> code_point \<and> code_point < 0xD800) \<or> (0xE000 \<le> code_point \<and> code_point < 0x10000)) bad_utf8
         (retP 3)))
     else if ch < 0xF8 then
       bindP continuation (\<lambda>b2. bindP continuation (\<lambda>b3. bindP continuation (\<lambda>b4.
       let code_point = push_bit 18 (ucast ch - 0xF0) + push_bit 12 (ucast b2 - 0x80) + push_bit 6 (ucast b3 - 0x80)
             + (ucast b4 - 0x80) :: u32 in
       assertP (0x10000 \<le> code_point \<and> code_point < 0x110000) bad_utf8 (retP 4))))
     else failP bad_utf8)"

lemmas reader_defs = retP_def failP_def bindP_def assertP_def liftP_def peek_byte_def skip_byte_def advance_def remaining_def

lemma code_point_size: "validate_utf8_code_point code = Inr (n, code') \<Longrightarrow> 0 < n"
  by (auto simp: validate_utf8_code_point_def reader_defs Let_def res_simps split: if_splits)

function validate_utf8_string :: "u32 \<Rightarrow> unit reader" where
  "validate_utf8_string bytes code =
     (if bytes \<noteq> 0 then
        bindR (validate_utf8_code_point code) (\<lambda>(cp_size, code').
        assertR (cp_size \<le> bytes) (parse_err ''UTF-8 code point extends past string boundary'')
          (validate_utf8_string (bytes - cp_size) code'))
      else Inr ((), code))"
  by pat_completeness auto
termination
proof (relation "measure (\<lambda>(bytes, code). unat bytes)")
  fix bytes :: u32 and code x cp_size code'
  assume "bytes \<noteq> 0" "validate_utf8_code_point code = Inr x" "(cp_size, code') = x" "cp_size \<le> bytes"
  then show "((bytes - cp_size, code'), (bytes, code)) \<in> measure (\<lambda>(bytes, code). unat bytes)"
    using code_point_size [of code cp_size code'] by (simp add: unat_sub word_le_nat_alt word_less_nat_alt)
qed simp

declare validate_utf8_string.simps [simp del]

definition parse_utf8_string :: "u32 \<Rightarrow> u8 list reader" where
  "parse_utf8_string max_size =
     bindP parse_varuint32 (\<lambda>len.
     assertP (len \<le> max_size) (parse_err ''name too long'')
      (scoped_shrink_bounds (unat len)
        (bindP (raw_bytes_at (unat len)) (\<lambda>result. bindP (validate_utf8_string len) (\<lambda>u. retP result)))))"

subsection \<open>The module and the parser\<close>

text \<open>The value of an initialiser is a union of 16 bytes.\<close>

record init_expr =
  ie_value :: u128
  ie_opcode :: u8
  raw_expr :: "u8 list"

definition no_expr :: init_expr where
  "no_expr = \<lparr>ie_value = 0, ie_opcode = 0, raw_expr = []\<rparr>"

record global_variable =
  gtype :: global_type
  ginit :: init_expr

record table_entry =
  te_type :: u32
  te_index :: u32

record export_entry =
  exp_field :: "u8 list"
  exp_kind :: u8
  exp_index :: u32

datatype elem_mode = elem_active | elem_passive | elem_declarative

record elem_segment =
  es_index :: u32
  es_offset :: init_expr
  es_mode :: elem_mode
  es_type :: u8
  es_elems :: "table_entry list"

record data_segment =
  ds_index :: u32
  ds_offset :: init_expr
  ds_passive :: bool
  ds_data :: "u8 list"

record tag_type =
  attribute :: u8
  type_index :: u32

type_synonym name_assoc = "u32 \<times> u8 list"

record name_section =
  ns_module_name :: "u8 list option"
  ns_function_names :: "name_assoc list option"
  ns_local_names :: "(u32 \<times> name_assoc list) list option"

record wasm_module =
  w_start :: u32
  w_types :: "func_type list"
  w_imports :: "import_entry list"
  w_functions :: "u32 list"
  w_tables :: "table_type list"
  w_memories :: "memory_type list"
  w_globals :: "global_variable list"
  w_exports :: "export_entry list"
  w_elements :: "elem_segment list"
  w_code :: "function_body list"
  w_data :: "data_segment list"
  w_tags :: "tag_type list"
  has_exception_handling :: bool
  w_names :: "name_section option"
  num_imported_tables :: u32
  num_imported_memories :: u32
  num_imported_globals :: u32
  w_maximum_stack :: nat
  w_segment :: "opcode list"

text \<open>What the validation of bodies and the interpreter use of it.\<close>

definition core :: "wasm_module \<Rightarrow> module" where
  "core w = \<lparr>types = w_types w, imports_of = w_imports w, import_functions = [], func_list = map unat (w_functions w),
     tables = map element_type (w_tables w), memories = map mt_memory64 (w_memories w),
     globals = map gtype (w_globals w), body_list = w_code w, stack_limit_is_bytes = False,
     maximum_stack = w_maximum_stack w\<rparr>"

record binary_parser =
  wmod :: wasm_module
  function_bodies :: "u8 list list"
  datacount :: "u32 option"
  type_aliases :: "nat list"
  fast_functions :: "nat list"
  table_non_null :: "bool list"
  branch_hints_temp :: "u32 \<Rightarrow> (u32 \<times> u8) list option"

definition parser_init :: binary_parser where
  "parser_init =
     \<lparr>wmod = \<lparr>w_start = - 1, w_types = [], w_imports = [], w_functions = [], w_tables = [], w_memories = [], w_globals = [],
        w_exports = [], w_elements = [], w_code = [], w_data = [], w_tags = [], has_exception_handling = False, w_names = None,
        num_imported_tables = 0, num_imported_memories = 0, num_imported_globals = 0, w_maximum_stack = 0, w_segment = []\<rparr>,
      function_bodies = [], datacount = None, type_aliases = [], fast_functions = [], table_non_null = [],
      branch_hints_temp = (\<lambda>f. None)\<rparr>"

record parse_options = options +
  max_table_elements :: u32
  max_section_elements :: u32
  max_type_section_elements :: u32
  max_import_section_elements :: u32
  max_function_section_elements :: u32
  max_global_section_elements :: u32
  max_export_section_elements :: u32
  max_element_section_elements :: u32
  max_data_section_elements :: u32
  max_element_segment_elements :: u32
  max_data_segment_bytes :: u32
  max_memory_section_elements :: u32
  max_linear_memory_init :: u64
  max_local_sets :: u32
  max_symbol_bytes :: u32
  max_code_bytes :: u32
  max_pages_allowed :: u32
  parse_custom_section_name :: bool
  enable_bulk_memory :: bool
  enable_exception_handling :: bool

definition on_mod :: "(wasm_module \<Rightarrow> wasm_module) \<Rightarrow> binary_parser \<Rightarrow> binary_parser" where
  "on_mod f p = p\<lparr>wmod := f (wmod p)\<rparr>"

subsection \<open>Constant expressions\<close>

definition global_at :: "binary_parser \<Rightarrow> u32 \<Rightarrow> global_type res" where
  "global_at p i =
     (if unat i < length (w_globals (wmod p)) then Inr (gtype (w_globals (wmod p) ! unat i))
      else Inl (Undefined ''globals out of range''))"

definition immutable_global :: "binary_parser \<Rightarrow> nat \<Rightarrow> u32 reader" where
  "immutable_global p max_global_idx =
     bindP parse_varuint32 (\<lambda>i.
     assertP (unat i < max_global_idx) (parse_err ''global.get in init must reference an already-declared global'')
      (bindP (liftP (global_at p i)) (\<lambda>g.
       assertP (\<not> mutability g) (parse_err ''global.get in init must reference an immutable global'') (retP i))))"

text \<open>\<open>while (*code != opcodes::end)\<close> of an extended constant expression; the result is the depth of the stack.\<close>

definition const_instr :: "binary_parser \<Rightarrow> nat \<Rightarrow> u32 \<Rightarrow> u32 reader" where
  "const_instr p max_global_idx stack_depth =
     bindP read_byte (\<lambda>op.
     if op = 0x41 then bindP parse_varint32 (\<lambda>v. retP (stack_depth + 1))
     else if op = 0x42 then bindP parse_varint64 (\<lambda>v. retP (stack_depth + 1))
     else if op = 0x23 then bindP (immutable_global p max_global_idx) (\<lambda>i. retP (stack_depth + 1))
     else if op \<in> {0x6A, 0x6B, 0x6C, 0x7C, 0x7D, 0x7E} then
       assertP (2 \<le> stack_depth) (parse_err ''stack underflow in constant expression'') (retP (stack_depth - 1))
     else failP (parse_err ''invalid opcode in extended constant expression''))"

lemma gp_plus_ptr: "gp_plus g n = Inr g' \<Longrightarrow> raw_ptr g' = raw_ptr g + n \<and> bnds g' = bnds g \<and> gp_buf g' = gp_buf g"
  by (auto simp: gp_plus_def res_simps)

lemma varuint_ptr: "varuint_from_code N g = Inr (l, g') \<Longrightarrow> raw_ptr g < raw_ptr g' \<and> bnds g' = bnds g \<and> gp_buf g' = gp_buf g"
  by (auto simp: varuint_from_code_def res_simps dest!: gp_plus_ptr)

lemma varint_ptr: "varint_from_code N g = Inr (l, g') \<Longrightarrow> raw_ptr g < raw_ptr g' \<and> bnds g' = bnds g \<and> gp_buf g' = gp_buf g"
  by (auto simp: varint_from_code_def res_simps dest!: gp_plus_ptr)

lemma const_instr_forward:
  "const_instr p n d code = Inr (d', code') \<Longrightarrow> raw_ptr code < bnds code \<and> raw_ptr code < raw_ptr code' \<and> bnds code' = bnds code"
  by (auto simp: const_instr_def immutable_global_def reader_defs parse_varint32_def parse_varint64_def parse_varuint32_def res_simps
      split: if_splits dest!: read_byte_ptr varuint_ptr varint_ptr)

function const_loop :: "binary_parser \<Rightarrow> nat \<Rightarrow> u32 \<Rightarrow> u32 reader" where
  "const_loop p max_global_idx stack_depth code =
     bindR (gp_deref code) (\<lambda>b.
     if b \<noteq> 0x0B then
       bindR (const_instr p max_global_idx stack_depth code) (\<lambda>(d, code'). const_loop p max_global_idx d code')
     else Inr (stack_depth, code))"
  by pat_completeness auto
termination
  by (relation "measure (\<lambda>(p, n, d, code). bnds code - raw_ptr code)") (auto dest: const_instr_forward)

declare const_loop.simps [simp del]

text \<open>The first instruction of an initialiser, with the checks that are made at once.\<close>

definition simple_expr :: "parse_options \<Rightarrow> binary_parser \<Rightarrow> u8 \<Rightarrow> nat \<Rightarrow> init_expr reader" where
  "simple_expr opt p ty max_global_idx =
     bindP read_byte (\<lambda>op.
     let value = (\<lambda>v. retP \<lparr>ie_value = v, ie_opcode = op, raw_expr = []\<rparr>) in
     if op = 0x41 then bindP parse_varint32 (\<lambda>v. value (ucast v))
     else if op = 0x42 then bindP parse_varint64 (\<lambda>v. value (ucast v))
     else if op = 0x43 then
       bindP (parse_raw 4) (\<lambda>v. assertP (ty = ty_f32) (parse_err ''expected f32 initializer'') (value (ucast (v :: u32))))
     else if op = 0x44 then
       bindP (parse_raw 8) (\<lambda>v. assertP (ty = ty_f64) (parse_err ''expected f64 initializer'') (value (ucast (v :: u64))))
     else if op = 0xFD then
       assertP (enable_simd opt) (parse_err ''SIMD not enabled'')
        (bindP parse_varuint32 (\<lambda>sub.
         assertP (sub = 12) (parse_err ''Expected v128.const'')
        (bindP (parse_raw 16) (\<lambda>v. assertP (ty = ty_v128) (parse_err ''expected v128 initializer'') (value v)))))
     else if op = 0xD0 then
       assertP (ty = ty_funcref \<or> ty = ty_externref) (parse_err ''expected reference type for ref.null'')
        (bindP skip_byte (\<lambda>u. value 0xFFFFFFFF))
     else if op = 0xD2 then
       bindP parse_varuint32 (\<lambda>func_idx.
       assertP (ty = ty_funcref) (parse_err ''expected funcref for ref.func'') (value (ucast func_idx)))
     else if op = 0x23 then bindP (immutable_global p max_global_idx) (\<lambda>i. value (ucast i))
     else failP (parse_err ''invalid opcode in constant expression''))"

text \<open>A single instruction: the types that could not be checked before are.\<close>

definition check_simple :: "binary_parser \<Rightarrow> u8 \<Rightarrow> init_expr \<Rightarrow> unit res" where
  "check_simple p ty ie =
     (if ie_opcode ie = 0x41 then assertR (ty = ty_i32) (parse_err ''expected i32 initializer'') (Inr ())
      else if ie_opcode ie = 0x42 then assertR (ty = ty_i64) (parse_err ''expected i64 initializer'') (Inr ())
      else if ie_opcode ie = 0x23 then
        bindR (global_at p (ucast (ie_value ie))) (\<lambda>g. assertR (content_type g = ty) (parse_err ''type mismatch'') (Inr ()))
      else Inr ())"

definition parse_init_expr :: "parse_options \<Rightarrow> binary_parser \<Rightarrow> u8 \<Rightarrow> nat \<Rightarrow> init_expr reader" where
  "parse_init_expr opt p ty max_global_idx code =
     bindR (simple_expr opt p ty max_global_idx code) (\<lambda>(ie, code1).
     bindR (gp_deref code1) (\<lambda>b.
     if b = 0x0B then bindR (check_simple p ty ie) (\<lambda>u. bindR (gp_incr code1) (\<lambda>code2. Inr (ie, code2)))
     else
       assertR (ty = ty_i32 \<or> ty = ty_i64) (parse_err ''extended const expressions only produce i32 or i64'')
        (bindR (const_loop p max_global_idx 1 code1) (\<lambda>(stack_depth, code2).
         assertR (stack_depth = 1) (parse_err ''constant expression must produce exactly one value'')
        (bindR (gp_incr code2) (\<lambda>code3.
         Inr (ie\<lparr>raw_expr := take (raw_ptr code3 - raw_ptr code) (drop (raw_ptr code) (gp_buf code3)), ie_opcode := 0x41\<rparr>,
              code3)))))))"

subsection \<open>Types and limits\<close>

definition numeric_or_ref :: "parse_options \<Rightarrow> u8 \<Rightarrow> bool" where
  "numeric_or_ref opt t \<longleftrightarrow>
     t = ty_i32 \<or> t = ty_i64 \<or> t = ty_f32 \<or> t = ty_f64 \<or> t = ty_funcref \<or> t = ty_externref \<or> (t = ty_v128 \<and> enable_simd opt)"

definition typeP :: "(u8 \<Rightarrow> bool) \<Rightarrow> string \<Rightarrow> u8 reader" where
  "typeP valid msg = bindP read_byte (\<lambda>t. assertP (valid t) (parse_err msg) (retP t))"

definition return_size :: "u8 \<Rightarrow> nat" where
  "return_size t = (if t = ty_v128 then 16 else 8)"

definition parse_func_type :: "parse_options \<Rightarrow> func_type reader" where
  "parse_func_type opt =
     bindP read_byte (\<lambda>form.
     assertP (form = 0x60) (parse_err ''invalid function type'')
    (bindP parse_varuint32 (\<lambda>param_count.
     bindP remaining (\<lambda>r1.
     assertP (unat param_count \<le> r1) (parse_err ''param count exceeds section'')
    (bindP (manyP (unat param_count) (typeP (numeric_or_ref opt) ''invalid function param type'')) (\<lambda>ps.
     bindP parse_varuint32 (\<lambda>return_count.
     bindP remaining (\<lambda>r2.
     assertP (unat return_count \<le> r2) (parse_err ''return count exceeds section'')
    (assertP (return_count \<le> 16) (parse_err ''function return count exceeds implementation limit (16)'')
    (bindP (manyP (unat return_count) (typeP (\<lambda>t. numeric_or_ref opt t \<or> t = ty_exnref) ''invalid function return type'')) (\<lambda>rs.
     assertP (sum_list (map return_size rs) \<le> 128)
       (parse_err ''function multi-value return byte size exceeds implementation limit (128)'')
       (retP \<lparr>param_types = ps, return_types = rs\<rparr>))))))))))))"

definition mix :: "u64 \<Rightarrow> u8 \<Rightarrow> u64" where
  "mix h byte = (h XOR ucast byte) * 0x100000001b3"

definition compute_sig_hash :: "func_type \<Rightarrow> u64" where
  "compute_sig_hash ft =
     foldl mix 0xcbf29ce484222325
       ([0x60, of_nat (length (param_types ft)), of_nat (length (param_types ft) div 256)] @ param_types ft @
        [of_nat (length (return_types ft))] @ return_types ft)"

definition same_type :: "func_type \<Rightarrow> func_type \<Rightarrow> bool" where
  "same_type lhs rhs \<longleftrightarrow> compute_sig_hash lhs = compute_sig_hash rhs \<and> param_types lhs = param_types rhs \<and> return_types lhs = return_types rhs"

text \<open>\<open>normalize_types\<close>: \<open>hash_to_idx\<close> is a list of its entries, each under its hash.\<close>

definition alias_of :: "func_type list \<Rightarrow> (u64 \<times> nat) list \<Rightarrow> nat \<Rightarrow> nat" where
  "alias_of ts hash_to_idx i =
     (case find (\<lambda>(h, j). h = compute_sig_hash (ts ! i) \<and> same_type (ts ! j) (ts ! i)) hash_to_idx of
        None \<Rightarrow> i | Some (h, j) \<Rightarrow> j)"

fun alias_loop :: "func_type list \<Rightarrow> nat list \<Rightarrow> (u64 \<times> nat) list \<Rightarrow> nat list" where
  "alias_loop ts [] hash_to_idx = []"
| "alias_loop ts (i # is) hash_to_idx =
     (let alias = alias_of ts hash_to_idx i in
      alias # alias_loop ts is (if alias = i then (compute_sig_hash (ts ! i), i) # hash_to_idx else hash_to_idx))"

definition at :: "string \<Rightarrow> 'a list \<Rightarrow> nat \<Rightarrow> 'a res" where
  "at what xs i = assertR (i < length xs) (std_out_of_range what) (Inr (xs ! i))"

fun mapR :: "('a \<Rightarrow> 'b res) \<Rightarrow> 'a list \<Rightarrow> 'b list res" where
  "mapR f [] = Inr []"
| "mapR f (x # xs) = bindR (f x) (\<lambda>y. bindR (mapR f xs) (\<lambda>ys. Inr (y # ys)))"

definition normalize_types :: "binary_parser \<Rightarrow> binary_parser res" where
  "normalize_types p =
     (let w = wmod p; aliases = alias_loop (w_types w) [0..<length (w_types w)] [] in
      bindR (mapR (at ''type_aliases'' aliases) (func_imports (w_imports w))) (\<lambda>is.
      bindR (mapR (\<lambda>t. assertR (unat t < length aliases) (parse_err ''function type index out of range'') (Inr (aliases ! unat t)))
               (w_functions w)) (\<lambda>fs.
      Inr (p\<lparr>type_aliases := aliases, fast_functions := is @ fs\<rparr>))))"

definition parse_flags :: "u8 reader" where
  "parse_flags = bindP peek_byte (\<lambda>b. assertP (b \<le> 0x03) (parse_err ''invalid flags'') read_byte)"

definition skip_lebP :: "unit reader" where
  "skip_lebP code = bindR (skip_leb code) (\<lambda>code'. Inr ((), code'))"

text \<open>The second component is \<open>non_null\<close>.\<close>

definition parse_reftype :: "(u8 \<times> bool) reader" where
  "parse_reftype =
     bindP read_byte (\<lambda>b.
     if b = ty_funcref \<or> b = ty_externref then retP (b, False)
     else if b = 0x64 \<or> b = 0x63 then
       bindP read_byte (\<lambda>heap.
       if heap = 0x70 then retP (ty_funcref, b = 0x64)
       else if heap = 0x6F then retP (ty_externref, b = 0x64)
       else if 0x80 \<le> heap then bindP skip_lebP (\<lambda>u. retP (ty_funcref, b = 0x64))
       else retP (ty_funcref, b = 0x64))
     else failP (parse_err ''table must have type funcref or externref''))"

definition table_prefix :: "bool reader" where
  "table_prefix =
     bindP peek_byte (\<lambda>b.
     if b = 0x40 then
       bindP skip_byte (\<lambda>u. bindP peek_byte (\<lambda>z.
       assertP (z = 0) (parse_err ''expected 0x00 after 0x40 in table type'') (bindP skip_byte (\<lambda>u. retP True))))
     else retP False)"

definition parse_table_type :: "parse_options \<Rightarrow> binary_parser \<Rightarrow> (table_type \<times> binary_parser) reader" where
  "parse_table_type opt p =
     bindP table_prefix (\<lambda>has_init_expr.
     bindP parse_reftype (\<lambda>(et, non_null).
     let p1 = p\<lparr>table_non_null := table_non_null p @ [non_null]\<rparr> in
     bindP parse_flags (\<lambda>raw_flags.
     assertP (raw_flags \<le> 0x01) (parse_err ''invalid table limits flags'')
    (bindP parse_varuint32 (\<lambda>initial.
     bindP (if raw_flags \<noteq> 0 then
              bindP parse_varuint32 (\<lambda>mx.
              assertP (initial \<le> mx) (parse_err ''table max size less than min size'') (retP mx))
            else retP 0) (\<lambda>maximum.
     assertP (initial \<le> max_table_elements opt) (parse_err ''table size exceeds limit'')
    (let tt = \<lparr>element_type = et, table_limits = \<lparr>lim_flags = raw_flags \<noteq> 0, lim_initial = initial, lim_maximum = maximum\<rparr>\<rparr> in
     if has_init_expr then
       bindP (parse_init_expr opt p1 et (length (w_globals (wmod p1)))) (\<lambda>ie. retP (tt, p1))
     else retP (tt, p1))))))))"

definition memory_count :: "bool \<Rightarrow> string \<Rightarrow> u32 reader" where
  "memory_count is64 msg =
     (if is64 then
        bindP parse_varuint64 (\<lambda>v. assertP (v \<le> 65536) (parse_err msg) (retP (ucast v)))
      else parse_varuint32)"

definition parse_memory_type :: "parse_options \<Rightarrow> memory_type reader" where
  "parse_memory_type opt =
     bindP read_byte (\<lambda>raw_flags.
     assertP (raw_flags \<le> 0x07) (parse_err ''invalid memory flags'')
    (let is64 = (raw_flags AND 0x04 \<noteq> 0); flags = (raw_flags AND 0x01 \<noteq> 0) in
     bindP (memory_count is64 ''initial memory out of range'') (\<lambda>initial.
     assertP (initial \<le> max_pages_allowed opt) (parse_err ''initial memory out of range'')
    (assertP (initial \<le> 65536) (parse_err ''initial memory out of range'')
    (assertP (raw_flags AND 0x02 = 0 \<or> raw_flags AND 0x01 \<noteq> 0) (parse_err ''shared memory requires maximum'')
    (bindP (if flags then
              bindP (memory_count is64 ''maximum memory out of range'') (\<lambda>mx.
              assertP (initial \<le> mx) (parse_err ''maximum must be at least minimum'')
             (assertP (mx \<le> 65536) (parse_err ''maximum memory out of range'') (retP mx)))
            else retP 0) (\<lambda>maximum.
     retP \<lparr>memory_limits = \<lparr>lim_flags = flags, lim_initial = initial, lim_maximum = maximum\<rparr>, mt_memory64 = is64\<rparr>)))))))"

subsection \<open>Entries of sections\<close>

definition import_function :: "binary_parser \<Rightarrow> (import_kind \<times> binary_parser) reader" where
  "import_function p =
     bindP parse_varuint32 (\<lambda>t.
     assertP (unat t < length (w_types (wmod p))) (parse_err ''Invalid function type'') (retP (Func_import (unat t), p)))"

definition import_table :: "parse_options \<Rightarrow> binary_parser \<Rightarrow> (import_kind \<times> binary_parser) reader" where
  "import_table opt p =
     bindP (parse_table_type opt p) (\<lambda>(tt, p1).
     retP (Table_import tt,
       on_mod (\<lambda>w. w\<lparr>w_tables := w_tables w @ [tt], num_imported_tables := num_imported_tables w + 1\<rparr>) p1))"

definition import_memory :: "parse_options \<Rightarrow> binary_parser \<Rightarrow> (import_kind \<times> binary_parser) reader" where
  "import_memory opt p =
     bindP (parse_memory_type opt) (\<lambda>mt.
     retP (Memory_import mt,
       on_mod (\<lambda>w. w\<lparr>w_memories := w_memories w @ [mt], num_imported_memories := num_imported_memories w + 1\<rparr>) p))"

definition import_global :: "parse_options \<Rightarrow> binary_parser \<Rightarrow> (import_kind \<times> binary_parser) reader" where
  "import_global opt p =
     bindP (typeP (numeric_or_ref opt) ''invalid global content type'') (\<lambda>ct.
     bindP parse_varuint1 (\<lambda>mut.
     let g = \<lparr>content_type = ct, mutability = mut\<rparr> in
     retP (Global_import g,
       on_mod (\<lambda>w. w\<lparr>w_globals := w_globals w @ [\<lparr>gtype = g, ginit = no_expr\<rparr>],
                    num_imported_globals := num_imported_globals w + 1\<rparr>) p)))"

definition import_tag :: "parse_options \<Rightarrow> binary_parser \<Rightarrow> (import_kind \<times> binary_parser) reader" where
  "import_tag opt p =
     assertP (enable_exception_handling opt) (parse_err ''Exception handling not enabled'')
    (bindP parse_varuint32 (\<lambda>attr.
     assertP (attr = 0) (parse_err ''invalid tag attribute'')
    (bindP parse_varuint32 (\<lambda>t.
     assertP (unat t < length (w_types (wmod p))) (parse_err ''invalid tag type index'')
     (retP (Tag_import,
       on_mod (\<lambda>w. w\<lparr>has_exception_handling := True, w_tags := w_tags w @ [\<lparr>attribute = ucast attr, type_index = t\<rparr>]\<rparr>) p))))))"

definition parse_import_entry :: "parse_options \<Rightarrow> binary_parser \<Rightarrow> (import_entry \<times> binary_parser) reader" where
  "parse_import_entry opt p =
     bindP (parse_utf8_string (max_symbol_bytes opt)) (\<lambda>ms.
     bindP (parse_utf8_string (max_symbol_bytes opt)) (\<lambda>fs.
     bindP read_byte (\<lambda>kind.
     bindP (if kind = 0 then import_function p
            else if kind = 1 then import_table opt p
            else if kind = 2 then import_memory opt p
            else if kind = 3 then import_global opt p
            else if kind = 4 then import_tag opt p
            else failP (wasm_unsupported_import_exception ''unsupported import kind'')) (\<lambda>(k, p1).
     retP (\<lparr>module_str = ms, field_str = fs, ikind = k\<rparr>, p1)))))"

definition parse_global_variable :: "parse_options \<Rightarrow> binary_parser \<Rightarrow> nat \<Rightarrow> global_variable reader" where
  "parse_global_variable opt p idx =
     bindP (typeP (numeric_or_ref opt) ''invalid global content type'') (\<lambda>ct.
     bindP parse_varuint1 (\<lambda>mut.
     bindP (parse_init_expr opt p ct idx) (\<lambda>ie.
     retP \<lparr>gtype = \<lparr>content_type = ct, mutability = mut\<rparr>, ginit = ie\<rparr>)))"

definition export_range :: "wasm_module \<Rightarrow> u8 \<Rightarrow> (nat \<times> string) option" where
  "export_range w kind =
     (if kind = 0 then Some (get_functions_total (core w), ''function export out of range'')
      else if kind = 1 then Some (length (w_tables w), ''table export out of range'')
      else if kind = 2 then Some (length (w_memories w), ''memory export out of range'')
      else if kind = 3 then Some (length (w_globals w), ''global export out of range'')
      else if kind = 4 then Some (length (w_tags w), ''tag export out of range'')
      else None)"

definition parse_export_entry :: "parse_options \<Rightarrow> binary_parser \<Rightarrow> export_entry reader" where
  "parse_export_entry opt p =
     bindP (parse_utf8_string (max_symbol_bytes opt)) (\<lambda>fs.
     bindP read_byte (\<lambda>kind.
     bindP parse_varuint32 (\<lambda>idx.
     case export_range (wmod p) kind of
       None \<Rightarrow> failP (parse_err ''Unknown export kind'')
     | Some (n, msg) \<Rightarrow>
         assertP (unat idx < n) (parse_err msg) (retP \<lparr>exp_field = fs, exp_kind = kind, exp_index = idx\<rparr>))))"

text \<open>\<open>validate_exports\<close>: two exports of the same name are adjacent once the names are sorted.\<close>

fun adjacent_find :: "'a list \<Rightarrow> bool" where
  "adjacent_find (x # y # xs) \<longleftrightarrow> x = y \<or> adjacent_find (y # xs)"
| "adjacent_find xs \<longleftrightarrow> False"

definition validate_exports :: "binary_parser \<Rightarrow> unit res" where
  "validate_exports p =
     assertR (\<not> adjacent_find (sort (map exp_field (w_exports (wmod p))))) (parse_err ''duplicate export name'') (Inr ())"

definition function_entry :: "binary_parser \<Rightarrow> u32 \<Rightarrow> table_entry res" where
  "function_entry p fidx =
     assertR (unat fidx < get_functions_total (core (wmod p))) (parse_err ''elem for undefined function'')
      (bindR (at ''fast_functions'' (fast_functions p) (unat fidx)) (\<lambda>t. Inr \<lparr>te_type = of_nat t, te_index = fidx\<rparr>))"

definition elem_of_global :: "binary_parser \<Rightarrow> u32 \<Rightarrow> table_entry res" where
  "elem_of_global p global_idx =
     assertR (unat global_idx < length (w_globals (wmod p))) (parse_err ''global.get index out of range in elem'')
      (let fidx = ucast (ie_value (ginit (w_globals (wmod p) ! unat global_idx))) in
       if unat fidx < get_functions_total (core (wmod p)) then
         bindR (at ''fast_functions'' (fast_functions p) (unat fidx)) (\<lambda>t. Inr \<lparr>te_type = of_nat t, te_index = fidx\<rparr>)
       else Inr \<lparr>te_type = - 1, te_index = fidx\<rparr>)"

definition parse_elem_expr :: "binary_parser \<Rightarrow> u8 \<Rightarrow> table_entry reader" where
  "parse_elem_expr p expected_reftype =
     bindP read_byte (\<lambda>op.
     bindP (if op = 0xD0 then
              bindP peek_byte (\<lambda>t.
              assertP (t = ty_funcref \<or> t = ty_externref) (parse_err ''Unknown type for elem'')
             (assertP (t = expected_reftype) (parse_err ''type mismatch'')
             (bindP skip_byte (\<lambda>u. retP \<lparr>te_type = - 1, te_index = - 1\<rparr>))))
            else if op = 0xD2 then
              assertP (expected_reftype = ty_funcref) (parse_err ''type mismatch'')
             (bindP parse_varuint32 (\<lambda>fidx. liftP (function_entry p fidx)))
            else if op = 0x23 then bindP parse_varuint32 (\<lambda>global_idx. liftP (elem_of_global p global_idx))
            else failP (parse_err ''elem expression can only accept ref.null, ref.func, and global.get'')) (\<lambda>te.
     bindP read_byte (\<lambda>e. assertP (e = 0x0B) (parse_err ''no end op found'') (retP te))))"

text \<open>The reference type of a segment and whether its entries are never null.\<close>

definition elem_kind :: "u32 \<Rightarrow> (u8 \<times> bool) reader" where
  "elem_kind flags =
     (if flags = 1 \<or> flags = 2 \<or> flags = 3 then
        bindP read_byte (\<lambda>k. assertP (k = 0) (parse_err ''elemkind must be funcref'') (retP (ty_funcref, True)))
      else if flags = 5 \<or> flags = 6 \<or> flags = 7 then parse_reftype
      else retP (ty_funcref, flags < 4))"

definition check_target :: "binary_parser \<Rightarrow> u32 \<Rightarrow> u8 \<Rightarrow> bool \<Rightarrow> unit res" where
  "check_target p tidx elem_reftype elem_non_null =
     assertR (elem_reftype = element_type (w_tables (wmod p) ! unat tidx)) (parse_err ''type mismatch'')
    (assertR (\<not> (unat tidx < length (table_non_null p) \<and> table_non_null p ! unat tidx \<and> \<not> elem_non_null))
       (parse_err ''type mismatch'') (Inr ()))"

definition parse_elem_segment :: "parse_options \<Rightarrow> binary_parser \<Rightarrow> elem_segment reader" where
  "parse_elem_segment opt p =
     bindP parse_varuint32 (\<lambda>flags.
     assertP (flags = 0 \<or> enable_bulk_memory opt) (parse_err ''Bulk memory not enabled'')
    (assertP (flags \<le> 7) (parse_err ''Illegal flags for elem'')
    (bindP (if flags = 2 \<or> flags = 6 then parse_varuint32 else retP 0) (\<lambda>tidx.
     let is_active = (flags AND 1 = 0) in
     bindP (if is_active then
              bindP (parse_init_expr opt p ty_i32 (length (w_globals (wmod p)))) (\<lambda>ie.
              assertP (unat tidx < length (w_tables (wmod p))) (parse_err ''wrong table in elem'') (retP ie))
            else retP no_expr) (\<lambda>offset.
     bindP (elem_kind flags) (\<lambda>(elem_reftype, elem_non_null).
     bindP (if is_active then liftP (check_target p tidx elem_reftype elem_non_null) else retP ()) (\<lambda>u.
     bindP parse_varuint32 (\<lambda>size.
     bindP remaining (\<lambda>r.
     assertP (size \<le> max_element_segment_elements opt) (parse_err ''elem segment too large'')
    (assertP (unat size \<le> r) (parse_err ''elem count exceeds remaining bytes'')
    (bindP (manyP (unat size)
              (if flags AND 4 \<noteq> 0 then parse_elem_expr p elem_reftype
               else bindP parse_varuint32 (\<lambda>i. liftP (function_entry p i)))) (\<lambda>elems.
     retP \<lparr>es_index = tidx, es_offset = offset,
           es_mode = (if is_active then elem_active else if flags AND 2 \<noteq> 0 then elem_declarative else elem_passive),
           es_type = elem_reftype, es_elems = elems\<rparr>))))))))))))"

definition local_entryP :: "parse_options \<Rightarrow> local_entry reader" where
  "local_entryP opt =
     bindP parse_varuint32 (\<lambda>cnt.
     bindP (typeP (\<lambda>t. numeric_or_ref opt t \<or> t = ty_exnref) ''invalid local type'') (\<lambda>t.
     retP \<lparr>local_count = cnt, local_type = t\<rparr>))"

text \<open>\<open>code.offset()\<close>\<close>

definition offsetP :: "nat reader" where
  "offsetP code = Inr (gp_offset code, code)"

definition parse_function_body :: "parse_options \<Rightarrow> binary_parser \<Rightarrow> nat \<Rightarrow> (function_body \<times> binary_parser) reader" where
  "parse_function_body opt p idx =
     bindP parse_varuint32 (\<lambda>size.
     assertP (size \<le> max_code_bytes opt) (parse_err ''Function body too large'')
    (bindP offsetP (\<lambda>before.
     bindP parse_varuint32 (\<lambda>local_cnt.
     assertP (local_cnt \<le> max_local_sets opt) (parse_err ''Number of local sets exceeds limit'')
    (assertP (idx < length (w_functions (wmod p))) (parse_err ''function index out of range'')
    (bindP (liftP (types_at (core (wmod p)) (unat (w_functions (wmod p) ! idx)))) (\<lambda>ft.
     bindP (manyP (unat local_cnt) (local_entryP opt)) (\<lambda>ls.
     bindP offsetP (\<lambda>off.
     let size' = size - of_nat (off - before) in
     scoped_shrink_bounds (unat size')
      (bindP (raw_bytes_at (unat size')) (\<lambda>bytes.
       bindP (advance (unat (size' - 1))) (\<lambda>u.
       bindP peek_byte (\<lambda>e.
       assertP (e = 0x0B) (parse_err ''failed parsing function body, expected end'')
      (bindP skip_byte (\<lambda>u.
       retP (\<lparr>body_bytes = size', wasm_body_bytes = size', locals = ls, body_code = 0, body_stack_size = 0,
               prologue_gas_extra = 0, body_start = before, branch_hints = []\<rparr>,
             p\<lparr>function_bodies := function_bodies p @ [bytes]\<rparr>))))))))))))))))"

text \<open>The offset of an active segment and the memory it is for.\<close>

definition segment_head :: "parse_options \<Rightarrow> binary_parser \<Rightarrow> (u32 \<times> bool \<times> init_expr) reader" where
  "segment_head opt p =
     (let offsetE = parse_init_expr opt p ty_i32 (length (w_globals (wmod p))) in
      bindP parse_varuint32 (\<lambda>mode.
      if mode = 0 \<or> \<not> enable_bulk_memory opt then
        bindP offsetE (\<lambda>ie. assertP (w_memories (wmod p) \<noteq> []) (parse_err ''data requires memory'') (retP (mode, False, ie)))
      else if mode = 1 then retP (mode, True, no_expr\<lparr>ie_opcode := 0x41\<rparr>)
      else if mode = 2 then
        bindP parse_varuint32 (\<lambda>midx. bindP offsetE (\<lambda>ie.
        assertP (unat midx < length (w_memories (wmod p))) (parse_err ''Data uses nonexistent memory'')
          (retP (midx, False, ie))))
      else failP (parse_err ''Unexpected flag for data'')))"

definition parse_data_segment :: "parse_options \<Rightarrow> binary_parser \<Rightarrow> data_segment reader" where
  "parse_data_segment opt p =
     bindP (segment_head opt p) (\<lambda>(midx, is_passive, ie).
     bindP parse_varuint32 (\<lambda>len.
     assertP (len \<le> max_data_segment_bytes opt) (parse_err ''data segment too large.'')
    (assertP (raw_expr ie \<noteq> [] \<or> unat (ucast (ie_value ie) :: u32) + unat len \<le> unat (max_linear_memory_init opt))
       (parse_err ''out-of-bounds data section'')
    (scoped_shrink_bounds (unat len)
      (bindP (raw_bytes_at (unat len)) (\<lambda>bytes.
       bindP (advance (unat len)) (\<lambda>u.
       retP \<lparr>ds_index = midx, ds_offset = ie, ds_passive = is_passive, ds_data = bytes\<rparr>)))))))"

subsection \<open>Custom sections\<close>

definition at_end :: "bool reader" where
  "at_end code = Inr (gp_bounds code = gp_offset code, code)"

definition unless_end :: "'a \<Rightarrow> 'a reader \<Rightarrow> 'a reader" where
  "unless_end x k = bindP at_end (\<lambda>e. if e then retP x else k)"

definition parse_name_map :: "nat \<Rightarrow> name_assoc list reader" where
  "parse_name_map n =
     manyP n (bindP parse_varuint32 (\<lambda>i. bindP (parse_utf8_string (- 1)) (\<lambda>s. retP (i, s))))"

definition count_within :: "string \<Rightarrow> nat reader" where
  "count_within msg =
     bindP parse_varuint32 (\<lambda>n. bindP remaining (\<lambda>r. assertP (unat n \<le> r) (parse_err msg) (retP (unat n))))"

definition module_subsection :: "name_section \<Rightarrow> name_section reader" where
  "module_subsection ns = bindP (parse_utf8_string (- 1)) (\<lambda>s. retP (ns\<lparr>ns_module_name := Some s\<rparr>))"

definition function_subsection :: "name_section \<Rightarrow> name_section reader" where
  "function_subsection ns =
     bindP (count_within ''name count exceeds section'') (\<lambda>n.
     bindP (parse_name_map n) (\<lambda>fs. retP (ns\<lparr>ns_function_names := Some fs\<rparr>)))"

definition local_subsection :: "name_section \<Rightarrow> name_section reader" where
  "local_subsection ns =
     bindP (count_within ''local name count exceeds section'') (\<lambda>n.
     bindP (manyP n (bindP parse_varuint32 (\<lambda>i.
              bindP (count_within ''local name count exceeds section'') (\<lambda>k.
              bindP (parse_name_map k) (\<lambda>xs. retP (i, xs)))))) (\<lambda>ls.
     retP (ns\<lparr>ns_local_names := Some ls\<rparr>)))"

definition name_subsection :: "u8 \<Rightarrow> (name_section \<Rightarrow> name_section reader) \<Rightarrow> name_section \<Rightarrow> name_section reader" where
  "name_subsection sid sub ns =
     bindP peek_byte (\<lambda>b.
     if b = sid then
       bindP skip_byte (\<lambda>u. bindP parse_varuint32 (\<lambda>len. scoped_consume_items (unat len) (sub ns)))
     else retP ns)"

definition parse_name_section :: "name_section reader" where
  "parse_name_section =
     (let ns0 = \<lparr>ns_module_name = None, ns_function_names = None, ns_local_names = None\<rparr> in
      unless_end ns0 (bindP (name_subsection 0 module_subsection ns0) (\<lambda>ns1.
      unless_end ns1 (bindP (name_subsection 1 function_subsection ns1) (\<lambda>ns2.
      unless_end ns2 (bindP (name_subsection 2 local_subsection ns2) (\<lambda>ns3.
      unless_end ns3 (failP (parse_err ''Invalid subsection Id'')))))))))"

type_synonym hints = "u32 \<Rightarrow> (u32 \<times> u8) list option"

definition branch_hintP :: "(u32 \<times> u8) reader" where
  "branch_hintP = bindP parse_varuint32 (\<lambda>off. bindP read_byte (\<lambda>v. retP (off, v)))"

definition func_hintsP :: "hints \<Rightarrow> hints reader" where
  "func_hintsP h =
     bindP parse_varuint32 (\<lambda>func_idx.
     bindP (count_within ''branch hint count exceeds section'') (\<lambda>n.
     bindP (manyP n branch_hintP) (\<lambda>hs.
     retP (h(func_idx := Some ((case h func_idx of None \<Rightarrow> [] | Some old \<Rightarrow> old) @ hs))))))"

definition parse_branch_hints_section :: "hints \<Rightarrow> hints reader" where
  "parse_branch_hints_section h =
     bindP (count_within ''branch hint func count exceeds section'') (\<lambda>n. repeatP n func_hintsP h)"

definition ascii :: "string \<Rightarrow> u8 list" where
  "ascii s = map of_char s"

definition parse_custom :: "parse_options \<Rightarrow> binary_parser \<Rightarrow> binary_parser reader" where
  "parse_custom opt p =
     bindP (parse_utf8_string (- 1)) (\<lambda>section_name.
     if parse_custom_section_name opt \<and> section_name = ascii ''name'' then
       bindP parse_name_section (\<lambda>ns. retP (on_mod (\<lambda>w. w\<lparr>w_names := Some ns\<rparr>) p))
     else if section_name = ascii ''metadata.code.branch_hint'' then
       bindP (parse_branch_hints_section (branch_hints_temp p)) (\<lambda>h. retP (p\<lparr>branch_hints_temp := h\<rparr>))
     else bindP remaining (\<lambda>r. bindP (advance r) (\<lambda>u. retP p)))"

subsection \<open>Sections\<close>

text \<open>
  The parser is a template over the writer that translates the bodies; what it does with them is the parameter
  \<open>wco\<close>, to be \<open>write_code_out\<close> for the bitcode writer.
\<close>

type_synonym code_writer = "options \<Rightarrow> u8 list list \<Rightarrow> module \<Rightarrow> (module \<times> opcode list) res"

definition section_count :: "u32 \<Rightarrow> nat reader" where
  "section_count max_elements =
     bindP parse_varuint32 (\<lambda>count.
     assertP (count \<le> max_elements) (parse_err ''number of section elements exceeded limit'')
    (bindP remaining (\<lambda>r.
     assertP (unat count \<le> r) (parse_err ''element count exceeds remaining section bytes'') (retP (unat count)))))"

definition parse_section_impl :: "u32 \<Rightarrow> 'a reader \<Rightarrow> 'a list reader" where
  "parse_section_impl max_elements elem_parse = bindP (section_count max_elements) (\<lambda>count. manyP count elem_parse)"

definition type_section :: "parse_options \<Rightarrow> binary_parser \<Rightarrow> binary_parser reader" where
  "type_section opt p =
     bindP (parse_section_impl (max_type_section_elements opt) (parse_func_type opt)) (\<lambda>ts.
     retP (on_mod (\<lambda>w. w\<lparr>w_types := ts\<rparr>) p))"

definition import_step :: "parse_options \<Rightarrow> binary_parser \<times> import_entry list \<Rightarrow> (binary_parser \<times> import_entry list) reader" where
  "import_step opt = (\<lambda>(p, es). bindP (parse_import_entry opt p) (\<lambda>(e, p1). retP (p1, es @ [e])))"

definition import_section :: "parse_options \<Rightarrow> binary_parser \<Rightarrow> binary_parser reader" where
  "import_section opt p =
     bindP (section_count (max_import_section_elements opt)) (\<lambda>n.
     bindP (repeatP n (import_step opt) (p, [])) (\<lambda>(p1, es).
     retP (on_mod (\<lambda>w. w\<lparr>w_imports := es\<rparr>) p1)))"

definition function_section :: "parse_options \<Rightarrow> binary_parser \<Rightarrow> binary_parser reader" where
  "function_section opt p =
     bindP (parse_section_impl (max_function_section_elements opt) parse_varuint32) (\<lambda>fs.
     liftP (normalize_types (on_mod (\<lambda>w. w\<lparr>w_functions := fs\<rparr>) p)))"

definition table_step :: "parse_options \<Rightarrow> binary_parser \<Rightarrow> binary_parser reader" where
  "table_step opt p =
     bindP (parse_table_type opt p) (\<lambda>(tt, p1). retP (on_mod (\<lambda>w. w\<lparr>w_tables := w_tables w @ [tt]\<rparr>) p1))"

definition table_section :: "parse_options \<Rightarrow> binary_parser \<Rightarrow> binary_parser reader" where
  "table_section opt p = bindP (section_count (max_section_elements opt)) (\<lambda>n. repeatP n (table_step opt) p)"

definition memory_section :: "parse_options \<Rightarrow> binary_parser \<Rightarrow> binary_parser reader" where
  "memory_section opt p =
     bindP parse_varuint32 (\<lambda>count.
     assertP (count \<le> max_memory_section_elements opt) (parse_err ''number of section elements exceeded limit'')
    (assertP (length (w_memories (wmod p)) + unat count \<le> unat (max_memory_section_elements opt))
       (parse_err ''only one memory is permitted'')
    (bindP (manyP (unat count) (parse_memory_type opt)) (\<lambda>ms.
     retP (on_mod (\<lambda>w. w\<lparr>w_memories := w_memories w @ ms\<rparr>) p)))))"

definition global_step :: "parse_options \<Rightarrow> binary_parser \<Rightarrow> binary_parser reader" where
  "global_step opt p =
     bindP (parse_global_variable opt p (length (w_globals (wmod p)))) (\<lambda>g.
     retP (on_mod (\<lambda>w. w\<lparr>w_globals := w_globals w @ [g]\<rparr>) p))"

definition global_section :: "parse_options \<Rightarrow> binary_parser \<Rightarrow> binary_parser reader" where
  "global_section opt p = bindP (section_count (max_global_section_elements opt)) (\<lambda>n. repeatP n (global_step opt) p)"

definition export_section :: "parse_options \<Rightarrow> binary_parser \<Rightarrow> binary_parser reader" where
  "export_section opt p =
     bindP (parse_section_impl (max_export_section_elements opt) (parse_export_entry opt p)) (\<lambda>es.
     let p1 = on_mod (\<lambda>w. w\<lparr>w_exports := es\<rparr>) p in bindP (liftP (validate_exports p1)) (\<lambda>u. retP p1))"

definition start_section :: "binary_parser \<Rightarrow> binary_parser reader" where
  "start_section p =
     bindP parse_varuint32 (\<lambda>start.
     bindP (liftP (get_function_type (core (wmod p)) (unat start))) (\<lambda>ft.
     assertP (return_count ft = 0 \<and> param_types ft = []) (parse_err ''wrong type for start'')
       (retP (on_mod (\<lambda>w. w\<lparr>w_start := start\<rparr>) p))))"

definition element_section :: "parse_options \<Rightarrow> binary_parser \<Rightarrow> binary_parser reader" where
  "element_section opt p =
     bindP (if fast_functions p = [] \<and> 0 < get_imported_functions_size (core (wmod p)) then liftP (normalize_types p) else retP p) (\<lambda>p1.
     bindP (parse_section_impl (max_element_section_elements opt) (parse_elem_segment opt p1)) (\<lambda>es.
     retP (on_mod (\<lambda>w. w\<lparr>w_elements := es\<rparr>) p1)))"

definition body_step :: "parse_options \<Rightarrow> binary_parser \<times> function_body list \<Rightarrow> (binary_parser \<times> function_body list) reader" where
  "body_step opt = (\<lambda>(p, bs). bindP (parse_function_body opt p (length bs)) (\<lambda>(b, p1). retP (p1, bs @ [b])))"

text \<open>The hints of a custom section go to the body with their index. Host functions are not yet resolved here.\<close>

definition apply_hints :: "hints \<Rightarrow> nat \<Rightarrow> function_body list \<Rightarrow> function_body list" where
  "apply_hints h num_imports bs =
     map (\<lambda>(i, b). case h (of_nat (i + num_imports)) of None \<Rightarrow> b | Some hs \<Rightarrow> b\<lparr>branch_hints := hs\<rparr>) (zip [0..<length bs] bs)"

definition code_section :: "code_writer \<Rightarrow> parse_options \<Rightarrow> binary_parser \<Rightarrow> binary_parser reader" where
  "code_section wco opt p =
     bindP (section_count (max_function_section_elements opt)) (\<lambda>n.
     bindP (repeatP n (body_step opt) (p, [])) (\<lambda>(p1, bs).
     assertP (length bs = length (w_functions (wmod p1))) (parse_err ''code section must have the same size as the function section'')
    (let bs1 = apply_hints (branch_hints_temp p1) (length (import_functions (core (wmod p1)))) bs;
         p2 = on_mod (\<lambda>w. w\<lparr>w_code := bs1\<rparr>) (p1\<lparr>branch_hints_temp := (\<lambda>f. None)\<rparr>) in
     bindP (liftP (wco (options.truncate opt) (function_bodies p2) (core (wmod p2)))) (\<lambda>(m, seg).
     retP (on_mod (\<lambda>w. w\<lparr>w_code := body_list m, w_maximum_stack := maximum_stack m, w_segment := seg\<rparr>) p2)))))"

definition data_section :: "parse_options \<Rightarrow> binary_parser \<Rightarrow> binary_parser reader" where
  "data_section opt p =
     bindP (parse_section_impl (max_data_section_elements opt) (parse_data_segment opt p)) (\<lambda>ds.
     assertP (case datacount p of None \<Rightarrow> True | Some n \<Rightarrow> unat n = length ds) (parse_err ''data count does not match data'')
       (retP (on_mod (\<lambda>w. w\<lparr>w_data := ds\<rparr>) p)))"

definition data_count_section :: "binary_parser \<Rightarrow> binary_parser reader" where
  "data_count_section p = bindP parse_varuint32 (\<lambda>n. retP (p\<lparr>datacount := Some n\<rparr>))"

definition tag_entry :: "parse_options \<Rightarrow> binary_parser \<Rightarrow> tag_type reader" where
  "tag_entry opt p =
     assertP (enable_exception_handling opt) (parse_err ''Exception handling not enabled'')
    (bindP read_byte (\<lambda>attr.
     assertP (attr = 0) (parse_err ''invalid tag attribute'')
    (bindP parse_varuint32 (\<lambda>t.
     assertP (unat t < length (w_types (wmod p))) (parse_err ''invalid tag type index'')
       (retP \<lparr>attribute = attr, type_index = t\<rparr>)))))"

definition tag_section :: "parse_options \<Rightarrow> binary_parser \<Rightarrow> binary_parser reader" where
  "tag_section opt p =
     bindP (parse_section_impl (max_section_elements opt) (tag_entry opt p)) (\<lambda>ts.
     retP (on_mod (\<lambda>w. w\<lparr>w_tags := ts, has_exception_handling := has_exception_handling w \<or> ts \<noteq> []\<rparr>) p))"

definition make_section_order :: "u8 list" where
  "make_section_order =
     foldl (\<lambda>result (sec, i). result[sec := i]) (replicate 14 0)
       (zip [1, 2, 3, 4, 5, 13, 6, 7, 8, 9, 12, 10, 11] [1, 2, 3, 4, 5, 6, 7, 8, 9, 10, 11, 12, 13])"

definition parse_section :: "code_writer \<Rightarrow> parse_options \<Rightarrow> u8 \<Rightarrow> binary_parser \<Rightarrow> binary_parser reader" where
  "parse_section wco opt sid p =
     (if sid = 0 then parse_custom opt p
      else if sid = 1 then type_section opt p
      else if sid = 2 then import_section opt p
      else if sid = 3 then function_section opt p
      else if sid = 4 then table_section opt p
      else if sid = 5 then memory_section opt p
      else if sid = 6 then global_section opt p
      else if sid = 7 then export_section opt p
      else if sid = 8 then start_section p
      else if sid = 9 then element_section opt p
      else if sid = 10 then code_section wco opt p
      else if sid = 11 then data_section opt p
      else if sid = 12 then data_count_section p
      else if sid = 13 then tag_section opt p
      else failP (parse_err ''error invalid section id''))"

subsection \<open>Readers move forward\<close>

text \<open>A reader leaves the buffer and the bounds as they are, and the pointer inside them.\<close>

definition ahead :: "gptr \<Rightarrow> gptr \<Rightarrow> bool" where
  "ahead code code' \<longleftrightarrow>
     raw_ptr code \<le> raw_ptr code' \<and> bnds code' = bnds code \<and> gp_buf code' = gp_buf code \<and>
     (raw_ptr code \<le> bnds code \<longrightarrow> raw_ptr code' \<le> bnds code')"

definition tame :: "'a reader \<Rightarrow> bool" where
  "tame p \<longleftrightarrow> (\<forall>code x code'. p code = Inr (x, code') \<longrightarrow> ahead code code')"

named_theorems tame_intros \<open>readers that leave buffer and bounds as they are\<close>

lemma ahead_refl [simp]: "ahead code code"
  by (simp add: ahead_def)

lemma ahead_trans: "ahead a b \<Longrightarrow> ahead b c \<Longrightarrow> ahead a c"
  by (auto simp: ahead_def)

lemma tameI: "(\<And>code x code'. p code = Inr (x, code') \<Longrightarrow> ahead code code') \<Longrightarrow> tame p"
  by (simp add: tame_def)

lemma tameD: "tame p \<Longrightarrow> p code = Inr (x, code') \<Longrightarrow> ahead code code'"
  by (simp add: tame_def)

lemma tame_bindP [tame_intros]: "tame p \<Longrightarrow> (\<And>x. tame (f x)) \<Longrightarrow> tame (bindP p f)"
  by (rule tameI) (auto simp: bindP_def res_simps dest!: tameD intro: ahead_trans)

lemma tame_simple [tame_intros]:
  "tame (retP x)" "tame (failP e)" "tame (liftP r)" "tame peek_byte" "tame remaining" "tame offsetP" "tame at_end" "tame (raw_bytes_at n)"
  by (auto simp: tame_def reader_defs offsetP_def at_end_def raw_bytes_at_def res_simps split: if_splits)

lemma gp_plus_tame: "gp_plus g n = Inr g' \<Longrightarrow> raw_ptr g \<le> bnds g \<Longrightarrow> raw_ptr g' \<le> bnds g'"
  by (auto simp: gp_plus_def size_diff_def res_simps)

lemma tame_moves [tame_intros]:
  "tame read_byte" "tame skip_byte" "tame (advance n)" "tame parse_varuint1" "tame parse_varuint32" "tame parse_varuint64"
  "tame parse_varint32" "tame parse_varint64"
  by (auto simp: tame_def ahead_def read_byte_def skip_byte_def advance_def gp_incr_def parse_varuint1_def parse_varuint32_def parse_varuint64_def
      parse_varint32_def parse_varint64_def varuint_from_code_def varint_from_code_def res_simps dest: gp_plus_ptr gp_plus_tame)

lemma gp_shrink_ptr:
  "gp_shrink g n = Inr (g', old) \<Longrightarrow> g' = g\<lparr>bnds := raw_ptr g + n\<rparr> \<and> old = bnds g \<and> (raw_ptr g \<le> bnds g \<longrightarrow> raw_ptr g + n \<le> bnds g)"
  by (auto simp: gp_shrink_def size_diff_def res_simps split: if_splits)

lemma tame_shrink [tame_intros]:
  assumes "tame p"
  shows "tame (scoped_shrink_bounds n p)"
proof (rule tameI)
  fix code x code'
  assume "scoped_shrink_bounds n p code = Inr (x, code')"
  then obtain c old d where c: "gp_shrink code n = Inr (c, old)" "p c = Inr (x, d)" "code' = gp_unshrink d old"
    by (auto simp: scoped_shrink_bounds_def res_simps)
  show "ahead code code'" using gp_shrink_ptr [OF c(1)] tameD [OF assms c(2)] c(3) by (auto simp: gp_unshrink_def ahead_def)
qed

lemma tame_consume [tame_intros]:
  assumes "tame p"
  shows "tame (scoped_consume_items n p)"
proof (rule tameI)
  fix code x code'
  assume "scoped_consume_items n p code = Inr (x, code')"
  then obtain c old d where c: "gp_shrink code n = Inr (c, old)" "p c = Inr (x, d)" "gp_consumed False d old = Inr code'"
    by (auto simp: scoped_consume_items_def res_simps)
  show "ahead code code'" using gp_shrink_ptr [OF c(1)] tameD [OF assms c(2)] c(3) by (auto simp: gp_consumed_def res_simps ahead_def)
qed

lemma tame_assertP [tame_intros]: "(c \<Longrightarrow> tame p) \<Longrightarrow> tame (assertP c e p)"
  by (simp add: assertP_def tame_simple)

lemma tame_if [tame_intros]: "(c \<Longrightarrow> tame p) \<Longrightarrow> (\<not> c \<Longrightarrow> tame q) \<Longrightarrow> tame (if c then p else q)"
  by simp

lemma tame_prod [tame_intros]: "(\<And>a b. x = (a, b) \<Longrightarrow> tame (f a b)) \<Longrightarrow> tame (case x of (a, b) \<Rightarrow> f a b)"
  by (simp split: prod.split)

lemma tame_option [tame_intros]: "tame p \<Longrightarrow> (\<And>a. x = Some a \<Longrightarrow> tame (f a)) \<Longrightarrow> tame (case x of None \<Rightarrow> p | Some a \<Rightarrow> f a)"
  by (simp split: option.split)

lemma tame_Let [tame_intros]: "(\<And>y. y = x \<Longrightarrow> tame (f y)) \<Longrightarrow> tame (let y = x in f y)"
  by simp

lemma tame_repeat [tame_intros]: "(\<And>s. tame (f s)) \<Longrightarrow> tame (repeatP n f s)"
  by (induction n arbitrary: s) (auto intro: tame_intros)

lemma tame_many [tame_intros]: "tame p \<Longrightarrow> tame (manyP n p)"
  by (induction n) (auto intro: tame_intros)

lemma tame_raw [tame_intros]: "tame (parse_raw n)"
  unfolding tame_def ahead_def parse_raw_def gp_shrink_def gp_unshrink_def gp_plus_def size_diff_def
  by (auto simp: res_simps split: if_splits)

lemma tame_read_byte: "read_byte code = Inr (b, code') \<Longrightarrow> ahead code code'"
  using tame_moves(1) by (rule tameD)

lemma tame_skip_leb [tame_intros]: "tame skip_lebP"
proof -
  have "ahead code code'" if "skip_leb code = Inr code'" for code code'
    using that
  proof (induction code rule: skip_leb.induct)
    case (1 code)
    from 1(2) obtain b c where b: "read_byte code = Inr (b, c)" and r: "(if b AND 0x80 \<noteq> 0 then skip_leb c else Inr c) = Inr code'"
      by (subst (asm) skip_leb.simps) (auto simp: res_simps)
    show ?case using 1(1) [OF b refl] r tame_read_byte [OF b] by (auto split: if_splits intro: ahead_trans)
  qed
  then show ?thesis by (auto simp: tame_def skip_lebP_def res_simps)
qed

lemma tame_utf8 [tame_intros]: "tame validate_utf8_code_point" "tame (validate_utf8_string n)"
proof -
  show t: "tame validate_utf8_code_point" unfolding validate_utf8_code_point_def continuation_def by (intro tame_intros)
  have "ahead code code'" if "validate_utf8_string n code = Inr (u, code')" for code u code'
    using that
  proof (induction n code rule: validate_utf8_string.induct)
    case (1 n code)
    show ?case
    proof (cases "n = 0")
      case False
      then obtain k c where k: "validate_utf8_code_point code = Inr (k, c)" "k \<le> n" "validate_utf8_string (n - k) c = Inr (u, code')"
        using 1(2) by (subst (asm) validate_utf8_string.simps) (auto simp: res_simps)
      show ?thesis using 1(1) [OF False k(1) refl k(2,3)] tameD [OF t k(1)] by (rule ahead_trans [rotated])
    qed (use 1(2) in \<open>simp add: validate_utf8_string.simps\<close>)
  qed
  then show "tame (validate_utf8_string n)" by (rule tameI)
qed

lemma tame_const [tame_intros]: "tame (immutable_global p n)" "tame (const_instr p n d)" "tame (const_loop p n d)"
proof -
  show g: "tame (immutable_global p n)" unfolding immutable_global_def by (intro tame_intros)
  have i: "tame (const_instr p n d)" for d unfolding const_instr_def by (intro tame_intros g)
  show "tame (const_instr p n d)" by (rule i)
  have "ahead code code'" if "const_loop p n d code = Inr (x, code')" for code x code'
    using that
  proof (induction p n d code rule: const_loop.induct)
    case (1 p n d code)
    have t: "tame (const_instr p n d)" unfolding const_instr_def immutable_global_def by (intro tame_intros)
    from 1(2) obtain b where b: "gp_deref code = Inr b" by (subst (asm) const_loop.simps) (auto simp: res_simps)
    show ?case
    proof (cases "b = 0x0B")
      case False
      then obtain e c where c: "const_instr p n d code = Inr (e, c)" "const_loop p n e c = Inr (x, code')"
        using 1(2) b by (subst (asm) const_loop.simps) (auto simp: res_simps)
      show ?thesis using 1(1) [OF b False c(1) refl c(2)] tameD [OF t c(1)] by (rule ahead_trans [rotated])
    qed (use 1(2) b in \<open>simp add: const_loop.simps\<close>)
  qed
  then show "tame (const_loop p n d)" by (rule tameI)
qed

lemma gp_incr_ahead: "gp_incr code = Inr code' \<Longrightarrow> ahead code code'"
  by (auto simp: gp_incr_def ahead_def res_simps)

lemma tame_init_expr [tame_intros]: "tame (parse_init_expr opt p ty n)"
proof (rule tameI)
  fix code x code'
  assume r: "parse_init_expr opt p ty n code = Inr (x, code')"
  have t: "tame (simple_expr opt p ty n)" unfolding simple_expr_def Let_def by (intro tame_intros)
  obtain ie c1 where c1: "simple_expr opt p ty n code = Inr (ie, c1)" using r by (auto simp: parse_init_expr_def res_simps)
  have "ahead c1 code'"
    using r c1 by (auto simp: parse_init_expr_def res_simps split: if_splits dest!: gp_incr_ahead tameD [OF tame_const(3)] intro: ahead_trans)
  then show "ahead code code'" using tameD [OF t c1] by (rule ahead_trans [rotated])
qed

lemmas entry_defs = parse_func_type_def typeP_def parse_flags_def parse_reftype_def table_prefix_def parse_table_type_def memory_count_def
  parse_memory_type_def import_function_def import_table_def import_memory_def import_global_def import_tag_def parse_import_entry_def
  parse_utf8_string_def parse_global_variable_def parse_export_entry_def parse_elem_expr_def elem_kind_def parse_elem_segment_def
  local_entryP_def parse_function_body_def segment_head_def parse_data_segment_def unless_end_def parse_name_map_def count_within_def
  module_subsection_def function_subsection_def local_subsection_def name_subsection_def parse_name_section_def branch_hintP_def
  func_hintsP_def parse_branch_hints_section_def parse_custom_def

lemmas section_defs = section_count_def parse_section_impl_def type_section_def import_step_def import_section_def function_section_def
  table_step_def table_section_def memory_section_def global_step_def global_section_def export_section_def start_section_def
  element_section_def body_step_def code_section_def data_section_def data_count_section_def tag_entry_def tag_section_def parse_section_def

lemma tame_section [tame_intros]: "tame (parse_section wco opt sid p)"
  unfolding section_defs entry_defs Let_def by (intro tame_intros)

text \<open>\<open>for (;;)\<close> of \<open>parse_module\<close>\<close>

definition section_head :: "u8 \<Rightarrow> (u8 \<times> nat) reader" where
  "section_head highest_section_id =
     bindP read_byte (\<lambda>sid.
     bindP parse_varuint32 (\<lambda>len.
     assertP (unat sid < length make_section_order) (parse_err ''invalid section id'')
    (assertP (sid = 0 \<or> highest_section_id < make_section_order ! unat sid) (parse_err ''section out of order'')
     (retP (sid, unat len)))))"

lemma section_head_forward: "section_head h code = Inr (x, code') \<Longrightarrow> raw_ptr code < raw_ptr code' \<and> raw_ptr code < bnds code \<and> bnds code' = bnds code"
  by (auto simp: section_head_def reader_defs parse_varuint32_def res_simps split: if_splits dest!: read_byte_ptr varuint_ptr)

function parse_sections :: "code_writer \<Rightarrow> parse_options \<Rightarrow> nat \<Rightarrow> u8 \<Rightarrow> binary_parser \<Rightarrow> binary_parser reader" where
  "parse_sections wco opt sz highest_section_id p code =
     (if gp_offset code = sz then Inr (p, code)
      else
        bindR (section_head highest_section_id code) (\<lambda>(h, code1). case h of (sid, len) \<Rightarrow>
        bindR (scoped_consume_items len (parse_section wco opt sid p) code1) (\<lambda>(p1, code2).
        parse_sections wco opt sz (max highest_section_id (make_section_order ! unat sid)) p1 code2)))"
  by pat_completeness auto
termination
  by (relation "measure (\<lambda>(wco, opt, sz, h, p, code). bnds code - raw_ptr code)")
     (auto simp: ahead_def dest!: section_head_forward tameD [OF tame_consume [OF tame_section]])

declare parse_sections.simps [simp del]

definition parse_module :: "code_writer \<Rightarrow> parse_options \<Rightarrow> u8 list \<Rightarrow> wasm_module res" where
  "parse_module wco opt bytes =
     bindR (parse_raw 4 (gp_new bytes (length bytes))) (\<lambda>(magic :: u32, code1).
     assertR (magic = 0x6D736100) (parse_err ''magic number did not match'')
    (bindR (parse_raw 4 code1) (\<lambda>(version :: u32, code2).
     assertR (version = 1) (parse_err ''version number did not match'')
    (bindR (parse_sections wco opt (length bytes) 0 parser_init code2) (\<lambda>(p, code3).
     assertR (length (w_code (wmod p)) = length (w_functions (wmod p)))
       (parse_err ''code section must have the same size as the function section'')
    (assertR (case datacount p of None \<Rightarrow> True | Some n \<Rightarrow> unat n = length (w_data (wmod p)))
       (parse_err ''data count and data section have inconsistent lengths'')
       (Inr (wmod p))))))))"

end
