(* ===== verification/Module_Valid.thy ===== *)
theory Module_Valid
  imports Module_Parse Module_Safety
begin

unbundle bit_operations_syntax

section \<open>Parsed modules are well-formed\<close>

text \<open>
  Readers are described by what they return and by reaching no undefined behaviour. The sections establish, one after
  the other and in the order \<open>parse_module\<close> enforces, that the indices in a module are in range and its types are types.
\<close>

subsection \<open>Sound readers\<close>

definition sound :: "('a \<Rightarrow> bool) \<Rightarrow> 'a reader \<Rightarrow> bool" where
  "sound Q p \<longleftrightarrow> (\<forall>code. gp_wf code \<longrightarrow> \<not> is_undefined (p code) \<and> (\<forall>x code'. p code = Inr (x, code') \<longrightarrow> Q x \<and> ahead code code'))"

named_theorems sound_intros \<open>readers without undefined behaviour and what they return\<close>

lemma ahead_wf: "gp_wf code \<Longrightarrow> ahead code code' \<Longrightarrow> gp_wf code'"
  by (simp add: gp_wf_def ahead_def)

lemma soundI:
  "tame p \<Longrightarrow> (\<And>code. gp_wf code \<Longrightarrow> \<not> is_undefined (p code)) \<Longrightarrow> (\<And>code x code'. gp_wf code \<Longrightarrow> p code = Inr (x, code') \<Longrightarrow> Q x) \<Longrightarrow> sound Q p"
  by (auto simp: sound_def dest: tameD)

lemma soundD:
  assumes "sound Q p" and "gp_wf code"
  shows "\<not> is_undefined (p code)" and "p code = Inr (x, code') \<Longrightarrow> Q x \<and> ahead code code' \<and> gp_wf code'"
  using assms ahead_wf by (auto simp: sound_def)

lemma sound_mono: "sound Q p \<Longrightarrow> (\<And>x. Q x \<Longrightarrow> R x) \<Longrightarrow> sound R p"
  by (auto simp: sound_def)

lemma sound_bindP:
  assumes "sound Q p" and "\<And>x. Q x \<Longrightarrow> sound R (f x)"
  shows "sound R (bindP p f)"
proof -
  have "\<not> is_undefined (bindP p f code) \<and> (\<forall>x code'. bindP p f code = Inr (x, code') \<longrightarrow> R x \<and> ahead code code')" if "gp_wf code" for code
  proof (cases "p code")
    case (Inl e)
    then show ?thesis using soundD(1) [OF assms(1) that] by (simp add: bindP_def)
  next
    case (Inr xc)
    obtain x c where x: "xc = (x, c)" by force
    note h = soundD(2) [OF assms(1) that Inr [unfolded x]]
    show ?thesis using soundD [OF assms(2), of x c] h Inr x ahead_trans by (auto simp: bindP_def)
  qed
  then show ?thesis by (simp add: sound_def)
qed

lemma sound_retP: "Q x \<Longrightarrow> sound Q (retP x)"
  by (simp add: sound_def retP_def)

lemma sound_failP: "(\<And>m. e \<noteq> Undefined m) \<Longrightarrow> sound Q (failP e)"
  by (simp add: sound_def failP_def)

lemma sound_assertP: "(c \<Longrightarrow> sound Q p) \<Longrightarrow> (\<And>m. e \<noteq> Undefined m) \<Longrightarrow> sound Q (assertP c e p)"
  by (simp add: assertP_def sound_failP)

lemma sound_liftP: "\<not> is_undefined r \<Longrightarrow> (\<And>x. r = Inr x \<Longrightarrow> Q x) \<Longrightarrow> sound Q (liftP r)"
  by (cases r) (auto simp: sound_def liftP_def)

lemma sound_if: "(c \<Longrightarrow> sound Q p) \<Longrightarrow> (\<not> c \<Longrightarrow> sound Q q) \<Longrightarrow> sound Q (if c then p else q)"
  by simp

lemma sound_prod: "(\<And>a b. x = (a, b) \<Longrightarrow> sound Q (f a b)) \<Longrightarrow> sound Q (case x of (a, b) \<Rightarrow> f a b)"
  by (simp split: prod.split)

lemma sound_option: "(x = None \<Longrightarrow> sound Q p) \<Longrightarrow> (\<And>a. x = Some a \<Longrightarrow> sound Q (f a)) \<Longrightarrow> sound Q (case x of None \<Rightarrow> p | Some a \<Rightarrow> f a)"
  by (simp split: option.split)

lemma parse_err_defined [simp]: "parse_err msg \<noteq> Undefined m" "bad_utf8 \<noteq> Undefined m"
  by (simp_all add: parse_err_def bad_utf8_def)

lemma deref_sound: "gp_wf code \<Longrightarrow> \<not> is_undefined (gp_deref code)" "\<not> is_undefined (gp_incr code)"
    "\<not> is_undefined (gp_plus code n)" "\<not> is_undefined (gp_shrink code n)" "\<not> is_undefined (gp_consumed b code n)"
  by (simp_all add: gp_deref_defined gp_incr_def gp_plus_def gp_shrink_def gp_consumed_def is_undefined_assertR)

lemma sound_bytes:
  "sound (\<lambda>b. True) read_byte" "sound (\<lambda>b. True) peek_byte" "sound (\<lambda>u. True) skip_byte" "sound (\<lambda>u. True) (advance n)"
  "sound (\<lambda>n. True) remaining" "sound (\<lambda>n. True) offsetP" "sound (\<lambda>e. True) at_end"
  by (rule soundI; auto intro: tame_intros simp: read_byte_def peek_byte_def skip_byte_def advance_def remaining_def offsetP_def at_end_def
      is_undefined_bindR deref_sound)+

lemma sound_numbers:
  "sound (\<lambda>v. True) parse_varuint1" "sound (\<lambda>v. True) parse_varuint32" "sound (\<lambda>v. True) parse_varuint64"
  "sound (\<lambda>v. True) parse_varint32" "sound (\<lambda>v. True) parse_varint64"
  by (rule soundI; auto intro: tame_intros simp: parse_varuint1_def parse_varuint32_def parse_varuint64_def parse_varint32_def
      parse_varint64_def is_undefined_bindR varuint_code_defined varint_code_defined)+

lemma sound_many: "sound Q p \<Longrightarrow> sound (\<lambda>xs. list_all Q xs \<and> length xs = n) (manyP n p)"
proof (induction n)
  case (Suc n)
  show ?case unfolding manyP.simps by (rule sound_bindP [OF Suc.prems], rule sound_bindP [OF Suc.IH [OF Suc.prems]], rule sound_retP) auto
qed (auto intro: sound_retP)

lemma sound_repeat: "Q s \<Longrightarrow> (\<And>s. Q s \<Longrightarrow> sound Q (f s)) \<Longrightarrow> sound Q (repeatP n f s)"
  by (induction n arbitrary: s) (auto intro: sound_retP sound_bindP)

lemma shrink_wf: "gp_wf g \<Longrightarrow> gp_shrink g n = Inr (g', old) \<Longrightarrow> gp_wf g' \<and> raw_ptr g' = raw_ptr g \<and> bnds g' = raw_ptr g + n \<and> gp_buf g' = gp_buf g"
  using gp_shrink_wf [of g n g' old] gp_shrink_ptr [of g n g' old] by simp

lemma raw_bytes_at_wf:
  assumes "gp_wf c" and "bnds c = raw_ptr c + n"
  shows "raw_bytes_at n c = Inr (take n (drop (raw_ptr c) (gp_buf c)), c) \<and> length (take n (drop (raw_ptr c) (gp_buf c))) = n"
  using assms by (auto simp: raw_bytes_at_def gp_wf_def)

lemma sound_shrink_raw:
  assumes "\<And>xs. length xs = n \<Longrightarrow> sound Q (f xs)" and "\<And>xs. tame (f xs)"
  shows "sound Q (scoped_shrink_bounds n (bindP (raw_bytes_at n) f))"
proof (rule soundI)
  show "tame (scoped_shrink_bounds n (bindP (raw_bytes_at n) f))" by (intro tame_intros assms(2))
next
  fix code
  assume w: "gp_wf code"
  have "\<not> is_undefined (bindP (raw_bytes_at n) f c)" if c: "gp_shrink code n = Inr (c, old)" for c old
    using shrink_wf [OF w c] soundD(1) [OF assms(1), of "take n (drop (raw_ptr c) (gp_buf c))" c] raw_bytes_at_wf [of c n] by (auto simp: bindP_def)
  then show "\<not> is_undefined (scoped_shrink_bounds n (bindP (raw_bytes_at n) f) code)"
    by (auto simp: scoped_shrink_bounds_def is_undefined_bindR deref_sound)
next
  fix code x code'
  assume w: "gp_wf code" and "scoped_shrink_bounds n (bindP (raw_bytes_at n) f) code = Inr (x, code')"
  then obtain c old d where c: "gp_shrink code n = Inr (c, old)" "bindP (raw_bytes_at n) f c = Inr (x, d)"
    by (auto simp: scoped_shrink_bounds_def res_simps)
  then show "Q x"
    using shrink_wf [OF w c(1)] soundD(2) [OF assms(1), of "take n (drop (raw_ptr c) (gp_buf c))" c x d] raw_bytes_at_wf [of c n]
    by (auto simp: bindP_def)
qed

lemma sound_consume:
  assumes "sound Q p" and "tame p"
  shows "sound Q (scoped_consume_items n p)"
proof (rule soundI)
  show "tame (scoped_consume_items n p)" by (intro tame_intros assms(2))
next
  fix code
  assume w: "gp_wf code"
  have "\<not> is_undefined (p c)" if "gp_shrink code n = Inr (c, old)" for c old
    using soundD(1) [OF assms(1)] shrink_wf [OF w that] by blast
  then show "\<not> is_undefined (scoped_consume_items n p code)"
    by (auto simp: scoped_consume_items_def is_undefined_bindR deref_sound)
next
  fix code x code'
  assume w: "gp_wf code" and "scoped_consume_items n p code = Inr (x, code')"
  then obtain c old d where c: "gp_shrink code n = Inr (c, old)" "p c = Inr (x, d)" by (auto simp: scoped_consume_items_def res_simps)
  show "Q x" using soundD(2) [OF assms(1) _ c(2)] shrink_wf [OF w c(1)] by blast
qed

lemma sound_raw: "sound (\<lambda>v. True) (parse_raw n)"
proof (rule soundI)
  fix code
  assume w: "gp_wf code"
  have "raw_ptr c + n \<le> length (gp_buf c)" if "gp_shrink code n = Inr (c, old)" for c old
    using shrink_wf [OF w that] by (auto simp: gp_wf_def)
  then show "\<not> is_undefined (parse_raw n code)" by (auto simp: parse_raw_def is_undefined_bindR deref_sound)
qed (auto intro: tame_intros)

lemma read_byte_wf: "gp_wf code \<Longrightarrow> read_byte code = Inr (b, code') \<Longrightarrow> gp_wf code'"
  using soundD(2) [OF sound_bytes(1)] by blast

lemma sound_skip_leb: "sound (\<lambda>u. True) skip_lebP"
proof -
  have "gp_wf code \<Longrightarrow> \<not> is_undefined (skip_leb code)" for code
  proof (induction code rule: skip_leb.induct)
    case (1 code)
    show ?case
      using 1(1) read_byte_wf [OF 1(2)] soundD(1) [OF sound_bytes(1) 1(2)]
      by (subst skip_leb.simps) (auto simp: is_undefined_bindR)
  qed
  then show ?thesis by (intro soundI tame_intros) (auto simp: skip_lebP_def is_undefined_bindR)
qed

lemmas sound_rules = sound_bindP sound_retP sound_failP sound_assertP sound_if sound_prod sound_option sound_bytes sound_numbers
  sound_raw sound_skip_leb sound_consume

lemma sound_code_point: "sound (\<lambda>n. 0 < n) validate_utf8_code_point"
proof -
  have c: "sound (\<lambda>b. True) continuation" unfolding continuation_def by (rule TrueI sound_rules | simp)+
  have "sound (\<lambda>n. True) validate_utf8_code_point"
    unfolding validate_utf8_code_point_def Let_def by (rule TrueI sound_rules c | simp)+
  then show ?thesis using code_point_size by (auto simp: sound_def)
qed

lemma sound_utf8: "sound (\<lambda>u. True) (validate_utf8_string n)"
proof -
  have "gp_wf code \<Longrightarrow> \<not> is_undefined (validate_utf8_string n code)" for code
  proof (induction n code rule: validate_utf8_string.induct)
    case (1 n code)
    then show ?case
      using soundD [OF sound_code_point 1(2)]
      by (subst validate_utf8_string.simps) (auto simp: is_undefined_bindR is_undefined_assertR)
  qed
  then show ?thesis by (intro soundI tame_intros) auto
qed

lemma sound_string: "sound (\<lambda>s. True) (parse_utf8_string n)"
  unfolding parse_utf8_string_def
  by (rule TrueI sound_rules sound_shrink_raw sound_utf8 tame_intros | simp)+

subsection \<open>Constant expressions\<close>

text \<open>
  An initialiser of a single instruction has the type it is for; a global it refers to is declared before and immutable.
\<close>

definition init_ok :: "global_variable list \<Rightarrow> u8 \<Rightarrow> nat \<Rightarrow> init_expr \<Rightarrow> bool" where
  "init_ok gs ty n ie \<longleftrightarrow>
     (if raw_expr ie \<noteq> [] then ty = ty_i32 \<or> ty = ty_i64
      else
        (ie_opcode ie = 0x41 \<and> ty = ty_i32) \<or> (ie_opcode ie = 0x42 \<and> ty = ty_i64) \<or> (ie_opcode ie = 0x43 \<and> ty = ty_f32) \<or>
        (ie_opcode ie = 0x44 \<and> ty = ty_f64) \<or> (ie_opcode ie = 0xFD \<and> ty = ty_v128) \<or>
        (ie_opcode ie = 0xD0 \<and> (ty = ty_funcref \<or> ty = ty_externref)) \<or> (ie_opcode ie = 0xD2 \<and> ty = ty_funcref) \<or>
        (ie_opcode ie = 0x23 \<and>
          (let i = unat (ucast (ie_value ie) :: u32) in
           i < n \<and> \<not> mutability (gtype (gs ! i)) \<and> content_type (gtype (gs ! i)) = ty)))"

lemma sound_global:
  assumes "n \<le> length (w_globals (wmod p))"
  shows "sound (\<lambda>i. unat i < n \<and> \<not> mutability (gtype (w_globals (wmod p) ! unat i))) (immutable_global p n)"
proof -
  have g: "sound (\<lambda>g. g = gtype (w_globals (wmod p) ! unat i)) (liftP (global_at p i))" if "unat i < n" for i
    using that assms by (intro sound_liftP) (auto simp: global_at_def)
  show ?thesis unfolding immutable_global_def by (rule sound_rules g | simp)+
qed

lemma sound_const_instr:
  assumes "n \<le> length (w_globals (wmod p))"
  shows "sound (\<lambda>d. True) (const_instr p n d)"
  unfolding const_instr_def by (rule TrueI sound_rules sound_global [OF assms] | simp)+

lemma sound_const_loop:
  assumes "n \<le> length (w_globals (wmod p))"
  shows "sound (\<lambda>d. True) (const_loop p n d)"
proof -
  have "gp_wf code \<Longrightarrow> \<not> is_undefined (const_loop p n d code)" for code
    using assms
  proof (induction p n d code rule: const_loop.induct)
    case (1 p n d code)
    note i = soundD [OF sound_const_instr [OF 1(3)] 1(2)]
    show ?case
      using 1(1,3) i deref_sound(1) [OF 1(2)] by (subst const_loop.simps) (auto simp: is_undefined_bindR)
  qed
  then show ?thesis by (intro soundI tame_intros) auto
qed

lemma ucast_u128 [simp]: "(ucast (ucast (x :: u32) :: u128) :: u32) = x"
  by (rule bit_word_eqI) (simp add: bit_simps)

lemma sound_simple_expr:
  assumes "n \<le> length (w_globals (wmod p))"
  shows "sound (\<lambda>ie. raw_expr ie = [] \<and>
    (ie_opcode ie = 0x41 \<or> ie_opcode ie = 0x42 \<or> init_ok (w_globals (wmod p)) ty n ie \<or>
     ie_opcode ie = 0x23 \<and> unat (ucast (ie_value ie) :: u32) < n \<and>
       \<not> mutability (gtype (w_globals (wmod p) ! unat (ucast (ie_value ie) :: u32))))) (simple_expr opt p ty n)"
  unfolding simple_expr_def Let_def
  by (rule sound_rules sound_global [OF assms] | simp add: init_ok_def)+

lemma sound_init_expr:
  assumes "n \<le> length (w_globals (wmod p))"
  shows "sound (init_ok (w_globals (wmod p)) ty n) (parse_init_expr opt p ty n)"
proof (rule soundI)
  fix code
  assume w: "gp_wf code"
  note s = soundD [OF sound_simple_expr [OF assms] w]
  have "\<not> is_undefined (check_simple p ty ie)" if "simple_expr opt p ty n code = Inr (ie, c)" for ie c
    using s(2) [OF that] assms
    by (auto simp: check_simple_def is_undefined_assertR is_undefined_bindR global_at_def init_ok_def Let_def)
  then show "\<not> is_undefined (parse_init_expr opt p ty n code)"
    using s soundD(1) [OF sound_const_loop [OF assms]]
    by (auto simp: parse_init_expr_def is_undefined_bindR is_undefined_assertR deref_sound)
next
  fix code ie code'
  assume w: "gp_wf code" and r: "parse_init_expr opt p ty n code = Inr (ie, code')"
  obtain i c where i: "simple_expr opt p ty n code = Inr (i, c)" using r by (auto simp: parse_init_expr_def res_simps)
  note s = soundD(2) [OF sound_simple_expr [OF assms] w i]
  show "init_ok (w_globals (wmod p)) ty n ie"
  proof (cases "gp_deref c = Inr 0x0B")
    case True
    then have "ie = i" "check_simple p ty i = Inr ()" using r i by (auto simp: parse_init_expr_def res_simps)
    then show ?thesis using s by (auto simp: check_simple_def init_ok_def global_at_def Let_def res_simps split: if_splits)
  next
    case False
    obtain c2 c3 where c: "const_loop p n 1 c = Inr (1, c2)" "gp_incr c2 = Inr c3" "ty = ty_i32 \<or> ty = ty_i64"
        and ie: "ie = i\<lparr>raw_expr := take (raw_ptr c3 - raw_ptr code) (drop (raw_ptr code) (gp_buf c3)), ie_opcode := 0x41\<rparr>"
      using r i False by (auto simp: parse_init_expr_def res_simps split: if_splits)
    have "ahead code c2" using s tameD [OF tame_const(3) c(1)] ahead_trans by blast
    then have "raw_ptr code < raw_ptr c3" "raw_ptr c3 \<le> length (gp_buf c3)" using c(2) w by (auto simp: gp_incr_def res_simps ahead_def gp_wf_def)
    then have "raw_expr ie \<noteq> []" by (simp add: ie)
    then show ?thesis using c(3) by (simp add: init_ok_def)
  qed
qed (rule tame_intros)

subsection \<open>Declarations\<close>

lemma sound_type: "sound valid (typeP valid msg)"
  unfolding typeP_def by (rule sound_rules | simp)+

lemma numeric_value_type: "numeric_or_ref opt t \<Longrightarrow> value_type t" "value_type ty_exnref"
  by (auto simp: numeric_or_ref_def value_type_def)

definition parsed_type :: "func_type \<Rightarrow> bool" where
  "parsed_type ft \<longleftrightarrow> func_type_ok ft \<and> length (param_types ft) < 2 ^ 32"

lemma sound_func_type: "sound parsed_type (parse_func_type opt)"
proof -
  have r: "n \<le> 16 \<Longrightarrow> unat (n :: u32) \<le> 16" for n by (simp add: word_le_nat_alt)
  show ?thesis
    unfolding parse_func_type_def
    by (rule sound_rules sound_many sound_type
        | force simp: parsed_type_def func_type_ok_def list_all_iff numeric_value_type dest: r intro: unat_bound [where 'a = 32, simplified])+
qed

definition table_ok :: "table_type \<Rightarrow> bool" where
  "table_ok t \<longleftrightarrow> (element_type t = ty_funcref \<or> element_type t = ty_externref) \<and>
     (lim_flags (table_limits t) \<longrightarrow> lim_initial (table_limits t) \<le> lim_maximum (table_limits t))"

definition memory_ok :: "parse_options \<Rightarrow> memory_type \<Rightarrow> bool" where
  "memory_ok opt t \<longleftrightarrow> lim_initial (memory_limits t) \<le> 65536 \<and> lim_initial (memory_limits t) \<le> max_pages_allowed opt \<and>
     (lim_flags (memory_limits t) \<longrightarrow> lim_initial (memory_limits t) \<le> lim_maximum (memory_limits t) \<and> lim_maximum (memory_limits t) \<le> 65536)"

lemma sound_reftype: "sound (\<lambda>(t, n). t = ty_funcref \<or> t = ty_externref) parse_reftype"
  unfolding parse_reftype_def by (rule sound_rules | force)+

lemma sound_table_type:
  "sound (\<lambda>(t, p'). table_ok t \<and> wmod p' = wmod p \<and> function_bodies p' = function_bodies p) (parse_table_type opt p)"
proof -
  have pre: "sound (\<lambda>b. True) table_prefix" unfolding table_prefix_def by (rule TrueI sound_rules | simp)+
  have fl: "sound (\<lambda>b. True) parse_flags" unfolding parse_flags_def by (rule TrueI sound_rules | simp)+
  have mx: "sound (\<lambda>mx. f \<noteq> 0 \<longrightarrow> initial \<le> mx) (if f \<noteq> 0 then bindP parse_varuint32 (\<lambda>mx.
              assertP (initial \<le> mx) (parse_err msg) (retP mx)) else retP 0)" for f :: u8 and initial msg
    by (rule sound_rules | simp)+
  show ?thesis
    unfolding parse_table_type_def Let_def
    by (rule pre fl mx sound_reftype sound_init_expr sound_rules | simp add: table_ok_def)+
qed

lemma sound_memory_type: "sound (memory_ok opt) (parse_memory_type opt)"
proof -
  have c: "sound (\<lambda>n. True) (memory_count b msg)" for b msg
    unfolding memory_count_def by (rule TrueI sound_rules | simp)+
  have mx: "sound (\<lambda>mx. f \<longrightarrow> initial \<le> mx \<and> mx \<le> 65536) (if f then bindP (memory_count b m1) (\<lambda>mx.
      assertP (initial \<le> mx) (parse_err m2) (assertP (mx \<le> 65536) (parse_err m3) (retP mx))) else retP 0)" for f b m1 m2 m3 initial
    by (rule sound_rules c | simp)+
  show ?thesis unfolding parse_memory_type_def Let_def by (rule mx c sound_rules | simp add: memory_ok_def)+
qed

text \<open>
  The parts of a module, in terms of those declared before. A function type, a table or a memory is well-formed by itself.
\<close>

definition globals_ok :: "global_variable list \<Rightarrow> bool" where
  "globals_ok gs \<longleftrightarrow> list_all (\<lambda>i. value_type (content_type (gtype (gs ! i))) \<and>
     (ginit (gs ! i) = no_expr \<or> init_ok gs (content_type (gtype (gs ! i))) i (ginit (gs ! i)))) [0..<length gs]"

definition exports_ok :: "wasm_module \<Rightarrow> bool" where
  "exports_ok w \<longleftrightarrow> distinct (map exp_field (w_exports w)) \<and>
     list_all (\<lambda>e. case export_range w (exp_kind e) of None \<Rightarrow> False | Some (n, msg) \<Rightarrow> unat (exp_index e) < n) (w_exports w)"

definition start_ok :: "wasm_module \<Rightarrow> bool" where
  "start_ok w \<longleftrightarrow> w_start w = - 1 \<or>
     (case get_function_type (core w) (unat (w_start w)) of Inl e \<Rightarrow> False | Inr ft \<Rightarrow> param_types ft = [] \<and> return_types ft = [])"

definition entry_ok :: "wasm_module \<Rightarrow> table_entry \<Rightarrow> bool" where
  "entry_ok w t \<longleftrightarrow> te_type t = - 1 \<or> unat (te_index t) < get_functions_total (core w)"

definition elem_ok_in :: "wasm_module \<Rightarrow> elem_segment \<Rightarrow> bool" where
  "elem_ok_in w e \<longleftrightarrow>
     (es_mode e = elem_active \<longrightarrow> unat (es_index e) < length (w_tables w) \<and> es_type e = element_type (w_tables w ! unat (es_index e)) \<and>
        init_ok (w_globals w) ty_i32 (length (w_globals w)) (es_offset e)) \<and>
     list_all (entry_ok w) (es_elems e)"

text \<open>Without bulk memory the flag of an active segment is kept as its index, whatever it is.\<close>

definition data_ok_in :: "parse_options \<Rightarrow> wasm_module \<Rightarrow> data_segment \<Rightarrow> bool" where
  "data_ok_in opt w d \<longleftrightarrow> ds_passive d \<or>
     w_memories w \<noteq> [] \<and> (enable_bulk_memory opt \<longrightarrow> unat (ds_index d) < length (w_memories w)) \<and>
     init_ok (w_globals w) ty_i32 (length (w_globals w)) (ds_offset d)"

definition bodies_ok :: "wasm_module \<Rightarrow> bool" where
  "bodies_ok w \<longleftrightarrow> list_all (\<lambda>b. list_all (\<lambda>l. value_type (local_type l)) (locals b)) (w_code w)"

definition valid_module :: "parse_options \<Rightarrow> wasm_module \<Rightarrow> bool" where
  "valid_module opt w \<longleftrightarrow>
     list_all parsed_type (w_types w) \<and> list_all (\<lambda>t. t < length (w_types w)) (func_imports (w_imports w)) \<and>
     list_all (\<lambda>t. unat t < length (w_types w)) (w_functions w) \<and> list_all table_ok (w_tables w) \<and>
     list_all (memory_ok opt) (w_memories w) \<and> list_all (\<lambda>t. unat (type_index t) < length (w_types w)) (w_tags w) \<and>
     globals_ok (w_globals w) \<and> exports_ok w \<and> start_ok w \<and> list_all (elem_ok_in w) (w_elements w) \<and> bodies_ok w \<and>
     list_all (data_ok_in opt w) (w_data w)"

lemma init_ok_append: "init_ok gs ty n ie \<Longrightarrow> n \<le> length gs \<Longrightarrow> init_ok (gs @ hs) ty n ie"
  by (auto simp: init_ok_def Let_def nth_append split: if_splits)

lemma globals_ok_snoc:
  assumes "globals_ok gs" and "value_type (content_type (gtype g))"
    and "ginit g = no_expr \<or> init_ok gs (content_type (gtype g)) (length gs) (ginit g)"
  shows "globals_ok (gs @ [g])"
  using assms by (auto simp: globals_ok_def list_all_length nth_append less_Suc_eq intro: init_ok_append)

lemma sound_global_variable:
  assumes "globals_ok (w_globals (wmod p))"
  shows "sound (\<lambda>g. globals_ok (w_globals (wmod p) @ [g])) (parse_global_variable opt p (length (w_globals (wmod p))))"
  unfolding parse_global_variable_def
  by (rule sound_rules sound_type sound_init_expr | simp add: globals_ok_snoc [OF assms] numeric_value_type)+

subsection \<open>Sections in order\<close>

text \<open>
  The code of a module, once it has been written: the bytes handed to the writer are those the parser has measured, and
  what the writer returned is in the module.
\<close>

definition bodies_match :: "u8 list list \<Rightarrow> module \<Rightarrow> bool" where
  "bodies_match bs m \<longleftrightarrow> list_all2 (\<lambda>b f. length b = unat (body_bytes f)) bs (body_list m)"

definition coded :: "code_writer \<Rightarrow> parse_options \<Rightarrow> wasm_module \<Rightarrow> bool" where
  "coded wco opt w \<longleftrightarrow> (w_code w = [] \<and> w_segment w = []) \<or>
     (\<exists>bs m m'. bodies_match bs m \<and> wco (options.truncate opt) bs m = Inr (m', w_segment w) \<and> same_static m (core w) \<and>
        w_code w = body_list m' \<and> w_maximum_stack w = maximum_stack m')"

lemma coded_empty [simp]: "w_code w = [] \<Longrightarrow> w_segment w = [] \<Longrightarrow> coded wco opt w"
  by (simp add: coded_def)

lemma coded_unrelated [simp]: "coded wco opt (w\<lparr>w_data := d\<rparr>) = coded wco opt w" "coded wco opt (w\<lparr>w_names := n\<rparr>) = coded wco opt w"
  by (simp_all add: coded_def core_def)

text \<open>
  A section with a later place in the order has not been read yet. \<open>h\<close> is \<open>highest_section_id\<close>.
\<close>

definition stage :: "code_writer \<Rightarrow> parse_options \<Rightarrow> nat \<Rightarrow> binary_parser \<Rightarrow> bool" where
  "stage wco opt h p \<longleftrightarrow> valid_module opt (wmod p) \<and> coded wco opt (wmod p) \<and>
     (h < 2 \<longrightarrow> w_imports (wmod p) = [] \<and> w_tables (wmod p) = [] \<and> w_memories (wmod p) = [] \<and> w_globals (wmod p) = [] \<and>
        w_tags (wmod p) = []) \<and>
     (h < 3 \<longrightarrow> w_functions (wmod p) = []) \<and> (h < 8 \<longrightarrow> w_exports (wmod p) = []) \<and> (h < 9 \<longrightarrow> w_start (wmod p) = - 1) \<and>
     (h < 10 \<longrightarrow> w_elements (wmod p) = []) \<and> (h < 12 \<longrightarrow> w_code (wmod p) = [] \<and> w_segment (wmod p) = [] \<and> function_bodies p = []) \<and>
     (h < 13 \<longrightarrow> w_data (wmod p) = [])"

lemma on_mod_simps [simp]:
  "wmod (on_mod f p) = f (wmod p)" "function_bodies (on_mod f p) = function_bodies p" "fast_functions (on_mod f p) = fast_functions p"
  "datacount (on_mod f p) = datacount p" "branch_hints_temp (on_mod f p) = branch_hints_temp p"
  by (simp_all add: on_mod_def)

lemma stage_init: "stage wco opt 0 parser_init"
  by (simp add: stage_def parser_init_def valid_module_def globals_ok_def exports_ok_def start_ok_def bodies_ok_def)

lemmas valid_defs = stage_def valid_module_def exports_ok_def start_ok_def bodies_ok_def

lemma sound_count: "sound (\<lambda>n. True) (section_count k)"
  unfolding section_count_def by (rule TrueI sound_rules | simp)+

lemma sound_section_impl:
  assumes "sound Q p"
  shows "sound (list_all Q) (parse_section_impl k p)"
  unfolding parse_section_impl_def
  by (rule sound_bindP [OF sound_count], rule sound_mono [OF sound_many [OF assms]]) simp

lemma sound_type_section:
  assumes "stage wco opt h p" and "h < 1"
  shows "sound (stage wco opt 1) (type_section opt p)"
  unfolding type_section_def
  by (rule sound_bindP [OF sound_section_impl [OF sound_func_type]], rule sound_retP) (use assms in \<open>simp add: valid_defs globals_ok_def\<close>)

text \<open>While imports are read, the list of imports is still empty.\<close>

definition importing :: "code_writer \<Rightarrow> parse_options \<Rightarrow> binary_parser \<Rightarrow> binary_parser \<Rightarrow> bool" where
  "importing wco opt p0 p \<longleftrightarrow> stage wco opt 2 p \<and> w_imports (wmod p) = [] \<and> w_types (wmod p) = w_types (wmod p0)"

definition import_fits :: "binary_parser \<Rightarrow> import_kind \<Rightarrow> bool" where
  "import_fits p k \<longleftrightarrow> (case k of Func_import t \<Rightarrow> t < length (w_types (wmod p)) | _ \<Rightarrow> True)"

lemma sound_import_entry:
  assumes i: "importing wco opt p0 p"
  shows "sound (\<lambda>(e, p'). import_fits p0 (ikind e) \<and> importing wco opt p0 p') (parse_import_entry opt p)"
proof -
  let ?Q = "\<lambda>(k, p'). import_fits p0 k \<and> importing wco opt p0 p'"
  have g: "globals_ok (w_globals (wmod p))" using i by (simp add: importing_def valid_defs)
  have "sound ?Q (import_function p)"
    unfolding import_function_def by (rule sound_rules | use i in \<open>simp add: import_fits_def importing_def\<close>)+
  moreover have "sound ?Q (import_table opt p)"
    unfolding import_table_def
    by (rule sound_bindP [OF sound_table_type]) (rule sound_rules | use i in \<open>force simp: import_fits_def importing_def valid_defs\<close>)+
  moreover have "sound ?Q (import_memory opt p)"
    unfolding import_memory_def
    by (rule sound_bindP [OF sound_memory_type]) (rule sound_rules | use i in \<open>force simp: import_fits_def importing_def valid_defs\<close>)+
  moreover have "sound ?Q (import_global opt p)"
    unfolding import_global_def Let_def
    by (rule sound_rules sound_type
        | use i in \<open>simp add: import_fits_def importing_def valid_defs globals_ok_snoc [OF g] numeric_value_type\<close>)+
  moreover have "sound ?Q (import_tag opt p)"
    unfolding import_tag_def by (rule sound_rules | use i in \<open>simp add: import_fits_def importing_def valid_defs\<close>)+
  ultimately have k: "sound ?Q (if kind = 0 then import_function p else if kind = 1 then import_table opt p
      else if kind = 2 then import_memory opt p else if kind = 3 then import_global opt p else if kind = 4 then import_tag opt p
      else failP (wasm_unsupported_import_exception ''unsupported import kind''))" for kind :: u8
    by (auto intro: sound_failP)
  show ?thesis unfolding parse_import_entry_def by (rule k sound_string sound_rules | force)+
qed

lemma sound_import_section:
  assumes "stage wco opt h p" and "h < 2"
  shows "sound (stage wco opt 2) (import_section opt p)"
proof -
  let ?Q = "\<lambda>(p', es). importing wco opt p p' \<and> list_all (\<lambda>t. t < length (w_types (wmod p))) (func_imports es)"
  have f: "func_imports (es @ [e]) = func_imports es @ (case ikind e of Func_import t \<Rightarrow> [t] | _ \<Rightarrow> [])" for es e
    by (induction es) (auto split: import_kind.split)
  have s: "sound ?Q (import_step opt s)" if q: "?Q s" for s
  proof -
    obtain p1 es where s: "s = (p1, es)" by force
    have i: "importing wco opt p p1" using q s by simp
    show ?thesis
      unfolding import_step_def s prod.case
      by (rule sound_bindP [OF sound_import_entry [OF i]], rule sound_prod, rule sound_retP)
         (use q s in \<open>auto simp: f import_fits_def split: import_kind.split_asm\<close>)
  qed
  have "sound ?Q (repeatP n (import_step opt) (p, []))" for n
    by (rule sound_repeat [OF _ s]) (use assms in \<open>auto simp: importing_def stage_def\<close>)
  then show ?thesis
    unfolding import_section_def
    by (intro sound_bindP [OF sound_count] sound_bindP, assumption, intro sound_prod sound_retP)
       (auto simp: importing_def valid_defs)
qed

lemma mapR_eq_Inr: "mapR f xs = Inr ys \<longleftrightarrow> list_all2 (\<lambda>x y. f x = Inr y) xs ys"
  by (induction xs arbitrary: ys) (auto simp: res_simps list_all2_Cons1)

lemma mapR_defined: "(\<And>x. x \<in> set xs \<Longrightarrow> \<not> is_undefined (f x)) \<Longrightarrow> \<not> is_undefined (mapR f xs)"
  by (induction xs) (auto simp: is_undefined_bindR)

lemma alias_loop_length [simp]: "length (alias_loop ts is hs) = length is"
  by (induction "is" arbitrary: hs) (simp_all add: Let_def)

lemma normalize_defined: "\<not> is_undefined (normalize_types p)"
  by (auto simp: normalize_types_def Let_def is_undefined_bindR is_undefined_assertR at_def intro!: mapR_defined)

lemma normalize_keeps:
  assumes "normalize_types p = Inr p'"
  shows "wmod p' = wmod p \<and> function_bodies p' = function_bodies p \<and> list_all (\<lambda>t. unat t < length (w_types (wmod p))) (w_functions (wmod p))"
  using assms
  by (auto simp: normalize_types_def Let_def res_simps mapR_eq_Inr list_all2_conv_all_nth list_all_length)

lemma sound_function_section:
  assumes "stage wco opt h p" and "h < 3"
  shows "sound (stage wco opt 3) (function_section opt p)"
  unfolding function_section_def
  by (rule sound_bindP [OF sound_section_impl [OF sound_numbers(2)]], rule sound_liftP [OF normalize_defined], drule normalize_keeps)
     (use assms in \<open>simp add: valid_defs\<close>)

lemma sound_table_section:
  assumes "stage wco opt h p" and "h < 4"
  shows "sound (stage wco opt 4) (table_section opt p)"
proof -
  have s: "sound (stage wco opt 4) (table_step opt p)" if "stage wco opt 4 p" for p
    unfolding table_step_def
    by (rule sound_bindP [OF sound_table_type], rule sound_prod, rule sound_retP) (use that in \<open>auto simp: valid_defs\<close>)
  show ?thesis
    unfolding table_section_def by (rule sound_bindP [OF sound_count], rule sound_repeat [OF _ s]) (use assms in \<open>auto simp: stage_def\<close>)
qed

lemma sound_memory_section:
  assumes "stage wco opt h p" and "h < 5"
  shows "sound (stage wco opt 5) (memory_section opt p)"
  unfolding memory_section_def
  by (rule sound_bindP [OF sound_numbers(2)], rule sound_assertP, rule sound_assertP, rule sound_bindP [OF sound_many [OF sound_memory_type]],
      rule sound_retP) (use assms in \<open>auto simp: valid_defs\<close>)

lemma sound_tag_section:
  assumes "stage wco opt h p" and "h < 6"
  shows "sound (stage wco opt 6) (tag_section opt p)"
proof -
  have e: "sound (\<lambda>t. unat (type_index t) < length (w_types (wmod p))) (tag_entry opt p)"
    unfolding tag_entry_def by (rule sound_rules | simp)+
  show ?thesis
    unfolding tag_section_def by (rule sound_bindP [OF sound_section_impl [OF e]], rule sound_retP) (use assms in \<open>auto simp: valid_defs\<close>)
qed

lemma sound_global_section:
  assumes "stage wco opt h p" and "h < 7"
  shows "sound (stage wco opt 7) (global_section opt p)"
proof -
  have s: "sound (stage wco opt 7) (global_step opt p)" if "stage wco opt 7 p" for p
  proof -
    have g: "globals_ok (w_globals (wmod p))" using that by (simp add: valid_defs)
    show ?thesis
      unfolding global_step_def
      by (rule sound_bindP [OF sound_global_variable [OF g]], rule sound_retP) (use that in \<open>auto simp: valid_defs\<close>)
  qed
  show ?thesis
    unfolding global_section_def by (rule sound_bindP [OF sound_count], rule sound_repeat [OF _ s]) (use assms in \<open>auto simp: stage_def\<close>)
qed

lemma adjacent_find_distinct: "sorted xs \<Longrightarrow> adjacent_find xs \<longleftrightarrow> \<not> distinct xs"
proof (induction xs rule: adjacent_find.induct)
  case (1 x y xs)
  show ?case
  proof (cases "x = y")
    case False
    then have "\<forall>z \<in> set (y # xs). x \<noteq> z" using 1(2) by auto
    then show ?thesis using 1 False by auto
  qed simp
qed auto

lemma validate_exports_distinct: "validate_exports p = Inr u \<longleftrightarrow> distinct (map exp_field (w_exports (wmod p)))"
  using adjacent_find_distinct [of "sort (map exp_field (w_exports (wmod p)))"] by (simp add: validate_exports_def res_simps)

lemma sound_export_section:
  assumes "stage wco opt h p" and "h < 8"
  shows "sound (stage wco opt 8) (export_section opt p)"
proof -
  let ?in = "\<lambda>w e. case export_range w (exp_kind e) of None \<Rightarrow> False | Some (n, msg) \<Rightarrow> unat (exp_index e) < n"
  have e: "sound (?in (wmod p)) (parse_export_entry opt p)"
    unfolding parse_export_entry_def by (rule sound_string sound_rules | simp)+
  have r: "export_range (wmod p\<lparr>w_exports := es\<rparr>) k = export_range (wmod p) k" for es k
    by (simp add: export_range_def core_def get_functions_total_def get_imported_functions_size_def import_types_def)
  have v: "\<not> is_undefined (validate_exports q)" for q by (simp add: validate_exports_def is_undefined_assertR)
  show ?thesis
    unfolding export_section_def Let_def
    by (rule sound_bindP [OF sound_section_impl [OF e]], rule sound_bindP, rule sound_liftP [OF v], assumption, rule sound_retP)
       (use assms in \<open>auto simp: valid_defs validate_exports_distinct r\<close>)
qed

lemma functions_total_core [simp]: "get_functions_total (core w) = length (func_imports (w_imports w)) + length (w_functions w)"
  by (simp add: get_functions_total_def get_imported_functions_size_def import_types_def core_def)

lemma function_type_core:
  "w_types v = w_types w \<Longrightarrow> w_imports v = w_imports w \<Longrightarrow> w_functions v = w_functions w \<Longrightarrow>
   get_function_type (core v) = get_function_type (core w)"
  by (simp add: fun_eq_iff core_def get_function_type_def get_imported_functions_size_def import_types_def types_at_def)

text \<open>The last sections do not change what the others are checked against.\<close>

definition same_decls :: "wasm_module \<Rightarrow> wasm_module \<Rightarrow> bool" where
  "same_decls v w \<longleftrightarrow> w_types v = w_types w \<and> w_imports v = w_imports w \<and> w_functions v = w_functions w \<and> w_tables v = w_tables w \<and>
     w_memories v = w_memories w \<and> w_globals v = w_globals w \<and> w_tags v = w_tags w"

lemma same_decls_parts:
  assumes "same_decls v w"
  shows "export_range v = export_range w" "w_exports v = w_exports w \<Longrightarrow> exports_ok v = exports_ok w"
    "w_start v = w_start w \<Longrightarrow> start_ok v = start_ok w" "elem_ok_in v = elem_ok_in w" "data_ok_in opt v = data_ok_in opt w"
proof -
  show r: "export_range v = export_range w" using assms by (simp add: fun_eq_iff export_range_def same_decls_def)
  show "w_exports v = w_exports w \<Longrightarrow> exports_ok v = exports_ok w" by (simp add: exports_ok_def r)
  have "get_function_type (core v) = get_function_type (core w)" using assms by (intro function_type_core) (simp_all add: same_decls_def)
  then show "w_start v = w_start w \<Longrightarrow> start_ok v = start_ok w" by (simp add: start_ok_def)
  show "elem_ok_in v = elem_ok_in w" "data_ok_in opt v = data_ok_in opt w" using assms by (simp_all add: fun_eq_iff elem_ok_in_def entry_ok_def [abs_def] data_ok_in_def same_decls_def)
qed

lemma valid_same:
  assumes "valid_module opt w" and d: "same_decls v w" and "w_exports v = w_exports w" and "start_ok v"
    and "list_all (elem_ok_in w) (w_elements v)" and "bodies_ok v" and "list_all (data_ok_in opt w) (w_data v)"
  shows "valid_module opt v"
  using assms same_decls_parts [OF d] by (simp add: valid_module_def same_decls_def)

lemma sound_start_section:
  assumes s: "stage wco opt h p" and h: "h < 9"
  shows "sound (stage wco opt 9) (start_section p)"
proof -
  have "list_all (\<lambda>t. t < length (w_types (wmod p))) (func_imports (w_imports (wmod p)))" using s by (simp add: valid_defs)
  then have t: "\<not> is_undefined (get_function_type (core (wmod p)) f)" for f
    by (simp add: get_function_type_def is_undefined_assertR types_at_def get_imported_functions_size_def import_types_def core_def list_all_length)
  have "stage wco opt 9 (on_mod (\<lambda>w. w\<lparr>w_start := f\<rparr>) p)"
    if "get_function_type (core (wmod p)) (unat f) = Inr ft" "return_count ft = 0 \<and> param_types ft = []" for f ft
  proof -
    have "valid_module opt (wmod p\<lparr>w_start := f\<rparr>)"
      by (rule valid_same [of opt "wmod p"])
         (use s h that function_type_core [of "wmod p\<lparr>w_start := f\<rparr>" "wmod p"] in
           \<open>simp_all add: stage_def valid_module_def same_decls_def start_ok_def bodies_ok_def return_count_def\<close>)
    then show ?thesis using s h by (simp add: stage_def)
  qed
  note st = this
  show ?thesis
    unfolding start_section_def
    by (rule sound_bindP [OF sound_numbers(2)], rule sound_bindP, rule sound_liftP [OF t], assumption, rule sound_assertP, rule sound_retP)
       (use st in auto)
qed

lemma sound_function_entry:
  "\<not> is_undefined (function_entry p i)" "function_entry p i = Inr t \<Longrightarrow> entry_ok (wmod p) t"
  "\<not> is_undefined (elem_of_global p i)" "elem_of_global p i = Inr t \<Longrightarrow> entry_ok (wmod p) t"
  by (auto simp: function_entry_def elem_of_global_def at_def is_undefined_assertR is_undefined_bindR entry_ok_def res_simps Let_def
      split: if_splits)

lemma sound_elem_expr: "sound (entry_ok (wmod p)) (parse_elem_expr p ty)"
proof -
  have "sound (entry_ok (wmod p)) (if op = 0xD0 then
              bindP peek_byte (\<lambda>t.
              assertP (t = ty_funcref \<or> t = ty_externref) (parse_err m1)
             (assertP (t = ty) (parse_err m2)
             (bindP skip_byte (\<lambda>u. retP \<lparr>te_type = - 1, te_index = - 1\<rparr>))))
            else if op = 0xD2 then
              assertP (ty = ty_funcref) (parse_err m3)
             (bindP parse_varuint32 (\<lambda>fidx. liftP (function_entry p fidx)))
            else if op = 0x23 then bindP parse_varuint32 (\<lambda>global_idx. liftP (elem_of_global p global_idx))
            else failP (parse_err m4))" for op :: u8 and m1 m2 m3 m4
    by (rule sound_liftP sound_rules sound_function_entry(1,3) | erule sound_function_entry(2,4) | simp add: entry_ok_def)+
  note e = this
  show ?thesis unfolding parse_elem_expr_def by (rule e sound_rules | simp)+
qed

lemma sound_elem_segment:
  "sound (elem_ok_in (wmod p)) (parse_elem_segment opt p)"
proof -
  let ?w = "wmod p"
  have off: "sound (\<lambda>ie. act \<longrightarrow> init_ok (w_globals ?w) ty_i32 (length (w_globals ?w)) ie \<and> unat tidx < length (w_tables ?w))
      (if act then bindP (parse_init_expr opt p ty_i32 (length (w_globals ?w))) (\<lambda>ie.
         assertP (unat tidx < length (w_tables ?w)) (parse_err m) (retP ie)) else retP no_expr)" for act m and tidx :: u32
    by (rule sound_init_expr sound_rules | simp)+
  have idx: "sound (\<lambda>i. True) (if flags = 2 \<or> flags = 6 then parse_varuint32 else retP 0)" for flags :: u32
    by (rule TrueI sound_rules)+
  have kind: "sound (\<lambda>x. True) (elem_kind flags)" for flags
    unfolding elem_kind_def by (rule TrueI sound_rules sound_mono [OF sound_reftype] | simp)+
  have tgt: "sound (\<lambda>u. act \<longrightarrow> rt = element_type (w_tables ?w ! unat i)) (if act then liftP (check_target p i rt nn) else retP ())" for act i rt nn
    by (rule sound_liftP sound_rules | simp add: check_target_def is_undefined_assertR res_simps)+
  have el: "sound (entry_ok ?w) (if f then parse_elem_expr p rt else bindP parse_varuint32 (\<lambda>i. liftP (function_entry p i)))" for f rt
    by (rule sound_elem_expr sound_liftP sound_rules sound_function_entry(1,3) | erule sound_function_entry(2,4))+
  show ?thesis
    unfolding parse_elem_segment_def Let_def
    by (rule idx off kind tgt sound_many el sound_rules | simp add: elem_ok_in_def)+
qed

lemma sound_element_section:
  assumes s: "stage wco opt h p" and h: "h < 10"
  shows "sound (stage wco opt 10) (element_section opt p)"
proof -
  let ?keep = "\<lambda>q. wmod q = wmod p \<and> function_bodies q = function_bodies p"
  have n: "sound ?keep (if c then liftP (normalize_types p) else retP p)" for c
    by (auto intro!: sound_liftP [OF normalize_defined] sound_retP dest: normalize_keeps)
  have "stage wco opt 10 (on_mod (\<lambda>w. w\<lparr>w_elements := es\<rparr>) q)" if "?keep q" "list_all (elem_ok_in (wmod q)) es" for q es
  proof -
    have d: "same_decls (wmod p\<lparr>w_elements := es\<rparr>) (wmod p)" by (simp add: same_decls_def)
    have "valid_module opt (wmod p\<lparr>w_elements := es\<rparr>)"
      by (rule valid_same [OF _ d]) (use s that same_decls_parts [OF d] in \<open>simp_all add: stage_def valid_module_def bodies_ok_def\<close>)
    then show ?thesis using s h that by (simp add: stage_def)
  qed
  then show ?thesis
    unfolding element_section_def
    by (intro sound_bindP [OF n] sound_bindP [OF sound_section_impl [OF sound_elem_segment]] sound_retP) auto
qed

lemma sound_data_segment: "sound (data_ok_in opt (wmod p)) (parse_data_segment opt p)"
proof -
  let ?w = "wmod p"
  have h: "sound (\<lambda>(i, b, ie). b \<or>
      w_memories ?w \<noteq> [] \<and> (enable_bulk_memory opt \<longrightarrow> unat i < length (w_memories ?w)) \<and> init_ok (w_globals ?w) ty_i32 (length (w_globals ?w)) ie) (segment_head opt p)"
    unfolding segment_head_def Let_def by (rule sound_init_expr sound_rules | force)+
  show ?thesis
    unfolding parse_data_segment_def
    by (rule h sound_shrink_raw sound_rules tame_intros | simp add: data_ok_in_def)+
qed

lemma sound_data_section:
  assumes s: "stage wco opt h p" and h: "h < 13"
  shows "sound (stage wco opt 13) (data_section opt p)"
proof -
  have "stage wco opt 13 (on_mod (\<lambda>w. w\<lparr>w_data := ds\<rparr>) p)" if "list_all (data_ok_in opt (wmod p)) ds" for ds
  proof -
    have d: "same_decls (wmod p\<lparr>w_data := ds\<rparr>) (wmod p)" by (simp add: same_decls_def)
    have "valid_module opt (wmod p\<lparr>w_data := ds\<rparr>)"
      by (rule valid_same [OF _ d]) (use s that same_decls_parts [OF d] in \<open>simp_all add: stage_def valid_module_def bodies_ok_def\<close>)
    then show ?thesis using s h by (simp add: stage_def)
  qed
  then show ?thesis
    unfolding data_section_def
    by (intro sound_bindP [OF sound_section_impl [OF sound_data_segment]] sound_assertP sound_retP) auto
qed

lemma stage_update: "wmod q = wmod p \<Longrightarrow> function_bodies q = function_bodies p \<Longrightarrow> stage wco opt h p \<Longrightarrow> stage wco opt h q"
  by (simp add: stage_def)

lemma stage_mono: "stage wco opt h p \<Longrightarrow> h \<le> k \<Longrightarrow> stage wco opt k p"
  by (auto simp: stage_def)

lemma sound_data_count:
  assumes "stage wco opt h p" and "h < 11"
  shows "sound (stage wco opt 11) (data_count_section p)"
  unfolding data_count_section_def
  by (rule sound_bindP [OF sound_numbers(2)], rule sound_retP, rule stage_mono [OF stage_update [OF _ _ assms(1)]]) (use assms in auto)

lemma sound_count_within: "sound (\<lambda>n. True) (count_within msg)"
  unfolding count_within_def by (rule TrueI sound_rules | simp)+

lemma sound_name_map: "sound (\<lambda>x. True) (parse_name_map n)"
  unfolding parse_name_map_def
  by (rule sound_mono [OF sound_many], rule sound_bindP [OF sound_numbers(2)], rule sound_bindP [OF sound_string], rule sound_retP, rule TrueI) simp

lemma sound_names: "sound (\<lambda>ns. True) parse_name_section"
proof -
  have m: "sound (\<lambda>ns. True) (module_subsection ns)" for ns
    unfolding module_subsection_def by (rule TrueI sound_string sound_rules)+
  have f: "sound (\<lambda>ns. True) (function_subsection ns)" for ns
    unfolding function_subsection_def by (rule TrueI sound_count_within sound_name_map sound_rules)+
  have l: "sound (\<lambda>ns. True) (local_subsection ns)" for ns
    unfolding local_subsection_def
    by (rule sound_bindP [OF sound_count_within], rule sound_bindP [OF sound_many])
       (rule TrueI sound_count_within sound_name_map sound_rules)+
  have n: "sound (\<lambda>ns. True) (name_subsection i sub ns)" if "\<And>ns. sound (\<lambda>ns. True) (sub ns)" "\<And>ns. tame (sub ns)" for i sub ns
    unfolding name_subsection_def by (rule TrueI sound_rules that)+
  have u: "sound (\<lambda>ns. True) k \<Longrightarrow> sound (\<lambda>ns. True) (unless_end x k)" for x :: name_section and k
    unfolding unless_end_def by (rule sound_bindP [OF sound_bytes(7)]) (auto intro: sound_retP)
  have t: "tame (module_subsection ns)" "tame (function_subsection ns)" "tame (local_subsection ns)" for ns
    unfolding module_subsection_def function_subsection_def local_subsection_def parse_utf8_string_def count_within_def parse_name_map_def
    by (intro tame_intros)+
  show ?thesis
    unfolding parse_name_section_def Let_def
    by (rule u sound_bindP n [OF m t(1)] n [OF f t(2)] n [OF l t(3)] sound_failP | simp)+
qed

lemma sound_hints: "sound (\<lambda>h. True) (parse_branch_hints_section h)"
proof -
  have b: "sound (\<lambda>x. True) branch_hintP" unfolding branch_hintP_def by (rule TrueI sound_rules)+
  have f: "sound (\<lambda>h. True) (func_hintsP h)" for h
    unfolding func_hintsP_def
    by (rule sound_bindP [OF sound_numbers(2)], rule sound_bindP [OF sound_count_within], rule sound_bindP [OF sound_many [OF b]])
       (rule sound_retP TrueI)+
  show ?thesis
    unfolding parse_branch_hints_section_def by (rule sound_bindP [OF sound_count_within], rule sound_repeat) (auto intro: f)
qed

lemma sound_custom:
  assumes s: "stage wco opt h p"
  shows "sound (stage wco opt h) (parse_custom opt p)"
proof -
  have n: "stage wco opt h (on_mod (\<lambda>w. w\<lparr>w_names := x\<rparr>) p)" for x
  proof -
    have d: "same_decls (wmod p\<lparr>w_names := x\<rparr>) (wmod p)" by (simp add: same_decls_def)
    have "valid_module opt (wmod p\<lparr>w_names := x\<rparr>)"
      by (rule valid_same [OF _ d]) (use s same_decls_parts [OF d] in \<open>simp_all add: stage_def valid_module_def bodies_ok_def\<close>)
    then show ?thesis using s by (simp add: stage_def)
  qed
  have t: "stage wco opt h (p\<lparr>branch_hints_temp := x\<rparr>)" for x by (rule stage_update [OF _ _ s]) simp_all
  show ?thesis
    unfolding parse_custom_def by (rule n t s sound_string sound_names sound_hints sound_rules)+
qed

subsection \<open>The code section\<close>

definition reading_bodies :: "binary_parser \<Rightarrow> binary_parser \<times> function_body list \<Rightarrow> bool" where
  "reading_bodies p0 = (\<lambda>(p, bs). wmod p = wmod p0 \<and> list_all2 (\<lambda>b f. length b = unat (body_bytes f)) (function_bodies p) bs \<and>
     list_all (\<lambda>b. list_all (\<lambda>l. value_type (local_type l)) (locals b)) bs)"

lemma sound_function_body:
  "sound (\<lambda>(b, p'). \<exists>bytes. p' = p\<lparr>function_bodies := function_bodies p @ [bytes]\<rparr> \<and> length bytes = unat (body_bytes b) \<and>
     list_all (\<lambda>l. value_type (local_type l)) (locals b)) (parse_function_body opt p i)"
proof -
  have l: "sound (\<lambda>l. value_type (local_type l)) (local_entryP opt)"
    unfolding local_entryP_def by (rule sound_type sound_rules | force simp: numeric_value_type)+
  have t: "\<not> is_undefined (types_at m k)" for m k by (simp add: types_at_def is_undefined_assertR)
  have ft: "sound (\<lambda>x. True) (liftP (types_at m k))" for m k by (rule sound_liftP [OF t]) simp
  show ?thesis
    unfolding parse_function_body_def Let_def
    by (rule ft sound_many [OF l] sound_shrink_raw sound_rules tame_intros | force)+
qed

lemma sound_body_step:
  assumes "reading_bodies p0 s"
  shows "sound (reading_bodies p0) (body_step opt s)"
proof -
  obtain p bs where s: "s = (p, bs)" by force
  show ?thesis
    unfolding body_step_def s prod.case
    by (rule sound_bindP [OF sound_function_body], rule sound_prod, rule sound_retP)
       (use assms in \<open>auto simp: s reading_bodies_def intro!: list_all2_appendI\<close>)
qed

lemma apply_hints_keeps:
  "length (apply_hints h n bs) = length bs" "map locals (apply_hints h n bs) = map locals bs" "map body_bytes (apply_hints h n bs) = map body_bytes bs"
  by (auto simp: apply_hints_def intro!: nth_equalityI split: option.split)

text \<open>
  The parser relies on its writer leaving the declarations of a module alone. Undefined behaviour of the writer, and
  only of the writer, is undefined behaviour of the parser.
\<close>

locale code_writing =
  fixes wco :: code_writer
  assumes wco_static: "wco opt bs m = Inr (m', seg) \<Longrightarrow> same_static m m'"

definition writer_fails :: "code_writer \<Rightarrow> parse_options \<Rightarrow> bool" where
  "writer_fails wco opt \<longleftrightarrow> (\<exists>bs m. bodies_match bs m \<and> is_undefined (wco (options.truncate opt) bs m))"

definition sound_upto :: "bool \<Rightarrow> ('a \<Rightarrow> bool) \<Rightarrow> 'a reader \<Rightarrow> bool" where
  "sound_upto U Q p \<longleftrightarrow>
     (\<forall>code. gp_wf code \<longrightarrow> (is_undefined (p code) \<longrightarrow> U) \<and> (\<forall>x code'. p code = Inr (x, code') \<longrightarrow> Q x \<and> ahead code code'))"

lemma sound_upto: "sound Q p \<Longrightarrow> sound_upto U Q p"
  by (auto simp: sound_def sound_upto_def)

lemma upto_bindP:
  assumes "sound Q p" and "\<And>x. Q x \<Longrightarrow> sound_upto U R (f x)"
  shows "sound_upto U R (bindP p f)"
proof -
  have "(is_undefined (bindP p f code) \<longrightarrow> U) \<and> (\<forall>x code'. bindP p f code = Inr (x, code') \<longrightarrow> R x \<and> ahead code code')" if "gp_wf code" for code
  proof (cases "p code")
    case (Inl e)
    then show ?thesis using soundD(1) [OF assms(1) that] by (simp add: bindP_def)
  next
    case (Inr xc)
    obtain x c where x: "xc = (x, c)" by force
    note h = soundD(2) [OF assms(1) that Inr [unfolded x]]
    have "sound_upto U R (f x)" using assms(2) h by blast
    then have "is_undefined (f x c) \<longrightarrow> U" "\<And>y d. f x c = Inr (y, d) \<Longrightarrow> R y \<and> ahead c d" using h by (auto simp: sound_upto_def)
    then show ?thesis using h Inr x ahead_trans by (auto simp: bindP_def)
  qed
  then show ?thesis by (simp add: sound_upto_def)
qed

lemma upto_assertP: "(c \<Longrightarrow> sound_upto U Q p) \<Longrightarrow> (\<And>m. e \<noteq> Undefined m) \<Longrightarrow> sound_upto U Q (assertP c e p)"
  by (simp add: assertP_def sound_failP sound_upto)

lemma upto_liftP: "(is_undefined r \<Longrightarrow> U) \<Longrightarrow> (\<And>x. r = Inr x \<Longrightarrow> Q (g x)) \<Longrightarrow> sound_upto U Q (bindP (liftP r) (\<lambda>x. retP (g x)))"
  by (cases r) (auto simp: sound_upto_def bindP_def liftP_def retP_def)

lemma upto_consume:
  assumes "sound_upto U Q p" and "tame p"
  shows "sound_upto U Q (scoped_consume_items n p)"
proof -
  have "is_undefined (scoped_consume_items n p code) \<Longrightarrow> U" if w: "gp_wf code" for code
    using assms(1) shrink_wf [OF w] by (auto simp: sound_upto_def scoped_consume_items_def is_undefined_bindR deref_sound)
  moreover have "Q x \<and> ahead code code'" if w: "gp_wf code" and r: "scoped_consume_items n p code = Inr (x, code')" for code x code'
  proof -
    obtain c old d where c: "gp_shrink code n = Inr (c, old)" "p c = Inr (x, d)" using r by (auto simp: scoped_consume_items_def res_simps)
    have "Q x" using assms(1) c(2) shrink_wf [OF w c(1)] by (auto simp: sound_upto_def)
    then show ?thesis using tameD [OF tame_consume [OF assms(2)] r] by simp
  qed
  ultimately show ?thesis unfolding sound_upto_def by blast
qed

context code_writing
begin

lemma code_written:
  assumes s: "stage wco opt h p" and h: "h < 12" and q: "reading_bodies p (p1, bs)" and len: "length bs = length (w_functions (wmod p1))"
    and p2: "p2 = on_mod (\<lambda>w. w\<lparr>w_code := apply_hints hs n bs\<rparr>) (p1\<lparr>branch_hints_temp := t\<rparr>)"
    and r: "wco (options.truncate opt) (function_bodies p2) (core (wmod p2)) = Inr (m, seg)"
  shows "stage wco opt 12 (on_mod (\<lambda>w. w\<lparr>w_code := body_list m, w_maximum_stack := maximum_stack m, w_segment := seg\<rparr>) p2)"
proof -
  let ?w = "wmod p" and ?v = "(wmod p2)\<lparr>w_code := body_list m, w_maximum_stack := maximum_stack m, w_segment := seg\<rparr>"
  have w: "wmod p2 = ?w\<lparr>w_code := apply_hints hs n bs\<rparr>" using q p2 by (simp add: reading_bodies_def)
  have st: "same_static (core (wmod p2)) m" by (rule wco_static [OF r])
  have l: "map locals (body_list m) = map locals bs" using st w by (simp add: same_static_def core_def apply_hints_keeps)
  have d: "same_decls ?v ?w" by (simp add: same_decls_def w)
  have "list_all (\<lambda>ls. list_all (\<lambda>l. value_type (local_type l)) ls) (map locals bs)" using q by (simp add: reading_bodies_def list.pred_map comp_def)
  then have "bodies_ok ?v" unfolding l [symmetric] by (simp add: bodies_ok_def list.pred_map comp_def)
  moreover have "w_start ?v = w_start ?w" by (simp add: w)
  ultimately have "valid_module opt ?v"
    using s same_decls_parts(3) [OF d] by (intro valid_same [OF _ d]) (simp_all add: stage_def valid_module_def w)
  moreover have "bodies_match (function_bodies p2) (core (wmod p2))"
    using q p2 apply_hints_keeps(1,3) [of hs n bs]
    by (simp add: bodies_match_def reading_bodies_def core_def list_all2_conv_all_nth) (metis nth_map)
  moreover have "same_static (core (wmod p2)) (core ?v)" using st by (simp add: same_static_def core_def)
  ultimately have "valid_module opt ?v" "coded wco opt ?v"
    using r unfolding coded_def by (simp, intro disjI2 exI [of _ "function_bodies p2"] exI [of _ "core (wmod p2)"] exI [of _ m]) simp
  moreover have "w_data (wmod p2) = []" using s h w by (simp add: stage_def)
  ultimately show ?thesis by (simp add: stage_def)
qed

lemma sound_code_section:
  assumes s: "stage wco opt h p" and h: "h < 12"
  shows "sound_upto (writer_fails wco opt) (stage wco opt 12) (code_section wco opt p)"
proof -
  have b: "sound (reading_bodies p) (repeatP n (body_step opt) (p, []))" for n
    by (rule sound_repeat [OF _ sound_body_step]) (use s h in \<open>auto simp: reading_bodies_def stage_def\<close>)
  have m: "bodies_match (function_bodies p1) (core ((wmod p1)\<lparr>w_code := apply_hints hs n bs\<rparr>))" if "reading_bodies p (p1, bs)" for p1 bs hs n
    using that apply_hints_keeps(1,3) [of hs n bs]
    by (simp add: bodies_match_def reading_bodies_def core_def list_all2_conv_all_nth) (metis nth_map)
  show ?thesis
    unfolding code_section_def Let_def
    apply (rule upto_bindP [OF sound_count])
    apply (rule upto_bindP [OF b])
    apply (clarsimp split: prod.split)
    apply (rule upto_assertP)
     apply (simp only: case_prod_unfold)
     apply (rule upto_liftP)
      apply (auto simp: writer_fails_def intro!: m)[1]
     apply (rule code_written [OF s h _ _ refl])
       apply auto
    done
qed

end

lemma section_order:
  "make_section_order = [0, 1, 2, 3, 4, 5, 7, 8, 9, 10, 12, 13, 11, 6]"
  by code_simp

text \<open>\<open>order[id]\<close> as a number.\<close>

definition place :: "u8 \<Rightarrow> nat" where
  "place sid = unat (make_section_order ! unat sid)"

lemma section_ids:
  assumes "unat (sid :: u8) < 14"
  shows "sid = 0 \<or> sid = 1 \<or> sid = 2 \<or> sid = 3 \<or> sid = 4 \<or> sid = 5 \<or> sid = 6 \<or> sid = 7 \<or> sid = 8 \<or> sid = 9 \<or>
    sid = 10 \<or> sid = 11 \<or> sid = 12 \<or> sid = 13"
  using assms unfolding word_unat_eq_iff by simp arith

context code_writing
begin

lemma sound_section:
  assumes s: "stage wco opt h p" and sid: "unat sid < 14" and h: "sid = 0 \<or> h < place sid"
  shows "sound_upto (writer_fails wco opt) (stage wco opt (max h (place sid))) (parse_section wco opt sid p)"
proof (cases "sid = 0")
  case True
  then show ?thesis
    using sound_upto [OF sound_custom [OF s]] by (simp add: parse_section_def place_def section_order)
next
  case False
  then have h: "h < place sid" "max h (place sid) = place sid" using h by auto
  show ?thesis
    using section_ids [OF sid] False s h(1) unfolding h(2)
    by (elim disjE) (simp_all add: parse_section_def place_def section_order sound_upto sound_code_section sound_type_section
        sound_import_section sound_function_section sound_table_section sound_memory_section sound_global_section sound_export_section
        sound_type_section [simplified] sound_start_section sound_element_section sound_data_section sound_data_count sound_tag_section)
qed

lemma section_head_ok:
  assumes "gp_wf code" and "section_head h code = Inr ((sid, len), code')"
  shows "unat sid < 14 \<and> (sid = 0 \<or> unat h < place sid) \<and> gp_wf code'"
proof -
  have "sound (\<lambda>(sid, len). unat sid < 14 \<and> (sid = 0 \<or> unat h < place sid)) (section_head h)"
    unfolding section_head_def by (rule sound_rules | simp add: section_order place_def word_less_nat_alt)+
  from soundD(2) [OF this assms] show ?thesis by simp
qed

lemma section_head_defined: "gp_wf code \<Longrightarrow> \<not> is_undefined (section_head h code)"
proof -
  have "sound (\<lambda>x. True) (section_head h)" unfolding section_head_def by (rule TrueI sound_rules | simp)+
  then show "gp_wf code \<Longrightarrow> \<not> is_undefined (section_head h code)" by (rule soundD(1))
qed

lemma unat_max: "unat (max a b :: u8) = max (unat a) (unat b)"
  by (simp add: max_def word_le_nat_alt)

lemma parse_sections_ok:
  assumes "gp_wf code" and "stage wco opt (unat h) p"
  shows "(is_undefined (parse_sections wco opt sz h p code) \<longrightarrow> writer_fails wco opt) \<and>
    (\<forall>p' code'. parse_sections wco opt sz h p code = Inr (p', code') \<longrightarrow> stage wco opt 13 p')"
  using assms code_writing_axioms
proof (induction wco opt sz h p code rule: parse_sections.induct)
  case (1 wco opt sz h p code)
  show ?case
  proof (cases "gp_offset code = sz")
    case True
    have "stage wco opt 13 p" if "stage wco opt k p" for k using that by (auto simp: stage_def)
    then show ?thesis using 1(3) True by (subst (1 2) parse_sections.simps) auto
  next
    case False
    show ?thesis
    proof (cases "section_head h code")
      case (Inl e)
      then show ?thesis using False section_head_defined [OF 1(2), of h] by (subst (1 2) parse_sections.simps) simp
    next
      case (Inr r)
      obtain sid len c1 where r: "r = ((sid, len), c1)" by (cases r) force
      note o = section_head_ok [OF 1(2) Inr [unfolded r]]
      let ?k = "max h (make_section_order ! unat sid)" and ?c = "scoped_consume_items len (parse_section wco opt sid p)"
      have k: "unat ?k = max (unat h) (place sid)" by (simp add: unat_max place_def)
      have su: "sound_upto (writer_fails wco opt) (stage wco opt (unat ?k)) ?c"
        unfolding k using o by (intro upto_consume code_writing.sound_section [OF 1(4) 1(3)] tame_section) auto
      show ?thesis
      proof (cases "?c c1")
        case (Inl e)
        then show ?thesis using False Inr r o su unfolding sound_upto_def by (subst (1 2) parse_sections.simps) auto
      next
        case R: (Inr q)
        obtain p1 c2 where q: "q = (p1, c2)" by force
        have "stage wco opt (unat ?k) p1" "gp_wf c2" using su o R q ahead_wf unfolding sound_upto_def by blast+
        then show ?thesis
          using 1(1) [OF False Inr r [symmetric] refl R q [symmetric] _ _ 1(4)] False Inr r R q
          by (subst (1 2) parse_sections.simps) simp
      qed
    qed
  qed
qed

end

context code_writing
begin

lemma parse_module_ok:
  assumes "length bytes < 2 ^ 64"
  shows "(is_undefined (parse_module wco opt bytes) \<longrightarrow> writer_fails wco opt) \<and>
    (\<forall>w. parse_module wco opt bytes = Inr w \<longrightarrow> valid_module opt w \<and> coded wco opt w \<and> length (w_code w) = length (w_functions w))"
proof -
  have w0: "gp_wf (gp_new bytes (length bytes))" using assms by (intro gp_wf_new) simp_all
  note r = soundD [OF sound_raw]
  have s: "stage wco opt (unat 0) parser_init" using stage_init by simp
  show ?thesis
  proof (intro conjI allI impI)
    assume "is_undefined (parse_module wco opt bytes)"
    then show "writer_fails wco opt"
      using r [OF w0, of 4] r [of _ 4] parse_sections_ok [OF _ s]
      by (auto simp: parse_module_def is_undefined_bindR is_undefined_assertR) blast
  next
    fix w
    assume m: "parse_module wco opt bytes = Inr w"
    then obtain g c1 v c2 p c3 where c: "parse_raw 4 (gp_new bytes (length bytes)) = Inr (g :: u32, c1)" "parse_raw 4 c1 = Inr (v :: u32, c2)"
        "parse_sections wco opt (length bytes) 0 parser_init c2 = Inr (p, c3)" "w = wmod p" "length (w_code w) = length (w_functions w)"
      by (auto simp: parse_module_def res_simps)
    have "gp_wf c2" using r(2) [OF w0 c(1)] r(2) [OF _ c(2)] by blast
    then have "stage wco opt 13 p" using parse_sections_ok [OF _ s] c(3) by blast
    then show "valid_module opt w" "coded wco opt w" "length (w_code w) = length (w_functions w)"
      using c(4,5) by (simp_all add: stage_def)
  qed
qed

end

subsection \<open>The bitcode writer\<close>

lemma write_body_static:
  assumes "write_body opt m bytes i w = Inr (w', m', ops)"
  shows "same_static m m'"
proof -
  obtain b x n where m': "m' = m\<lparr>body_list := (body_list m)[i := b], maximum_stack := n\<rparr>" and b: "locals b = locals (body_list m ! i)"
    using assms by (auto simp: write_body_def body_at_def finalize_def Let_def res_simps)
  have "(map locals (body_list m))[i := locals (body_list m ! i)] = map locals (body_list m)"
    by (cases "i < length (body_list m)") (simp_all add: list_update_same_conv list_update_beyond)
  then show ?thesis by (simp add: m' b same_static_def map_update)
qed

lemma write_bodies_static: "write_bodies opt bs i w m seg = Inr (m', seg') \<Longrightarrow> same_static m m'"
  by (induction bs arbitrary: i w m seg) (auto simp: res_simps dest!: write_body_static intro: same_static_trans)

interpretation bitcode: code_writing write_code_out
  by unfold_locales (auto simp: write_code_out_def dest: write_bodies_static)

text \<open>The same writer, refusing code that relies on what the parser does not check.\<close>

definition strict_writer :: code_writer where
  "strict_writer opt bs m = (if strict_code opt bs m then write_code_out opt bs m else Inl (parse_err ''not strict''))"

interpretation strict: code_writing strict_writer
  by unfold_locales (auto simp: strict_writer_def write_code_out_def dest: write_bodies_static split: if_splits)

text \<open>A module that this writer accepts is also accepted, with the same result, without the restriction.\<close>

definition refines :: "'a reader \<Rightarrow> 'a reader \<Rightarrow> bool" where
  "refines p q \<longleftrightarrow> (\<forall>code r. p code = Inr r \<longrightarrow> q code = Inr r)"

lemma refines_bind: "(\<And>x. refines (f x) (g x)) \<Longrightarrow> refines (bindP p f) (bindP p g)"
  by (auto simp: refines_def bindP_def res_simps)

lemma refines_assert: "refines p q \<Longrightarrow> refines (assertP c e p) (assertP c e q)"
  by (simp add: refines_def assertP_def)

lemma refines_lift: "(\<And>x. r = Inr x \<Longrightarrow> r' = Inr x) \<Longrightarrow> refines (bindP (liftP r) f) (bindP (liftP r') f)"
  by (cases r) (auto simp: refines_def bindP_def liftP_def)

lemma refines_prod: "(\<And>a b. refines (f a b) (g a b)) \<Longrightarrow> refines (case x of (a, b) \<Rightarrow> f a b) (case x of (a, b) \<Rightarrow> g a b)"
  by (simp split: prod.split)

lemma strict_section: "refines (parse_section strict_writer opt sid p) (parse_section write_code_out opt sid p)"
proof -
  have "strict_writer o' bs m = Inr x \<Longrightarrow> write_code_out o' bs m = Inr x" for o' bs m x by (simp add: strict_writer_def split: if_splits)
  then have "refines (code_section strict_writer opt p) (code_section write_code_out opt p)"
    unfolding code_section_def Let_def by (intro refines_bind refines_prod refines_assert refines_lift)
  then show ?thesis by (auto simp: parse_section_def refines_def)
qed

lemma strict_sections: "parse_sections strict_writer opt sz h p code = Inr r \<Longrightarrow> parse_sections write_code_out opt sz h p code = Inr r"
proof (induction strict_writer opt sz h p code rule: parse_sections.induct)
  case (1 opt sz h p code)
  show ?case
  proof (cases "gp_offset code = sz")
    case False
    then obtain sid len c1 p1 c2 where s: "section_head h code = Inr ((sid, len), c1)"
        "scoped_consume_items len (parse_section strict_writer opt sid p) c1 = Inr (p1, c2)"
        "parse_sections strict_writer opt sz (max h (make_section_order ! unat sid)) p1 c2 = Inr r"
      using 1(2) by (subst (asm) parse_sections.simps) (auto simp: res_simps)
    moreover have "scoped_consume_items len (parse_section write_code_out opt sid p) c1 = Inr (p1, c2)"
      using s(2) strict_section by (fastforce simp: scoped_consume_items_def res_simps refines_def)
    moreover note 1(1) [OF False s(1) refl refl s(2) refl s(3)]
    ultimately show ?thesis using False by (subst parse_sections.simps) simp
  qed (use 1(2) in \<open>simp add: parse_sections.simps\<close>)
qed

lemma strict_module: "parse_module strict_writer opt bytes = Inr w \<Longrightarrow> parse_module write_code_out opt bytes = Inr w"
  by (auto simp: parse_module_def res_simps dest!: strict_sections)

lemma valid_module_ok:
  assumes "valid_module opt w" and "length (w_code w) = length (w_functions w)" and "list_all (\<lambda>m. \<not> mt_memory64 m) (w_memories w)"
  shows "module_ok (core w)"
  using assms
  by (auto simp: valid_module_def module_ok_def core_def import_types_def bodies_ok_def list_all_iff parsed_type_def table_ok_def
      globals_ok_def set_conv_nth)

lemma same_static_sym: "same_static m m' \<Longrightarrow> same_static m' m"
  by (simp add: same_static_def)

lemma coded_placed:
  assumes c: "coded strict_writer opt w" and len: "length (w_code w) = length (w_functions w)" and m: "module_ok (core w)"
    and z: "sizes_ok (core w)" and seg: "length (w_segment w) < 2 ^ 32"
  shows "\<exists>\<Phi>. placed (core w) (w_segment w) \<Phi> (length (w_functions w))"
proof (cases "w_code w = [] \<and> w_segment w = []")
  case True
  then have "placed (core w) (w_segment w) (\<lambda>p. None) (length (w_functions w))" using len by (simp add: placed_def)
  then show ?thesis by blast
next
  case False
  then obtain bs m0 m' where b: "bodies_match bs m0" and r: "strict_writer (options.truncate opt) bs m0 = Inr (m', w_segment w)"
      and s: "same_static m0 (core w)" and k: "w_code w = body_list m'" "w_maximum_stack w = maximum_stack m'"
    using c unfolding coded_def by blast
  have m0: "module_ok m0" "sizes_ok m0" using same_static_module sizes_static same_static_sym [OF s] m z by blast+
  have st: "strict_code (options.truncate opt) bs m0" and wr: "write_code_out (options.truncate opt) bs m0 = Inr (m', w_segment w)"
    using r by (auto simp: strict_writer_def split: if_splits)
  have "length bs = length (func_list m0)" using b m0(1) by (simp add: bodies_match_def module_ok_def list_all2_lengthD)
  then obtain \<Phi> where p: "module_ok m'" "placed m' (w_segment w) \<Phi> (length (func_list m'))"
    using write_code_out_typed [OF wr _ m0 st seg] by blast
  have s': "same_static m' (core w)" using same_static_trans [OF same_static_sym [OF bitcode.wco_static [OF wr]] s] .
  have "placed (core w) (w_segment w) \<Phi> (length (func_list m'))"
    by (rule placed_static [OF p(2) s']) (use p(1) k in \<open>auto simp: core_def module_ok_def\<close>)
  moreover have "func_list m' = map unat (w_functions w)" using s' by (simp add: same_static_def core_def)
  ultimately show ?thesis by auto
qed

subsection \<open>Properties\<close>

text \<open>The defaults of the parser's options.\<close>

definition default_parse_options :: parse_options where
  "default_parse_options =
     \<lparr>max_nested_structures = 0xFFFFFFFF, max_br_table_elements = 0xFFFFFFFF, max_memory_offset = 0xFFFFFFFF,
      enable_simd = True, enable_sign_ext = True, enable_nontrapping_fptoint = True,
      max_table_elements = 0xFFFFFFFF, max_section_elements = 0xFFFFFFFF, max_type_section_elements = 0xFFFFFFFF,
      max_import_section_elements = 0xFFFFFFFF, max_function_section_elements = 0xFFFFFFFF, max_global_section_elements = 0xFFFFFFFF,
      max_export_section_elements = 0xFFFFFFFF, max_element_section_elements = 0xFFFFFFFF, max_data_section_elements = 0xFFFFFFFF,
      max_element_segment_elements = 0xFFFFFFFF, max_data_segment_bytes = 0xFFFFFFFF, max_memory_section_elements = 16,
      max_linear_memory_init = 0xFFFFFFFFFFFFFFFF, max_local_sets = 0xFFFFFFFF, max_symbol_bytes = 0xFFFFFFFF,
      max_code_bytes = 0xFFFFFFFF, max_pages_allowed = 0xFFFFFFFF, parse_custom_section_name = False, enable_bulk_memory = True,
      enable_exception_handling = True\<rparr>"

text \<open>The example as a binary: its type, the function, one page of memory, the export \<open>sum\<close> and the code.\<close>

definition sum_binary :: "u8 list" where
  "sum_binary =
     [0, 0x61, 0x73, 0x6D, 1, 0, 0, 0] @
     [1, 6, 1, 0x60, 1, 0x7F, 1, 0x7F] @ [3, 2, 1, 0] @ [5, 3, 1, 0, 1] @ [7, 7, 1, 3, 0x73, 0x75, 0x6D, 0, 0] @
     [10, 37, 1, 35, 1, 1, 0x7F] @ sum_bytes"

definition sum_parsed :: wasm_module where
  "sum_parsed =
     \<lparr>w_start = - 1, w_types = [\<lparr>param_types = [ty_i32], return_types = [ty_i32]\<rparr>], w_imports = [], w_functions = [0], w_tables = [],
      w_memories = [\<lparr>memory_limits = \<lparr>lim_flags = False, lim_initial = 1, lim_maximum = 0\<rparr>, mt_memory64 = False\<rparr>], w_globals = [],
      w_exports = [\<lparr>exp_field = ascii ''sum'', exp_kind = 0, exp_index = 0\<rparr>], w_elements = [], w_code = body_list sum_module,
      w_data = [], w_tags = [], has_exception_handling = False, w_names = None, num_imported_tables = 0, num_imported_memories = 0,
      num_imported_globals = 0, w_maximum_stack = 3, w_segment = sum_code\<rparr>"



lemma magic_word: "le_word [0, 0x61, 0x73, 0x6D :: u8] = (0x6D736100 :: u32)" "le_word [1, 0, 0, 0 :: u8] = (1 :: u32)"
  by code_simp+

lemma loops_numeral:
  "manyP (numeral k) p = bindP p (\<lambda>x. bindP (manyP (pred_numeral k) p) (\<lambda>xs. retP (x # xs)))"
  "repeatP (numeral k) f s = bindP (f s) (repeatP (pred_numeral k) f)"
  by (simp_all add: numeral_eq_Suc)

lemmas section_evals = type_section_def function_section_def memory_section_def export_section_def code_section_def section_count_def
  parse_section_impl_def parse_func_type_def typeP_def numeric_or_ref_def return_size_def parse_memory_type_def memory_count_def
  parse_export_entry_def parse_utf8_string_def scoped_shrink_bounds_def raw_bytes_at_def export_range_def validate_exports_def
  normalize_types_def alias_of_def body_step_def parse_function_body_def local_entryP_def offsetP_def apply_hints_def core_def on_mod_def
  parser_init_def validate_utf8_string.simps validate_utf8_code_point_def types_at_def get_functions_total_def
  get_imported_functions_size_def import_types_def options.defs scoped_consume_items_def gp_consumed_def loops_numeral
  parse_module_def parse_raw_def gp_shrink_def gp_unshrink_def magic_word parse_sections.simps section_head_def section_order
  reader_defs parse_section_def

lemma options_default: "options.truncate default_parse_options = default_options"
  by (simp add: default_parse_options_def default_options_def options.defs)

lemma sum_parses:
  assumes "wco default_options [sum_bytes] sum_source = Inr (sum_module, sum_code)"
  shows "parse_module wco default_parse_options sum_binary = Inr sum_parsed"
  using assms
  by (simp add: default_parse_options_def default_options_def sum_binary_def sum_bytes_def sum_source_def sum_module_def sum_parsed_def
      ascii_def ty_defs Let_def read_evals section_evals cong: bind_weak assert_weak)





text \<open>
  \<^bold>\<open>C1\<close> Executing an accepted binary is safe, from the bytes on, under the following conditions. The parser accepts the
  binary, and its code uses only modelled instructions, typed selects of a value type and branch tables whose labels have
  equal types (\<open>strict_writer\<close> refuses the rest, which the parser does not check, and otherwise is the bitcode writer). Memories are
  32-bit, there are at most 65536 types and tables and fewer than 2^32 instructions. Imports are resolved to host functions of their type
  with at most one, numeric, result (\<open>linked\<close>); host functions and the gas handler throw only traps, and host functions keep the memory condition
  (\<open>embedder_ok\<close>). The memory is either guarded, not caller-provided and with exactly the pages below its size mapped, or checked with
  immediate checks (\<open>guarded_ok\<close>, \<open>checked_ok\<close>). A bound \<open>F\<close> covers the parameters and \<open>maximum_stack\<close> of every call, and the operands
  of the context plus \<open>F\<close> for every remaining call stay below 2^32; its stacks are well-formed and it has a value for every global
  and a table for every table (\<open>context_ok\<close>). Then the module is
  accepted by the parser as it is, and executing any of its functions with any arguments for any number of steps reaches neither undefined
  behaviour nor an internal error of the interpreter; a return leaves the stacks as they were.
\<close>

theorem accepted_binary_safe:
  assumes "ok = guarded_ok \<or> ok = checked_ok" and "length bytes < 2 ^ 64"
    and "parse_module strict_writer opt bytes = Inr w"
    and "list_all (\<lambda>m. \<not> mt_memory64 m) (w_memories w)" and "length (w_types w) \<le> 65536" and "length (w_tables w) \<le> 65536"
    and "length (w_segment w) < 2 ^ 32"
    and "emod E = (core w)\<lparr>import_functions := fs\<rparr>" and "segment E = w_segment w" and "linked E" and "embedder_ok ok E"
    and "\<forall>ft \<in> set (w_types w). length (param_types ft) + w_maximum_stack w \<le> F"
    and "context_ok ok E F c" and "f < get_functions_total (core w)"
  shows "parse_module write_code_out opt bytes = Inr w \<and> safe (returns_ok ok E F f c) (execute E n f args c)"
proof
  show "parse_module write_code_out opt bytes = Inr w" by (rule strict_module [OF assms(3)])
  have v: "valid_module opt w" "coded strict_writer opt w" "length (w_code w) = length (w_functions w)"
    using strict.parse_module_ok [OF assms(2), of opt] assms(3) by blast+
  note m = valid_module_ok [OF v(1,3) assms(4)]
  have z: "sizes_ok (core w)" using v(1) assms(5,6) by (auto simp: sizes_ok_def core_def valid_module_def parsed_type_def list_all_iff)
  obtain \<Phi> where p: "placed (core w) (w_segment w) \<Phi> (length (w_functions w))" using coded_placed [OF v(2,3) m z assms(7)] by blast
  have s: "same_static (core w) (emod E)" by (simp add: assms(8) same_static_def)
  have "placed (emod E) (segment E) \<Phi> (length (func_list (emod E)))"
    using placed_static [OF p s] v(3) by (simp add: assms(8,9) core_def)
  then have "typed_env ok E \<Phi> F"
    by (rule placed_typed_env [OF _ same_static_module [OF s m]]) (use assms in \<open>auto simp: core_def\<close>)
  moreover have "f < get_functions_total (emod E)" using assms(8,14) by (simp add: core_def get_functions_total_def get_imported_functions_size_def import_types_def)
  ultimately show "safe (returns_ok ok E F f c) (execute E n f args c)"
    using assms(1,13) guarded_vm.execute_ok checked_vm.execute_ok by blast
qed

theorem accepted_binary_safe_witness:
  "parse_module write_code_out default_parse_options sum_binary = Inr sum_parsed \<and>
   safe (returns_ok guarded_ok sum_env 4 0 (sum_context one_page_memory)) (execute sum_env 40 0 [i32_const 3] (sum_context one_page_memory)) \<and>
   map_sum id (map_option snd) (execute sum_env 40 0 [i32_const 3] (sum_context one_page_memory)) = Inr (Some (Some (i32_const 6)))"
proof -
  have "strict_writer default_options [sum_bytes] sum_source = Inr (sum_module, sum_code)"
    by (simp add: strict_writer_def sum_strict sum_compiles)
  then have p: "parse_module strict_writer default_parse_options sum_binary = Inr sum_parsed" by (rule sum_parses)
  have e: "linked sum_env" "embedder_ok guarded_ok sum_env" using sum_typed [of guarded_ok] by (simp_all add: typed_env_def)
  have m: "emod sum_env = (core sum_parsed)\<lparr>import_functions := []\<rparr>" by (simp add: sum_env_def core_def sum_parsed_def sum_module_def)
  have "length sum_binary < 2 ^ 64" by (simp add: sum_binary_def sum_bytes_def)
  note t = accepted_binary_safe [OF disjI1 [OF refl] this p _ _ _ _ m _ e _ sum_context_ok [of guarded_ok one_page_memory, OF one_page_guarded], of 0 40 "[i32_const 3]"]
  then have "parse_module write_code_out default_parse_options sum_binary = Inr sum_parsed \<and>
     safe (returns_ok guarded_ok sum_env 4 0 (sum_context one_page_memory)) (execute sum_env 40 0 [i32_const 3] (sum_context one_page_memory))"
    by (simp add: sum_parsed_def sum_code_def sum_env_def)
  then show ?thesis using sum_runs by simp
qed





end
