(* ===== verification/Spec2Isabelle.thy ===== *)
theory Spec2Isabelle
  imports Psz_Prelude Leb128 Gas Handle_Table Operand_Stack Linear_Memory Int_Ops Softfloat_Core Softfloat_Arith Softfloat Softfloat_Simd
    Num_Ops Bitcode Validate Interp Code_Typing Code_Safety Validate_Types Validate_Code Validate_Inv Validate_Sound Module_Safety Module_Parse Module_Valid
begin

text \<open>
  A verification of the parts of psiserve that decide whether a WebAssembly guest is executed
  correctly and contained: the psizam virtual machine under \<^verbatim>\<open>src/libraries/psizam\<close>, with its
  interpreter as the execution engine, in the deterministic floating-point mode.

  \<^bold>\<open>Parts and how they interact.\<close>  A module is read byte by byte through \<^verbatim>\<open>guarded_ptr\<close> and
  LEB128 integers.  The parser validates a body in one pass with a type tracker, accumulates extra
  gas for heavy opcodes, and writes the internal bitcode, patching branch targets as scopes close.
  The interpreter runs that bitcode without checking types again.  It keeps its operands in \<^verbatim>\<open>operand_stack\<close>, executes the integer instructions
  on machine words and the floating-point instructions through the bundled Berkeley SoftFloat, and
  addresses a linear memory owned by \<^verbatim>\<open>wasm_allocator\<close>.  Every function entry and loop header
  charges gas against a deadline that a handler may extend by leasing from a shared pool.  Host
  resources are named by handles of a slab table.

  \<^bold>\<open>Theories.\<close>
  \<^item> \<^verbatim>\<open>Psz_Prelude\<close>: words of the C types, the result type (an exception or a value, with undefined
    behaviour of C++ as the exception \<^verbatim>\<open>Undefined\<close>), its sequencing, and shared lemmas.
  \<^item> \<^verbatim>\<open>Leb128\<close>: \<^verbatim>\<open>detail/guarded_ptr.hpp\<close> and \<^verbatim>\<open>detail/leb128.hpp\<close>.  The bounds of
    the reader are a pair of addresses as in the code; the encoders and decoders are proved inverse
    and the decoder is proved exact and contained on arbitrary bytes.
  \<^item> \<^verbatim>\<open>Gas\<close>: \<^verbatim>\<open>gas.hpp\<close>, \<^verbatim>\<open>gas_pool.hpp\<close>, \<^verbatim>\<open>detail/gas_injector.hpp\<close>, the charges of
    \<^verbatim>\<open>detail/execution_context.hpp\<close> and the instance life cycle of \<^verbatim>\<open>runtime.cpp\<close>.  A step relation over
    instantiations, charges, teardowns and refills conserves gas; a second one interleaves the
    atomic operations of \<^verbatim>\<open>try_lease\<close>.
  \<^item> \<^verbatim>\<open>Handle_Table\<close>: \<^verbatim>\<open>handle_table.hpp\<close>, the slab with generations and its free list, refined to
    a partial map.
  \<^item> \<^verbatim>\<open>Operand_Stack\<close>: \<^verbatim>\<open>detail/wasm_stack.hpp\<close> and \<^verbatim>\<open>detail/stack_elem.hpp\<close>, refined to a list.
  \<^item> \<^verbatim>\<open>Linear_Memory\<close>: \<^verbatim>\<open>allocator.hpp\<close>, the address computation, loads, stores and bulk operations
    of \<^verbatim>\<open>detail/interpret_visitor.hpp\<close>, and growth and reset of \<^verbatim>\<open>detail/execution_context.hpp\<close>.
    A locale for a memory whose accesses are contained is interpreted on the guarded and on the
    checked mode.
  \<^item> \<^verbatim>\<open>Int_Ops\<close>: the integer instructions of \<^verbatim>\<open>detail/interpret_visitor.hpp\<close>.
  \<^item> \<^verbatim>\<open>Softfloat_Core\<close>, \<^verbatim>\<open>Softfloat_Arith\<close>: the routines of \<^verbatim>\<open>external/softfloat/source\<close> that
    the interpreter reaches: comparisons, conversions and rounding of exact values in the first,
    addition to square root and the conversions between formats in the second.
  \<^item> \<^verbatim>\<open>Softfloat\<close>, \<^verbatim>\<open>Softfloat_Simd\<close>: \<^verbatim>\<open>detail/softfloat.hpp\<close>, the scalar and the vector
    functions.  Values of floats are integers in units of the least subnormal, so that all
    statements about them are exact.
  \<^item> \<^verbatim>\<open>Num_Ops\<close>: the numeric instructions of the visitor over stack elements, with the operand and
    result types the parser assigns to them.
  \<^item> \<^verbatim>\<open>Bitcode\<close>: the module of \<^verbatim>\<open>types.hpp\<close>, the instructions of \<^verbatim>\<open>detail/opcodes_def.hpp\<close> and
    \<^verbatim>\<open>detail/bitcode_writer.hpp\<close>.
  \<^item> \<^verbatim>\<open>Validate\<close>: \<^verbatim>\<open>parse_function_body_code\<close> and \<^verbatim>\<open>write_code_out\<close> of \<^verbatim>\<open>detail/parser.hpp\<close>.
  \<^item> \<^verbatim>\<open>Interp\<close>: \<^verbatim>\<open>detail/execution_context.hpp\<close> and the control part of the visitor, up to
    \<^verbatim>\<open>execute\<close>, the call from the host.
  \<^item> \<^verbatim>\<open>Code_Typing\<close>, \<^verbatim>\<open>Code_Safety\<close>: stack maps for bitcode and the soundness of execution: typed
    code reaches neither undefined behaviour nor an internal error.
  \<^item> \<^verbatim>\<open>Validate_Types\<close>, \<^verbatim>\<open>Validate_Code\<close>, \<^verbatim>\<open>Validate_Inv\<close>, \<^verbatim>\<open>Validate_Sound\<close>: the
    soundness of the pass over a body: the type tracker of the parser gives a stack map for the bitcode the
    writer has emitted, through forward branches that are patched later.
  \<^item> \<^verbatim>\<open>Module_Safety\<close>: the code of all bodies, placed in one segment, is typed, and so executes safely.
  \<^item> \<^verbatim>\<open>Module_Parse\<close>: \<^verbatim>\<open>parse_module\<close> of \<^verbatim>\<open>detail/parser.hpp\<close> with the parser of every section, from
    the bytes of a binary to its module.
  \<^item> \<^verbatim>\<open>Module_Valid\<close>: the parsed module is well-formed, and executing an accepted binary is safe.  The safety
    theorems assume of the code what the parser does not check, the type of a typed select and equal types of
    the labels of a branch table (\<^verbatim>\<open>strict_code\<close>).  Parsing the sections reaches no undefined
    behaviour if the writer of code does not; the pass over the bodies does, on a binary with a bad typed select.
    The proofs about sections are done once for any writer of code
    that keeps the declarations of the module (locale \<^verbatim>\<open>code_writing\<close>).

  \<^bold>\<open>Bounds and recursion.\<close>  Every model function is total: loops of the source are structural
    recursions over the bytes, lanes, slots or remaining count they walk, and the loops of the parser
    terminate because every step moves the pointer forward.  Only the loop of the
    interpreter has fuel, the number of instructions it may execute (\<^verbatim>\<open>run\<close>, \<^verbatim>\<open>execute\<close>), since a
    guest may run forever; type safety is proved for every amount of it.

  \<^bold>\<open>Not modelled.\<close>  In the bitcode, validation and interpreter theories: vectors, bulk memory and
  table operations, atomics, exceptions and tail calls.  In the module parser: the optional limits on mutable
  globals, local bytes and stack bytes, debug information and parallel compilation.  Machine-code backends (template and optimising JITs, LLVM) need the semantics of
  the instruction sets; precompiled module files, debugging, signals, stack switching, WASI, fibers,
  storage, serialisation and the servers are I/O or separate libraries.  For the arithmetic of
  \<^verbatim>\<open>Softfloat_Arith\<close> the model is complete, but correct rounding of its results is not proved.
\<close>

end
